(* ===== verification/Prelude.thy ===== *)
theory Prelude
  imports Main "HOL-Library.Word"
begin

text \<open>
  What every component shares: the machine integer types, the error-propagating bind of
  the C early returns, list lemmas, and the collections of hints of the development.
  A C function that can fail returns \<open>'e + 'a\<close>: \<open>Inl\<close> of the error, or \<open>Inr\<close>
  of the result.
\<close>

named_theorems bind_simps \<open>evaluation and inversion of the error-propagating bind\<close>

type_synonym u8 = "8 word"
type_synonym u64 = "64 word"

subsection \<open>Sequencing of fallible steps\<close>

primrec bind_r :: "'e + 'a \<Rightarrow> ('a \<Rightarrow> 'e + 'b) \<Rightarrow> 'e + 'b" where
  "bind_r (Inl e) k = Inl e"
| "bind_r (Inr x) k = k x"

definition guard_r :: "'e \<Rightarrow> bool \<Rightarrow> 'e + unit" where
  "guard_r e c = (if c then Inr () else Inl e)"

lemma bind_r_Inr_iff [bind_simps]:
  "bind_r m k = Inr y \<longleftrightarrow> (\<exists>x. m = Inr x \<and> k x = Inr y)"
  by (cases m) auto

lemma bind_r_Inl_iff:
  "bind_r m k = Inl e \<longleftrightarrow> m = Inl e \<or> (\<exists>x. m = Inr x \<and> k x = Inl e)"
  by (cases m) auto

lemma guard_r_Inr_iff [bind_simps]: "guard_r e c = Inr u \<longleftrightarrow> c"
  by (simp add: guard_r_def)

lemma guard_r_True [simp]: "guard_r e True = Inr ()"
  by (simp add: guard_r_def)

lemma guard_r_False [simp]: "guard_r e False = Inl e"
  by (simp add: guard_r_def)

lemma bind_r_cong [fundef_cong]:
  "m = m' \<Longrightarrow> (\<And>x. m' = Inr x \<Longrightarrow> k x = k' x) \<Longrightarrow> bind_r m k = bind_r m' k'"
  by (cases m') auto

lemma bind_r_assoc: "bind_r (bind_r m k) l = bind_r m (\<lambda>x. bind_r (k x) l)"
  by (cases m) auto

subsection \<open>Lists\<close>

lemma list_update_split:
  "i < length xs \<Longrightarrow> xs[i := y] = take i xs @ y # drop (Suc i) xs"
  by (simp add: upd_conv_take_nth_drop)

lemma list_nth_split:
  "i < length xs \<Longrightarrow> xs = take i xs @ xs ! i # drop (Suc i) xs"
  by (simp add: id_take_nth_drop)

lemma dropWhile_split:
  "\<exists>ys. xs = ys @ dropWhile P xs \<and> (\<forall>y \<in> set ys. P y)"
  by (rule exI [of _ "takeWhile P xs"]) (auto dest: set_takeWhileD)

end
