(* ===== verification/Tokens.thy ===== *)
theory Tokens
  imports Prelude "HOL-Library.Char_ord"
begin

text \<open>
  The token kinds of \<^verbatim>\<open>src/lex.h\<close> and the recognisers of \<^verbatim>\<open>src/lex.c\<close>: one
  small automaton per kind, fed one character at a time, answering \<open>ACCEPT\<close> (what was
  read so far is a token of the kind), \<open>HUNGRY\<close> (it may become one) or \<open>REJECT\<close>. The
  automaton's state is a byte the caller keeps. Every automaton is given its language in
  closed form, from which follow that the \<^verbatim>\<open>assert(0), abort()\<close> branches are never
  reached and that a rejecting automaton is back in its start state.
\<close>

subsection \<open>Token kinds\<close>

datatype (plugins only: code) lex_tk =
    LEX_TK_NAME | LEX_TK_NMBR | LEX_TK_STRL | LEX_TK_WSPC | LEX_TK_LCOM | LEX_TK_BCOM
  | LEX_TK_LPAR | LEX_TK_RPAR | LEX_TK_LBRA | LEX_TK_RBRA | LEX_TK_LBRC | LEX_TK_RBRC
  | LEX_TK_COND | LEX_TK_ELIF | LEX_TK_ELSE | LEX_TK_DOWH | LEX_TK_WHIL | LEX_TK_RETN
  | LEX_TK_USEU | LEX_TK_TYPE | LEX_TK_ASSN | LEX_TK_ASPL | LEX_TK_ASMI | LEX_TK_ASMU
  | LEX_TK_ASDI | LEX_TK_ASMO | LEX_TK_ASLS | LEX_TK_ASRS | LEX_TK_ASAN | LEX_TK_ASXO
  | LEX_TK_ASOR | LEX_TK_COLN | LEX_TK_SCOP | LEX_TK_ATSI | LEX_TK_MEMB | LEX_TK_AROW
  | LEX_TK_EQUL | LEX_TK_NEQL | LEX_TK_LTHN | LEX_TK_GTHN | LEX_TK_LTEQ | LEX_TK_GTEQ
  | LEX_TK_CONJ | LEX_TK_DISJ | LEX_TK_PLUS | LEX_TK_MINS | LEX_TK_MULT | LEX_TK_DIVI
  | LEX_TK_MODU | LEX_TK_LSHF | LEX_TK_RSHF | LEX_TK_AMPS | LEX_TK_CARE | LEX_TK_PIPE
  | LEX_TK_COMA | LEX_TK_CAST | LEX_TK_QUES | LEX_TK_EXCL | LEX_TK_TILD | LEX_TK_INCR
  | LEX_TK_DECR | LEX_TK_SZOF | LEX_TK_ALOF | LEX_TK_WAIT | LEX_TK_WFOR | LEX_TK_WUNT
  | LEX_TK_WNOB | LEX_TK_WMSE | LEX_TK_WSEC | LEX_TK_NOIN | LEX_TK_SCOL | LEX_TK_CONS
  | LEX_TK_EXPO | LEX_TK_STAT 
  | LEX_TK_COUNT | LEX_TK_FBEG | LEX_TK_FEND

text \<open>The kinds in the order of the enumeration, which is the order of the recognisers.\<close>

definition lex_tks :: "lex_tk list" where
  "lex_tks = [
    LEX_TK_NAME, LEX_TK_NMBR, LEX_TK_STRL, LEX_TK_WSPC, LEX_TK_LCOM, LEX_TK_BCOM,
    LEX_TK_LPAR, LEX_TK_RPAR, LEX_TK_LBRA, LEX_TK_RBRA, LEX_TK_LBRC, LEX_TK_RBRC,
    LEX_TK_COND, LEX_TK_ELIF, LEX_TK_ELSE, LEX_TK_DOWH, LEX_TK_WHIL, LEX_TK_RETN,
    LEX_TK_USEU, LEX_TK_TYPE, LEX_TK_ASSN, LEX_TK_ASPL, LEX_TK_ASMI, LEX_TK_ASMU,
    LEX_TK_ASDI, LEX_TK_ASMO, LEX_TK_ASLS, LEX_TK_ASRS, LEX_TK_ASAN, LEX_TK_ASXO,
    LEX_TK_ASOR, LEX_TK_COLN, LEX_TK_SCOP, LEX_TK_ATSI, LEX_TK_MEMB, LEX_TK_AROW,
    LEX_TK_EQUL, LEX_TK_NEQL, LEX_TK_LTHN, LEX_TK_GTHN, LEX_TK_LTEQ, LEX_TK_GTEQ,
    LEX_TK_CONJ, LEX_TK_DISJ, LEX_TK_PLUS, LEX_TK_MINS, LEX_TK_MULT, LEX_TK_DIVI,
    LEX_TK_MODU, LEX_TK_LSHF, LEX_TK_RSHF, LEX_TK_AMPS, LEX_TK_CARE, LEX_TK_PIPE,
    LEX_TK_COMA, LEX_TK_CAST, LEX_TK_QUES, LEX_TK_EXCL, LEX_TK_TILD, LEX_TK_INCR,
    LEX_TK_DECR, LEX_TK_SZOF, LEX_TK_ALOF, LEX_TK_WAIT, LEX_TK_WFOR, LEX_TK_WUNT,
    LEX_TK_WNOB, LEX_TK_WMSE, LEX_TK_WSEC, LEX_TK_NOIN, LEX_TK_SCOL, LEX_TK_CONS,
    LEX_TK_EXPO, LEX_TK_STAT]"

text \<open>The number of a kind in the C enumeration, which orders the kinds.\<close>

primrec tk_code :: "lex_tk \<Rightarrow> nat" where
  "tk_code LEX_TK_NAME = 0"
| "tk_code LEX_TK_NMBR = 1"
| "tk_code LEX_TK_STRL = 2"
| "tk_code LEX_TK_WSPC = 3"
| "tk_code LEX_TK_LCOM = 4"
| "tk_code LEX_TK_BCOM = 5"
| "tk_code LEX_TK_LPAR = 6"
| "tk_code LEX_TK_RPAR = 7"
| "tk_code LEX_TK_LBRA = 8"
| "tk_code LEX_TK_RBRA = 9"
| "tk_code LEX_TK_LBRC = 10"
| "tk_code LEX_TK_RBRC = 11"
| "tk_code LEX_TK_COND = 12"
| "tk_code LEX_TK_ELIF = 13"
| "tk_code LEX_TK_ELSE = 14"
| "tk_code LEX_TK_DOWH = 15"
| "tk_code LEX_TK_WHIL = 16"
| "tk_code LEX_TK_RETN = 17"
| "tk_code LEX_TK_USEU = 18"
| "tk_code LEX_TK_TYPE = 19"
| "tk_code LEX_TK_ASSN = 20"
| "tk_code LEX_TK_ASPL = 21"
| "tk_code LEX_TK_ASMI = 22"
| "tk_code LEX_TK_ASMU = 23"
| "tk_code LEX_TK_ASDI = 24"
| "tk_code LEX_TK_ASMO = 25"
| "tk_code LEX_TK_ASLS = 26"
| "tk_code LEX_TK_ASRS = 27"
| "tk_code LEX_TK_ASAN = 28"
| "tk_code LEX_TK_ASXO = 29"
| "tk_code LEX_TK_ASOR = 30"
| "tk_code LEX_TK_COLN = 31"
| "tk_code LEX_TK_SCOP = 32"
| "tk_code LEX_TK_ATSI = 33"
| "tk_code LEX_TK_MEMB = 34"
| "tk_code LEX_TK_AROW = 35"
| "tk_code LEX_TK_EQUL = 36"
| "tk_code LEX_TK_NEQL = 37"
| "tk_code LEX_TK_LTHN = 38"
| "tk_code LEX_TK_GTHN = 39"
| "tk_code LEX_TK_LTEQ = 40"
| "tk_code LEX_TK_GTEQ = 41"
| "tk_code LEX_TK_CONJ = 42"
| "tk_code LEX_TK_DISJ = 43"
| "tk_code LEX_TK_PLUS = 44"
| "tk_code LEX_TK_MINS = 45"
| "tk_code LEX_TK_MULT = 46"
| "tk_code LEX_TK_DIVI = 47"
| "tk_code LEX_TK_MODU = 48"
| "tk_code LEX_TK_LSHF = 49"
| "tk_code LEX_TK_RSHF = 50"
| "tk_code LEX_TK_AMPS = 51"
| "tk_code LEX_TK_CARE = 52"
| "tk_code LEX_TK_PIPE = 53"
| "tk_code LEX_TK_COMA = 54"
| "tk_code LEX_TK_CAST = 55"
| "tk_code LEX_TK_QUES = 56"
| "tk_code LEX_TK_EXCL = 57"
| "tk_code LEX_TK_TILD = 58"
| "tk_code LEX_TK_INCR = 59"
| "tk_code LEX_TK_DECR = 60"
| "tk_code LEX_TK_SZOF = 61"
| "tk_code LEX_TK_ALOF = 62"
| "tk_code LEX_TK_WAIT = 63"
| "tk_code LEX_TK_WFOR = 64"
| "tk_code LEX_TK_WUNT = 65"
| "tk_code LEX_TK_WNOB = 66"
| "tk_code LEX_TK_WMSE = 67"
| "tk_code LEX_TK_WSEC = 68"
| "tk_code LEX_TK_NOIN = 69"
| "tk_code LEX_TK_SCOL = 70"
| "tk_code LEX_TK_CONS = 71"
| "tk_code LEX_TK_EXPO = 72"
| "tk_code LEX_TK_STAT = 73"
| "tk_code LEX_TK_COUNT = 74"
| "tk_code LEX_TK_FBEG = 75"
| "tk_code LEX_TK_FEND = 76"

lemma tk_code_nth: "(lex_tks @ [LEX_TK_COUNT, LEX_TK_FBEG, LEX_TK_FEND]) ! tk_code tk = tk"
  by (cases tk) (simp_all add: lex_tks_def)

lemma tk_code_inject [simp]: "tk_code t = tk_code u \<longleftrightarrow> t = u"
  by (metis tk_code_nth)

instantiation lex_tk :: linorder
begin

definition less_eq_lex_tk :: "lex_tk \<Rightarrow> lex_tk \<Rightarrow> bool" where
  "less_eq_lex_tk t u \<longleftrightarrow> tk_code t \<le> tk_code u"

definition less_lex_tk :: "lex_tk \<Rightarrow> lex_tk \<Rightarrow> bool" where
  "less_lex_tk t u \<longleftrightarrow> tk_code t < tk_code u"

instance
  by standard (auto simp: less_eq_lex_tk_def less_lex_tk_def)

end

definition lex_tk_is_assn :: "lex_tk \<Rightarrow> bool" where
  "lex_tk_is_assn t \<longleftrightarrow> LEX_TK_ASSN \<le> t \<and> t \<le> LEX_TK_ASOR"

subsection \<open>Recognisers\<close>

text \<open>
  \<open>Sts_abort\<close> is not a value of the C enumeration: it stands for a branch that calls
  \<^verbatim>\<open>abort()\<close>.
\<close>

datatype sts_t = STS_ACCEPT | STS_REJECT | STS_HUNGRY | Sts_abort

definition IS_ALPHA :: "char \<Rightarrow> bool" where
  "IS_ALPHA c \<longleftrightarrow> (CHR ''a'' \<le> c \<and> c \<le> CHR ''z'') \<or> (CHR ''A'' \<le> c \<and> c \<le> CHR ''Z'')"

definition IS_DIGIT :: "char \<Rightarrow> bool" where
  "IS_DIGIT c \<longleftrightarrow> CHR ''0'' \<le> c \<and> c \<le> CHR ''9''"

definition IS_ALNUM :: "char \<Rightarrow> bool" where
  "IS_ALNUM c \<longleftrightarrow> IS_ALPHA c \<or> IS_DIGIT c"

definition IS_WSPACE :: "char \<Rightarrow> bool" where
  "IS_WSPACE c \<longleftrightarrow> c = CHR '' '' \<or> c = CHR 0x09 \<or> c = CHR 0x0D \<or> c = CHR 0x0A"

abbreviation reject :: "sts_t \<times> nat" where
  "reject \<equiv> (STS_REJECT, 0)"

text \<open>
  The macros \<^verbatim>\<open>TOKEN_DEFINE_1\<close> to \<^verbatim>\<open>TOKEN_DEFINE_7\<close>: the state counts the
  characters of \<open>str\<close> matched so far.
\<close>

definition lit_step :: "string \<Rightarrow> char \<Rightarrow> nat \<Rightarrow> sts_t \<times> nat" where
  "lit_step str c s =
     (if s < length str then
        if c = str ! s
        then (if Suc s = length str then STS_ACCEPT else STS_HUNGRY, Suc s)
        else reject
      else if s = length str then reject
      else (Sts_abort, s))"

definition tk_name :: "char \<Rightarrow> nat \<Rightarrow> sts_t \<times> nat" where
  "tk_name c s =
     (if s = 0 then if IS_ALPHA c \<or> c = CHR ''_'' then (STS_ACCEPT, 1) else reject
      else if s = 1 then if IS_ALNUM c \<or> c = CHR ''_'' then (STS_ACCEPT, s) else reject
      else (Sts_abort, s))"

definition tk_nmbr :: "char \<Rightarrow> nat \<Rightarrow> sts_t \<times> nat" where
  "tk_nmbr c s = (if IS_DIGIT c then STS_ACCEPT else STS_REJECT, s)"

definition tk_strl :: "char \<Rightarrow> nat \<Rightarrow> sts_t \<times> nat" where
  "tk_strl c s =
     (if s = 0 then if c = CHR 0x22 then (STS_HUNGRY, 1) else reject
      else if s = 1 then if c \<noteq> CHR 0x22 then (STS_HUNGRY, s) else (STS_ACCEPT, 2)
      else if s = 2 then reject
      else (Sts_abort, s))"

definition tk_wspc :: "char \<Rightarrow> nat \<Rightarrow> sts_t \<times> nat" where
  "tk_wspc c s =
     (if s = 0 then if IS_WSPACE c then (STS_ACCEPT, 1) else reject
      else if s = 1 then if IS_WSPACE c then (STS_ACCEPT, s) else reject
      else (Sts_abort, s))"

definition tk_lcom :: "char \<Rightarrow> nat \<Rightarrow> sts_t \<times> nat" where
  "tk_lcom c s =
     (if s = 0 then if c = CHR ''/'' then (STS_HUNGRY, 1) else reject
      else if s = 1 then if c = CHR ''/'' then (STS_HUNGRY, 2) else reject
      else if s = 2 then if c = CHR 0x0A \<or> c = CHR 0x0D then (STS_ACCEPT, 3) else (STS_HUNGRY, s)
      else if s = 3 then reject
      else (Sts_abort, s))"

definition tk_bcom :: "char \<Rightarrow> nat \<Rightarrow> sts_t \<times> nat" where
  "tk_bcom c s =
     (if s = 0 then if c = CHR ''/'' then (STS_HUNGRY, 1) else reject
      else if s = 1 then if c = CHR ''*'' then (STS_HUNGRY, 2) else reject
      else if s = 2 then if c \<noteq> CHR ''*'' then (STS_HUNGRY, s) else (STS_HUNGRY, 3)
      else if s = 3 then if c = CHR ''/'' then (STS_ACCEPT, 4) else (STS_HUNGRY, 2)
      else if s = 4 then reject
      else (Sts_abort, s))"

text \<open>The literal tokens and the table of recognisers, indexed by token kind.\<close>

definition tk_lits :: "(lex_tk \<times> string) list" where
  "tk_lits = [
    (LEX_TK_LPAR, ''(''), (LEX_TK_RPAR, '')''), (LEX_TK_LBRA, ''[''),
    (LEX_TK_RBRA, '']''), (LEX_TK_LBRC, ''{''), (LEX_TK_RBRC, ''}''),
    (LEX_TK_COND, ''if''), (LEX_TK_ELIF, ''elif''), (LEX_TK_ELSE, ''else''),
    (LEX_TK_DOWH, ''do''), (LEX_TK_WHIL, ''while''), (LEX_TK_RETN, ''return''),
    (LEX_TK_USEU, ''use''), (LEX_TK_TYPE, ''type''), (LEX_TK_ASSN, ''=''),
    (LEX_TK_ASPL, ''+=''), (LEX_TK_ASMI, ''-=''), (LEX_TK_ASMU, ''*=''),
    (LEX_TK_ASDI, ''/=''), (LEX_TK_ASMO, ''%=''), (LEX_TK_ASLS, ''<<=''),
    (LEX_TK_ASRS, ''>>=''), (LEX_TK_ASAN, ''&=''), (LEX_TK_ASXO, ''^=''),
    (LEX_TK_ASOR, ''|=''), (LEX_TK_COLN, '':''), (LEX_TK_SCOP, ''::''),
    (LEX_TK_ATSI, ''@''), (LEX_TK_MEMB, ''.''), (LEX_TK_AROW, ''->''),
    (LEX_TK_EQUL, ''==''), (LEX_TK_NEQL, ''!=''), (LEX_TK_LTHN, ''<''),
    (LEX_TK_GTHN, ''>''), (LEX_TK_LTEQ, ''<=''), (LEX_TK_GTEQ, ''>=''),
    (LEX_TK_CONJ, ''&&''), (LEX_TK_DISJ, ''||''), (LEX_TK_PLUS, ''+''),
    (LEX_TK_MINS, ''-''), (LEX_TK_MULT, ''*''), (LEX_TK_DIVI, ''/''),
    (LEX_TK_MODU, ''%''), (LEX_TK_LSHF, ''<<''), (LEX_TK_RSHF, ''>>''),
    (LEX_TK_AMPS, ''&''), (LEX_TK_CARE, ''^''), (LEX_TK_PIPE, ''|''),
    (LEX_TK_COMA, '',''), (LEX_TK_CAST, ''as''), (LEX_TK_QUES, ''?''),
    (LEX_TK_EXCL, ''!''), (LEX_TK_TILD, ''~''), (LEX_TK_INCR, ''++''),
    (LEX_TK_DECR, ''--''), (LEX_TK_SZOF, ''sizeof''), (LEX_TK_ALOF, ''alignof''),
    (LEX_TK_WAIT, ''wait''), (LEX_TK_WFOR, ''for''), (LEX_TK_WUNT, ''until''),
    (LEX_TK_WNOB, ''noblock''), (LEX_TK_WMSE, ''msec''), (LEX_TK_WSEC, ''sec''),
    (LEX_TK_NOIN, ''noint''), (LEX_TK_SCOL, '';''), (LEX_TK_CONS, ''const''),
    (LEX_TK_EXPO, ''exposed''), (LEX_TK_STAT, ''static'')]"

definition tk_func :: "lex_tk \<Rightarrow> char \<Rightarrow> nat \<Rightarrow> sts_t \<times> nat" where
  "tk_func tk =
     (if tk = LEX_TK_NAME then tk_name
      else if tk = LEX_TK_NMBR then tk_nmbr
      else if tk = LEX_TK_STRL then tk_strl
      else if tk = LEX_TK_WSPC then tk_wspc
      else if tk = LEX_TK_LCOM then tk_lcom
      else if tk = LEX_TK_BCOM then tk_bcom
      else case map_of tk_lits tk of Some str \<Rightarrow> lit_step str | None \<Rightarrow> \<lambda>c s. (Sts_abort, s))"

text \<open>The same as a table, for evaluation.\<close>

lemma tk_func_code [code]:
  "tk_func LEX_TK_NAME = tk_name"
  "tk_func LEX_TK_NMBR = tk_nmbr"
  "tk_func LEX_TK_STRL = tk_strl"
  "tk_func LEX_TK_WSPC = tk_wspc"
  "tk_func LEX_TK_LCOM = tk_lcom"
  "tk_func LEX_TK_BCOM = tk_bcom"
  "tk_func LEX_TK_LPAR = lit_step ''(''"
  "tk_func LEX_TK_RPAR = lit_step '')''"
  "tk_func LEX_TK_LBRA = lit_step ''[''"
  "tk_func LEX_TK_RBRA = lit_step '']''"
  "tk_func LEX_TK_LBRC = lit_step ''{''"
  "tk_func LEX_TK_RBRC = lit_step ''}''"
  "tk_func LEX_TK_COND = lit_step ''if''"
  "tk_func LEX_TK_ELIF = lit_step ''elif''"
  "tk_func LEX_TK_ELSE = lit_step ''else''"
  "tk_func LEX_TK_DOWH = lit_step ''do''"
  "tk_func LEX_TK_WHIL = lit_step ''while''"
  "tk_func LEX_TK_RETN = lit_step ''return''"
  "tk_func LEX_TK_USEU = lit_step ''use''"
  "tk_func LEX_TK_TYPE = lit_step ''type''"
  "tk_func LEX_TK_ASSN = lit_step ''=''"
  "tk_func LEX_TK_ASPL = lit_step ''+=''"
  "tk_func LEX_TK_ASMI = lit_step ''-=''"
  "tk_func LEX_TK_ASMU = lit_step ''*=''"
  "tk_func LEX_TK_ASDI = lit_step ''/=''"
  "tk_func LEX_TK_ASMO = lit_step ''%=''"
  "tk_func LEX_TK_ASLS = lit_step ''<<=''"
  "tk_func LEX_TK_ASRS = lit_step ''>>=''"
  "tk_func LEX_TK_ASAN = lit_step ''&=''"
  "tk_func LEX_TK_ASXO = lit_step ''^=''"
  "tk_func LEX_TK_ASOR = lit_step ''|=''"
  "tk_func LEX_TK_COLN = lit_step '':''"
  "tk_func LEX_TK_SCOP = lit_step ''::''"
  "tk_func LEX_TK_ATSI = lit_step ''@''"
  "tk_func LEX_TK_MEMB = lit_step ''.''"
  "tk_func LEX_TK_AROW = lit_step ''->''"
  "tk_func LEX_TK_EQUL = lit_step ''==''"
  "tk_func LEX_TK_NEQL = lit_step ''!=''"
  "tk_func LEX_TK_LTHN = lit_step ''<''"
  "tk_func LEX_TK_GTHN = lit_step ''>''"
  "tk_func LEX_TK_LTEQ = lit_step ''<=''"
  "tk_func LEX_TK_GTEQ = lit_step ''>=''"
  "tk_func LEX_TK_CONJ = lit_step ''&&''"
  "tk_func LEX_TK_DISJ = lit_step ''||''"
  "tk_func LEX_TK_PLUS = lit_step ''+''"
  "tk_func LEX_TK_MINS = lit_step ''-''"
  "tk_func LEX_TK_MULT = lit_step ''*''"
  "tk_func LEX_TK_DIVI = lit_step ''/''"
  "tk_func LEX_TK_MODU = lit_step ''%''"
  "tk_func LEX_TK_LSHF = lit_step ''<<''"
  "tk_func LEX_TK_RSHF = lit_step ''>>''"
  "tk_func LEX_TK_AMPS = lit_step ''&''"
  "tk_func LEX_TK_CARE = lit_step ''^''"
  "tk_func LEX_TK_PIPE = lit_step ''|''"
  "tk_func LEX_TK_COMA = lit_step '',''"
  "tk_func LEX_TK_CAST = lit_step ''as''"
  "tk_func LEX_TK_QUES = lit_step ''?''"
  "tk_func LEX_TK_EXCL = lit_step ''!''"
  "tk_func LEX_TK_TILD = lit_step ''~''"
  "tk_func LEX_TK_INCR = lit_step ''++''"
  "tk_func LEX_TK_DECR = lit_step ''--''"
  "tk_func LEX_TK_SZOF = lit_step ''sizeof''"
  "tk_func LEX_TK_ALOF = lit_step ''alignof''"
  "tk_func LEX_TK_WAIT = lit_step ''wait''"
  "tk_func LEX_TK_WFOR = lit_step ''for''"
  "tk_func LEX_TK_WUNT = lit_step ''until''"
  "tk_func LEX_TK_WNOB = lit_step ''noblock''"
  "tk_func LEX_TK_WMSE = lit_step ''msec''"
  "tk_func LEX_TK_WSEC = lit_step ''sec''"
  "tk_func LEX_TK_NOIN = lit_step ''noint''"
  "tk_func LEX_TK_SCOL = lit_step '';''"
  "tk_func LEX_TK_CONS = lit_step ''const''"
  "tk_func LEX_TK_EXPO = lit_step ''exposed''"
  "tk_func LEX_TK_STAT = lit_step ''static''"
  by (simp_all add: tk_func_def tk_lits_def)

definition tk_funcs :: "(char \<Rightarrow> nat \<Rightarrow> sts_t \<times> nat) list" where
  "tk_funcs = map tk_func lex_tks"

subsection \<open>Running a recogniser\<close>

text \<open>
  A recogniser that has rejected is not fed any more. The run of a recogniser on a
  non-empty prefix is its last answer and its state.
\<close>

definition run_step :: "(char \<Rightarrow> nat \<Rightarrow> sts_t \<times> nat) \<Rightarrow> sts_t \<times> nat \<Rightarrow> char \<Rightarrow> sts_t \<times> nat" where
  "run_step f r c = (if fst r = STS_REJECT then r else f c (snd r))"

definition run :: "(char \<Rightarrow> nat \<Rightarrow> sts_t \<times> nat) \<Rightarrow> string \<Rightarrow> sts_t \<times> nat" where
  "run f w = foldl (run_step f) (STS_HUNGRY, 0) w"

lemma run_Nil [simp]: "run f [] = (STS_HUNGRY, 0)"
  by (simp add: run_def)

lemma run_snoc: "run f (w @ [c]) = run_step f (run f w) c"
  by (simp add: run_def)

lemma run_reject_append: "fst (run f w) = STS_REJECT \<Longrightarrow> run f (w @ v) = run f w"
proof (induction v rule: rev_induct)
  case (snoc c v)
  then show ?case by (simp add: run_snoc run_step_def flip: append_assoc)
qed simp

text \<open>\<open>w\<close> is the part of the literal matched so far.\<close>

definition matches :: "string \<Rightarrow> string \<Rightarrow> bool" where
  "matches str w \<longleftrightarrow> length w \<le> length str \<and> w = take (length w) str"

lemma matches_Nil [simp]: "matches str []"
  by (simp add: matches_def)

lemma matches_snoc:
  "matches str (w @ [c]) \<longleftrightarrow> matches str w \<and> length w < length str \<and> c = str ! length w"
  by (auto simp: matches_def take_Suc_conv_app_nth)

lemma matches_full: "matches str w \<Longrightarrow> w = str \<longleftrightarrow> length w = length str"
  by (auto simp: matches_def)

lemma matches_length: "matches str w \<Longrightarrow> length w \<le> length str"
  by (simp add: matches_def)

lemma run_lit:
  "run (lit_step str) w =
    (if w = [] then (STS_HUNGRY, 0)
     else if matches str w
     then (if length w = length str then STS_ACCEPT else STS_HUNGRY, length w) else reject)"
  by (induction w rule: rev_induct)
    (auto simp: run_snoc run_step_def lit_step_def matches_snoc dest: matches_length)

definition is_name :: "string \<Rightarrow> bool" where
  "is_name w \<longleftrightarrow> w \<noteq> [] \<and> (IS_ALPHA (hd w) \<or> hd w = CHR ''_'') \<and>
     (\<forall>c \<in> set w. IS_ALNUM c \<or> c = CHR ''_'')"

lemma is_name_snoc:
  "is_name (w @ [c]) \<longleftrightarrow>
     (if w = [] then IS_ALPHA c \<or> c = CHR ''_'' else is_name w \<and> (IS_ALNUM c \<or> c = CHR ''_''))"
  by (auto simp: is_name_def IS_ALNUM_def)

lemma run_name:
  "run tk_name w =
    (if w = [] then (STS_HUNGRY, 0) else if is_name w then (STS_ACCEPT, 1) else reject)"
  by (induction w rule: rev_induct)
    (auto simp: run_snoc run_step_def tk_name_def is_name_snoc)

lemma run_nmbr:
  "run tk_nmbr w =
    (if w = [] then (STS_HUNGRY, 0)
     else if \<forall>c \<in> set w. IS_DIGIT c then (STS_ACCEPT, 0) else reject)"
  by (induction w rule: rev_induct) (auto simp: run_snoc run_step_def tk_nmbr_def)

lemma run_wspc:
  "run tk_wspc w =
    (if w = [] then (STS_HUNGRY, 0)
     else if \<forall>c \<in> set w. IS_WSPACE c then (STS_ACCEPT, 1) else reject)"
  by (induction w rule: rev_induct) (auto simp: run_snoc run_step_def tk_wspc_def)

lemma run_Cons_snoc: "run f (c # u @ [d]) = run_step f (run f (c # u)) d"
  using run_snoc [of f "c # u" d] by simp

lemma run_Cons2_snoc: "run f (c # d # u @ [e]) = run_step f (run f (c # d # u)) e"
  using run_snoc [of f "c # d # u" e] by simp

definition is_newline :: "char \<Rightarrow> bool" where
  "is_newline c \<longleftrightarrow> c = CHR 0x0A \<or> c = CHR 0x0D"

lemma strl_steps:
  "run_step tk_strl (STS_HUNGRY, 0) c = (if c = CHR 0x22 then (STS_HUNGRY, 1) else reject)"
  "run_step tk_strl (STS_HUNGRY, Suc 0) c =
    (if c \<noteq> CHR 0x22 then (STS_HUNGRY, 1) else (STS_ACCEPT, 2))"
  "run_step tk_strl (STS_ACCEPT, 2) c = reject"
  "run_step tk_strl (STS_REJECT, s) c = (STS_REJECT, s)"
  by (simp_all add: run_step_def tk_strl_def)

lemma run_strl:
  "run tk_strl (c # u) =
    (if c \<noteq> CHR 0x22 then reject
     else if CHR 0x22 \<notin> set u then (STS_HUNGRY, 1)
     else if last u = CHR 0x22 \<and> CHR 0x22 \<notin> set (butlast u) then (STS_ACCEPT, 2)
     else reject)"
proof (induction u rule: rev_induct)
  case Nil
  show ?case by (simp add: run_def strl_steps)
next
  case (snoc d u)
  show ?case
  proof (cases "u = []")
    case True
    then show ?thesis by (simp add: run_def strl_steps)
  next
    case False
    have "CHR 0x22 \<in> set u \<longleftrightarrow> last u = CHR 0x22 \<or> CHR 0x22 \<in> set (butlast u)"
      using False by (cases u rule: rev_cases) auto
    then show ?thesis
      using snoc False by (simp add: run_Cons_snoc strl_steps)
  qed
qed

lemma lcom_steps:
  "run_step tk_lcom (STS_HUNGRY, 0) c = (if c = CHR ''/'' then (STS_HUNGRY, 1) else reject)"
  "run_step tk_lcom (STS_HUNGRY, Suc 0) c = (if c = CHR ''/'' then (STS_HUNGRY, 2) else reject)"
  "run_step tk_lcom (STS_HUNGRY, 2) c = (if is_newline c then (STS_ACCEPT, 3) else (STS_HUNGRY, 2))"
  "run_step tk_lcom (STS_ACCEPT, 3) c = reject"
  "run_step tk_lcom (STS_REJECT, s) c = (STS_REJECT, s)"
  by (simp_all add: run_step_def tk_lcom_def is_newline_def)

lemma run_lcom_1: "run tk_lcom [c] = (if c = CHR ''/'' then (STS_HUNGRY, 1) else reject)"
  by (simp add: run_def lcom_steps)

lemma run_lcom:
  "run tk_lcom (c # d # u) =
    (if c \<noteq> CHR ''/'' \<or> d \<noteq> CHR ''/'' then reject
     else if \<forall>e \<in> set u. \<not> is_newline e then (STS_HUNGRY, 2)
     else if is_newline (last u) \<and> (\<forall>e \<in> set (butlast u). \<not> is_newline e) then (STS_ACCEPT, 3)
     else reject)"
proof (induction u rule: rev_induct)
  case Nil
  show ?case by (simp add: run_def lcom_steps)
next
  case (snoc e u)
  show ?case
  proof (cases "u = []")
    case True
    then show ?thesis by (simp add: run_def lcom_steps)
  next
    case False
    have "(\<exists>e \<in> set u. is_newline e) \<longleftrightarrow>
        is_newline (last u) \<or> (\<exists>e \<in> set (butlast u). is_newline e)"
      using False by (cases u rule: rev_cases) auto
    then show ?thesis
      using snoc False by (auto simp: run_Cons2_snoc lcom_steps)
  qed
qed

text \<open>
  The body of a block comment is read left to right as single characters other than a star
  and as pairs of a star and the character after it; the pair of a star and a slash ends it.
\<close>

fun bcom_body :: "string \<Rightarrow> sts_t \<times> nat" where
  "bcom_body [] = (STS_HUNGRY, 2)"
| "bcom_body [c] = (STS_HUNGRY, if c = CHR ''*'' then 3 else 2)"
| "bcom_body (c # d # v) =
     (if c \<noteq> CHR ''*'' then bcom_body (d # v)
      else if d \<noteq> CHR ''/'' then bcom_body v
      else if v = [] then (STS_ACCEPT, 4) else reject)"

lemma foldl_reject: "foldl (run_step f) (STS_REJECT, s) v = (STS_REJECT, s)"
  by (induction v) (auto simp: run_step_def)

lemma bcom_steps:
  "run_step tk_bcom (STS_HUNGRY, 2) c = (STS_HUNGRY, if c = CHR ''*'' then 3 else 2)"
  "run_step tk_bcom (STS_HUNGRY, 3) c =
    (if c = CHR ''/'' then (STS_ACCEPT, 4) else (STS_HUNGRY, 2))"
  "run_step tk_bcom (STS_ACCEPT, 4) c = reject"
  by (simp_all add: run_step_def tk_bcom_def)

lemma foldl_bcom_end:
  "foldl (run_step tk_bcom) (STS_ACCEPT, 4) v = (if v = [] then (STS_ACCEPT, 4) else reject)"
  by (cases v) (auto simp: bcom_steps foldl_reject)

lemma foldl_bcom: "foldl (run_step tk_bcom) (STS_HUNGRY, 2) v = bcom_body v"
  by (induction v rule: bcom_body.induct) (auto simp: bcom_steps foldl_bcom_end)

lemma run_bcom_1: "run tk_bcom [c] = (if c = CHR ''/'' then (STS_HUNGRY, 1) else reject)"
  by (simp add: run_def run_step_def tk_bcom_def)

lemma run_bcom:
  "run tk_bcom (c # d # v) =
    (if c = CHR ''/'' \<and> d = CHR ''*'' then bcom_body v else reject)"
  using foldl_bcom [of v] by (auto simp: run_def run_step_def tk_bcom_def foldl_reject)

lemma bcom_body_range:
  "bcom_body v \<in> {(STS_HUNGRY, 2), (STS_HUNGRY, 3), (STS_ACCEPT, 4), reject}"
  by (induction v rule: bcom_body.induct) auto

subsection \<open>Facts common to all recognisers\<close>

lemma lex_tks_split:
  "lex_tks = [LEX_TK_NAME, LEX_TK_NMBR, LEX_TK_STRL, LEX_TK_WSPC, LEX_TK_LCOM, LEX_TK_BCOM] @
     map fst tk_lits"
  by (simp add: lex_tks_def tk_lits_def)

lemma tk_func_cases:
  assumes "tk \<in> set lex_tks"
  shows "tk_func tk \<in> {tk_name, tk_nmbr, tk_strl, tk_wspc, tk_lcom, tk_bcom} \<union> range lit_step"
proof (cases "map_of tk_lits tk")
  case None
  then have "tk \<notin> fst ` set tk_lits" by (simp add: map_of_eq_None_iff)
  then have "tk \<in> {LEX_TK_NAME, LEX_TK_NMBR, LEX_TK_STRL, LEX_TK_WSPC, LEX_TK_LCOM, LEX_TK_BCOM}"
    using assms unfolding lex_tks_split by simp
  then show ?thesis by (auto simp: tk_func_def)
next
  case (Some str)
  then show ?thesis by (simp add: tk_func_def)
qed

text \<open>No run of a recogniser reaches an abort, and a rejecting one is back in state 0.\<close>

definition tame :: "(char \<Rightarrow> nat \<Rightarrow> sts_t \<times> nat) \<Rightarrow> bool" where
  "tame f \<longleftrightarrow> (\<forall>w. fst (run f w) \<noteq> Sts_abort \<and> (fst (run f w) = STS_REJECT \<longrightarrow> snd (run f w) = 0))"

lemma tame_func:
  assumes "tk \<in> set lex_tks"
  shows "tame (tk_func tk)"
proof -
  have "tame tk_name" "tame tk_nmbr" "tame tk_wspc" "tame (lit_step str)" for str
    by (simp_all add: tame_def run_name run_nmbr run_wspc run_lit)
  moreover have "tame tk_strl" unfolding tame_def
  proof
    fix w show "fst (run tk_strl w) \<noteq> Sts_abort \<and>
        (fst (run tk_strl w) = STS_REJECT \<longrightarrow> snd (run tk_strl w) = 0)"
      by (cases w) (simp_all add: run_strl)
  qed
  moreover have "tame tk_lcom" unfolding tame_def
  proof
    fix w show "fst (run tk_lcom w) \<noteq> Sts_abort \<and>
        (fst (run tk_lcom w) = STS_REJECT \<longrightarrow> snd (run tk_lcom w) = 0)"
      by (cases w rule: remdups_adj.cases) (simp_all add: run_lcom run_lcom_1)
  qed
  moreover have "tame tk_bcom" unfolding tame_def
  proof
    fix w show "fst (run tk_bcom w) \<noteq> Sts_abort \<and>
        (fst (run tk_bcom w) = STS_REJECT \<longrightarrow> snd (run tk_bcom w) = 0)"
      using bcom_body_range [of "drop 2 w"]
      by (cases w rule: remdups_adj.cases) (auto simp: run_bcom run_bcom_1)
  qed
  ultimately show ?thesis using tk_func_cases [OF assms] by auto
qed

lemma run_not_abort: "tk \<in> set lex_tks \<Longrightarrow> fst (run (tk_func tk) w) \<noteq> Sts_abort"
  using tame_func by (simp add: tame_def)

lemma run_reject_state:
  "tk \<in> set lex_tks \<Longrightarrow> fst (run (tk_func tk) w) = STS_REJECT \<Longrightarrow> snd (run (tk_func tk) w) = 0"
  using tame_func by (simp add: tame_def)

end
