(* ===== verification/Lex.thy ===== *)
theory Lex
  imports Tokens
begin

text \<open>
  The lexer of \<^verbatim>\<open>src/lex.c\<close>: all recognisers are run in parallel over the input; when
  none of them is alive any more the token is cut before the current character, and its
  kind is the last one in the table whose recogniser accepted. Token texts are pointers
  into the input in C, offsets here; the null pointers of the two file markers are offset 0.
  The outcome of each \<^verbatim>\<open>realloc\<close> is a parameter.
\<close>

record lex_token =
  tok_tk :: lex_tk
  tok_beg :: nat
  tok_end :: nat

record lex_stat =
  st_prev :: sts_t
  st_curr :: sts_t
  st_state :: nat

type_synonym token_buf = "lex_token list \<times> nat"

datatype lex_result =
    LEX_OK "lex_token list"
  | LEX_NOMEM
  | LEX_UNKNOWN_TOKEN "lex_token list"
  | Lex_abort

definition push_token :: "(nat \<Rightarrow> bool) \<Rightarrow> token_buf \<Rightarrow> lex_token \<Rightarrow> token_buf option" where
  "push_token mem_ok buf t =
     (let ntokens = length (fst buf); allocated = snd buf;
          allocated' = (if ntokens \<ge> allocated then (if allocated = 0 then 1 else allocated) * 8
                        else allocated)
      in if ntokens \<ge> allocated \<and> \<not> mem_ok allocated' then None
         else Some (fst buf @ [t], allocated'))"

definition feed :: "char \<Rightarrow> lex_tk \<Rightarrow> lex_stat \<Rightarrow> lex_stat" where
  "feed c tk r =
     (if st_prev r \<noteq> STS_REJECT
      then let res = tk_func tk c (st_state r) in r\<lparr>st_curr := fst res, st_state := snd res\<rparr>
      else r)"

definition feed_all :: "char \<Rightarrow> lex_stat list \<Rightarrow> lex_stat list" where
  "feed_all c rs = map2 (feed c) lex_tks rs"

definition did_accept :: "lex_stat list \<Rightarrow> bool" where
  "did_accept rs \<longleftrightarrow> (\<exists>r \<in> set rs. st_curr r \<noteq> STS_REJECT)"

definition advance :: "lex_stat \<Rightarrow> lex_stat" where
  "advance r = r\<lparr>st_prev := st_curr r\<rparr>"

definition restart :: "lex_stat \<Rightarrow> lex_stat" where
  "restart r = r\<lparr>st_prev := STS_HUNGRY, st_curr := STS_REJECT\<rparr>"

text \<open>The last kind in the table whose status \<open>field\<close> is \<open>ACCEPT\<close>.\<close>

definition accepted_token :: "(lex_stat \<Rightarrow> sts_t) \<Rightarrow> lex_stat list \<Rightarrow> lex_tk" where
  "accepted_token field rs =
     foldl (\<lambda>acc (tk, r). if field r = STS_ACCEPT then tk else acc) LEX_TK_COUNT (zip lex_tks rs)"

lemma foldl_last_accept:
  "foldl (\<lambda>acc (tk, r). if P r then tk else acc) d xs \<noteq> d \<Longrightarrow> \<exists>x \<in> set xs. P (snd x)"
  by (induction xs rule: rev_induct) (auto split: if_splits)

lemma accepted_token_ex:
  "accepted_token field rs \<noteq> LEX_TK_COUNT \<Longrightarrow> \<exists>r \<in> set rs. field r = STS_ACCEPT"
  unfolding accepted_token_def
  by (drule foldl_last_accept) (auto dest: set_zip_rightD)

lemma feed_prev [simp]: "st_prev (feed c tk r) = st_prev r"
  by (simp add: feed_def Let_def)

lemma feed_all_prev:
  "r \<in> set (feed_all c rs) \<Longrightarrow> \<exists>r' \<in> set rs. st_prev r' = st_prev r"
  by (auto simp: feed_all_def dest: set_zip_rightD)

lemma restart_prev [simp]: "st_prev (restart r) = STS_HUNGRY"
  by (simp add: restart_def)

function lex_loop :: "(nat \<Rightarrow> bool) \<Rightarrow> string \<Rightarrow> nat \<Rightarrow> nat \<Rightarrow> lex_stat list \<Rightarrow> token_buf \<Rightarrow> lex_result" where
  "lex_loop mem_ok input prefix_beg prefix_end rs buf =
     (if prefix_end < length input then
        let rs' = feed_all (input ! prefix_end) rs in
        if \<exists>r \<in> set rs'. st_curr r = Sts_abort then Lex_abort
        else if did_accept rs' then
          lex_loop mem_ok input prefix_beg (Suc prefix_end) (map advance rs') buf
        else
          let accepted = accepted_token st_prev rs' in
          case push_token mem_ok buf \<lparr>tok_tk = accepted, tok_beg = prefix_beg, tok_end = prefix_end\<rparr> of
            None \<Rightarrow> LEX_NOMEM
          | Some buf' \<Rightarrow>
              if accepted = LEX_TK_COUNT then
                LEX_UNKNOWN_TOKEN (butlast (fst buf') @
                  [(last (fst buf'))\<lparr>tok_end := Suc (tok_end (last (fst buf')))\<rparr>])
              else lex_loop mem_ok input prefix_end prefix_end (map restart rs') buf'
      else
        let accepted = accepted_token st_curr rs in
        case push_token mem_ok buf \<lparr>tok_tk = accepted, tok_beg = prefix_beg, tok_end = prefix_end\<rparr> of
          None \<Rightarrow> LEX_NOMEM
        | Some buf' \<Rightarrow>
            if accepted = LEX_TK_COUNT then LEX_UNKNOWN_TOKEN (fst buf')
            else case push_token mem_ok buf' \<lparr>tok_tk = LEX_TK_FEND, tok_beg = 0, tok_end = 0\<rparr> of
              None \<Rightarrow> LEX_NOMEM
            | Some buf'' \<Rightarrow> LEX_OK (fst buf''))"
  by pat_completeness auto

text \<open>
  The loop ends: it either consumes a character, or cuts a token, which needs an accepting
  recogniser, and then starts with none accepting.
\<close>

termination
  by (relation "measure (\<lambda>(mem_ok, input, pbeg, pend, rs, buf).
        2 * (length input - pend) + (if \<exists>r \<in> set rs. st_prev r = STS_ACCEPT then 1 else 0))")
    (auto dest!: accepted_token_ex feed_all_prev)

declare lex_loop.simps [simp del]

definition fresh_stat :: lex_stat where
  "fresh_stat = \<lparr>st_prev = STS_HUNGRY, st_curr = STS_REJECT, st_state = 0\<rparr>"

definition lex :: "(nat \<Rightarrow> bool) \<Rightarrow> string \<Rightarrow> lex_result" where
  "lex mem_ok input =
     (case push_token mem_ok ([], 0) \<lparr>tok_tk = LEX_TK_FBEG, tok_beg = 0, tok_end = 0\<rparr> of
        None \<Rightarrow> LEX_NOMEM
      | Some buf \<Rightarrow> lex_loop mem_ok input 0 0 (map (\<lambda>_. fresh_stat) lex_tks) buf)"

subsection \<open>The reference lexer\<close>

text \<open>
  A word is viable if some recogniser has not rejected it, and its kind is the last one in
  the table that accepts it. The reference lexer takes the longest viable prefix of what is
  left of the input, names its kind, and goes on after it.
\<close>

definition status :: "lex_tk \<Rightarrow> string \<Rightarrow> sts_t" where
  "status tk w = fst (run (tk_func tk) w)"

definition viable :: "string \<Rightarrow> bool" where
  "viable w \<longleftrightarrow> (\<exists>tk \<in> set lex_tks. status tk w \<noteq> STS_REJECT)"

definition kind_of :: "string \<Rightarrow> lex_tk" where
  "kind_of w = foldl (\<lambda>acc tk. if status tk w = STS_ACCEPT then tk else acc) LEX_TK_COUNT lex_tks"

fun longest_viable :: "string \<Rightarrow> string \<Rightarrow> string" where
  "longest_viable w [] = w"
| "longest_viable w (c # cs) = (if viable (w @ [c]) then longest_viable (w @ [c]) cs else w)"

lemma status_Nil [simp]: "status tk [] = STS_HUNGRY"
  by (simp add: status_def)

lemma kind_of_Nil [simp]: "kind_of [] = LEX_TK_COUNT"
proof -
  have "foldl (\<lambda>acc tk. if STS_HUNGRY = STS_ACCEPT then tk else acc) d tks = d"
    for d :: lex_tk and tks :: "lex_tk list"
    by (induction tks) auto
  then show ?thesis by (simp add: kind_of_def)
qed

lemma longest_viable_length: "length w \<le> length (longest_viable w cs)"
  by (induction w cs rule: longest_viable.induct) (auto intro: order_trans)

function reference_tokens :: "nat \<Rightarrow> string \<Rightarrow> lex_token list \<times> bool" where
  "reference_tokens off rest =
     (let w = longest_viable [] rest; tk = kind_of w; fin = off + length w in
      if rest = [] then ([], True)
      else if tk = LEX_TK_COUNT
      then ([\<lparr>tok_tk = tk, tok_beg = off, tok_end = (if w = rest then fin else Suc fin)\<rparr>], False)
      else let (ts, ok) = reference_tokens fin (drop (length w) rest)
           in (\<lparr>tok_tk = tk, tok_beg = off, tok_end = fin\<rparr> # ts, ok))"
  by pat_completeness auto

termination
proof (relation "measure (\<lambda>(off, rest). length rest)", goal_cases)
  case (2 off rest w tk fin)
  then have "longest_viable [] rest \<noteq> []" by auto
  with 2 show ?case by simp
qed simp

declare reference_tokens.simps [simp del]

definition reference_lex :: "string \<Rightarrow> lex_result" where
  "reference_lex input =
     (let fbeg = \<lparr>tok_tk = LEX_TK_FBEG, tok_beg = 0, tok_end = 0\<rparr>;
          fend = \<lparr>tok_tk = LEX_TK_FEND, tok_beg = 0, tok_end = 0\<rparr>
      in if input = []
         then LEX_UNKNOWN_TOKEN [fbeg, \<lparr>tok_tk = LEX_TK_COUNT, tok_beg = 0, tok_end = 0\<rparr>]
         else let (ts, ok) = reference_tokens 0 input
              in if ok then LEX_OK (fbeg # ts @ [fend]) else LEX_UNKNOWN_TOKEN (fbeg # ts))"

subsection \<open>The loop follows the reference\<close>

text \<open>The statuses of the recognisers after the token text \<open>w\<close>, and after one more character.\<close>

definition stats_of :: "string \<Rightarrow> lex_stat list" where
  "stats_of w =
     map (\<lambda>tk. \<lparr>st_prev = status tk w, st_curr = (if w = [] then STS_REJECT else status tk w),
                st_state = snd (run (tk_func tk) w)\<rparr>) lex_tks"

definition fed_stats :: "string \<Rightarrow> char \<Rightarrow> lex_stat list" where
  "fed_stats w c =
     map (\<lambda>tk. \<lparr>st_prev = status tk w, st_curr = status tk (w @ [c]),
                st_state = snd (run (tk_func tk) (w @ [c]))\<rparr>) lex_tks"

lemma stats_of_Nil: "stats_of [] = map (\<lambda>_. fresh_stat) lex_tks"
  by (simp add: stats_of_def fresh_stat_def)

lemma feed_all_stats: "feed_all c (stats_of w) = fed_stats w c"
proof -
  have feed: "feed c tk \<lparr>st_prev = status tk w,
        st_curr = (if w = [] then STS_REJECT else status tk w),
        st_state = snd (run (tk_func tk) w)\<rparr>
      = \<lparr>st_prev = status tk w, st_curr = status tk (w @ [c]),
         st_state = snd (run (tk_func tk) (w @ [c]))\<rparr>" for tk
  proof (cases "status tk w = STS_REJECT")
    case True
    then have "run (tk_func tk) (w @ [c]) = run (tk_func tk) w" and "w \<noteq> []"
      by (auto simp: status_def run_reject_append)
    then show ?thesis using True by (simp add: feed_def status_def)
  next
    case False
    then show ?thesis
      by (simp add: feed_def status_def run_snoc run_step_def Let_def)
  qed
  show ?thesis
    by (simp add: feed_all_def stats_of_def fed_stats_def zip_map2 zip_same_conv_map feed)
qed

lemma fed_no_abort: "r \<in> set (fed_stats w c) \<Longrightarrow> st_curr r \<noteq> Sts_abort"
  by (auto simp: fed_stats_def status_def run_not_abort)

lemma did_accept_fed: "did_accept (fed_stats w c) \<longleftrightarrow> viable (w @ [c])"
  by (auto simp: did_accept_def fed_stats_def viable_def)

lemma advance_fed: "map advance (fed_stats w c) = stats_of (w @ [c])"
  by (simp add: fed_stats_def stats_of_def advance_def)

lemma restart_fed: "\<not> viable (w @ [c]) \<Longrightarrow> map restart (fed_stats w c) = stats_of []"
  by (auto simp: fed_stats_def stats_of_def restart_def viable_def status_def run_reject_state)

lemma accepted_fed: "accepted_token st_prev (fed_stats w c) = kind_of w"
  by (simp add: accepted_token_def fed_stats_def kind_of_def zip_map2 zip_same_conv_map foldl_map)

lemma accepted_end: "accepted_token st_curr (stats_of w) = kind_of w"
proof -
  have "(if w = [] then STS_REJECT else status tk w) = STS_ACCEPT \<longleftrightarrow> status tk w = STS_ACCEPT"
    for tk by simp
  then show ?thesis
    by (simp add: accepted_token_def stats_of_def kind_of_def zip_map2 zip_same_conv_map foldl_map)
qed

text \<open>The reference from the middle of a token whose text so far is \<open>w\<close>.\<close>

definition reference_from :: "nat \<Rightarrow> string \<Rightarrow> string \<Rightarrow> lex_token list \<times> bool" where
  "reference_from off w rest =
     (let v = longest_viable w rest; n = length v - length w; fin = off + length v
      in if kind_of v = LEX_TK_COUNT
         then ([\<lparr>tok_tk = LEX_TK_COUNT, tok_beg = off,
                 tok_end = (if n = length rest then fin else Suc fin)\<rparr>], False)
         else let (ts, ok) = reference_tokens fin (drop n rest)
              in (\<lparr>tok_tk = kind_of v, tok_beg = off, tok_end = fin\<rparr> # ts, ok))"

lemma longest_viable_prefix: "\<exists>ys. w @ rest = longest_viable w rest @ ys"
  by (induction w rest rule: longest_viable.induct) auto

lemma longest_viable_full:
  "longest_viable [] rest = rest \<longleftrightarrow> length (longest_viable [] rest) = length rest"
proof
  assume len: "length (longest_viable [] rest) = length rest"
  obtain ys where "rest = longest_viable [] rest @ ys"
    using longest_viable_prefix [of "[]" rest] by auto
  moreover from this have "length ys = 0"
    using len by (metis add_cancel_right_right length_append)
  ultimately show "longest_viable [] rest = rest" by simp
qed simp

lemma reference_tokens_from: "rest \<noteq> [] \<Longrightarrow> reference_tokens off rest = reference_from off [] rest"
  using longest_viable_full [of rest]
  by (simp add: reference_tokens.simps [of off rest] reference_from_def Let_def)

lemma reference_from_step:
  "viable (w @ [c]) \<Longrightarrow> reference_from off w (c # cs) = reference_from off (w @ [c]) cs"
  using longest_viable_length [of "w @ [c]" cs]
  by (simp add: reference_from_def Let_def Suc_diff_Suc drop_Cons' Suc_le_eq)
    (auto simp: drop_Cons')

lemma reference_from_cut:
  "\<not> viable (w @ [c]) \<Longrightarrow> reference_from off w (c # cs) =
     (if kind_of w = LEX_TK_COUNT
      then ([\<lparr>tok_tk = LEX_TK_COUNT, tok_beg = off, tok_end = Suc (off + length w)\<rparr>], False)
      else let (ts, ok) = reference_from (off + length w) [] (c # cs)
           in (\<lparr>tok_tk = kind_of w, tok_beg = off, tok_end = off + length w\<rparr> # ts, ok))"
  by (simp add: reference_from_def [of off w] reference_tokens_from Let_def)

lemma reference_from_Nil:
  "reference_from off w [] =
     (\<lparr>tok_tk = kind_of w, tok_beg = off, tok_end = off + length w\<rparr> # [], kind_of w \<noteq> LEX_TK_COUNT)"
  by (simp add: reference_from_def reference_tokens.simps Let_def)

definition finish :: "token_buf \<Rightarrow> lex_token list \<times> bool \<Rightarrow> lex_result" where
  "finish buf r =
     (if snd r then LEX_OK (fst buf @ fst r @ [\<lparr>tok_tk = LEX_TK_FEND, tok_beg = 0, tok_end = 0\<rparr>])
      else LEX_UNKNOWN_TOKEN (fst buf @ fst r))"

lemma push_token_ok:
  "\<exists>a. push_token (\<lambda>_. True) buf t = Some (fst buf @ [t], a)"
  by (simp add: push_token_def Let_def)

lemma lex_loop_reference:
  assumes "pend \<le> length input" and "pend = pbeg + length w"
    and "rest = drop pend input" and "w @ rest \<noteq> []"
  shows "lex_loop (\<lambda>_. True) input pbeg pend (stats_of w) buf = finish buf (reference_from pbeg w rest)"
  using assms
proof (induction "2 * length rest + (if w = [] then 0 else 1)" arbitrary: pbeg pend w rest buf
    rule: less_induct)
  case less
  note loop = lex_loop.simps [of "\<lambda>_. True" input pbeg pend "stats_of w" buf]
  show ?case
  proof (cases rest)
    case Nil
    then have pend: "pend = length input" using less.prems by simp
    obtain a where push: "push_token (\<lambda>_. True) buf
        \<lparr>tok_tk = kind_of w, tok_beg = pbeg, tok_end = pend\<rparr>
        = Some (fst buf @ [\<lparr>tok_tk = kind_of w, tok_beg = pbeg, tok_end = pend\<rparr>], a)"
      using push_token_ok by blast
    obtain b where push': "push_token (\<lambda>_. True)
        (fst buf @ [\<lparr>tok_tk = kind_of w, tok_beg = pbeg, tok_end = pend\<rparr>], a)
        \<lparr>tok_tk = LEX_TK_FEND, tok_beg = 0, tok_end = 0\<rparr> =
        Some ((fst buf @ [\<lparr>tok_tk = kind_of w, tok_beg = pbeg, tok_end = pend\<rparr>]) @
          [\<lparr>tok_tk = LEX_TK_FEND, tok_beg = 0, tok_end = 0\<rparr>], b)"
      by (metis fst_conv push_token_ok)
    show ?thesis
      using pend Nil less.prems(2) push push'
      by (subst loop) (simp add: accepted_end reference_from_Nil finish_def Let_def)
  next
    case (Cons c cs)
    then have eq: "drop pend input = c # cs" using less.prems(3) by simp
    then have inb: "pend < length input" and c: "input ! pend = c"
      using nth_via_drop [OF eq] by (metis drop_eq_Nil list.distinct(1) not_le, simp)
    have cs: "cs = drop (Suc pend) input"
      using eq by (metis drop_Suc list.sel(3) tl_drop)
    show ?thesis
    proof (cases "viable (w @ [c])")
      case True
      have "lex_loop (\<lambda>_. True) input pbeg (Suc pend) (stats_of (w @ [c])) buf =
          finish buf (reference_from pbeg (w @ [c]) cs)"
        by (rule less.hyps) (use Cons less.prems inb cs in auto)
      then show ?thesis
        using True inb c Cons
        by (subst loop) (auto simp: feed_all_stats did_accept_fed advance_fed Let_def
            reference_from_step dest: fed_no_abort)
    next
      case False
      let ?t = "\<lparr>tok_tk = kind_of w, tok_beg = pbeg, tok_end = pend\<rparr>"
      obtain a where push: "push_token (\<lambda>_. True) buf ?t = Some (fst buf @ [?t], a)"
        using push_token_ok by blast
      have rec: "lex_loop (\<lambda>_. True) input pend pend (stats_of []) (fst buf @ [?t], a) =
          finish (fst buf @ [?t], a) (reference_from pend [] (c # cs))" if "w \<noteq> []"
        by (rule less.hyps) (use Cons less.prems that in auto)
      show ?thesis
      proof (cases "kind_of w = LEX_TK_COUNT")
        case True
        then show ?thesis
          using False inb c Cons push less.prems(2)
          by (subst loop) (auto simp: feed_all_stats did_accept_fed accepted_fed Let_def
              reference_from_cut finish_def dest: fed_no_abort)
      next
        case k: False
        then have "w \<noteq> []" by auto
        then show ?thesis
          using False k inb c Cons push rec less.prems(2)
          by (subst loop) (auto simp: feed_all_stats did_accept_fed accepted_fed restart_fed Let_def
              reference_from_cut finish_def split: prod.splits dest: fed_no_abort)
      qed
    qed
  qed
qed

lemma lex_reference: "lex (\<lambda>_. True) input = reference_lex input"
proof -
  let ?fbeg = "\<lparr>tok_tk = LEX_TK_FBEG, tok_beg = 0, tok_end = 0\<rparr>"
  obtain a where push: "push_token (\<lambda>_. True) ([], 0) ?fbeg = Some ([?fbeg], a)"
    using push_token_ok [of "([], 0)"] by auto
  show ?thesis
  proof (cases "input = []")
    case True
    obtain b where "push_token (\<lambda>_. True) ([?fbeg], a)
        \<lparr>tok_tk = LEX_TK_COUNT, tok_beg = 0, tok_end = 0\<rparr>
        = Some ([?fbeg] @ [\<lparr>tok_tk = LEX_TK_COUNT, tok_beg = 0, tok_end = 0\<rparr>], b)"
      by (metis fst_conv push_token_ok)
    then show ?thesis
      using push True accepted_end [of "[]"]
      by (simp add: lex_def reference_lex_def lex_loop.simps Let_def flip: stats_of_Nil)
  next
    case False
    then have "lex_loop (\<lambda>_. True) input 0 0 (stats_of []) ([?fbeg], a) =
        finish ([?fbeg], a) (reference_from 0 [] input)"
      by (intro lex_loop_reference) auto
    then show ?thesis
      using push False
      by (simp add: lex_def reference_lex_def reference_tokens_from finish_def Let_def
          split_beta flip: stats_of_Nil)
  qed
qed

text \<open>Running out of memory is the only way the outcome depends on the allocator.\<close>

lemma push_token_cases:
  "push_token mem_ok buf t \<in> {None, push_token (\<lambda>_. True) buf t}"
  by (simp add: push_token_def Let_def)

lemma lex_loop_memory:
  "lex_loop mem_ok input pbeg pend rs buf \<in>
     {lex_loop (\<lambda>_. True) input pbeg pend rs buf, LEX_NOMEM}"
proof (induction mem_ok input pbeg pend rs buf rule: lex_loop.induct)
  case (1 mem_ok input pbeg pend rs buf)
  let ?rs = "feed_all (input ! pend) rs"
  let ?tk = "accepted_token st_prev ?rs" and ?tk' = "accepted_token st_curr rs"
  let ?t = "\<lparr>tok_tk = ?tk, tok_beg = pbeg, tok_end = pend\<rparr>"
    and ?t' = "\<lparr>tok_tk = ?tk', tok_beg = pbeg, tok_end = pend\<rparr>"
  note unfold = lex_loop.simps [of mem_ok input pbeg pend rs buf]
    lex_loop.simps [of "\<lambda>_. True" input pbeg pend rs buf]
  show ?case
  proof (cases "pend < length input")
    case True
    show ?thesis
    proof (cases "did_accept ?rs \<or> (\<exists>r \<in> set ?rs. st_curr r = Sts_abort)")
      case acc: True
      with True show ?thesis
        using "1.IH"(1) [OF True refl] unfolding unfold by (auto simp: Let_def)
    next
      case False
      from push_token_cases [of mem_ok buf ?t]
      consider "push_token mem_ok buf ?t = None"
        | a where "push_token mem_ok buf ?t = push_token (\<lambda>_. True) buf ?t"
          and "push_token (\<lambda>_. True) buf ?t = Some (fst buf @ [?t], a)"
        using push_token_ok [of buf ?t] by auto
      then show ?thesis
      proof cases
        case 1
        with True False show ?thesis unfolding unfold by (auto simp: Let_def)
      next
        case 2
        with True False show ?thesis
          using "1.IH"(2) [OF True refl _ _ refl, of "(fst buf @ [?t], a)"] unfolding unfold
          by (auto simp: Let_def)
      qed
    qed
  next
    case False
    obtain a where push: "push_token (\<lambda>_. True) buf ?t' = Some (fst buf @ [?t'], a)"
      using push_token_ok by blast
    show ?thesis
      using False push push_token_cases [of mem_ok buf ?t']
        push_token_cases [of mem_ok "(fst buf @ [?t'], a)"
          "\<lparr>tok_tk = LEX_TK_FEND, tok_beg = 0, tok_end = 0\<rparr>"]
      unfolding unfold by (auto simp: Let_def split: option.splits)
  qed
qed

lemma lex_memory: "lex mem_ok input \<in> {reference_lex input, LEX_NOMEM}"
proof -
  let ?fbeg = "\<lparr>tok_tk = LEX_TK_FBEG, tok_beg = 0, tok_end = 0\<rparr>"
  have "lex mem_ok input \<in> {lex (\<lambda>_. True) input, LEX_NOMEM}"
  proof (cases "push_token mem_ok ([], 0) ?fbeg")
    case None
    then show ?thesis by (simp add: lex_def)
  next
    case (Some buf)
    then have "push_token (\<lambda>_. True) ([], 0) ?fbeg = Some buf"
      using push_token_cases [of mem_ok "([], 0)" ?fbeg] by simp
    then show ?thesis
      using Some lex_loop_memory [of mem_ok input 0 0 "map (\<lambda>_. fresh_stat) lex_tks" buf]
      by (simp add: lex_def)
  qed
  then show ?thesis by (simp add: lex_reference)
qed

lemma lex_never_aborts: "lex mem_ok input \<noteq> Lex_abort"
  using lex_memory [of mem_ok input] by (auto simp: reference_lex_def Let_def split_beta split: if_split_asm)

text \<open>
  C6. With memory available the lexer returns exactly what the reference lexer returns: the
  token boundaries are those of the longest viable prefixes, every token has the kind that
  comes last in the table among those accepting its text, and the first text that no kind
  accepts is reported as an unknown token. Whatever the allocator does, the only other
  outcome is the out-of-memory error: no input makes the lexer reach one of the
  \<^verbatim>\<open>assert(0), abort()\<close> branches of the recognisers.
\<close>

theorem lex_matches_reference:
  "lex (\<lambda>_. True) input = reference_lex input \<and>
   lex mem_ok input \<in> {reference_lex input, LEX_NOMEM} - {Lex_abort}"
  using lex_memory [of mem_ok input]
  by (auto simp: lex_reference reference_lex_def Let_def split_beta)

subsection \<open>What a successful run gives\<close>

definition text_of :: "string \<Rightarrow> lex_token \<Rightarrow> string" where
  "text_of input t = take (tok_end t - tok_beg t) (drop (tok_beg t) input)"

text \<open>The tokens lie end to end from offset \<open>off\<close>, none empty, each of an accepting kind.\<close>

fun tiled :: "string \<Rightarrow> nat \<Rightarrow> lex_token list \<Rightarrow> bool" where
  "tiled input off [] \<longleftrightarrow> off = length input"
| "tiled input off (t # ts) \<longleftrightarrow>
     tok_beg t = off \<and> off < tok_end t \<and> tok_end t \<le> length input \<and>
     tok_tk t \<in> set lex_tks \<and> status (tok_tk t) (text_of input t) = STS_ACCEPT \<and>
     tiled input (tok_end t) ts"

lemma foldl_last_in:
  "foldl (\<lambda>acc tk. if P tk then tk else acc) d tks \<in> insert d {tk \<in> set tks. P tk}"
  by (induction tks rule: rev_induct) auto

lemma kind_of_accepts:
  "kind_of w \<noteq> LEX_TK_COUNT \<Longrightarrow> kind_of w \<in> set lex_tks \<and> status (kind_of w) w = STS_ACCEPT"
  using foldl_last_in [of "\<lambda>tk. status tk w = STS_ACCEPT" LEX_TK_COUNT lex_tks]
  by (auto simp: kind_of_def)

lemma reference_tiled:
  assumes "reference_tokens off rest = (ts, True)" and "rest = drop off input"
    and "off \<le> length input"
  shows "tiled input off ts"
  using assms
proof (induction off rest arbitrary: ts rule: reference_tokens.induct)
  case (1 off rest)
  let ?w = "longest_viable [] rest"
  show ?case
  proof (cases "rest = []")
    case True
    then show ?thesis using 1 by (simp add: reference_tokens.simps)
  next
    case False
    obtain ys where ys: "rest = ?w @ ys" using longest_viable_prefix [of "[]" rest] by auto
    have k: "kind_of ?w \<noteq> LEX_TK_COUNT"
      using 1(2) False by (auto simp: reference_tokens.simps [of off] Let_def)
    then have w: "?w \<noteq> []" by auto
    obtain ts' where ts': "reference_tokens (off + length ?w) (drop (length ?w) rest) = (ts', True)"
      and ts: "ts = \<lparr>tok_tk = kind_of ?w, tok_beg = off, tok_end = off + length ?w\<rparr> # ts'"
      using 1(2) False k by (auto simp: reference_tokens.simps [of off] Let_def split: prod.splits)
    have len: "off + length ?w \<le> length input"
      using arg_cong [OF ys, of length] 1(3,4) False by simp
    have "text_of input \<lparr>tok_tk = kind_of ?w, tok_beg = off, tok_end = off + length ?w\<rparr> = ?w"
      using ys 1(3) by (simp add: text_of_def) (metis append_eq_conv_conj)
    moreover have "tiled input (off + length ?w) ts'"
      by (rule "1.IH" [OF refl refl refl False k _ ])
        (use ts' 1(3) len in \<open>simp_all add: drop_drop add.commute\<close>)
    ultimately show ?thesis
      using kind_of_accepts [OF k] len w by (simp add: ts)
  qed
qed

lemma lex_ok_tiled:
  assumes "lex mem_ok input = LEX_OK toks"
  shows "\<exists>mid. toks = \<lparr>tok_tk = LEX_TK_FBEG, tok_beg = 0, tok_end = 0\<rparr> # mid @
      [\<lparr>tok_tk = LEX_TK_FEND, tok_beg = 0, tok_end = 0\<rparr>] \<and> tiled input 0 mid"
  using assms lex_memory [of mem_ok input] reference_tiled [of 0 input _ input]
  by (auto simp: reference_lex_def Let_def split: if_splits prod.splits)

lemma tiled_concat:
  "tiled input off ts \<Longrightarrow> concat (map (text_of input) ts) = drop off input"
proof (induction ts arbitrary: off)
  case (Cons t ts)
  have "text_of input t @ drop (tok_end t) input = drop off input"
    using Cons.prems by (simp add: text_of_def) (metis append_take_drop_id drop_drop
        le_add_diff_inverse2 less_imp_le_nat)
  then show ?case using Cons.IH [of "tok_end t"] Cons.prems by simp
qed simp

text \<open>
  C24. A successful run returns the begin marker, tokens, and the end marker, and the
  texts of the tokens put together are the input: nothing is lost, nothing is read twice,
  no token is empty, and the recogniser of each token's kind accepts its text.
\<close>

theorem lex_tiles_input:
  assumes "lex mem_ok input = LEX_OK toks"
  shows "\<exists>mid. map tok_tk toks = LEX_TK_FBEG # map tok_tk mid @ [LEX_TK_FEND] \<and>
    toks = hd toks # mid @ [last toks] \<and>
    concat (map (text_of input) mid) = input \<and>
    (\<forall>t \<in> set mid. text_of input t \<noteq> [] \<and> tok_tk t \<in> set lex_tks \<and>
       status (tok_tk t) (text_of input t) = STS_ACCEPT)"
proof -
  obtain mid where toks: "toks = \<lparr>tok_tk = LEX_TK_FBEG, tok_beg = 0, tok_end = 0\<rparr> # mid @
      [\<lparr>tok_tk = LEX_TK_FEND, tok_beg = 0, tok_end = 0\<rparr>]" and tiled: "tiled input 0 mid"
    using lex_ok_tiled [OF assms] by blast
  have each: "\<forall>t \<in> set mid. text_of input t \<noteq> [] \<and> tok_tk t \<in> set lex_tks \<and>
      status (tok_tk t) (text_of input t) = STS_ACCEPT" if "tiled input off mid" for off
    using that by (induction mid arbitrary: off) (auto simp: text_of_def)
  show ?thesis
    using toks tiled_concat [OF tiled] each [OF tiled] by (intro exI [of _ mid]) simp
qed

theorem lex_tiles_input_witness:
  "\<exists>mid. map tok_tk [\<lparr>tok_tk = LEX_TK_FBEG, tok_beg = 0, tok_end = 0\<rparr>,
      \<lparr>tok_tk = LEX_TK_COND, tok_beg = 0, tok_end = 2\<rparr>,
      \<lparr>tok_tk = LEX_TK_SCOL, tok_beg = 2, tok_end = 3\<rparr>,
      \<lparr>tok_tk = LEX_TK_FEND, tok_beg = 0, tok_end = 0\<rparr>] =
    LEX_TK_FBEG # map tok_tk mid @ [LEX_TK_FEND] \<and>
    concat (map (text_of ''if;'') mid) = ''if;''"
proof -
  have "lex (\<lambda>_. True) ''if;'' = LEX_OK [\<lparr>tok_tk = LEX_TK_FBEG, tok_beg = 0, tok_end = 0\<rparr>,
      \<lparr>tok_tk = LEX_TK_COND, tok_beg = 0, tok_end = 2\<rparr>,
      \<lparr>tok_tk = LEX_TK_SCOL, tok_beg = 2, tok_end = 3\<rparr>,
      \<lparr>tok_tk = LEX_TK_FEND, tok_beg = 0, tok_end = 0\<rparr>]"
    by code_simp
  from lex_tiles_input [OF this] show ?thesis
    by (elim ex_forward conjE) (intro conjI)
qed

end
