(* ===== verification/Parse.thy ===== *)
theory Parse
  imports Lex
begin

text \<open>
  The shift-reduce parser of \<^verbatim>\<open>src/parse.c\<close>: the grammar table, the matcher that looks for
  a rule's right-hand side on top of the stack, the look-ahead decisions that resolve
  precedence, and the loop. The stack is a list with its top first. Reading the token array
  past its end is the outcome \<open>Parse_overrun\<close>; the outcome of the k-th allocation is the
  parameter \<open>mem_ok k\<close>.
\<close>

subsection \<open>The grammar\<close>

datatype (plugins only: code) parse_nt =
    PARSE_NT_Unit | PARSE_NT_Stmt | PARSE_NT_Ctrl | PARSE_NT_Cond | PARSE_NT_Elif
  | PARSE_NT_Else | PARSE_NT_Dowh | PARSE_NT_Whil | PARSE_NT_Func | PARSE_NT_Qual
  | PARSE_NT_Atom | PARSE_NT_Expr | PARSE_NT_Fexp | PARSE_NT_Pexp | PARSE_NT_Texp
  | PARSE_NT_Bexp | PARSE_NT_Uexp | PARSE_NT_Xexp | PARSE_NT_Wexp | PARSE_NT_Aexp

datatype parse_node =
    Leaf lex_token
  | Node parse_nt "parse_node list"

text \<open>A term of a right-hand side: a token, a nonterminal, or any number of one nonterminal.\<close>

datatype gterm = T lex_tk | N parse_nt | M parse_nt

text \<open>A right-hand side, without the padding that C puts in front of it.\<close>

record rule =
  lhs :: parse_nt
  rhs :: "gterm list"

abbreviation rl :: "parse_nt \<Rightarrow> gterm list \<Rightarrow> rule" where
  "rl l r \<equiv> \<lparr>lhs = l, rhs = r\<rparr>"

definition bexp :: "lex_tk \<Rightarrow> rule" where
  "bexp tk = rl PARSE_NT_Bexp [N PARSE_NT_Expr, T tk, N PARSE_NT_Expr]"

definition uexp :: "lex_tk \<Rightarrow> rule" where
  "uexp tk = rl PARSE_NT_Uexp [T tk, N PARSE_NT_Expr]"

definition binary_ops :: "lex_tk list" where
  "binary_ops = [LEX_TK_ASSN, LEX_TK_ASPL, LEX_TK_ASMI, LEX_TK_ASMU, LEX_TK_ASDI, LEX_TK_ASMO,
     LEX_TK_ASLS, LEX_TK_ASRS, LEX_TK_ASAN, LEX_TK_ASXO, LEX_TK_ASOR, LEX_TK_COLN, LEX_TK_SCOP,
     LEX_TK_ATSI, LEX_TK_MEMB, LEX_TK_AROW, LEX_TK_EQUL, LEX_TK_NEQL, LEX_TK_LTHN, LEX_TK_GTHN,
     LEX_TK_LTEQ, LEX_TK_GTEQ, LEX_TK_CONJ, LEX_TK_DISJ, LEX_TK_PLUS, LEX_TK_MINS, LEX_TK_MULT,
     LEX_TK_DIVI, LEX_TK_MODU, LEX_TK_LSHF, LEX_TK_RSHF, LEX_TK_AMPS, LEX_TK_CARE, LEX_TK_PIPE,
     LEX_TK_COMA, LEX_TK_CAST]"

definition grammar_stmts :: "rule list" where
  "grammar_stmts = [
    rl PARSE_NT_Unit [T LEX_TK_FBEG, M PARSE_NT_Stmt, T LEX_TK_FEND],
    rl PARSE_NT_Stmt [T LEX_TK_WAIT, N PARSE_NT_Expr, T LEX_TK_WFOR, N PARSE_NT_Expr, T LEX_TK_SCOL],
    rl PARSE_NT_Stmt [T LEX_TK_WAIT, N PARSE_NT_Expr, T LEX_TK_WFOR, N PARSE_NT_Expr, T LEX_TK_WNOB,
      T LEX_TK_SCOL],
    rl PARSE_NT_Stmt [T LEX_TK_WAIT, N PARSE_NT_Expr, T LEX_TK_WUNT, N PARSE_NT_Expr, T LEX_TK_SCOL],
    rl PARSE_NT_Stmt [T LEX_TK_WAIT, N PARSE_NT_Expr, T LEX_TK_WUNT, N PARSE_NT_Expr, T LEX_TK_WNOB,
      T LEX_TK_SCOL],
    rl PARSE_NT_Stmt [T LEX_TK_WAIT, N PARSE_NT_Expr, T LEX_TK_SCOL],
    rl PARSE_NT_Stmt [T LEX_TK_WAIT, N PARSE_NT_Expr, T LEX_TK_WNOB, T LEX_TK_SCOL],
    rl PARSE_NT_Stmt [T LEX_TK_RETN, N PARSE_NT_Expr, T LEX_TK_SCOL],
    rl PARSE_NT_Stmt [T LEX_TK_RETN, T LEX_TK_SCOL],
    rl PARSE_NT_Stmt [T LEX_TK_USEU, N PARSE_NT_Expr, T LEX_TK_SCOL],
    rl PARSE_NT_Stmt [T LEX_TK_EXPO, T LEX_TK_TYPE, N PARSE_NT_Expr, T LEX_TK_SCOL],
    rl PARSE_NT_Stmt [T LEX_TK_TYPE, N PARSE_NT_Expr, T LEX_TK_SCOL],
    rl PARSE_NT_Ctrl [N PARSE_NT_Cond, M PARSE_NT_Elif],
    rl PARSE_NT_Ctrl [N PARSE_NT_Cond, M PARSE_NT_Elif, N PARSE_NT_Else],
    rl PARSE_NT_Ctrl [N PARSE_NT_Dowh],
    rl PARSE_NT_Ctrl [N PARSE_NT_Whil],
    rl PARSE_NT_Cond [T LEX_TK_COND, N PARSE_NT_Expr, T LEX_TK_LBRC, M PARSE_NT_Stmt, T LEX_TK_RBRC],
    rl PARSE_NT_Elif [T LEX_TK_ELIF, N PARSE_NT_Expr, T LEX_TK_LBRC, M PARSE_NT_Stmt, T LEX_TK_RBRC],
    rl PARSE_NT_Else [T LEX_TK_ELSE, T LEX_TK_LBRC, M PARSE_NT_Stmt, T LEX_TK_RBRC],
    rl PARSE_NT_Dowh [T LEX_TK_DOWH, T LEX_TK_LBRC, M PARSE_NT_Stmt, T LEX_TK_RBRC, T LEX_TK_WHIL,
      N PARSE_NT_Expr, T LEX_TK_SCOL],
    rl PARSE_NT_Whil [T LEX_TK_WHIL, N PARSE_NT_Expr, T LEX_TK_LBRC, M PARSE_NT_Stmt, T LEX_TK_RBRC],
    rl PARSE_NT_Stmt [M PARSE_NT_Qual, N PARSE_NT_Expr, T LEX_TK_SCOL],
    rl PARSE_NT_Stmt [N PARSE_NT_Ctrl],
    rl PARSE_NT_Stmt [N PARSE_NT_Func],
    rl PARSE_NT_Func [M PARSE_NT_Qual, N PARSE_NT_Expr, T LEX_TK_LBRC, M PARSE_NT_Stmt, T LEX_TK_RBRC],
    rl PARSE_NT_Stmt [T LEX_TK_NOIN, T LEX_TK_LBRC, M PARSE_NT_Stmt, T LEX_TK_RBRC],
    rl PARSE_NT_Stmt [T LEX_TK_LBRC, M PARSE_NT_Stmt, T LEX_TK_RBRC],
    rl PARSE_NT_Qual [T LEX_TK_CONS],
    rl PARSE_NT_Qual [T LEX_TK_EXPO],
    rl PARSE_NT_Qual [T LEX_TK_STAT]]"

definition grammar_prims :: "rule list" where
  "grammar_prims = [
    rl PARSE_NT_Atom [T LEX_TK_NAME],
    rl PARSE_NT_Atom [T LEX_TK_NMBR],
    rl PARSE_NT_Atom [T LEX_TK_STRL],
    rl PARSE_NT_Expr [N PARSE_NT_Atom],
    rl PARSE_NT_Expr [N PARSE_NT_Fexp],
    rl PARSE_NT_Expr [N PARSE_NT_Pexp],
    rl PARSE_NT_Expr [N PARSE_NT_Texp],
    rl PARSE_NT_Expr [N PARSE_NT_Bexp],
    rl PARSE_NT_Expr [N PARSE_NT_Uexp],
    rl PARSE_NT_Expr [N PARSE_NT_Xexp],
    rl PARSE_NT_Expr [N PARSE_NT_Wexp],
    rl PARSE_NT_Expr [N PARSE_NT_Aexp],
    rl PARSE_NT_Fexp [N PARSE_NT_Expr, T LEX_TK_LPAR, N PARSE_NT_Expr, T LEX_TK_RPAR],
    rl PARSE_NT_Fexp [N PARSE_NT_Expr, T LEX_TK_LPAR, T LEX_TK_RPAR],
    rl PARSE_NT_Pexp [T LEX_TK_LPAR, N PARSE_NT_Expr, T LEX_TK_RPAR],
    rl PARSE_NT_Texp [N PARSE_NT_Expr, T LEX_TK_QUES, N PARSE_NT_Expr, T LEX_TK_COLN, N PARSE_NT_Expr]]"

definition grammar_exprs :: "rule list" where
  "grammar_exprs =
   map uexp [LEX_TK_PLUS, LEX_TK_MINS, LEX_TK_EXCL, LEX_TK_TILD, LEX_TK_MULT, LEX_TK_AMPS,
     LEX_TK_CARE, LEX_TK_INCR, LEX_TK_DECR, LEX_TK_SZOF, LEX_TK_ALOF] @
   [rl PARSE_NT_Xexp [N PARSE_NT_Expr, T LEX_TK_INCR],
    rl PARSE_NT_Xexp [N PARSE_NT_Expr, T LEX_TK_DECR],
    rl PARSE_NT_Wexp [N PARSE_NT_Expr, T LEX_TK_WMSE],
    rl PARSE_NT_Wexp [N PARSE_NT_Expr, T LEX_TK_WSEC],
    rl PARSE_NT_Aexp [N PARSE_NT_Expr, T LEX_TK_LBRA, N PARSE_NT_Expr, T LEX_TK_RBRA],
    rl PARSE_NT_Stmt [T LEX_TK_LBRA, N PARSE_NT_Expr, T LEX_TK_RBRA]]"

definition grammar :: "rule list" where
  "grammar = grammar_stmts @ grammar_prims @ map bexp binary_ops @ grammar_exprs"

lemmas grammar_unfold = grammar_def grammar_stmts_def grammar_prims_def grammar_exprs_def binary_ops_def bexp_def uexp_def

text \<open>The binding strength of the operators from \<open>LEX_TK_ASSN\<close> to \<open>LEX_TK_QUES\<close>; less is tighter.\<close>

definition precedence :: "nat list" where
  "precedence = [14, 14, 14, 14, 14, 14, 14, 14, 14, 14, 14, 1, 0, 2, 1, 1, 7, 7, 6, 6, 6, 6,
    11, 12, 4, 4, 3, 3, 3, 5, 5, 8, 9, 10, 15, 2, 13]"

definition prec :: "lex_tk \<Rightarrow> nat" where
  "prec tk = precedence ! (tk_code tk - tk_code LEX_TK_ASSN)"

lemma precedence_size: "length precedence = Suc (tk_code LEX_TK_QUES - tk_code LEX_TK_ASSN)"
  by (simp add: precedence_def)

subsection \<open>Matching a rule on the stack\<close>

definition skip_token :: "lex_tk \<Rightarrow> bool" where
  "skip_token tk \<longleftrightarrow> tk = LEX_TK_WSPC \<or> tk = LEX_TK_LCOM \<or> tk = LEX_TK_BCOM"

fun term_eq_node :: "gterm \<Rightarrow> parse_node \<Rightarrow> bool" where
  "term_eq_node (T tk) (Leaf tok) \<longleftrightarrow> tk = tok_tk tok"
| "term_eq_node (N nt) (Node nt' _) \<longleftrightarrow> nt = nt'"
| "term_eq_node (M nt) (Node nt' _) \<longleftrightarrow> nt = nt'"
| "term_eq_node _ _ \<longleftrightarrow> False"

fun is_mt :: "gterm \<Rightarrow> bool" where
  "is_mt (M _) \<longleftrightarrow> True"
| "is_mt _ \<longleftrightarrow> False"

text \<open>
  The loop of \<^verbatim>\<open>match_rule\<close>: the terms still to match, last first; the stack below what is
  matched; and the repeatable term matched just before. \<open>None\<close> is the mismatch exit.
\<close>

fun match_loop :: "gterm option \<Rightarrow> gterm list \<Rightarrow> parse_node list \<Rightarrow>
    (gterm option \<times> gterm list \<times> parse_node list) option" where
  "match_loop prev [] st = Some (prev, [], st)"
| "match_loop prev (t # ts) [] = Some (prev, t # ts, [])"
| "match_loop prev (t # ts) (n # st) =
     (if term_eq_node t n then match_loop (if is_mt t then Some t else None) ts st
      else if (case prev of None \<Rightarrow> False | Some p \<Rightarrow> term_eq_node p n)
      then match_loop prev (t # ts) st
      else if is_mt t then match_loop None ts (n # st)
      else None)"

text \<open>The number of nodes the rule covers on top of the stack, 0 when it does not match.\<close>

definition match_rule :: "rule \<Rightarrow> parse_node list \<Rightarrow> nat" where
  "match_rule r st =
     (case match_loop None (rev (rhs r)) st of
        Some (prev, [], rest) \<Rightarrow>
          length st - length (case prev of None \<Rightarrow> rest
                              | Some p \<Rightarrow> dropWhile (term_eq_node p) rest)
      | _ \<Rightarrow> 0)"

subsection \<open>Shifting and reducing\<close>

record pstate =
  p_stack :: "parse_node list"
  p_allocated :: nat
  p_token_idx :: nat
  p_requests :: nat

datatype parse_error = PARSE_NOMEM | PARSE_REJECT | Parse_overrun

definition shift :: "(nat \<Rightarrow> bool) \<Rightarrow> lex_token \<Rightarrow> pstate \<Rightarrow> parse_error + pstate" where
  "shift mem_ok tok s =
     (if length (p_stack s) \<ge> p_allocated s
      then if mem_ok (p_requests s)
           then Inr (s\<lparr>p_stack := Leaf tok # p_stack s,
                        p_allocated := (if p_allocated s = 0 then 1 else p_allocated s) * 8,
                        p_requests := Suc (p_requests s)\<rparr>)
           else Inl PARSE_NOMEM
      else Inr (s\<lparr>p_stack := Leaf tok # p_stack s\<rparr>))"

definition reduce :: "(nat \<Rightarrow> bool) \<Rightarrow> rule \<Rightarrow> nat \<Rightarrow> pstate \<Rightarrow> parse_error + pstate" where
  "reduce mem_ok r sz s =
     (if mem_ok (p_requests s) \<and> mem_ok (Suc (p_requests s))
      then Inr (s\<lparr>p_stack := Node (lhs r) (rev (take sz (p_stack s))) # drop sz (p_stack s),
                   p_requests := p_requests s + 2\<rparr>)
      else Inl PARSE_NOMEM)"

text \<open>The index of the next token that is not skipped, when there is one.\<close>

fun skip_tokens :: "lex_token list \<Rightarrow> nat \<Rightarrow> nat option" where
  "skip_tokens [] i = None"
| "skip_tokens (t # ts) i = (if skip_token (tok_tk t) then skip_tokens ts (Suc i) else Some i)"

definition rule_operator :: "rule \<Rightarrow> lex_tk" where
  "rule_operator r = (case rev (rhs r) of _ # T op # _ \<Rightarrow> op | _ \<Rightarrow> LEX_TK_COUNT)"

definition rule_last :: "rule \<Rightarrow> gterm" where
  "rule_last r = last (rhs r)"

text \<open>The decision of \<^verbatim>\<open>should_shift_pre\<close> for the rule that matched and the token ahead.\<close>

definition shift_ahead :: "rule \<Rightarrow> lex_tk \<Rightarrow> bool" where
  "shift_ahead r ahead =
     (if lhs r = PARSE_NT_Bexp then
        let op = rule_operator r in
        if LEX_TK_ASSN \<le> ahead \<and> ahead \<le> LEX_TK_QUES then
          prec op > prec ahead \<or>
          (prec op = prec ahead \<and>
             (lex_tk_is_assn op \<or> op = LEX_TK_COLN \<or> op = LEX_TK_COMA \<or> op = LEX_TK_SCOP))
        else ahead \<in> {LEX_TK_LPAR, LEX_TK_LBRA, LEX_TK_INCR, LEX_TK_DECR} \<and>
          op \<notin> {LEX_TK_SCOP, LEX_TK_MEMB, LEX_TK_AROW}
      else if lhs r = PARSE_NT_Uexp then
        ahead \<in> {LEX_TK_LPAR, LEX_TK_LBRA, LEX_TK_SCOP, LEX_TK_COLN, LEX_TK_MEMB, LEX_TK_AROW,
          LEX_TK_ATSI, LEX_TK_INCR, LEX_TK_DECR}
      else if lhs r = PARSE_NT_Texp then
        \<not> (lex_tk_is_assn ahead \<or> ahead = LEX_TK_COMA \<or> ahead = LEX_TK_RPAR \<or>
           ahead = LEX_TK_RBRA \<or> ahead = LEX_TK_SCOL)
      else if lhs r = PARSE_NT_Stmt \<and> rule_last r = T LEX_TK_RBRC then ahead = LEX_TK_WHIL
      else if lhs r = PARSE_NT_Qual then rule_last r = T LEX_TK_EXPO \<and> ahead = LEX_TK_TYPE
      else False)"

definition should_shift_pre ::
    "rule \<Rightarrow> lex_token list \<Rightarrow> nat \<Rightarrow> parse_error + bool \<times> nat" where
  "should_shift_pre r tokens i =
     (if lhs r = PARSE_NT_Unit then Inr (False, i)
      else case skip_tokens (drop i tokens) i of
        None \<Rightarrow> Inl Parse_overrun
      | Some j \<Rightarrow> Inr (shift_ahead r (tok_tk (tokens ! j)), j))"

definition should_shift_post ::
    "rule \<Rightarrow> lex_token list \<Rightarrow> nat \<Rightarrow> parse_error + bool \<times> nat" where
  "should_shift_post r tokens i =
     (if lhs r = PARSE_NT_Unit then Inr (False, i)
      else case skip_tokens (drop i tokens) i of
        None \<Rightarrow> Inl Parse_overrun
      | Some j \<Rightarrow> Inr ((lhs r = PARSE_NT_Cond \<or> lhs r = PARSE_NT_Elif) \<and>
                        tok_tk (tokens ! j) \<in> {LEX_TK_ELIF, LEX_TK_ELSE}, j))"

definition shift_next :: "(nat \<Rightarrow> bool) \<Rightarrow> lex_token list \<Rightarrow> pstate \<Rightarrow> parse_error + pstate" where
  "shift_next mem_ok tokens s =
     (if p_token_idx s < length tokens
      then shift mem_ok (tokens ! p_token_idx s) (s\<lparr>p_token_idx := Suc (p_token_idx s)\<rparr>)
      else Inl Parse_overrun)"

text \<open>
  One round of \<^verbatim>\<open>try_reduce_again\<close>: the first rule that matches is reduced, unless the token
  ahead has to be shifted first, and after a condition a following \<^verbatim>\<open>elif\<close> or \<^verbatim>\<open>else\<close> is
  shifted at once.
\<close>

definition reduce_step ::
    "(nat \<Rightarrow> bool) \<Rightarrow> lex_token list \<Rightarrow> rule \<Rightarrow> pstate \<Rightarrow> parse_error + pstate" where
  "reduce_step mem_ok tokens r s =
     bind_r (should_shift_pre r tokens (p_token_idx s)) (\<lambda>(do_shift, i).
     let s = s\<lparr>p_token_idx := i\<rparr> in
     if do_shift then shift_next mem_ok tokens s
     else bind_r (reduce mem_ok r (match_rule r (p_stack s)) s) (\<lambda>s.
       bind_r (should_shift_post r tokens (p_token_idx s)) (\<lambda>(do_shift, i).
       let s = s\<lparr>p_token_idx := i\<rparr> in
       if do_shift then shift_next mem_ok tokens s else Inr s)))"

definition matching_rule :: "parse_node list \<Rightarrow> rule option" where
  "matching_rule st = find (\<lambda>r. match_rule r st \<noteq> 0) grammar"

subsection \<open>What a match covers\<close>

text \<open>The nodes in order are an instance of the right-hand side.\<close>

inductive fits :: "gterm list \<Rightarrow> parse_node list \<Rightarrow> bool" where
  fits_Nil: "fits [] []"
| fits_T: "fits ts ns \<Longrightarrow> fits (T (tok_tk tok) # ts) (Leaf tok # ns)"
| fits_N: "fits ts ns \<Longrightarrow> fits (N nt # ts) (Node nt cs # ns)"
| fits_M: "\<forall>m \<in> set ms. term_eq_node (M nt) m \<Longrightarrow> fits ts ns \<Longrightarrow> fits (M nt # ts) (ms @ ns)"

inductive_cases fits_NilE: "fits [] ns"
inductive_simps fits_T_iff: "fits (T tk # ts) ns"
inductive_simps fits_N_iff: "fits (N nt # ts) ns"
inductive_simps fits_M_iff: "fits (M nt # ts) ns"

lemma fits_append: "fits a x \<Longrightarrow> fits b y \<Longrightarrow> fits (a @ b) (x @ y)"
  by (induction rule: fits.induct) (auto intro: fits.intros)

lemma fits_M_run: "\<forall>m \<in> set ms. term_eq_node (M nt) m \<Longrightarrow> fits [M nt] ms"
  using fits_M [OF _ fits_Nil, of ms nt] by simp

lemma fits_single: "term_eq_node t n \<Longrightarrow> fits [t] [n]"
  by (cases t; cases n) (auto intro: fits.intros fits_M_run)

lemma fits_rev: "fits ts ns \<Longrightarrow> fits (rev ts) (rev ns)"
proof (induction rule: fits.induct)
  case (fits_T ts ns tok)
  then show ?case using fits_append [of "rev ts" "rev ns"] fits_single [of "T (tok_tk tok)" "Leaf tok"]
    by simp
next
  case (fits_N ts ns nt cs)
  then show ?case using fits_append [of "rev ts" "rev ns"] fits_single [of "N nt" "Node nt cs"]
    by simp
next
  case (fits_M ms nt ts ns)
  then show ?case using fits_append [of "rev ts" "rev ns"] fits_M_run [of "rev ms" nt]
    by simp
qed (simp add: fits_Nil)

lemma fits_extend:
  "fits ds ms \<Longrightarrow> ds \<noteq> [] \<Longrightarrow> last ds = M nt \<Longrightarrow> \<forall>n \<in> set ns. term_eq_node (M nt) n \<Longrightarrow> fits ds (ms @ ns)"
proof (induction rule: fits.induct)
  case (fits_M ms' nt' ts ns')
  then show ?case
    by (cases ts) (auto elim!: fits_NilE intro: fits.fits_M intro!: fits_M_run)
qed (auto intro: fits.intros split: if_splits elim!: fits_NilE)

text \<open>\<open>prev\<close> is the repeatable term that was matched last.\<close>

definition prev_ok :: "gterm option \<Rightarrow> gterm list \<Rightarrow> bool" where
  "prev_ok prev ds \<longleftrightarrow> (\<forall>p. prev = Some p \<longrightarrow> ds \<noteq> [] \<and> last ds = p \<and> is_mt p)"

lemma is_mt_iff: "is_mt t \<longleftrightarrow> (\<exists>nt. t = M nt)"
  by (cases t) auto

lemma match_loop_sound:
  "match_loop prev ts st = Some (prev', ts', st') \<Longrightarrow> fits ds ms \<Longrightarrow> prev_ok prev ds \<Longrightarrow>
    \<exists>ds' ms'. ts = ds' @ ts' \<and> st = ms' @ st' \<and> fits (ds @ ds') (ms @ ms') \<and> prev_ok prev' (ds @ ds')"
proof (induction prev ts st arbitrary: ds ms rule: match_loop.induct)
  case (3 prev t ts n st)
  show ?case
  proof (cases "term_eq_node t n")
    case True
    have "fits (ds @ [t]) (ms @ [n])"
      by (rule fits_append [OF "3.prems"(2) fits_single [OF True]])
    moreover have "prev_ok (if is_mt t then Some t else None) (ds @ [t])"
      by (simp add: prev_ok_def)
    moreover have "match_loop (if is_mt t then Some t else None) ts st = Some (prev', ts', st')"
      using "3.prems"(1) True by simp
    ultimately obtain ds' ms' where "ts = ds' @ ts'" "st = ms' @ st'"
      "fits ((ds @ [t]) @ ds') ((ms @ [n]) @ ms')" "prev_ok prev' ((ds @ [t]) @ ds')"
      using "3.IH"(1) [OF True] by metis
    then show ?thesis by (intro exI [of _ "t # ds'"] exI [of _ "n # ms'"]) simp
  next
    case no: False
    show ?thesis
    proof (cases "\<exists>p. prev = Some p \<and> term_eq_node p n")
      case True
      then obtain p where p: "prev = Some p" "term_eq_node p n" by blast
      then obtain nt where "p = M nt" using "3.prems"(3) by (auto simp: prev_ok_def is_mt_iff)
      then have "fits ds (ms @ [n])"
        using "3.prems"(2,3) p by (intro fits_extend) (auto simp: prev_ok_def)
      then obtain ds' ms' where "t # ts = ds' @ ts'" "st = ms' @ st'"
        "fits (ds @ ds') ((ms @ [n]) @ ms')" "prev_ok prev' (ds @ ds')"
        using "3.IH"(2) [OF no] "3.prems"(1,3) no p by fastforce
      then show ?thesis by (intro exI [of _ ds'] exI [of _ "n # ms'"]) simp
    next
      case False
      then have m: "is_mt t" and rec: "match_loop None ts (n # st) = Some (prev', ts', st')"
        using "3.prems"(1) no by (auto split: option.splits if_splits)
      then have "fits (ds @ [t]) ms"
        using fits_append [OF "3.prems"(2) fits_M_run [of "[]"]] by (auto simp: is_mt_iff)
      moreover have "prev_ok None (ds @ [t])" by (simp add: prev_ok_def)
      moreover have "\<not> (case prev of None \<Rightarrow> False | Some p \<Rightarrow> term_eq_node p n)"
        using False by (cases prev) auto
      ultimately obtain ds' ms' where "ts = ds' @ ts'" "n # st = ms' @ st'"
        "fits ((ds @ [t]) @ ds') (ms @ ms')" "prev_ok prev' ((ds @ [t]) @ ds')"
        using "3.IH"(3) [OF no _ m rec] by metis
      then show ?thesis by (intro exI [of _ "t # ds'"] exI [of _ ms']) simp
    qed
  qed
qed auto

lemma match_rule_fits:
  assumes "match_rule r st = k" and "k \<noteq> 0"
  shows "fits (rhs r) (rev (take k st)) \<and> k \<le> length st"
proof -
  obtain prev rest where loop: "match_loop None (rev (rhs r)) st = Some (prev, [], rest)"
    and k: "k = length st - length (case prev of None \<Rightarrow> rest | Some p \<Rightarrow> dropWhile (term_eq_node p) rest)"
    using assms by (auto simp: match_rule_def split: option.splits list.splits prod.splits)
  obtain ms where ms: "st = ms @ rest" "fits (rev (rhs r)) ms" "prev_ok prev (rev (rhs r))"
    using match_loop_sound [OF loop fits_Nil] by (auto simp: prev_ok_def)
  have "fits (rev (rhs r)) (take k st)"
  proof (cases prev)
    case None
    then show ?thesis using ms k by simp
  next
    case (Some p)
    then obtain nt where p: "p = M nt" using ms(3) by (auto simp: prev_ok_def is_mt_iff)
    have "take k st = ms @ takeWhile (term_eq_node p) rest"
    proof -
      have "length rest = length (takeWhile (term_eq_node p) rest) + length (dropWhile (term_eq_node p) rest)"
        by (metis length_append takeWhile_dropWhile_id)
      then have "k = length (ms @ takeWhile (term_eq_node p) rest)" using k Some ms(1) by simp
      moreover have "st = (ms @ takeWhile (term_eq_node p) rest) @ dropWhile (term_eq_node p) rest"
        using ms(1) by simp
      ultimately show ?thesis by (metis append_eq_conv_conj)
    qed
    moreover have "fits (rev (rhs r)) (ms @ takeWhile (term_eq_node p) rest)"
      using ms(2,3) Some p by (intro fits_extend) (auto simp: prev_ok_def dest: set_takeWhileD)
    ultimately show ?thesis by simp
  qed
  then show ?thesis using fits_rev k by fastforce
qed

subsection \<open>The loops and their termination\<close>

text \<open>
  Every reduction lowers the sum of the nodes' ranks: a rule either has a token, the
  heaviest kind of node, or is one of the unit rules, which go down
  \<open>Dowh \<rightarrow> Ctrl \<rightarrow> Stmt\<close>, \<open>Atom \<rightarrow> Expr\<close> and so on. A shift adds one token's weight but takes a
  token from the input.
\<close>

fun nt_rank :: "parse_nt \<Rightarrow> nat" where
  "nt_rank PARSE_NT_Cond = 3"
| "nt_rank PARSE_NT_Dowh = 3"
| "nt_rank PARSE_NT_Whil = 3"
| "nt_rank PARSE_NT_Expr = 1"
| "nt_rank PARSE_NT_Stmt = 1"
| "nt_rank PARSE_NT_Unit = 1"
| "nt_rank PARSE_NT_Qual = 1"
| "nt_rank PARSE_NT_Elif = 1"
| "nt_rank PARSE_NT_Else = 1"
| "nt_rank _ = 2"

fun node_rank :: "parse_node \<Rightarrow> nat" where
  "node_rank (Leaf _) = 4"
| "node_rank (Node nt _) = nt_rank nt"

fun term_rank :: "gterm \<Rightarrow> nat" where
  "term_rank (T _) = 4"
| "term_rank (N nt) = nt_rank nt"
| "term_rank (M _) = 0"

definition ranks :: "parse_node list \<Rightarrow> nat" where
  "ranks ns = sum_list (map node_rank ns)"

lemma fits_rank: "fits ts ns \<Longrightarrow> sum_list (map term_rank ts) \<le> ranks ns"
  by (induction rule: fits.induct) (auto simp: ranks_def)

lemma grammar_ranks: "list_all (\<lambda>r. nt_rank (lhs r) < sum_list (map term_rank (rhs r))) grammar"
  by (simp add: grammar_unfold)

lemma matching_rule_SomeD:
  "matching_rule st = Some r \<Longrightarrow> r \<in> set grammar \<and> match_rule r st \<noteq> 0"
  by (auto simp: matching_rule_def find_Some_iff)

lemma reduce_ranks:
  assumes "reduce mem_ok r (match_rule r (p_stack s)) s = Inr s'"
    and "r \<in> set grammar" and "match_rule r (p_stack s) \<noteq> 0"
  shows "ranks (p_stack s') < ranks (p_stack s) \<and> p_token_idx s' = p_token_idx s"
proof -
  let ?k = "match_rule r (p_stack s)"
  have "nt_rank (lhs r) < ranks (rev (take ?k (p_stack s)))"
    using grammar_ranks assms(2) fits_rank [OF conjunct1 [OF match_rule_fits [OF refl assms(3)]]]
    by (fastforce simp: list_all_iff)
  moreover have "ranks (p_stack s) = ranks (take ?k (p_stack s)) + ranks (drop ?k (p_stack s))"
    by (metis append_take_drop_id map_append ranks_def sum_list_append)
  ultimately show ?thesis
    using assms(1) by (auto simp: reduce_def ranks_def rev_map [symmetric] split: if_splits)
qed

definition work :: "lex_token list \<Rightarrow> pstate \<Rightarrow> nat" where
  "work tokens s = 5 * (length tokens - p_token_idx s) + ranks (p_stack s)"

lemma skip_tokens_bounds: "skip_tokens ts i = Some j \<Longrightarrow> i \<le> j \<and> j < i + length ts"
  by (induction ts i rule: skip_tokens.induct) (auto split: if_splits)

lemma skip_tokens_drop:
  "skip_tokens (drop i ts) i = Some j \<Longrightarrow> i \<le> j \<and> j < length ts"
  using skip_tokens_bounds [of "drop i ts" i j] by (cases "i < length ts") auto

lemma should_shift_idx:
  "should_shift_pre r tokens i = Inr (b, j) \<Longrightarrow> i \<le> j"
  "should_shift_post r tokens i = Inr (b, j) \<Longrightarrow> i \<le> j"
  by (auto simp: should_shift_pre_def should_shift_post_def dest: skip_tokens_drop
      split: if_splits option.splits)

lemma shift_next_work:
  "shift_next mem_ok tokens s = Inr s' \<Longrightarrow>
    work tokens s' < work tokens s \<and> p_token_idx s' = Suc (p_token_idx s)"
  by (auto simp: shift_next_def shift_def work_def ranks_def split: if_splits)

lemma work_skip: "i \<le> j \<Longrightarrow> p_token_idx s = i \<Longrightarrow> work tokens (s\<lparr>p_token_idx := j\<rparr>) \<le> work tokens s"
  by (simp add: work_def diff_le_mono2)

lemma reduce_step_work:
  assumes "reduce_step mem_ok tokens r s = Inr s'" and "r \<in> set grammar"
    and "match_rule r (p_stack s) \<noteq> 0"
  shows "work tokens s' < work tokens s \<and> p_token_idx s \<le> p_token_idx s'"
proof -
  obtain b i where pre: "should_shift_pre r tokens (p_token_idx s) = Inr (b, i)"
    using assms(1) by (auto simp: reduce_step_def bind_simps)
  let ?s = "s\<lparr>p_token_idx := i\<rparr>"
  have i: "p_token_idx s \<le> i" and le: "work tokens ?s \<le> work tokens s"
    using should_shift_idx(1) [OF pre] work_skip by auto
  show ?thesis
  proof (cases b)
    case True
    then show ?thesis
      using assms(1) pre shift_next_work [of mem_ok tokens ?s s'] i le
      by (auto simp: reduce_step_def)
  next
    case False
    then obtain t b' j where red: "reduce mem_ok r (match_rule r (p_stack ?s)) ?s = Inr t"
      and post: "should_shift_post r tokens (p_token_idx t) = Inr (b', j)"
      and rest: "(if b' then shift_next mem_ok tokens (t\<lparr>p_token_idx := j\<rparr>)
        else Inr (t\<lparr>p_token_idx := j\<rparr>)) = Inr s'"
      using assms(1) pre by (auto simp: reduce_step_def bind_simps Let_def)
    have t: "work tokens t < work tokens ?s" "p_token_idx t = i"
      using reduce_ranks [OF red assms(2)] assms(3) by (auto simp: work_def)
    have j: "work tokens (t\<lparr>p_token_idx := j\<rparr>) \<le> work tokens t" "i \<le> j"
      using should_shift_idx(2) [OF post] work_skip t(2) by auto
    show ?thesis
      using rest t j i le shift_next_work [of mem_ok tokens "t\<lparr>p_token_idx := j\<rparr>" s']
      by (auto split: if_splits)
  qed
qed

function reduce_loop :: "(nat \<Rightarrow> bool) \<Rightarrow> lex_token list \<Rightarrow> pstate \<Rightarrow> parse_error + pstate" where
  "reduce_loop mem_ok tokens s =
     (case matching_rule (p_stack s) of
        None \<Rightarrow> Inr s
      | Some r \<Rightarrow> bind_r (reduce_step mem_ok tokens r s) (reduce_loop mem_ok tokens))"
  by pat_completeness auto

termination
  by (relation "measure (\<lambda>(mem_ok, tokens, s). work tokens s)")
    (auto dest!: matching_rule_SomeD dest: reduce_step_work)

declare reduce_loop.simps [simp del]

lemma reduce_loop_idx:
  "reduce_loop mem_ok tokens s = Inr s' \<Longrightarrow> p_token_idx s \<le> p_token_idx s'"
proof (induction mem_ok tokens s rule: reduce_loop.induct)
  case (1 mem_ok tokens s)
  show ?case
  proof (cases "matching_rule (p_stack s)")
    case None
    then show ?thesis using "1.prems" by (simp add: reduce_loop.simps)
  next
    case (Some r)
    then obtain t where "reduce_step mem_ok tokens r s = Inr t" "reduce_loop mem_ok tokens t = Inr s'"
      using "1.prems" by (auto simp: reduce_loop.simps [of mem_ok tokens s] bind_simps)
    then show ?thesis
      using "1.IH" [OF Some, of t] reduce_step_work matching_rule_SomeD [OF Some] by fastforce
  qed
qed

function parse_loop :: "(nat \<Rightarrow> bool) \<Rightarrow> lex_token list \<Rightarrow> pstate \<Rightarrow> parse_error + pstate" where
  "parse_loop mem_ok tokens s =
     (if p_token_idx s < length tokens then
        if skip_token (tok_tk (tokens ! p_token_idx s))
        then parse_loop mem_ok tokens (s\<lparr>p_token_idx := Suc (p_token_idx s)\<rparr>)
        else bind_r (bind_r (shift_next mem_ok tokens s) (reduce_loop mem_ok tokens))
               (parse_loop mem_ok tokens)
      else Inr s)"
  by pat_completeness auto

termination
  by (relation "measure (\<lambda>(mem_ok, tokens, s). length tokens - p_token_idx s)")
    (auto simp: bind_simps dest!: shift_next_work reduce_loop_idx)

declare parse_loop.simps [simp del]

fun accepted_tree :: "parse_node list \<Rightarrow> parse_error + parse_node" where
  "accepted_tree [Node nt cs] = (if nt = PARSE_NT_Unit then Inr (Node nt cs) else Inl PARSE_REJECT)"
| "accepted_tree _ = Inl PARSE_REJECT"

definition parse :: "(nat \<Rightarrow> bool) \<Rightarrow> lex_token list \<Rightarrow> parse_error + parse_node" where
  "parse mem_ok tokens =
     bind_r (parse_loop mem_ok tokens
        \<lparr>p_stack = [], p_allocated = 0, p_token_idx = 0, p_requests = 0\<rparr>)
       (\<lambda>s. accepted_tree (p_stack s))"

lemma accepted_tree_Inr:
  "accepted_tree st = Inr t \<longleftrightarrow> st = [t] \<and> (\<exists>cs. t = Node PARSE_NT_Unit cs)"
  by (cases st rule: accepted_tree.cases) auto

end
