(* ===== verification/Parse_View.thy ===== *)
theory Parse_View
  imports Parse
begin

text \<open>
  How \<^verbatim>\<open>src/ast.c\<close> takes a parse tree apart by the index of the children: \<open>view\<close> for expressions
  and \<open>sview\<close> for statements; a node with other children than these, where the code would
  read out of bounds or a member of a union that is not set, is \<open>V_bad\<close> or \<open>SV_bad\<close>. The
  lemmas show that what is inside a node is smaller than the node.
\<close>

subsection \<open>Reading parse trees\<close>

datatype expr_shape =
    V_atom lex_token
  | V_pexp parse_node
  | V_fexp parse_node "parse_node option"
  | V_texp parse_node parse_node parse_node
  | V_bexp parse_node lex_tk parse_node
  | V_uexp lex_tk parse_node
  | V_xexp parse_node lex_tk
  | V_wexp parse_node lex_tk
  | V_aexp parse_node parse_node
  | V_bad

definition view_node :: "parse_nt \<Rightarrow> parse_node list \<Rightarrow> expr_shape" where
  "view_node nt cs =
     (if nt = PARSE_NT_Atom then (case cs of [Leaf t] \<Rightarrow> V_atom t | _ \<Rightarrow> V_bad)
      else if nt = PARSE_NT_Pexp then (case cs of [Leaf _, e, Leaf _] \<Rightarrow> V_pexp e | _ \<Rightarrow> V_bad)
      else if nt = PARSE_NT_Fexp then
        (case cs of [l, Leaf _, r, Leaf _] \<Rightarrow> V_fexp l (Some r) | [l, Leaf _, Leaf _] \<Rightarrow> V_fexp l None | _ \<Rightarrow> V_bad)
      else if nt = PARSE_NT_Texp then
        (case cs of [c, Leaf _, x, Leaf _, y] \<Rightarrow> V_texp c x y | _ \<Rightarrow> V_bad)
      else if nt = PARSE_NT_Bexp then (case cs of [l, Leaf t, r] \<Rightarrow> V_bexp l (tok_tk t) r | _ \<Rightarrow> V_bad)
      else if nt = PARSE_NT_Uexp then (case cs of [Leaf t, r] \<Rightarrow> V_uexp (tok_tk t) r | _ \<Rightarrow> V_bad)
      else if nt = PARSE_NT_Xexp then (case cs of [l, Leaf t] \<Rightarrow> V_xexp l (tok_tk t) | _ \<Rightarrow> V_bad)
      else if nt = PARSE_NT_Wexp then (case cs of [l, Leaf t] \<Rightarrow> V_wexp l (tok_tk t) | _ \<Rightarrow> V_bad)
      else if nt = PARSE_NT_Aexp then
        (case cs of [l, Leaf _, r, Leaf _] \<Rightarrow> V_aexp l r | _ \<Rightarrow> V_bad)
      else V_bad)"

text \<open>The node below a \<^verbatim>\<open>PARSE_NT_Expr\<close>.\<close>

definition view :: "parse_node \<Rightarrow> expr_shape" where
  "view e = (case e of Node nt [Node nt' cs] \<Rightarrow> if nt = PARSE_NT_Expr then view_node nt' cs else V_bad | _ \<Rightarrow> V_bad)"

definition expr_is_name :: "parse_node \<Rightarrow> lex_token option" where
  "expr_is_name e = (case view e of V_atom t \<Rightarrow> if tok_tk t = LEX_TK_NAME then Some t else None | _ \<Rightarrow> None)"

datatype stmt_shape =
    SV_useu parse_node
  | SV_type bool parse_node
  | SV_wait parse_node "(lex_tk \<times> parse_node) option" bool
  | SV_retn "parse_node option"
  | SV_wlab parse_node
  | SV_blok bool "parse_node list"
  | SV_expr "lex_tk list" parse_node
  | SV_func "lex_tk list" parse_node "parse_node list"
  | SV_cond parse_node "parse_node list" "(parse_node \<times> parse_node list) list" "parse_node list option"
  | SV_whil parse_node "parse_node list"
  | SV_dowh "parse_node list" parse_node
  | SV_bad

text \<open>The qualifiers in front, and the children after them.\<close>

fun qualifiers :: "parse_node list \<Rightarrow> lex_tk list \<times> parse_node list" where
  "qualifiers (Node nt [Leaf q] # cs) =
     (if nt = PARSE_NT_Qual then let (qs, rest) = qualifiers cs in (tok_tk q # qs, rest)
      else ([], Node nt [Leaf q] # cs))"
| "qualifiers cs = ([], cs)"

text \<open>An expression with a block, as in \<open>if x { ... }\<close>.\<close>

definition guarded :: "parse_nt \<Rightarrow> parse_node \<Rightarrow> (parse_node \<times> parse_node list) option" where
  "guarded nt n =
     (case n of
        Node nt' (Leaf _ # e # Leaf _ # s # ss) \<Rightarrow> if nt' = nt then Some (e, butlast (s # ss)) else None
      | _ \<Rightarrow> None)"

text \<open>\<^verbatim>\<open>count_elif_else\<close>: the branches after the first, and the last one without condition.\<close>

fun count_elif_else :: "parse_node list \<Rightarrow> ((parse_node \<times> parse_node list) list \<times> parse_node list option) option" where
  "count_elif_else [] = Some ([], None)"
| "count_elif_else (c # cs) =
     (case guarded PARSE_NT_Elif c of
        Some b \<Rightarrow> map_option (\<lambda>(bs, els). (b # bs, els)) (count_elif_else cs)
      | None \<Rightarrow>
          (case (c, cs) of
             (Node nt (Leaf _ # Leaf _ # s # ss), []) \<Rightarrow>
               if nt = PARSE_NT_Else then Some ([], Some (butlast (s # ss))) else None
           | _ \<Rightarrow> None))"

definition view_ctrl :: "parse_node list \<Rightarrow> stmt_shape" where
  "view_ctrl cs =
     (case cs of
        Node nt ds # es \<Rightarrow>
          if nt = PARSE_NT_Cond then
            (case (guarded PARSE_NT_Cond (Node nt ds), count_elif_else es) of
               (Some (e, ss), Some (elifs, els)) \<Rightarrow> SV_cond e ss elifs els
             | _ \<Rightarrow> SV_bad)
          else if nt = PARSE_NT_Whil then
            (case guarded PARSE_NT_Whil (Node nt ds) of Some (e, ss) \<Rightarrow> SV_whil e ss | None \<Rightarrow> SV_bad)
          else if nt = PARSE_NT_Dowh then
            (case ds of
               Leaf _ # Leaf _ # rest \<Rightarrow>
                 (case rev rest of
                    Leaf _ # e # Leaf _ # Leaf _ # ss \<Rightarrow> SV_dowh (rev ss) e
                  | _ \<Rightarrow> SV_bad)
             | _ \<Rightarrow> SV_bad)
          else SV_bad
      | _ \<Rightarrow> SV_bad)"

definition view_func :: "parse_node list \<Rightarrow> stmt_shape" where
  "view_func cs =
     (case qualifiers cs of
        (qs, e # Leaf _ # s # ss) \<Rightarrow> SV_func qs e (butlast (s # ss))
      | _ \<Rightarrow> SV_bad)"

definition view_wait :: "parse_node list \<Rightarrow> stmt_shape" where
  "view_wait cs =
     (case cs of
        [e, Leaf _] \<Rightarrow> SV_wait e None False
      | [e, Leaf _, Leaf _] \<Rightarrow> SV_wait e None True
      | [e, Leaf k, x, Leaf _] \<Rightarrow> SV_wait e (Some (tok_tk k, x)) False
      | [e, Leaf k, x, Leaf _, Leaf _] \<Rightarrow> SV_wait e (Some (tok_tk k, x)) True
      | _ \<Rightarrow> SV_bad)"

text \<open>A statement that starts with a token.\<close>

definition view_keyword :: "lex_tk \<Rightarrow> parse_node list \<Rightarrow> stmt_shape" where
  "view_keyword tk cs =
     (if tk = LEX_TK_USEU then (case cs of [e, Leaf _] \<Rightarrow> SV_useu e | _ \<Rightarrow> SV_bad)
      else if tk = LEX_TK_EXPO then (case cs of [Leaf _, e, Leaf _] \<Rightarrow> SV_type True e | _ \<Rightarrow> SV_bad)
      else if tk = LEX_TK_TYPE then (case cs of [e, Leaf _] \<Rightarrow> SV_type False e | _ \<Rightarrow> SV_bad)
      else if tk = LEX_TK_WAIT then view_wait cs
      else if tk = LEX_TK_RETN then
        (case cs of [e, Leaf _] \<Rightarrow> SV_retn (Some e) | [Leaf _] \<Rightarrow> SV_retn None | _ \<Rightarrow> SV_bad)
      else if tk = LEX_TK_LBRA then (case cs of [e, Leaf _] \<Rightarrow> SV_wlab e | _ \<Rightarrow> SV_bad)
      else if tk = LEX_TK_LBRC then (case cs of s # ss \<Rightarrow> SV_blok False (butlast (s # ss)) | _ \<Rightarrow> SV_bad)
      else if tk = LEX_TK_NOIN then (case cs of Leaf _ # s # ss \<Rightarrow> SV_blok True (butlast (s # ss)) | _ \<Rightarrow> SV_bad)
      else SV_bad)"

definition sview :: "parse_node \<Rightarrow> stmt_shape" where
  "sview n =
     (case n of
        Node nt (Leaf t # cs) \<Rightarrow> if nt = PARSE_NT_Stmt then view_keyword (tok_tk t) cs else SV_bad
      | Node nt (Node nt' ds # cs) \<Rightarrow>
          if nt \<noteq> PARSE_NT_Stmt then SV_bad
          else if nt' = PARSE_NT_Ctrl then view_ctrl ds
          else if nt' = PARSE_NT_Func then view_func ds
          else if nt' = PARSE_NT_Qual \<or> nt' = PARSE_NT_Expr then
            (case qualifiers (Node nt' ds # cs) of (qs, [e, Leaf _]) \<Rightarrow> SV_expr qs e | _ \<Rightarrow> SV_bad)
          else SV_bad
      | _ \<Rightarrow> SV_bad)"

subsection \<open>Sizes\<close>

lemma view_node_size:
  "view_node nt cs = V_fexp l u \<Longrightarrow> size l < size_list size cs"
  "view_node nt cs = V_fexp l (Some r) \<Longrightarrow> size l < size_list size cs \<and> size r < size_list size cs"
  "view_node nt cs = V_pexp l \<Longrightarrow> size l < size_list size cs"
  "view_node nt cs = V_texp l r x \<Longrightarrow> size l < size_list size cs \<and> size r < size_list size cs \<and> size x < size_list size cs"
  "view_node nt cs = V_bexp l op r \<Longrightarrow> size l < size_list size cs \<and> size r < size_list size cs"
  "view_node nt cs = V_uexp op r \<Longrightarrow> size r < size_list size cs"
  "view_node nt cs = V_xexp l op \<Longrightarrow> size l < size_list size cs"
  "view_node nt cs = V_wexp l op \<Longrightarrow> size l < size_list size cs"
  "view_node nt cs = V_aexp l r \<Longrightarrow> size l < size_list size cs \<and> size r < size_list size cs"
  by (auto simp: view_node_def split: if_splits list.splits parse_node.splits)

lemma view_size [termination_simp]:
  "view e = V_fexp l u \<Longrightarrow> size l < size e"
  "view e = V_fexp l (Some r) \<Longrightarrow> size l < size e \<and> size r < size e"
  "view e = V_pexp l \<Longrightarrow> size l < size e"
  "view e = V_texp l r x \<Longrightarrow> size l < size e \<and> size r < size e \<and> size x < size e"
  "view e = V_bexp l op r \<Longrightarrow> size l < size e \<and> size r < size e"
  "view e = V_uexp op r \<Longrightarrow> size r < size e"
  "view e = V_xexp l op \<Longrightarrow> size l < size e"
  "view e = V_wexp l op \<Longrightarrow> size l < size e"
  "view e = V_aexp l r \<Longrightarrow> size l < size e \<and> size r < size e"
  by (force simp: view_def dest: view_node_size split: if_splits list.splits parse_node.splits)+

lemma size_list_butlast: "size_list f (butlast xs) \<le> size_list f xs"
  by (induction xs) auto

lemma size_list_rev: "size_list f (rev xs) = size_list f xs"
  by (induction xs) auto

lemma qualifiers_size: "qualifiers cs = (qs, rest) \<Longrightarrow> size_list size rest \<le> size_list size cs"
  by (induction cs arbitrary: qs rest rule: qualifiers.induct) (auto split: prod.splits if_splits)

lemma guarded_size: "guarded nt n = Some (e, ss) \<Longrightarrow> size_list size ss < size n"
proof -
  assume "guarded nt n = Some (e, ss)"
  then obtain a b s r where n: "n = Node nt (Leaf a # e # Leaf b # s # r)" and ss: "ss = butlast (s # r)"
    by (auto simp: guarded_def split: parse_node.splits list.splits if_splits)
  show ?thesis using size_list_butlast [of size "s # r"] unfolding n ss by simp
qed

abbreviation branch_sizes :: "(parse_node \<times> parse_node list) list \<Rightarrow> nat" where
  "branch_sizes \<equiv> size_list (\<lambda>(e, ss). size_list size ss)"

lemma count_elif_else_size:
  "count_elif_else cs = Some (bs, els) \<Longrightarrow>
     branch_sizes bs \<le> size_list size cs \<and> (\<forall>ss. els = Some ss \<longrightarrow> size_list size ss \<le> size_list size cs)"
proof (induction cs arbitrary: bs els)
  case (Cons c cs)
  show ?case
  proof (cases "guarded PARSE_NT_Elif c")
    case None
    then obtain nt a b s ss where c: "c = Node nt (Leaf a # Leaf b # s # ss)" "cs = []"
      and r: "bs = []" "els = Some (butlast (s # ss))"
      using Cons.prems by (auto split: parse_node.splits list.splits if_splits)
    show ?thesis using size_list_butlast [of size "s # ss"] unfolding c r by simp
  next
    case (Some x)
    obtain e ss where x: "x = (e, ss)" by fastforce
    obtain bs' els' where r: "count_elif_else cs = Some (bs', els')" "bs = (e, ss) # bs'" "els = els'"
      using Cons.prems Some x by auto
    show ?thesis using Cons.IH [OF r(1)] guarded_size [of PARSE_NT_Elif c e ss] Some x r by auto
  qed
qed simp

lemma view_ctrl_size:
  "view_ctrl cs = SV_whil e ss \<Longrightarrow> size_list size ss < size_list size cs"
  "view_ctrl cs = SV_dowh ss e \<Longrightarrow> size_list size ss < size_list size cs"
  "view_ctrl cs = SV_cond e ss bs els \<Longrightarrow> size_list size ss < size_list size cs \<and>
     branch_sizes bs < size_list size cs \<and> (\<forall>ss. els = Some ss \<longrightarrow> size_list size ss < size_list size cs)"
proof -
  assume "view_ctrl cs = SV_whil e ss"
  then obtain ds es where "cs = Node PARSE_NT_Whil ds # es" "guarded PARSE_NT_Whil (Node PARSE_NT_Whil ds) = Some (e, ss)"
    by (auto simp: view_ctrl_def split: list.splits parse_node.splits if_splits option.splits)
  then show "size_list size ss < size_list size cs" by (auto dest: guarded_size)
next
  assume "view_ctrl cs = SV_dowh ss e"
  then obtain a b rest c d e' us es where cs: "cs = Node PARSE_NT_Dowh (Leaf a # Leaf b # rest) # es"
    and r: "rev rest = Leaf c # e' # Leaf d # us" "tl us = rev ss" "us \<noteq> []"
    by (auto simp: view_ctrl_def split: list.splits parse_node.splits if_splits option.splits)
  have "size_list size ss < size_list size rest"
    using r by (cases us) (auto simp flip: size_list_rev [of size ss] size_list_rev [of size rest])
  then show "size_list size ss < size_list size cs" unfolding cs by simp
next
  assume "view_ctrl cs = SV_cond e ss bs els"
  then obtain ds es where cs: "cs = Node PARSE_NT_Cond ds # es"
    and "guarded PARSE_NT_Cond (Node PARSE_NT_Cond ds) = Some (e, ss)" "count_elif_else es = Some (bs, els)"
    by (auto simp: view_ctrl_def split: list.splits parse_node.splits if_splits option.splits)
  then show "size_list size ss < size_list size cs \<and>
     branch_sizes bs < size_list size cs \<and> (\<forall>ss. els = Some ss \<longrightarrow> size_list size ss < size_list size cs)"
    by (auto dest!: guarded_size count_elif_else_size simp: less_Suc_eq_le)
qed

text \<open>The blocks of a statement are smaller than the statement.\<close>

fun inner_size :: "stmt_shape \<Rightarrow> nat" where
  "inner_size (SV_blok _ ss) = size_list size ss"
| "inner_size (SV_func _ _ ss) = size_list size ss"
| "inner_size (SV_whil _ ss) = size_list size ss"
| "inner_size (SV_dowh ss _) = size_list size ss"
| "inner_size (SV_cond _ ss bs els) =
     max (size_list size ss) (max (branch_sizes bs) (case els of None \<Rightarrow> 0 | Some ts \<Rightarrow> size_list size ts))"
| "inner_size _ = 0"

lemma inner_wait [simp]: "inner_size (view_wait cs) = 0"
  by (auto simp: view_wait_def split: list.splits parse_node.splits)

lemma inner_ifs:
  "inner_size (if c then x else y) = (if c then inner_size x else inner_size y)"
  by simp

lemma inner_keyword: "inner_size (view_keyword tk cs) \<le> size_list size cs"
proof -
  have [simp]: "inner_size (case cs of [e, Leaf _] \<Rightarrow> f e | _ \<Rightarrow> SV_bad) = 0" if "\<And>e. inner_size (f e) = 0" for f
    using that by (auto split: list.splits parse_node.splits)
  have [simp]: "inner_size (case cs of [Leaf _, e, Leaf _] \<Rightarrow> f e | _ \<Rightarrow> SV_bad) = 0" if "\<And>e. inner_size (f e) = 0" for f
    using that by (auto split: list.splits parse_node.splits)
  have [simp]: "inner_size (case cs of [e, Leaf _] \<Rightarrow> SV_retn (Some e) | [Leaf _] \<Rightarrow> SV_retn None | _ \<Rightarrow> SV_bad) = 0"
    by (auto split: list.splits parse_node.splits)
  have "inner_size (case cs of s # ss \<Rightarrow> SV_blok False (butlast (s # ss)) | _ \<Rightarrow> SV_bad) \<le> size_list size cs"
    using size_list_butlast [of size cs] by (cases cs) simp_all
  moreover have "inner_size (case cs of Leaf _ # s # ss \<Rightarrow> SV_blok True (butlast (s # ss)) | _ \<Rightarrow> SV_bad) \<le> size_list size cs"
  proof (cases "\<exists>t s ss. cs = Leaf t # s # ss")
    case True
    then obtain t s ss where "cs = Leaf t # s # ss" by blast
    then show ?thesis using size_list_butlast [of size "s # ss"] by simp
  qed (auto split: list.splits parse_node.splits)
  ultimately show ?thesis unfolding view_keyword_def inner_ifs by simp
qed

lemma inner_func: "inner_size (view_func cs) \<le> size_list size cs"
proof -
  obtain qs rest where q: "qualifiers cs = (qs, rest)" by fastforce
  show ?thesis
  proof (cases "\<exists>e a s r. rest = e # Leaf a # s # r")
    case True
    then obtain e a s r where "rest = e # Leaf a # s # r" by blast
    then show ?thesis using q qualifiers_size [OF q] size_list_butlast [of size "s # r"] by (simp add: view_func_def)
  qed (auto simp: view_func_def q split: list.splits parse_node.splits)
qed

lemma inner_ctrl: "inner_size (view_ctrl cs) \<le> size_list size cs"
proof (cases "view_ctrl cs")
  case (SV_cond e ss bs els)
  then show ?thesis using view_ctrl_size(3) [OF SV_cond] by (auto split: option.splits)
next
  case (SV_whil e ss)
  then show ?thesis using view_ctrl_size(1) [OF SV_whil] by simp
next
  case (SV_dowh ss e)
  then show ?thesis using view_ctrl_size(2) [OF SV_dowh] by simp
qed (auto simp: view_ctrl_def split: list.splits parse_node.splits if_splits option.splits)

lemma sview_size: "sview n = SV_bad \<or> inner_size (sview n) < size n"
proof (cases n)
  case (Node nt cs)
  show ?thesis
  proof (cases cs)
    case (Cons c ds)
    show ?thesis
    proof (cases c)
      case (Leaf t)
      then show ?thesis using Node Cons inner_keyword [of "tok_tk t" ds] by (simp add: sview_def)
    next
      case (Node nt' es)
      then show ?thesis
        using \<open>n = Node nt cs\<close> Cons inner_ctrl [of es] inner_func [of es]
        by (auto simp: sview_def split: prod.splits list.splits parse_node.splits)
    qed
  qed (use Node in \<open>simp add: sview_def\<close>)
qed (simp add: sview_def)

lemma sview_inner:
  "sview n = SV_blok b ss \<Longrightarrow> size_list size ss < size n"
  "sview n = SV_func q e ss \<Longrightarrow> size_list size ss < size n"
  "sview n = SV_whil e ss \<Longrightarrow> size_list size ss < size n"
  "sview n = SV_dowh ss e \<Longrightarrow> size_list size ss < size n"
  "sview n = SV_cond e ss bs els \<Longrightarrow> size_list size ss < size n \<and> branch_sizes bs < size n \<and>
     (\<forall>ts. els = Some ts \<longrightarrow> size_list size ts < size n)"
  using sview_size [of n] by (auto split: option.splits)

end
