(* ===== verification/Types.thy ===== *)
theory Types
  imports Prelude
begin

text \<open>
  Types of the language (\<^verbatim>\<open>src/type.h\<close> and the first part of \<^verbatim>\<open>src/type.c\<close>): the kinds with
  their codes and predicates, the table of named types, copying, equality, and
  \<^verbatim>\<open>type_quantify\<close>, which computes sizes, alignments and the offsets of members. The union in
  \<^verbatim>\<open>struct type\<close> is a datatype with one constructor per member; sizes are 64-bit words and
  wrap as \<^verbatim>\<open>size_t\<close> does. Requests for memory are numbered, \<open>mem_ok k\<close> is the outcome of
  the k-th.
\<close>

subsection \<open>Kinds\<close>

datatype (plugins only: code) type_t =
    TYPE_VOID | TYPE_U8 | TYPE_I8 | TYPE_U16 | TYPE_I16 | TYPE_U32 | TYPE_I32 | TYPE_U64 | TYPE_I64
  | TYPE_USIZE | TYPE_SSIZE | TYPE_UPTR | TYPE_IPTR | TYPE_ENUM | TYPE_PTR | TYPE_VPTR | TYPE_FPTR
  | TYPE_QUAINT | TYPE_STRUCT | TYPE_UNION

definition type_ts :: "type_t list" where
  "type_ts = [TYPE_VOID, TYPE_U8, TYPE_I8, TYPE_U16, TYPE_I16, TYPE_U32, TYPE_I32, TYPE_U64, TYPE_I64,
     TYPE_USIZE, TYPE_SSIZE, TYPE_UPTR, TYPE_IPTR, TYPE_ENUM, TYPE_PTR, TYPE_VPTR, TYPE_FPTR,
     TYPE_QUAINT, TYPE_STRUCT, TYPE_UNION]"

primrec type_code :: "type_t \<Rightarrow> nat" where
  "type_code TYPE_VOID = 0" | "type_code TYPE_U8 = 1" | "type_code TYPE_I8 = 2"
| "type_code TYPE_U16 = 3" | "type_code TYPE_I16 = 4" | "type_code TYPE_U32 = 5"
| "type_code TYPE_I32 = 6" | "type_code TYPE_U64 = 7" | "type_code TYPE_I64 = 8"
| "type_code TYPE_USIZE = 9" | "type_code TYPE_SSIZE = 10" | "type_code TYPE_UPTR = 11"
| "type_code TYPE_IPTR = 12" | "type_code TYPE_ENUM = 13" | "type_code TYPE_PTR = 14"
| "type_code TYPE_VPTR = 15" | "type_code TYPE_FPTR = 16" | "type_code TYPE_QUAINT = 17"
| "type_code TYPE_STRUCT = 18" | "type_code TYPE_UNION = 19"

lemma type_ts_code: "type_ts ! type_code t = t" "type_code t < 20"
  by (cases t; simp add: type_ts_def numeral_nat)+

lemma type_code_inj [simp]: "type_code s = type_code t \<longleftrightarrow> s = t"
  by (metis type_ts_code(1))

definition type_is_integral :: "type_t \<Rightarrow> bool" where
  "type_is_integral t \<longleftrightarrow> type_code TYPE_U8 \<le> type_code t \<and> type_code t \<le> type_code TYPE_ENUM"

definition type_is_signed :: "type_t \<Rightarrow> bool" where
  "type_is_signed t \<longleftrightarrow> type_code t mod 2 = 0"

definition type_is_unsigned :: "type_t \<Rightarrow> bool" where
  "type_is_unsigned t \<longleftrightarrow> type_code t mod 2 \<noteq> 0"

definition type_is_ptr :: "type_t \<Rightarrow> bool" where
  "type_is_ptr t \<longleftrightarrow> t = TYPE_PTR \<or> t = TYPE_VPTR \<or> t = TYPE_FPTR"

definition type_is_quaint :: "type_t \<Rightarrow> bool" where
  "type_is_quaint t \<longleftrightarrow> t = TYPE_QUAINT"

lemmas type_is_defs = type_is_integral_def type_is_signed_def type_is_unsigned_def type_is_ptr_def
  type_is_quaint_def

text \<open>The kind that follows in the enumeration: the signed one of an unsigned integer.\<close>

definition type_succ :: "type_t \<Rightarrow> type_t" where
  "type_succ t = type_ts ! Suc (type_code t)"

record typedesc =
  td_name :: string
  td_alias :: string
  td_size :: u64

definition typedescs :: "typedesc list" where
  "typedescs = map (\<lambda>(n, a, s). \<lparr>td_name = n, td_alias = a, td_size = s\<rparr>)
    [(''byte'', ''u8'', 1), (''sbyte'', ''i8'', 1), (''ushort'', ''u16'', 2), (''short'', ''i16'', 2),
     (''uint'', ''u32'', 4), (''int'', ''i32'', 4), (''ulong'', ''u64'', 8), (''long'', ''i64'', 8),
     (''usize'', '''', 8), (''ssize'', '''', 8), (''uptr'', '''', 8), (''iptr'', '''', 8),
     (''enum'', '''', 0), (''ptr'', '''', 8), (''vptr'', '''', 8), (''fptr'', '''', 8),
     (''quaint'', '''', 8), (''struct'', '''', 0), (''union'', '''', 0)]"

text \<open>The row of a kind other than \<open>TYPE_VOID\<close>, which has none.\<close>

definition desc_size :: "type_t \<Rightarrow> u64" where
  "desc_size t = td_size (typedescs ! (type_code t - 1))"

definition type_match :: "string \<Rightarrow> type_t" where
  "type_match w =
     (case find (\<lambda>t. let td = typedescs ! (type_code t - 1) in w = td_name td \<or> w = td_alias td)
             (tl type_ts) of
        Some t \<Rightarrow> t
      | None \<Rightarrow> TYPE_VOID)"

subsection \<open>Types\<close>

record lex_symbol =
  sym_beg :: nat
  sym_text :: string

definition lex_symbols_equal :: "lex_symbol \<Rightarrow> lex_symbol \<Rightarrow> bool" where
  "lex_symbols_equal s1 s2 \<longleftrightarrow>
     length (sym_text s1) = length (sym_text s2) \<and> sym_text s1 = sym_text s2"

record layout =
  lay_count :: u64
  lay_size :: u64
  lay_alignment :: u64

abbreviation lay :: "u64 \<Rightarrow> layout" where
  "lay n \<equiv> \<lparr>lay_count = n, lay_size = 0, lay_alignment = 0\<rparr>"

text \<open>\<open>Ty_prim\<close> is a type whose union is unused: an integer, \<open>TYPE_VPTR\<close> or \<open>TYPE_VOID\<close>.\<close>

datatype qtype =
    Ty_prim type_t layout
  | Ty_ptr layout qtype
  | Ty_quaint layout qtype
  | Ty_struct layout "(lex_symbol \<times> qtype) list" "u64 list"
  | Ty_union layout "(lex_symbol \<times> qtype) list" "u64 list"
  | Ty_fptr layout "(lex_symbol \<times> qtype) list" "qtype option"
  | Ty_enum layout "(lex_symbol \<times> u64) list" type_t

fun ty_t :: "qtype \<Rightarrow> type_t" where
  "ty_t (Ty_prim t _) = t"
| "ty_t (Ty_ptr _ _) = TYPE_PTR"
| "ty_t (Ty_quaint _ _) = TYPE_QUAINT"
| "ty_t (Ty_struct _ _ _) = TYPE_STRUCT"
| "ty_t (Ty_union _ _ _) = TYPE_UNION"
| "ty_t (Ty_fptr _ _ _) = TYPE_FPTR"
| "ty_t (Ty_enum _ _ _) = TYPE_ENUM"

fun ty_lay :: "qtype \<Rightarrow> layout" where
  "ty_lay (Ty_prim _ l) = l"
| "ty_lay (Ty_ptr l _) = l"
| "ty_lay (Ty_quaint l _) = l"
| "ty_lay (Ty_struct l _ _) = l"
| "ty_lay (Ty_union l _ _) = l"
| "ty_lay (Ty_fptr l _ _) = l"
| "ty_lay (Ty_enum l _ _) = l"

fun map_lay :: "(layout \<Rightarrow> layout) \<Rightarrow> qtype \<Rightarrow> qtype" where
  "map_lay f (Ty_prim t l) = Ty_prim t (f l)"
| "map_lay f (Ty_ptr l s) = Ty_ptr (f l) s"
| "map_lay f (Ty_quaint l s) = Ty_quaint (f l) s"
| "map_lay f (Ty_struct l ms os) = Ty_struct (f l) ms os"
| "map_lay f (Ty_union l ms os) = Ty_union (f l) ms os"
| "map_lay f (Ty_fptr l ps r) = Ty_fptr (f l) ps r"
| "map_lay f (Ty_enum l vs t) = Ty_enum (f l) vs t"

abbreviation "ty_count t \<equiv> lay_count (ty_lay t)"
abbreviation "ty_size t \<equiv> lay_size (ty_lay t)"
abbreviation "ty_alignment t \<equiv> lay_alignment (ty_lay t)"

text \<open>\<^verbatim>\<open>TYPE_NOMEM\<close> and \<^verbatim>\<open>TYPE_INVALID\<close>, a failed assertion, and undefined behaviour.\<close>

datatype type_error = TYPE_NOMEM | TYPE_INVALID | Type_abort | Type_undefined

subsection \<open>The table of named types\<close>

record symtab =
  st_entries :: "(lex_symbol \<times> qtype) list"
  st_allocated :: nat

definition type_symtab_find :: "symtab \<Rightarrow> lex_symbol \<Rightarrow> qtype option" where
  "type_symtab_find st s =
     map_option snd (find (\<lambda>(name, t). lex_symbols_equal name s) (st_entries st))"

definition type_symtab_clear :: "symtab \<Rightarrow> symtab" where
  "type_symtab_clear st = \<lparr>st_entries = [], st_allocated = 0\<rparr>"

text \<open>The result is 0, 1 for a name already there, or -1 for no memory, which clears the table.\<close>

definition type_symtab_insert :: "(nat \<Rightarrow> bool) \<Rightarrow> lex_symbol \<Rightarrow> qtype \<Rightarrow> symtab \<Rightarrow> int \<times> symtab" where
  "type_symtab_insert mem_ok s t st =
     (if type_symtab_find st s \<noteq> None then (1, st)
      else
        let full = length (st_entries st) \<ge> st_allocated st;
            allocated = (if full then (if st_allocated st = 0 then 1 else st_allocated st) * 8
                         else st_allocated st)
        in if full \<and> \<not> mem_ok allocated then (-1, type_symtab_clear st)
           else (0, \<lparr>st_entries = st_entries st @ [(s, t)], st_allocated = allocated\<rparr>))"

subsection \<open>Copying and comparing\<close>

definition type_alloc :: "(nat \<Rightarrow> bool) \<Rightarrow> nat \<Rightarrow> nat option" where
  "type_alloc mem_ok k = (if mem_ok k then Some (Suc k) else None)"

text \<open>A copy is made without size, alignment and offsets. \<open>None\<close> is \<^verbatim>\<open>TYPE_NOMEM\<close>.\<close>

fun type_copy :: "(nat \<Rightarrow> bool) \<Rightarrow> qtype \<Rightarrow> nat \<Rightarrow> (qtype \<times> nat) option"
  and copy_members :: "(nat \<Rightarrow> bool) \<Rightarrow> (lex_symbol \<times> qtype) list \<Rightarrow> nat \<Rightarrow>
    ((lex_symbol \<times> qtype) list \<times> nat) option"
where
  "type_copy mem_ok (Ty_prim t l) k = Some (Ty_prim t (lay (lay_count l)), k)"
| "type_copy mem_ok (Ty_ptr l s) k =
     Option.bind (type_alloc mem_ok k) (\<lambda>k.
     Option.bind (type_copy mem_ok s k) (\<lambda>(s', k). Some (Ty_ptr (lay (lay_count l)) s', k)))"
| "type_copy mem_ok (Ty_quaint l s) k =
     Option.bind (type_alloc mem_ok k) (\<lambda>k.
     Option.bind (type_copy mem_ok s k) (\<lambda>(s', k). Some (Ty_quaint (lay (lay_count l)) s', k)))"
| "type_copy mem_ok (Ty_struct l ms os) k =
     Option.bind (type_alloc mem_ok k) (\<lambda>k.
     Option.bind (copy_members mem_ok ms k) (\<lambda>(ms', k). Some (Ty_struct (lay (lay_count l)) ms' [], k)))"
| "type_copy mem_ok (Ty_union l ms os) k =
     Option.bind (type_alloc mem_ok k) (\<lambda>k.
     Option.bind (copy_members mem_ok ms k) (\<lambda>(ms', k). Some (Ty_union (lay (lay_count l)) ms' [], k)))"
| "type_copy mem_ok (Ty_fptr l ps None) k =
     (if ps = [] then Some (Ty_fptr (lay (lay_count l)) [] None, k)
      else Option.bind (type_alloc mem_ok k) (\<lambda>k.
        Option.bind (copy_members mem_ok ps k) (\<lambda>(ps', k). Some (Ty_fptr (lay (lay_count l)) ps' None, k))))"
| "type_copy mem_ok (Ty_fptr l ps (Some r)) k =
     Option.bind (type_alloc mem_ok k) (\<lambda>k.
     Option.bind (type_copy mem_ok r k) (\<lambda>(r', k).
     if ps = [] then Some (Ty_fptr (lay (lay_count l)) [] (Some r'), k)
     else Option.bind (type_alloc mem_ok k) (\<lambda>k.
       Option.bind (copy_members mem_ok ps k) (\<lambda>(ps', k).
       Some (Ty_fptr (lay (lay_count l)) ps' (Some r'), k)))))"
| "type_copy mem_ok (Ty_enum l vs t) k =
     Option.bind (type_alloc mem_ok k) (\<lambda>k. Some (Ty_enum (lay (lay_count l)) vs t, k))"
| "copy_members mem_ok [] k = Some ([], k)"
| "copy_members mem_ok ((n, t) # ms) k =
     Option.bind (type_alloc mem_ok k) (\<lambda>k.
     Option.bind (type_copy mem_ok t k) (\<lambda>(t', k).
     Option.bind (copy_members mem_ok ms k) (\<lambda>(ms', k). Some ((n, t') # ms', k))))"

text \<open>Names of members and parameters and the layout do not count, names of enum values do.\<close>

fun type_equals :: "qtype \<Rightarrow> qtype \<Rightarrow> bool"
  and members_equal :: "(lex_symbol \<times> qtype) list \<Rightarrow> (lex_symbol \<times> qtype) list \<Rightarrow> bool"
where
  "type_equals (Ty_prim t l) b \<longleftrightarrow>
     (case b of Ty_prim t' l' \<Rightarrow> t = t' \<and> lay_count l = lay_count l' | _ \<Rightarrow> False)"
| "type_equals (Ty_ptr l s) b \<longleftrightarrow>
     (case b of Ty_ptr l' s' \<Rightarrow> lay_count l = lay_count l' \<and> type_equals s s' | _ \<Rightarrow> False)"
| "type_equals (Ty_quaint l s) b \<longleftrightarrow>
     (case b of Ty_quaint l' s' \<Rightarrow> lay_count l = lay_count l' \<and> type_equals s s' | _ \<Rightarrow> False)"
| "type_equals (Ty_struct l ms os) b \<longleftrightarrow>
     (case b of Ty_struct l' ms' os' \<Rightarrow> lay_count l = lay_count l' \<and> members_equal ms ms' | _ \<Rightarrow> False)"
| "type_equals (Ty_union l ms os) b \<longleftrightarrow>
     (case b of Ty_union l' ms' os' \<Rightarrow> lay_count l = lay_count l' \<and> members_equal ms ms' | _ \<Rightarrow> False)"
| "type_equals (Ty_fptr l ps r) b \<longleftrightarrow>
     (case b of
        Ty_fptr l' ps' r' \<Rightarrow> lay_count l = lay_count l' \<and> members_equal ps ps' \<and>
          (case (r, r') of
             (None, None) \<Rightarrow> True
           | (Some x, Some y) \<Rightarrow> type_equals x y
           | _ \<Rightarrow> False)
      | _ \<Rightarrow> False)"
| "type_equals (Ty_enum l vs t) b \<longleftrightarrow>
     (case b of
        Ty_enum l' vs' t' \<Rightarrow> lay_count l = lay_count l' \<and> length vs = length vs' \<and> t = t' \<and>
          list_all2 (\<lambda>(n, v) (n', v'). lex_symbols_equal n n' \<and> v = v') vs vs'
      | _ \<Rightarrow> False)"
| "members_equal [] bs \<longleftrightarrow> bs = []"
| "members_equal ((n, t) # ms) bs \<longleftrightarrow>
     (case bs of [] \<Rightarrow> False | (n', t') # ms' \<Rightarrow> type_equals t t' \<and> members_equal ms ms')"

subsection \<open>Sizes, alignments, offsets\<close>

text \<open>The macro \<^verbatim>\<open>ALIGN_UP\<close>, on \<^verbatim>\<open>size_t\<close>; an alignment of zero would divide by zero.\<close>

definition align_up :: "u64 \<Rightarrow> u64 \<Rightarrow> u64" where
  "align_up x a = (if x mod a \<noteq> 0 then x + (a - x mod a) else x)"

definition unsized :: "layout \<Rightarrow> type_error + 'a \<Rightarrow> type_error + 'a" where
  "unsized l k = (if lay_size l = 0 \<and> lay_alignment l = 0 then k else Inl Type_abort)"

definition set_size :: "u64 \<Rightarrow> u64 \<Rightarrow> layout \<Rightarrow> layout" where
  "set_size s a l = l\<lparr>lay_size := s, lay_alignment := a\<rparr>"

text \<open>The types whose size is in the table of kinds; the others must have members.\<close>

definition sized_by :: "type_t \<Rightarrow> qtype \<Rightarrow> nat \<Rightarrow> type_error + qtype \<times> nat" where
  "sized_by t ty k =
     (if desc_size t \<noteq> 0 then Inr (map_lay (set_size (desc_size t) (desc_size t)) ty, k)
      else Inl Type_abort)"

fun type_quantify :: "(nat \<Rightarrow> bool) \<Rightarrow> qtype \<Rightarrow> nat \<Rightarrow> type_error + qtype \<times> nat"
  and struct_members :: "(nat \<Rightarrow> bool) \<Rightarrow> (lex_symbol \<times> qtype) list \<Rightarrow> u64 \<Rightarrow> u64 \<Rightarrow> nat \<Rightarrow>
    type_error + (lex_symbol \<times> qtype) list \<times> u64 list \<times> u64 \<times> u64 \<times> nat"
  and union_members :: "(nat \<Rightarrow> bool) \<Rightarrow> (lex_symbol \<times> qtype) list \<Rightarrow> u64 \<Rightarrow> u64 \<Rightarrow> nat \<Rightarrow>
    type_error + (lex_symbol \<times> qtype) list \<times> u64 \<times> u64 \<times> nat"
where
  "type_quantify mem_ok (Ty_prim t l) k =
     unsized l (if t = TYPE_VOID then Inr (Ty_prim t l, k) else sized_by t (Ty_prim t l) k)"
| "type_quantify mem_ok (Ty_ptr l s) k = unsized l (sized_by TYPE_PTR (Ty_ptr l s) k)"
| "type_quantify mem_ok (Ty_quaint l s) k = unsized l (sized_by TYPE_QUAINT (Ty_quaint l s) k)"
| "type_quantify mem_ok (Ty_fptr l ps r) k = unsized l (sized_by TYPE_FPTR (Ty_fptr l ps r) k)"
| "type_quantify mem_ok (Ty_enum l vs t) k =
     unsized l (if t = TYPE_VOID then Inl Type_undefined else sized_by t (Ty_enum l vs t) k)"
| "type_quantify mem_ok (Ty_struct l ms os) k =
     unsized l (
     if ms = [] \<or> os \<noteq> [] then Inl Type_abort
     else if \<not> mem_ok k then Inl TYPE_NOMEM
     else bind_r (struct_members mem_ok ms 0 0 (Suc k)) (\<lambda>(ms', os', current, greatest, k).
       Inr (Ty_struct (set_size (align_up current greatest) greatest l) ms' os', k)))"
| "type_quantify mem_ok (Ty_union l ms os) k =
     unsized l (
     if ms = [] \<or> os \<noteq> [] then Inl Type_abort
     else if \<not> mem_ok k then Inl TYPE_NOMEM
     else bind_r (union_members mem_ok ms 0 0 (Suc k)) (\<lambda>(ms', greatest_size, greatest, k).
       Inr (Ty_union (set_size greatest_size greatest l) ms' (replicate (length ms) 0), k)))"
| "struct_members mem_ok [] current greatest k = Inr ([], [], current, greatest, k)"
| "struct_members mem_ok ((n, t) # ms) current greatest k =
     bind_r (type_quantify mem_ok t k) (\<lambda>(t', k).
     if ty_alignment t' = 0 then Inl Type_undefined
     else
       let off = align_up current (ty_alignment t') in
       bind_r (struct_members mem_ok ms (off + ty_size t' * ty_count t')
                 (max greatest (ty_alignment t')) k) (\<lambda>(ms', os', current, greatest, k).
       Inr ((n, t') # ms', off # os', current, greatest, k)))"
| "union_members mem_ok [] greatest_size greatest k = Inr ([], greatest_size, greatest, k)"
| "union_members mem_ok ((n, t) # ms) greatest_size greatest k =
     bind_r (type_quantify mem_ok t k) (\<lambda>(t', k).
     bind_r (union_members mem_ok ms (max greatest_size (ty_size t' * ty_count t'))
               (max greatest (ty_alignment t')) k) (\<lambda>(ms', greatest_size, greatest, k).
     Inr ((n, t') # ms', greatest_size, greatest, k)))"

end
