(* ===== verification/Ast.thy ===== *)
theory Ast
  imports Tokens Types
begin

text \<open>
  The abstract syntax (\<^verbatim>\<open>src/ast.h\<close>) and the objects of scopes (\<^verbatim>\<open>src/scope.h\<close>) that names in it
  refer to. A node is a constructor with the fields of its struct, those included that
  later phases fill in, which are empty after \<^verbatim>\<open>ast_build\<close>. Nodes refer to declarations and
  functions by pointer in C; here a reference holds the fields that are read through it,
  and a function also has its address, which the virtual machine compares.
\<close>

subsection \<open>Declarations, functions, and objects of scopes\<close>

record decl =
  d_cons :: bool
  d_expo :: bool
  d_stat :: bool
  d_names :: "lex_symbol list"
  d_type :: qtype

record func =
  f_addr :: u64
  f_expo :: bool
  f_name :: lex_symbol
  f_params :: "(lex_symbol \<times> qtype) list"
  f_rettype :: "qtype option"
  f_wlabs :: "(lex_symbol \<times> u64) list"

datatype scope_obj =
    SCOPE_OBJ_DUPL lex_symbol
  | SCOPE_OBJ_BCON lex_symbol nat
  | SCOPE_OBJ_BFUN lex_symbol nat
  | SCOPE_OBJ_GVAR lex_symbol decl
  | SCOPE_OBJ_AVAR lex_symbol decl
  | SCOPE_OBJ_FUNC lex_symbol func
  | SCOPE_OBJ_PARM lex_symbol qtype

text \<open>A scope with the scopes around it, the innermost first.\<close>

type_synonym scopes = "scope_obj list list"

subsection \<open>Expressions\<close>

text \<open>
  What a binary expression refers to: a member, or a label of a function, where the
  pointer to the function is null for \<open>start\<close> and 1 for \<open>end\<close>.
\<close>

datatype wfunc = Wf_start | Wf_end | Wf_func func

datatype bexp_ref = No_ref | Member_idx nat | Wlab_ref wfunc nat

text \<open>
  \<open>E_null\<close> is a null pointer, where a subexpression was invalid. The expressions with a type
  instead of a second operand, \<open>as\<close> and \<open>:\<close>, have a constructor of their own, and so have
  \<open>sizeof\<close> and \<open>alignof\<close>. The last field is the type the checker finds.
\<close>

datatype expr =
    E_null
  | E_void
  | E_bexp lex_tk expr expr bexp_ref "qtype option"
  | E_cast lex_tk expr "qtype option" "qtype option"
  | E_uexp lex_tk expr "qtype option"
  | E_size lex_tk "qtype option" "qtype option"
  | E_fexp expr "expr option" nat "qtype option"
  | E_xexp lex_tk expr "qtype option"
  | E_aexp expr expr "qtype option"
  | E_texp expr expr expr "qtype option"
  | E_name lex_symbol "scope_obj option" "qtype option"
  | E_nmbr u64 "qtype option"
  | E_strl string "qtype option"

fun type_of_expr :: "expr \<Rightarrow> qtype option" where
  "type_of_expr (E_bexp _ _ _ _ t) = t"
| "type_of_expr (E_cast _ _ _ t) = t"
| "type_of_expr (E_uexp _ _ t) = t"
| "type_of_expr (E_size _ _ t) = t"
| "type_of_expr (E_fexp _ _ _ t) = t"
| "type_of_expr (E_xexp _ _ t) = t"
| "type_of_expr (E_aexp _ _ t) = t"
| "type_of_expr (E_texp _ _ _ t) = t"
| "type_of_expr (E_name _ _ t) = t"
| "type_of_expr (E_nmbr _ t) = t"
| "type_of_expr (E_strl _ t) = t"
| "type_of_expr E_null = None"
| "type_of_expr E_void = None"

subsection \<open>Statements\<close>

text \<open>
  A block holds its scope, empty before \<^verbatim>\<open>scope_build\<close>. \<open>S_skip\<close> stands for the nodes the later
  phases pass over: null pointers, \<^verbatim>\<open>AST_AN_VOID\<close>, \<^verbatim>\<open>AST_AN_USEU\<close> and \<^verbatim>\<open>AST_AN_TYPE\<close>. The last two
  fields of a wait and of a label are what the type checker fills in.
\<close>

datatype stmt =
    S_skip
  | S_decl decl "expr option"
  | S_func func "scope_obj list" "stmt list"
  | S_blok bool "scope_obj list" "stmt list"   \<comment> \<open>\<open>True\<close> for a \<open>noint\<close> block\<close>
  | S_cond expr stmt "(expr \<times> stmt) list" "stmt option"
  | S_whil expr "scope_obj list" "stmt list"
  | S_dowh expr "scope_obj list" "stmt list"
  | S_retn "expr option"
  | S_wait expr "expr option" "expr option" bool bool "func option" nat
  | S_wlab lex_symbol u64 u64
  | S_expr expr

end
