(* ===== verification/Ast_Build.thy ===== *)
theory Ast_Build
  imports Parse_View Ast
begin

text \<open>
  Building the syntax tree from the parse tree: \<^verbatim>\<open>src/ast.c\<close> up to \<^verbatim>\<open>ast_build\<close>. A node that
  would be read out of bounds is the error \<open>Ast_undefined\<close>, a failed assertion \<open>Ast_abort\<close>.

  Memory is a function from the number of a request to the address given, 0 for none; the
  address of a function's node is kept because the code compares it. When an expression
  is invalid its node stays in the tree with null pointers for what was not built, and a
  statement that was allocated but not finished stays as \<^verbatim>\<open>AST_AN_VOID\<close>.
\<close>

subsection \<open>State and errors\<close>

datatype ast_error = AST_OK | AST_NOMEM | AST_INVALID | Ast_abort | Ast_undefined

datatype ctx = CTX_UNIT | CTX_FUNC | CTX_BLOCK

text \<open>The text of the program, and the addresses the allocator gives.\<close>

record benv =
  be_input :: string
  be_malloc :: "nat \<Rightarrow> u64"

record bstate =
  bs_requests :: nat
  bs_types :: symtab
  bs_ctx :: "ctx list"

text \<open>A program that has stopped stays stopped.\<close>

definition aggr_err :: "ast_error \<Rightarrow> ast_error \<Rightarrow> ast_error" where
  "aggr_err err current =
     (case err of
        AST_OK \<Rightarrow> current
      | AST_NOMEM \<Rightarrow> if current \<in> {Ast_abort, Ast_undefined} then current else AST_NOMEM
      | AST_INVALID \<Rightarrow> if current \<in> {AST_NOMEM, Ast_abort, Ast_undefined} then current else AST_INVALID
      | _ \<Rightarrow> err)"

type_synonym 'a bld = "bstate \<Rightarrow> (ast_error + 'a) \<times> bstate"

definition ret_b :: "'a \<Rightarrow> 'a bld" where
  "ret_b x = (\<lambda>s. (Inr x, s))"

definition fail_b :: "ast_error \<Rightarrow> 'a bld" where
  "fail_b e = (\<lambda>s. (Inl e, s))"

definition bind_b :: "'a bld \<Rightarrow> ('a \<Rightarrow> 'b bld) \<Rightarrow> 'b bld" where
  "bind_b m f = (\<lambda>s. case m s of (Inl e, s) \<Rightarrow> (Inl e, s) | (Inr x, s) \<Rightarrow> f x s)"

lemma bind_b_cong [fundef_cong]:
  "m = m' \<Longrightarrow> (\<And>x. f x = g x) \<Longrightarrow> bind_b m f = bind_b m' g"
  by (metis ext)

definition need_b :: "bool \<Rightarrow> unit bld" where
  "need_b c = (if c then ret_b () else fail_b AST_INVALID)"

definition malloc_b :: "benv \<Rightarrow> u64 bld" where
  "malloc_b env = (\<lambda>s. let p = be_malloc env (bs_requests s) in
     (if p = 0 then Inl AST_NOMEM else Inr p, s\<lparr>bs_requests := Suc (bs_requests s)\<rparr>))"

abbreviation mem_of :: "benv \<Rightarrow> nat \<Rightarrow> bool" where
  "mem_of env \<equiv> \<lambda>k. be_malloc env k \<noteq> 0"

definition copy_b :: "benv \<Rightarrow> qtype \<Rightarrow> qtype bld" where
  "copy_b env t = (\<lambda>s. case type_copy (mem_of env) t (bs_requests s) of
       None \<Rightarrow> (Inl AST_NOMEM, s)
     | Some (c, k) \<Rightarrow> (Inr c, s\<lparr>bs_requests := k\<rparr>))"

subsection \<open>Tokens\<close>

definition tok_sym :: "benv \<Rightarrow> lex_token \<Rightarrow> lex_symbol" where
  "tok_sym env t = \<lparr>sym_beg = tok_beg t, sym_text = text_of (be_input env) t\<rparr>"

text \<open>From the last digit to the first.\<close>

fun nmbr_loop :: "string \<Rightarrow> u64 \<Rightarrow> u64 \<Rightarrow> u64" where
  "nmbr_loop [] mult result = result"
| "nmbr_loop (c # cs) mult result =
     nmbr_loop cs (mult * 10) (result + mult * (word_of_int (of_char c - of_char (CHR ''0''))))"

definition nmbr_to_uint :: "string \<Rightarrow> u64" where
  "nmbr_to_uint text = nmbr_loop (rev text) 1 0"

fun names_differ :: "lex_symbol list \<Rightarrow> bool" where
  "names_differ [] \<longleftrightarrow> True"
| "names_differ (n # ns) \<longleftrightarrow> \<not> list_ex (lex_symbols_equal n) ns \<and> names_differ ns"

subsection \<open>Type specifiers\<close>

definition resolve_type :: "benv \<Rightarrow> u64 \<Rightarrow> lex_token \<Rightarrow> qtype bld" where
  "resolve_type env count name = (\<lambda>s.
     case type_symtab_find (bs_types s) (tok_sym env name) of
       None \<Rightarrow> (Inl AST_INVALID, s)
     | Some t \<Rightarrow> bind_b (copy_b env t) (\<lambda>c. ret_b (map_lay (\<lambda>l. l\<lparr>lay_count := count\<rparr>) c)) s)"

text \<open>A name, or a name with the number of elements in brackets.\<close>

definition array_of :: "benv \<Rightarrow> parse_node \<Rightarrow> parse_node \<Rightarrow> (lex_token \<times> u64) option" where
  "array_of env b off =
     (case (expr_is_name b, view off) of
        (Some t, V_atom n) \<Rightarrow>
          if tok_tk n = LEX_TK_NMBR then Some (t, nmbr_to_uint (text_of (be_input env) n)) else None
      | _ \<Rightarrow> None)"

definition type_head :: "benv \<Rightarrow> parse_node \<Rightarrow> (lex_token \<times> u64) option" where
  "type_head env e =
     (case view e of
        V_aexp b off \<Rightarrow> array_of env b off
      | _ \<Rightarrow> map_option (\<lambda>t. (t, 1)) (expr_is_name e))"

text \<open>A type that is a name only.\<close>

definition plain_type :: "benv \<Rightarrow> lex_token \<Rightarrow> u64 \<Rightarrow> qtype bld" where
  "plain_type env name count =
     (let t = type_match (text_of (be_input env) name) in
      if t \<in> {TYPE_PTR, TYPE_FPTR, TYPE_QUAINT, TYPE_STRUCT, TYPE_UNION, TYPE_ENUM} then fail_b AST_INVALID
      else if t = TYPE_VOID then resolve_type env count name
      else ret_b (Ty_prim t (lay count)))"

text \<open>
  \<open>validate_name_type_pairs\<close> is the function of that name; \<open>pair_list\<close> is its first loop, and
  \<open>name_type_pair\<close> the body.
\<close>

function validate_typespec :: "benv \<Rightarrow> parse_node \<Rightarrow> qtype bld"
  and validate_name_type_pairs :: "benv \<Rightarrow> parse_node \<Rightarrow> (lex_symbol \<times> qtype) list bld"
  and pair_list :: "benv \<Rightarrow> parse_node \<Rightarrow> (lex_symbol \<times> qtype) list bld"
  and name_type_pair :: "benv \<Rightarrow> parse_node \<Rightarrow> (lex_symbol \<times> qtype) bld"
where
  "validate_typespec env n =
     (case view n of
        V_atom t \<Rightarrow> if tok_tk t = LEX_TK_NAME then plain_type env t 1 else fail_b AST_INVALID
      | V_aexp b off \<Rightarrow>
          (case array_of env b off of
             Some (t, count) \<Rightarrow> plain_type env t count
           | None \<Rightarrow> fail_b AST_INVALID)
      | V_fexp l r \<Rightarrow>
          (case type_head env l of
             None \<Rightarrow> fail_b AST_INVALID
           | Some (name, count) \<Rightarrow>
               let t = type_match (text_of (be_input env) name) in
               if t = TYPE_PTR then
                 (case r of
                    None \<Rightarrow> fail_b AST_INVALID
                  | Some r \<Rightarrow> bind_b (malloc_b env) (\<lambda>_. bind_b (validate_typespec env r) (\<lambda>s. ret_b (Ty_ptr (lay count) s))))
               else if t = TYPE_QUAINT then
                 bind_b (malloc_b env) (\<lambda>_.
                 case r of
                   None \<Rightarrow> ret_b (Ty_quaint (lay count) (Ty_prim TYPE_VOID (lay 0)))
                 | Some r \<Rightarrow> bind_b (validate_typespec env r) (\<lambda>s. ret_b (Ty_quaint (lay count) s)))
               else if t = TYPE_FPTR then
                 (case r of
                    None \<Rightarrow> ret_b (Ty_fptr (lay count) [] None)
                  | Some r \<Rightarrow> bind_b (validate_name_type_pairs env r) (\<lambda>ps. ret_b (Ty_fptr (lay count) ps None)))
               else if t = TYPE_STRUCT \<or> t = TYPE_UNION then
                 (case r of
                    None \<Rightarrow> fail_b AST_INVALID
                  | Some r \<Rightarrow> bind_b (validate_name_type_pairs env r) (\<lambda>ms.
                      ret_b (if t = TYPE_STRUCT then Ty_struct (lay count) ms [] else Ty_union (lay count) ms [])))
               else fail_b AST_INVALID)
      | V_bexp l op r \<Rightarrow>
          bind_b (need_b (op = LEX_TK_COLN)) (\<lambda>_.
          case view l of
            V_fexp fl fr \<Rightarrow>
              (case type_head env fl of
                 None \<Rightarrow> fail_b AST_INVALID
               | Some (name, count) \<Rightarrow>
                   bind_b (need_b (type_match (text_of (be_input env) name) = TYPE_FPTR)) (\<lambda>_.
                   bind_b (case fr of None \<Rightarrow> ret_b [] | Some fr \<Rightarrow> validate_name_type_pairs env fr) (\<lambda>ps.
                   bind_b (malloc_b env) (\<lambda>_.
                   bind_b (validate_typespec env r) (\<lambda>rt. ret_b (Ty_fptr (lay count) ps (Some rt)))))))
          | V_bad \<Rightarrow> fail_b Ast_undefined
          | _ \<Rightarrow> fail_b AST_INVALID)
      | V_bad \<Rightarrow> fail_b Ast_undefined
      | _ \<Rightarrow> fail_b AST_INVALID)"
| "validate_name_type_pairs env n =
     bind_b (pair_list env n) (\<lambda>ps.
     bind_b (need_b (names_differ (map fst ps))) (\<lambda>_. ret_b ps))"
| "pair_list env n =
     (case view n of
        V_bexp l op r \<Rightarrow>
          if op = LEX_TK_COMA then
            bind_b (name_type_pair env l) (\<lambda>p. bind_b (pair_list env r) (\<lambda>ps. ret_b (p # ps)))
          else bind_b (name_type_pair env n) (\<lambda>p. ret_b [p])
      | _ \<Rightarrow> bind_b (name_type_pair env n) (\<lambda>p. ret_b [p]))"
| "name_type_pair env n =
     (case view n of
        V_bexp l op r \<Rightarrow>
          bind_b (need_b (op = LEX_TK_COLN)) (\<lambda>_.
          case expr_is_name l of
            None \<Rightarrow> fail_b AST_INVALID
          | Some t \<Rightarrow>
              bind_b (malloc_b env) (\<lambda>_.
              bind_b (validate_typespec env r) (\<lambda>ty.
              bind_b (malloc_b env) (\<lambda>_. ret_b (tok_sym env t, ty)))))
      | V_bad \<Rightarrow> fail_b Ast_undefined
      | _ \<Rightarrow> fail_b AST_INVALID)"
  by pat_completeness auto

termination
  by (relation "measure (\<lambda>x. case x of
      Inl (Inl (env, n)) \<Rightarrow> 3 * size n
    | Inl (Inr (env, n)) \<Rightarrow> 3 * size n + 2
    | Inr (Inl (env, n)) \<Rightarrow> 3 * size n + 1
    | Inr (Inr (env, n)) \<Rightarrow> 3 * size n)") (auto dest!: view_size)

text \<open>A type object with the type of a specifier.\<close>

definition new_type :: "benv \<Rightarrow> parse_node \<Rightarrow> qtype bld" where
  "new_type env n = bind_b (malloc_b env) (\<lambda>_. validate_typespec env n)"

subsection \<open>Enumerations\<close>

function typespec_appears_enum :: "benv \<Rightarrow> parse_node \<Rightarrow> bool" where
  "typespec_appears_enum env n =
     (case view n of
        V_fexp l r \<Rightarrow> (case expr_is_name l of Some t \<Rightarrow> text_of (be_input env) t = ''enum'' | None \<Rightarrow> False)
      | V_bexp l op r \<Rightarrow> op = LEX_TK_COLN \<and> typespec_appears_enum env l
      | _ \<Rightarrow> False)"
  by pat_completeness auto

termination
  by (relation "measure (\<lambda>(env, n). size n)") (auto dest!: view_size)

definition enum_type_from_maxval :: "u64 \<Rightarrow> type_t" where
  "enum_type_from_maxval v =
     (if v \<le> 0xFF then TYPE_U8 else if v \<le> 0xFFFF then TYPE_U16
      else if v \<le> 0xFFFFFFFF then TYPE_U32 else TYPE_U64)"

definition enum_boundary_from_type :: "type_t \<Rightarrow> u64 option" where
  "enum_boundary_from_type t =
     (if t = TYPE_U8 then Some 0xFF else if t = TYPE_U16 then Some 0xFFFF
      else if t = TYPE_U32 then Some 0xFFFFFFFF
      else if t \<in> {TYPE_U64, TYPE_USIZE, TYPE_UPTR} then Some 0xFFFFFFFFFFFFFFFF
      else None)"

text \<open>The names in the list of values, each with a request for room.\<close>

definition enum_value :: "benv \<Rightarrow> parse_node \<Rightarrow> lex_symbol bld" where
  "enum_value env n =
     (case expr_is_name n of
        None \<Rightarrow> fail_b AST_INVALID
      | Some t \<Rightarrow> bind_b (malloc_b env) (\<lambda>_. ret_b (tok_sym env t)))"

function enum_names :: "benv \<Rightarrow> parse_node \<Rightarrow> lex_symbol list bld" where
  "enum_names env n =
     (case view n of
        V_bexp l op r \<Rightarrow>
          if op = LEX_TK_COMA then
            bind_b (enum_value env l) (\<lambda>x. bind_b (enum_names env r) (\<lambda>xs. ret_b (x # xs)))
          else bind_b (enum_value env n) (\<lambda>x. ret_b [x])
      | _ \<Rightarrow> bind_b (enum_value env n) (\<lambda>x. ret_b [x]))"
  by pat_completeness auto

termination
  by (relation "measure (\<lambda>(env, n). size n)") (auto dest!: view_size)

text \<open>The type of the values, given or the smallest that has the greatest value.\<close>

definition enum_of :: "lex_symbol list \<Rightarrow> type_t option \<Rightarrow> qtype bld" where
  "enum_of ns given =
     (let max_value = of_nat (length ns - 1);
          mk = (\<lambda>t. Ty_enum (lay 1) (zip ns (map of_nat [0..<length ns])) t)
      in case given of
           None \<Rightarrow> ret_b (mk (enum_type_from_maxval max_value))
         | Some t \<Rightarrow>
             (case enum_boundary_from_type t of
                None \<Rightarrow> fail_b Ast_abort
              | Some bound \<Rightarrow> bind_b (need_b (max_value \<le> bound)) (\<lambda>_. ret_b (mk t))))"

definition enum_body :: "benv \<Rightarrow> parse_node \<Rightarrow> type_t option \<Rightarrow> qtype bld" where
  "enum_body env e given =
     (case view e of
        V_fexp l (Some values) \<Rightarrow>
          bind_b (enum_names env values) (\<lambda>ns.
          bind_b (need_b (names_differ ns)) (\<lambda>_. enum_of ns given))
      | V_bad \<Rightarrow> fail_b Ast_undefined
      | _ \<Rightarrow> fail_b AST_INVALID)"

definition validate_typespec_enum :: "benv \<Rightarrow> parse_node \<Rightarrow> qtype bld" where
  "validate_typespec_enum env n =
     (case view n of
        V_bexp l op r \<Rightarrow>
          bind_b (new_type env r) (\<lambda>t.
          bind_b (need_b (type_is_integral (ty_t t) \<and> type_is_unsigned (ty_t t))) (\<lambda>_.
          enum_body env l (Some (ty_t t))))
      | _ \<Rightarrow> enum_body env n None)"

subsection \<open>Expressions\<close>

text \<open>An expression that may be absent, where the invalid one is absent too.\<close>

definition nullable :: "expr \<Rightarrow> expr option" where
  "nullable e = (if e = E_null then None else Some e)"

text \<open>What the quotes enclose.\<close>

definition unquoted :: "string \<Rightarrow> string" where
  "unquoted text = butlast (tl text)"

type_synonym 'a built = "bstate \<Rightarrow> ast_error \<times> 'a \<times> bstate"

text \<open>\<^verbatim>\<open>alloc_node\<close>; without memory the pointer stays null.\<close>

definition with_node :: "benv \<Rightarrow> 'a \<Rightarrow> 'a built \<Rightarrow> 'a built" where
  "with_node env null k =
     (\<lambda>s. case malloc_b env s of (Inl e, s) \<Rightarrow> (e, null, s) | (Inr _, s) \<Rightarrow> k s)"

text \<open>The next child is built when the one before was valid, and stays null otherwise.\<close>

definition then_child :: "'a built \<Rightarrow> ('a \<Rightarrow> 'b) \<Rightarrow> ('a \<Rightarrow> 'b built) \<Rightarrow> 'b built" where
  "then_child m partial k =
     (\<lambda>s. case m s of (err, x, s) \<Rightarrow> if err = AST_OK then k x s else (err, partial x, s))"

definition done_b :: "'a \<Rightarrow> 'a built" where
  "done_b x = (\<lambda>s. (AST_OK, x, s))"

lemma then_child_cong [fundef_cong]:
  "m = m' \<Longrightarrow> p = p' \<Longrightarrow> (\<And>x. k x = k' x) \<Longrightarrow> then_child m p k = then_child m' p' k'"
  by (metis ext)

text \<open>A type that hangs below a node; when it is invalid the pointer is null.\<close>

definition child_type :: "benv \<Rightarrow> parse_node \<Rightarrow> qtype option built" where
  "child_type env n =
     (\<lambda>s. case new_type env n s of (Inl e, s) \<Rightarrow> (e, None, s) | (Inr t, s) \<Rightarrow> (AST_OK, Some t, s))"

function validate_expr :: "benv \<Rightarrow> parse_node \<Rightarrow> expr built" where
  "validate_expr env n =
     (case view n of
        V_pexp e \<Rightarrow> validate_expr env e
      | V_wexp _ _ \<Rightarrow> (\<lambda>s. (AST_INVALID, E_null, s))
      | V_bexp l op r \<Rightarrow>
          with_node env E_null (
          if op = LEX_TK_CAST \<or> op = LEX_TK_COLN then
            then_child (validate_expr env l) (\<lambda>l. E_cast op l None None) (\<lambda>l.
            then_child (child_type env r) (\<lambda>_. E_cast op l None None) (\<lambda>t. done_b (E_cast op l t None)))
          else
            then_child (validate_expr env l) (\<lambda>l. E_bexp op l E_null No_ref None) (\<lambda>l.
            then_child (validate_expr env r) (\<lambda>r. E_bexp op l r No_ref None) (\<lambda>r. done_b (E_bexp op l r No_ref None))))
      | V_uexp op r \<Rightarrow>
          with_node env E_null (
          if op = LEX_TK_SZOF \<or> op = LEX_TK_ALOF then
            then_child (child_type env r) (\<lambda>_. E_size op None None) (\<lambda>t. done_b (E_size op t None))
          else
            then_child (validate_expr env r) (\<lambda>r. E_uexp op r None) (\<lambda>r. done_b (E_uexp op r None)))
      | V_fexp l r \<Rightarrow>
          with_node env E_null (
          then_child (validate_expr env l) (\<lambda>l. E_fexp l None 0 None) (\<lambda>l.
          case r of
            None \<Rightarrow> done_b (E_fexp l None 0 None)
          | Some r \<Rightarrow>
              then_child (validate_expr env r) (\<lambda>r. E_fexp l (nullable r) 0 None) (\<lambda>r. done_b (E_fexp l (nullable r) 0 None))))
      | V_xexp l op \<Rightarrow>
          with_node env E_null (
          then_child (validate_expr env l) (\<lambda>l. E_xexp op l None) (\<lambda>l. done_b (E_xexp op l None)))
      | V_aexp b off \<Rightarrow>
          with_node env E_null (
          then_child (validate_expr env b) (\<lambda>b. E_aexp b E_null None) (\<lambda>b.
          then_child (validate_expr env off) (\<lambda>off. E_aexp b off None) (\<lambda>off. done_b (E_aexp b off None))))
      | V_texp c x y \<Rightarrow>
          with_node env E_null (
          then_child (validate_expr env c) (\<lambda>c. E_texp c E_null E_null None) (\<lambda>c.
          then_child (validate_expr env x) (\<lambda>x. E_texp c x E_null None) (\<lambda>x.
          then_child (validate_expr env y) (\<lambda>y. E_texp c x y None) (\<lambda>y. done_b (E_texp c x y None)))))
      | V_atom t \<Rightarrow>
          if tok_tk t = LEX_TK_NAME then with_node env E_null (done_b (E_name (tok_sym env t) None None))
          else if tok_tk t = LEX_TK_NMBR then
            with_node env E_null (done_b (E_nmbr (nmbr_to_uint (text_of (be_input env) t)) None))
          else if tok_tk t = LEX_TK_STRL then
            with_node env E_null (done_b (E_strl (unquoted (text_of (be_input env) t)) None))
          else (\<lambda>s. (Ast_abort, E_null, s))
      | V_bad \<Rightarrow> (\<lambda>s. (Ast_undefined, E_null, s)))"
  by pat_completeness auto

termination
  by (relation "measure (\<lambda>(env, n). size n)") (auto dest!: view_size)

text \<open>An expression where an error leaves no trace: the statement around it is not finished.\<close>

definition expr_b :: "benv \<Rightarrow> parse_node \<Rightarrow> expr bld" where
  "expr_b env n = (\<lambda>s. case validate_expr env n s of (err, e, s) \<Rightarrow> (if err = AST_OK then Inr e else Inl err, s))"

subsection \<open>Simple statements\<close>

text \<open>A statement whose node, when it was not finished, is passed over later.\<close>

definition stmt_b :: "stmt bld \<Rightarrow> stmt built" where
  "stmt_b m = (\<lambda>s. case m s of (Inl e, s) \<Rightarrow> (e, S_skip, s) | (Inr x, s) \<Rightarrow> (AST_OK, x, s))"

definition validate_wlab :: "benv \<Rightarrow> parse_node \<Rightarrow> stmt bld" where
  "validate_wlab env e =
     (case expr_is_name e of
        None \<Rightarrow> fail_b AST_INVALID
      | Some t \<Rightarrow> bind_b (malloc_b env) (\<lambda>_. ret_b (S_wlab (tok_sym env t) 0 0)))"

definition validate_useu :: "benv \<Rightarrow> parse_node \<Rightarrow> stmt bld" where
  "validate_useu env e =
     (let is_strl = (\<lambda>e. case view e of V_atom t \<Rightarrow> tok_tk t = LEX_TK_STRL | _ \<Rightarrow> False) in
      bind_b (need_b (is_strl e \<or> (case view e of
         V_bexp l op r \<Rightarrow> is_strl l \<and> op = LEX_TK_CAST \<and> expr_is_name r \<noteq> None
       | _ \<Rightarrow> False))) (\<lambda>_.
      bind_b (malloc_b env) (\<lambda>_. ret_b S_skip)))"

definition insert_type :: "benv \<Rightarrow> lex_symbol \<Rightarrow> qtype \<Rightarrow> unit bld" where
  "insert_type env name t =
     (\<lambda>s. let k = bs_requests s;
             full = length (st_entries (bs_types s)) \<ge> st_allocated (bs_types s);
             (r, tab) = type_symtab_insert (\<lambda>_. mem_of env k) name t (bs_types s);
             s = s\<lparr>bs_types := tab, bs_requests := (if full \<and> r \<noteq> 1 then Suc k else k)\<rparr>
         in (if r = 0 then Inr () else if r < 0 then Inl AST_NOMEM else Inl AST_INVALID, s))"

definition validate_type :: "benv \<Rightarrow> parse_node \<Rightarrow> stmt bld" where
  "validate_type env e =
     (case view e of
        V_bexp l op r \<Rightarrow>
          (case expr_is_name l of
             None \<Rightarrow> fail_b AST_INVALID
           | Some name \<Rightarrow>
               bind_b (need_b (op = LEX_TK_COLN)) (\<lambda>_.
               bind_b (malloc_b env) (\<lambda>_.
               bind_b (malloc_b env) (\<lambda>_.
               bind_b ((if typespec_appears_enum env r then validate_typespec_enum else validate_typespec) env r) (\<lambda>t.
               bind_b (insert_type env (tok_sym env name) t) (\<lambda>_. ret_b S_skip))))))
      | V_bad \<Rightarrow> fail_b Ast_undefined
      | _ \<Rightarrow> fail_b AST_INVALID)"

definition validate_retn :: "benv \<Rightarrow> parse_node option \<Rightarrow> stmt bld" where
  "validate_retn env e =
     bind_b (malloc_b env) (\<lambda>_.
     case e of
       None \<Rightarrow> ret_b (S_retn None)
     | Some e \<Rightarrow> bind_b (expr_b env e) (\<lambda>e. ret_b (S_retn (Some e))))"

text \<open>A time is in milliseconds unless it is followed by \<open>sec\<close>.\<close>

definition validate_wait :: "benv \<Rightarrow> parse_node \<Rightarrow> (lex_tk \<times> parse_node) option \<Rightarrow> bool \<Rightarrow> stmt bld" where
  "validate_wait env q how noblock =
     bind_b (malloc_b env) (\<lambda>_.
     bind_b (expr_b env q) (\<lambda>q.
     case how of
       None \<Rightarrow> ret_b (S_wait q None None noblock False None 0)
     | Some (k, e) \<Rightarrow>
         if k = LEX_TK_WFOR then
           let (units, e) = (case view e of V_wexp l op \<Rightarrow> (op = LEX_TK_WSEC, l) | _ \<Rightarrow> (False, e)) in
           bind_b (expr_b env e) (\<lambda>e. ret_b (S_wait q (Some e) None noblock units None 0))
         else
           bind_b (expr_b env e) (\<lambda>e. ret_b (S_wait q None (Some e) noblock False None 0))))"

subsection \<open>Declarations\<close>

text \<open>
  \<open>count_decl_qualifiers\<close> gives whether there was \<open>const\<close>, \<open>exposed\<close> and \<open>static\<close>; \<open>decl_loop\<close> is
  the loop of \<^verbatim>\<open>validate_decl_or_expr\<close>, where \<open>Inr None\<close> is its exit \<^verbatim>\<open>out\<close>: not a declaration.
\<close>

fun count_decl_qualifiers :: "ctx \<Rightarrow> lex_tk list \<Rightarrow> bool \<times> bool \<times> bool \<Rightarrow> ast_error + bool \<times> bool \<times> bool" where
  "count_decl_qualifiers ctx [] q = Inr q"
| "count_decl_qualifiers ctx (tk # tks) (cons, expo, stat) =
     (if tk = LEX_TK_CONS then
        if cons then Inl AST_INVALID else count_decl_qualifiers ctx tks (True, expo, stat)
      else if tk = LEX_TK_EXPO then
        if ctx \<noteq> CTX_UNIT \<or> expo then Inl AST_INVALID else count_decl_qualifiers ctx tks (cons, True, stat)
      else if tk = LEX_TK_STAT then
        if ctx = CTX_UNIT \<or> stat then Inl AST_INVALID else count_decl_qualifiers ctx tks (cons, expo, True)
      else Inl Ast_abort)"

text \<open>One turn reads \<open>name , rest\<close> or \<open>name : type\<close> or \<open>name : type = init\<close>.\<close>

definition decl_item :: "parse_node \<Rightarrow> (lex_token \<times> lex_tk \<times> parse_node \<times> parse_node option) option" where
  "decl_item e =
     (case view e of
        V_bexp l op r \<Rightarrow>
          if op = LEX_TK_ASSN then
            (case view l of
               V_bexp l' op' r' \<Rightarrow>
                 if op' = LEX_TK_COLN then map_option (\<lambda>t. (t, op', r', Some r)) (expr_is_name l') else None
             | _ \<Rightarrow> None)
          else map_option (\<lambda>t. (t, op, r, None)) (expr_is_name l)
      | _ \<Rightarrow> None)"

lemma decl_item_size: "decl_item e = Some (t, LEX_TK_COMA, r, i) \<Longrightarrow> size r < size e"
  by (auto simp: decl_item_def dest!: view_size split: expr_shape.splits if_splits)

function decl_loop :: "benv \<Rightarrow> parse_node \<Rightarrow> (lex_symbol list \<times> qtype \<times> parse_node option) option bld" where
  "decl_loop env e =
     (case decl_item e of
        None \<Rightarrow> ret_b None
      | Some (t, op, r, i) \<Rightarrow>
          bind_b (malloc_b env) (\<lambda>_.
          if op = LEX_TK_COMA then
            bind_b (decl_loop env r) (\<lambda>d. ret_b (map_option (\<lambda>(ns, ty, i). (tok_sym env t # ns, ty, i)) d))
          else if op = LEX_TK_COLN then
            bind_b (new_type env r) (\<lambda>ty. ret_b (Some ([tok_sym env t], ty, i)))
          else ret_b None))"
  by pat_completeness auto

termination
  by (relation "measure (\<lambda>(env, e). size e)") (auto dest!: decl_item_size)

definition validate_decl :: "benv \<Rightarrow> bool \<times> bool \<times> bool \<Rightarrow> lex_symbol list \<times> qtype \<times> parse_node option \<Rightarrow> stmt bld" where
  "validate_decl env = (\<lambda>(cons, expo, stat) (ns, ty, i).
     bind_b (need_b (names_differ ns)) (\<lambda>_.
     bind_b (malloc_b env) (\<lambda>_.
     bind_b (case i of None \<Rightarrow> ret_b None | Some e \<Rightarrow> bind_b (expr_b env e) (\<lambda>e. ret_b (Some e))) (\<lambda>init.
     ret_b (S_decl \<lparr>d_cons = cons, d_expo = expo, d_stat = stat, d_names = ns, d_type = ty\<rparr> init)))))"

definition validate_decl_or_expr :: "benv \<Rightarrow> ctx \<Rightarrow> lex_tk list \<Rightarrow> parse_node \<Rightarrow> stmt built" where
  "validate_decl_or_expr env ctx quals e =
     (\<lambda>s. case count_decl_qualifiers ctx quals (False, False, False) of
        Inl err \<Rightarrow> (err, S_skip, s)
      | Inr q \<Rightarrow>
          (case decl_loop env e s of
             (Inl err, s) \<Rightarrow> (err, S_skip, s)
           | (Inr (Some d), s) \<Rightarrow> stmt_b (validate_decl env q d) s
           | (Inr None, s) \<Rightarrow>
               if quals \<noteq> [] then (AST_INVALID, S_skip, s)
               else (case validate_expr env e s of
                       (err, x, s) \<Rightarrow> (err, if x = E_null then S_skip else S_expr x, s))))"

subsection \<open>Functions\<close>

fun func_qualifiers :: "lex_tk list \<Rightarrow> bool \<Rightarrow> ast_error + bool" where
  "func_qualifiers [] exposed = Inr exposed"
| "func_qualifiers (tk # tks) exposed =
     (if tk = LEX_TK_CONS \<or> tk = LEX_TK_STAT then Inl AST_INVALID
      else if tk = LEX_TK_EXPO then if exposed then Inl AST_INVALID else func_qualifiers tks True
      else Inl Ast_abort)"

text \<open>The signature: \<open>f\<close>, \<open>f(params)\<close>, \<open>f : type\<close> or \<open>f(params) : type\<close>.\<close>

definition func_params :: "benv \<Rightarrow> parse_node option \<Rightarrow> (lex_symbol \<times> qtype) list bld" where
  "func_params env r = (case r of None \<Rightarrow> ret_b [] | Some r \<Rightarrow> validate_name_type_pairs env r)"

definition func_head :: "benv \<Rightarrow> parse_node \<Rightarrow> (lex_symbol \<times> (lex_symbol \<times> qtype) list) bld" where
  "func_head env e =
     (case view e of
        V_atom t \<Rightarrow> if tok_tk t = LEX_TK_NAME then ret_b (tok_sym env t, []) else fail_b AST_INVALID
      | V_fexp l r \<Rightarrow>
          (case expr_is_name l of
             None \<Rightarrow> fail_b AST_INVALID
           | Some t \<Rightarrow> bind_b (func_params env r) (\<lambda>ps. ret_b (tok_sym env t, ps)))
      | V_bad \<Rightarrow> fail_b Ast_undefined
      | _ \<Rightarrow> fail_b AST_INVALID)"

definition func_signature :: "benv \<Rightarrow> parse_node \<Rightarrow> (lex_symbol \<times> (lex_symbol \<times> qtype) list \<times> qtype option) bld" where
  "func_signature env e =
     (case view e of
        V_bexp l op r \<Rightarrow>
          bind_b (need_b (op = LEX_TK_COLN)) (\<lambda>_.
          bind_b (func_head env l) (\<lambda>(name, ps).
          bind_b (new_type env r) (\<lambda>rt. ret_b (name, ps, Some rt))))
      | _ \<Rightarrow> bind_b (func_head env e) (\<lambda>(name, ps). ret_b (name, ps, None)))"

subsection \<open>Statements\<close>

text \<open>Both parts are built, whatever the first one's error.\<close>

definition both_b :: "'a built \<Rightarrow> 'b built \<Rightarrow> ('a \<times> 'b) built" where
  "both_b m n = (\<lambda>s. case m s of (err, x, s) \<Rightarrow> case n s of (err', y, s) \<Rightarrow> (aggr_err err err', (x, y), s))"

definition map_b :: "('a \<Rightarrow> 'b) \<Rightarrow> 'a built \<Rightarrow> 'b built" where
  "map_b f m = (\<lambda>s. case m s of (err, x, s) \<Rightarrow> (err, f x, s))"

definition reject_b :: "ast_error \<Rightarrow> stmt built" where
  "reject_b e = (\<lambda>s. (e, S_skip, s))"

text \<open>\<^verbatim>\<open>CTX_COUNT\<close> is the room on the stack of contexts.\<close>

definition in_context :: "ctx \<Rightarrow> 'a \<Rightarrow> 'a built \<Rightarrow> 'a built" where
  "in_context c null m =
     (\<lambda>s. if length (bs_ctx s) \<ge> 3 then (Ast_abort, null, s)
          else case m (s\<lparr>bs_ctx := c # bs_ctx s\<rparr>) of
                 (err, x, s) \<Rightarrow> (case bs_ctx s of [] \<Rightarrow> (Ast_abort, x, s) | _ # cs \<Rightarrow> (err, x, s\<lparr>bs_ctx := cs\<rparr>)))"

definition in_block_ctx :: "ctx \<Rightarrow> stmt built \<Rightarrow> stmt built" where
  "in_block_ctx ctx m =
     (if ctx = CTX_UNIT then reject_b AST_INVALID
      else if ctx = CTX_BLOCK then m
      else in_context CTX_BLOCK S_skip m)"

text \<open>The node of a function, whose body is built when its signature is valid.\<close>

definition func_node :: "benv \<Rightarrow> lex_tk list \<Rightarrow> parse_node \<Rightarrow> stmt list built \<Rightarrow> stmt built" where
  "func_node env quals e body =
     (case func_qualifiers quals False of
        Inl err \<Rightarrow> reject_b err
      | Inr expo \<Rightarrow>
          (\<lambda>s. case malloc_b env s of
             (Inl err, s) \<Rightarrow> (err, S_skip, s)
           | (Inr addr, s) \<Rightarrow>
               (case func_signature env e s of
                  (Inl err, s) \<Rightarrow> (err, S_skip, s)
                | (Inr (name, ps, rt), s) \<Rightarrow>
                    map_b (S_func \<lparr>f_addr = addr, f_expo = expo, f_name = name, f_params = ps,
                      f_rettype = rt, f_wlabs = []\<rparr> []) body s)))"

text \<open>
  \<open>validate_stmt\<close> with \<^verbatim>\<open>validate_blok\<close>, \<^verbatim>\<open>validate_ctrl\<close>, \<^verbatim>\<open>validate_cond\<close>, \<^verbatim>\<open>validate_whil\<close>,
  \<^verbatim>\<open>validate_dowh\<close> and \<^verbatim>\<open>validate_func\<close>; \<open>block_node\<close> makes the node of a block.
\<close>

function validate_stmt :: "benv \<Rightarrow> parse_node \<Rightarrow> stmt built"
  and validate_stmts :: "benv \<Rightarrow> parse_node list \<Rightarrow> stmt list built"
  and block_node :: "benv \<Rightarrow> bool \<Rightarrow> parse_node list \<Rightarrow> stmt built"
  and validate_elifs :: "benv \<Rightarrow> (parse_node \<times> parse_node list) list \<Rightarrow> (expr \<times> stmt) list built"
where
  "validate_stmt env n =
     (\<lambda>s. case bs_ctx s of
        [] \<Rightarrow> (Ast_undefined, S_skip, s)
      | ctx # _ \<Rightarrow>
          (case sview n of
             SV_useu e \<Rightarrow> if ctx \<noteq> CTX_UNIT then reject_b AST_INVALID else stmt_b (validate_useu env e)
           | SV_type expo e \<Rightarrow> if ctx \<noteq> CTX_UNIT then reject_b AST_INVALID else stmt_b (validate_type env e)
           | SV_wait q how noblock \<Rightarrow>
               if ctx = CTX_UNIT then reject_b AST_INVALID else stmt_b (validate_wait env q how noblock)
           | SV_retn e \<Rightarrow> if ctx = CTX_UNIT then reject_b AST_INVALID else stmt_b (validate_retn env e)
           | SV_wlab e \<Rightarrow> if ctx = CTX_UNIT then reject_b AST_INVALID else stmt_b (validate_wlab env e)
           | SV_blok noin ss \<Rightarrow> in_block_ctx ctx (block_node env noin ss)
           | SV_expr quals e \<Rightarrow> validate_decl_or_expr env ctx quals e
           | SV_cond e ss elifs els \<Rightarrow>
               in_block_ctx ctx (with_node env S_skip (
               map_b (\<lambda>(e, b, elifs, els). S_cond e b elifs els)
                 (both_b (validate_expr env e) (both_b (block_node env False ss) (both_b (validate_elifs env elifs)
                   (case els of None \<Rightarrow> done_b None | Some ss \<Rightarrow> map_b Some (block_node env False ss)))))))
           | SV_whil e ss \<Rightarrow>
               in_block_ctx ctx (with_node env S_skip (
               map_b (\<lambda>(e, ss). S_whil e [] ss) (both_b (validate_expr env e) (validate_stmts env ss))))
           | SV_dowh ss e \<Rightarrow>
               in_block_ctx ctx (with_node env S_skip (
               map_b (\<lambda>(ss, e). S_dowh e [] ss) (both_b (validate_stmts env ss) (validate_expr env e))))
           | SV_func quals e ss \<Rightarrow>
               if ctx \<noteq> CTX_UNIT then reject_b AST_INVALID
               else in_context CTX_FUNC S_skip (func_node env quals e (validate_stmts env ss))
           | SV_bad \<Rightarrow> reject_b Ast_undefined) s)"
| "validate_stmts env [] = done_b []"
| "validate_stmts env (n # ns) = map_b (\<lambda>(x, xs). x # xs) (both_b (validate_stmt env n) (validate_stmts env ns))"
| "block_node env noin ss = with_node env S_skip (map_b (S_blok noin []) (validate_stmts env ss))"
| "validate_elifs env [] = done_b []"
| "validate_elifs env ((e, ss) # es) =
     map_b (\<lambda>(e, b, es). (e, b) # es)
       (both_b (validate_expr env e) (both_b (block_node env False ss) (validate_elifs env es)))"
  by pat_completeness auto

termination
  by (relation "measure (\<lambda>x. case x of
      Inl (Inl (env, n)) \<Rightarrow> 3 * size n
    | Inl (Inr (env, ns)) \<Rightarrow> 3 * size_list size ns
    | Inr (Inl (env, noin, ns)) \<Rightarrow> 3 * size_list size ns + 1
    | Inr (Inr (env, es)) \<Rightarrow> 3 * branch_sizes es + 2)") (auto dest!: sview_inner)

definition ast_build :: "benv \<Rightarrow> parse_node \<Rightarrow> bstate \<Rightarrow> ast_error \<times> stmt list \<times> bstate" where
  "ast_build env unit s =
     (case unit of
        Node nt (Leaf _ # c # cs) \<Rightarrow>
          with_node env [] (\<lambda>s.
            if bs_ctx s \<noteq> [] then (Ast_abort, [], s)
            else case in_context CTX_UNIT [] (validate_stmts env (butlast (c # cs))) s of
                   (err, ss, s) \<Rightarrow> (if bs_ctx s \<noteq> [] then Ast_abort else err, ss, s)) s
      | _ \<Rightarrow> (Ast_undefined, [], s))"

end
