(* ===== verification/Lex_Text.thy ===== *)
theory Lex_Text
  imports Lex
begin

text \<open>
  Which kind a text has (keywords against names, comments), and the line and column that
  error messages report for a token (\<^verbatim>\<open>lex_locate_linecol\<close> of \<^verbatim>\<open>src/lex.c\<close>).
\<close>

subsection \<open>The kind of a text\<close>

lemma status_literal:
  assumes "(tk, str) \<in> set tk_lits"
  shows "status tk w = STS_ACCEPT \<longleftrightarrow> w = str"
proof -
  have d: "distinct (map fst tk_lits)" and ne: "list_all (\<lambda>x. snd x \<noteq> []) tk_lits"
    by (simp_all add: tk_lits_def)
  have "map_of tk_lits tk = Some str"
    using assms d by simp
  moreover have "tk \<notin> {LEX_TK_NAME, LEX_TK_NMBR, LEX_TK_STRL, LEX_TK_WSPC, LEX_TK_LCOM, LEX_TK_BCOM}"
    using assms by (auto simp: tk_lits_def)
  ultimately have "tk_func tk = lit_step str"
    by (simp add: tk_func_def)
  moreover have "str \<noteq> []"
    using assms ne by (auto simp: list_all_iff)
  ultimately show ?thesis
    by (auto simp: status_def run_lit matches_full) (auto simp: matches_def)
qed

lemma status_class:
  "status LEX_TK_NAME w = STS_ACCEPT \<longleftrightarrow> is_name w"
  "status LEX_TK_NMBR w = STS_ACCEPT \<longleftrightarrow> w \<noteq> [] \<and> (\<forall>c \<in> set w. IS_DIGIT c)"
  "status LEX_TK_WSPC w = STS_ACCEPT \<longleftrightarrow> w \<noteq> [] \<and> (\<forall>c \<in> set w. IS_WSPACE c)"
  by (simp_all add: status_def tk_func_def run_name run_nmbr run_wspc is_name_def)

lemma status_special:
  "status LEX_TK_STRL w = fst (run tk_strl w)"
  "status LEX_TK_LCOM w = fst (run tk_lcom w)"
  "status LEX_TK_BCOM w = fst (run tk_bcom w)"
  by (simp_all add: status_def tk_func_def)

lemma foldl_no_accept:
  "\<forall>tk \<in> set tks. \<not> P tk \<Longrightarrow> foldl (\<lambda>acc tk. if P tk then tk else acc) d tks = d"
  by (induction tks) auto

lemma foldl_the_accept:
  "\<lbrakk>tk \<in> set tks; P tk; \<forall>u \<in> set tks. P u \<longrightarrow> u = tk\<rbrakk> \<Longrightarrow>
    foldl (\<lambda>acc tk. if P tk then tk else acc) d tks = tk"
proof (induction tks rule: rev_induct)
  case (snoc t tks)
  show ?case
  proof (cases "P t")
    case True
    moreover have "t = tk" using True snoc.prems(3) by (metis in_set_conv_decomp)
    ultimately show ?thesis by simp
  next
    case False
    then have "tk \<in> set tks" using snoc.prems(1,2) by (metis Un_iff empty_iff empty_set
      set_ConsD set_append)
    then have "foldl (\<lambda>acc tk. if P tk then tk else acc) d tks = tk"
      by (rule snoc.IH [OF _ snoc.prems(2)]) (metis UnI1 set_append snoc.prems(3))
    with False show ?thesis by simp
  qed
qed simp

definition special_tks :: "lex_tk list" where
  "special_tks = [LEX_TK_NAME, LEX_TK_NMBR, LEX_TK_STRL, LEX_TK_WSPC, LEX_TK_LCOM, LEX_TK_BCOM]"

lemma kind_of_literal:
  assumes "(tk, str) \<in> set tk_lits"
  shows "kind_of str = tk"
proof -
  have d: "distinct (map snd tk_lits)" by (simp add: tk_lits_def)
  have uniq: "u = tk" if "(u, str) \<in> set tk_lits" for u
    using d that assms by (metis distinct_map inj_onD snd_conv prod.inject)
  have "\<forall>u \<in> set (map fst tk_lits). status u str = STS_ACCEPT \<longrightarrow> u = tk"
    using status_literal uniq by fastforce
  moreover have "tk \<in> set (map fst tk_lits)" and "status tk str = STS_ACCEPT"
    using assms status_literal [OF assms, of str] by (force, simp)
  ultimately show ?thesis
    unfolding kind_of_def lex_tks_split foldl_append by (intro foldl_the_accept)
qed

lemma kind_of_nonliteral:
  assumes "w \<notin> snd ` set tk_lits"
  shows "kind_of w =
    foldl (\<lambda>acc tk. if status tk w = STS_ACCEPT then tk else acc) LEX_TK_COUNT special_tks"
proof -
  have "\<forall>u \<in> set (map fst tk_lits). status u w \<noteq> STS_ACCEPT"
    using assms status_literal by force
  then show ?thesis
    unfolding kind_of_def lex_tks_split foldl_append special_tks_def
    by (intro foldl_no_accept) auto
qed

lemma IS_ALPHA_cases:
  "IS_ALPHA c \<Longrightarrow> \<not> IS_DIGIT c \<and> \<not> IS_WSPACE c \<and> c \<noteq> CHR 0x22 \<and> c \<noteq> CHR ''/''"
  by (auto simp: IS_ALPHA_def IS_DIGIT_def IS_WSPACE_def less_eq_char_def)

lemma name_not_special:
  assumes "is_name w"
  shows "status LEX_TK_NMBR w \<noteq> STS_ACCEPT \<and> status LEX_TK_STRL w \<noteq> STS_ACCEPT \<and>
    status LEX_TK_WSPC w \<noteq> STS_ACCEPT \<and> status LEX_TK_LCOM w \<noteq> STS_ACCEPT \<and>
    status LEX_TK_BCOM w \<noteq> STS_ACCEPT"
proof -
  obtain c u where w: "w = c # u" and c: "IS_ALPHA c \<or> c = CHR ''_''"
    using assms by (cases w) (auto simp: is_name_def)
  have ok: "\<not> IS_DIGIT c" "\<not> IS_WSPACE c" "c \<noteq> CHR 0x22" "c \<noteq> CHR ''/''"
    using c IS_ALPHA_cases [of c] by (auto simp: IS_DIGIT_def IS_WSPACE_def less_eq_char_def)
  show ?thesis
    using ok w by (cases u)
      (simp_all add: status_class status_special run_strl run_lcom run_lcom_1 run_bcom run_bcom_1)
qed

subsection \<open>Texts that are one token\<close>

definition fbeg :: lex_token where
  "fbeg = \<lparr>tok_tk = LEX_TK_FBEG, tok_beg = 0, tok_end = 0\<rparr>"

definition fend :: lex_token where
  "fend = \<lparr>tok_tk = LEX_TK_FEND, tok_beg = 0, tok_end = 0\<rparr>"

lemma longest_viable_whole:
  "(\<And>k. length w < k \<Longrightarrow> k \<le> length (w @ u) \<Longrightarrow> viable (take k (w @ u))) \<Longrightarrow>
    longest_viable w u = w @ u"
proof (induction w u rule: longest_viable.induct)
  case (2 w c cs)
  have "viable (w @ [c])" using "2.prems" [of "Suc (length w)"] by simp
  moreover have "longest_viable (w @ [c]) cs = (w @ [c]) @ cs" if "viable (w @ [c])"
    by (rule "2.IH" [OF that]) (use "2.prems" in simp)
  ultimately show ?case by simp
qed simp

lemma lex_one_token:
  assumes "w \<noteq> []" and "\<And>k. 0 < k \<Longrightarrow> k \<le> length w \<Longrightarrow> viable (take k w)"
  shows "lex (\<lambda>_. True) w =
    (if kind_of w = LEX_TK_COUNT
     then LEX_UNKNOWN_TOKEN [fbeg, \<lparr>tok_tk = LEX_TK_COUNT, tok_beg = 0, tok_end = length w\<rparr>]
     else LEX_OK [fbeg, \<lparr>tok_tk = kind_of w, tok_beg = 0, tok_end = length w\<rparr>, fend])"
proof -
  have "longest_viable [] w = w"
    using longest_viable_whole [of "[]" w] assms(2) by simp
  then show ?thesis
    using assms(1) by (simp add: lex_reference reference_lex_def Let_def fbeg_def fend_def
        reference_tokens.simps [of 0 w] reference_tokens.simps [of _ "[]"])
qed

lemma viableI: "tk \<in> set lex_tks \<Longrightarrow> status tk w \<noteq> STS_REJECT \<Longrightarrow> viable w"
  by (auto simp: viable_def)

lemma special_in_lex_tks:
  "LEX_TK_NAME \<in> set lex_tks" "LEX_TK_LCOM \<in> set lex_tks" "LEX_TK_BCOM \<in> set lex_tks"
  by (simp_all add: lex_tks_split)

lemma is_name_take: "is_name w \<Longrightarrow> 0 < k \<Longrightarrow> is_name (take k w)"
  by (cases w; cases k) (auto simp: is_name_def dest: in_set_takeD)

lemma viable_name: "is_name w \<Longrightarrow> 0 < k \<Longrightarrow> viable (take k w)"
  by (rule viableI [OF special_in_lex_tks(1)]) (use is_name_take [of w k] status_class(1) [of "take k w"] in auto)

lemma lits_are_functions: "(tk, str) \<in> set tk_lits \<Longrightarrow> tk_func tk = lit_step str \<and> str \<noteq> []"
proof -
  assume a: "(tk, str) \<in> set tk_lits"
  have "distinct (map fst tk_lits)" "list_all (\<lambda>x. snd x \<noteq> []) tk_lits"
    by (simp_all add: tk_lits_def)
  moreover have "tk \<notin> {LEX_TK_NAME, LEX_TK_NMBR, LEX_TK_STRL, LEX_TK_WSPC, LEX_TK_LCOM, LEX_TK_BCOM}"
    using a by (auto simp: tk_lits_def)
  ultimately show ?thesis using a by (auto simp: tk_func_def list_all_iff)
qed

lemma viable_literal:
  assumes "(tk, str) \<in> set tk_lits" and "0 < k" and "k \<le> length str"
  shows "viable (take k str)"
proof -
  have "status tk (take k str) \<noteq> STS_REJECT"
    using lits_are_functions [OF assms(1)] assms(2,3)
    by (auto simp: status_def run_lit matches_def min_def)
  moreover have "tk \<in> set lex_tks" using assms(1) by (force simp: lex_tks_split)
  ultimately show ?thesis by (auto simp: viable_def)
qed

lemma kind_of_name: "is_name w \<Longrightarrow> w \<notin> snd ` set tk_lits \<Longrightarrow> kind_of w = LEX_TK_NAME"
  using name_not_special [of w] by (simp add: kind_of_nonliteral special_tks_def status_class)

lemma lits_kind_proper: "(tk, str) \<in> set tk_lits \<Longrightarrow> tk \<noteq> LEX_TK_COUNT"
  by (auto simp: tk_lits_def)

text \<open>
  C33. Keywords win over names: each keyword and operator of the table, given alone, is one
  token of its own kind, although the recogniser of names accepts the keywords too; and any
  other text that is a letter or underscore followed by letters, digits and underscores is
  one \<open>LEX_TK_NAME\<close>, also when it starts or ends with a keyword.
\<close>

theorem lex_keyword_or_name:
  assumes "(tk, str) \<in> set tk_lits" and "is_name w" and "w \<notin> snd ` set tk_lits"
  shows "lex (\<lambda>_. True) str =
      LEX_OK [fbeg, \<lparr>tok_tk = tk, tok_beg = 0, tok_end = length str\<rparr>, fend] \<and>
    lex (\<lambda>_. True) w =
      LEX_OK [fbeg, \<lparr>tok_tk = LEX_TK_NAME, tok_beg = 0, tok_end = length w\<rparr>, fend]"
proof -
  have "str \<noteq> []" "w \<noteq> []"
    using lits_are_functions [OF assms(1)] assms(2) by (auto simp: is_name_def)
  then show ?thesis
    using lex_one_token [of str] lex_one_token [of w] viable_literal [OF assms(1)]
      viable_name [OF assms(2)] kind_of_literal [OF assms(1)] kind_of_name [OF assms(2,3)]
      lits_kind_proper [OF assms(1)] by simp
qed

theorem lex_keyword_or_name_witness:
  "lex (\<lambda>_. True) ''wait'' =
      LEX_OK [fbeg, \<lparr>tok_tk = LEX_TK_WAIT, tok_beg = 0, tok_end = 4\<rparr>, fend] \<and>
   lex (\<lambda>_. True) ''waiter'' =
      LEX_OK [fbeg, \<lparr>tok_tk = LEX_TK_NAME, tok_beg = 0, tok_end = 6\<rparr>, fend]"
proof -
  have "(LEX_TK_WAIT, ''wait'') \<in> set tk_lits" "''waiter'' \<notin> snd ` set tk_lits"
    by (simp_all add: tk_lits_def)
  moreover have "is_name ''waiter''"
    by (simp add: is_name_def IS_ALNUM_def IS_ALPHA_def less_eq_char_def)
  ultimately show ?thesis
    using lex_keyword_or_name [of LEX_TK_WAIT "''wait''" "''waiter''"] by simp
qed

subsection \<open>Comments\<close>

lemma bcom_body_stars:
  "bcom_body (replicate n CHR ''*'' @ ''/'') = (if odd n then (STS_ACCEPT, 4) else (STS_HUNGRY, 2))"
proof (induction n rule: induct_nat_012)
  case (ge2 n)
  then show ?case by simp
qed simp_all

lemma bcom_body_skip:
  "CHR ''*'' \<notin> set v \<Longrightarrow> u \<noteq> [] \<Longrightarrow> bcom_body (v @ u) = bcom_body u"
proof (induction v)
  case (Cons c v)
  then show ?case by (cases "v @ u") auto
qed simp

text \<open>
  C31. Where a comment ends. A block comment \<^verbatim>\<open>/* v **...* /\<close> whose body \<open>v\<close> has no star
  and which is closed by \<open>n\<close> stars and a slash is accepted exactly for odd \<open>n\<close>: after a
  star that is followed by a second star the recogniser has forgotten the second one. So
  \<^verbatim>\<open>/**/\<close> is a comment, but \<^verbatim>\<open>/***/\<close> and \<^verbatim>\<open>/* x **/\<close> are not closed. A line comment is
  accepted only with its newline.
\<close>

theorem comments_closed:
  assumes "CHR ''*'' \<notin> set v" and "\<forall>c \<in> set u. \<not> is_newline c"
  shows "(status LEX_TK_BCOM (''/*'' @ v @ replicate n CHR ''*'' @ ''/'') = STS_ACCEPT \<longleftrightarrow> odd n) \<and>
    status LEX_TK_LCOM (''//'' @ u) = STS_HUNGRY \<and>
    (is_newline c \<longrightarrow> status LEX_TK_LCOM (''//'' @ u @ [c]) = STS_ACCEPT)"
  using assms bcom_body_skip [OF assms(1), of "replicate n CHR ''*'' @ ''/''"]
  by (simp add: status_special run_bcom run_lcom bcom_body_stars)

theorem comments_closed_witness:
  "status LEX_TK_BCOM ''/* x */'' = STS_ACCEPT \<and> status LEX_TK_BCOM ''/* x **/'' \<noteq> STS_ACCEPT"
  using comments_closed [of "'' x ''" "[]" 1] comments_closed [of "'' x ''" "[]" 2]
  by (simp add: numeral_2_eq_2)

subsection \<open>Line and column of a token\<close>

text \<open>
  \<^verbatim>\<open>lex_locate_linecol\<close> walks back over the tokens before the given one and over the
  characters of each. Its inner loop is a \<^verbatim>\<open>do ... while\<close> that would leave the buffer on an
  empty token, and its outer loop needs the begin marker: both are \<open>None\<close> here. The
  counters are \<^verbatim>\<open>size_t\<close> and at most the input's length, so they do not wrap.
\<close>

definition locate_char :: "char \<Rightarrow> nat \<times> nat \<Rightarrow> nat \<times> nat" where
  "locate_char c lc =
     (if c = CHR 0x0A \<or> c = CHR 0x0D then (Suc (fst lc), snd lc)
      else if fst lc = 1 then (fst lc, Suc (snd lc)) else lc)"

fun locate_back :: "string \<Rightarrow> lex_token list \<Rightarrow> nat \<times> nat \<Rightarrow> (nat \<times> nat) option" where
  "locate_back input [] lc = None"
| "locate_back input (t # ts) lc =
     (if tok_tk t = LEX_TK_FBEG then Some lc
      else if text_of input t = [] then None
      else locate_back input ts (fold locate_char (rev (text_of input t)) lc))"

definition lex_locate_linecol :: "string \<Rightarrow> lex_token list \<Rightarrow> nat \<Rightarrow> (nat \<times> nat) option" where
  "lex_locate_linecol input toks i = locate_back input (rev (take i toks)) (1, 1)"

lemma locate_back_fold:
  assumes "\<forall>t \<in> set ts. text_of input t \<noteq> [] \<and> tok_tk t \<noteq> LEX_TK_FBEG" and "tok_tk b = LEX_TK_FBEG"
  shows "locate_back input (ts @ b # us) lc =
    Some (fold locate_char (concat (map (\<lambda>t. rev (text_of input t)) ts)) lc)"
  using assms by (induction ts arbitrary: lc) auto

lemma fold_locate_char:
  assumes "1 \<le> l"
  shows "fold locate_char cs (l, k) =
    (l + length (filter is_newline cs),
     k + (if l = 1 then length (takeWhile (Not \<circ> is_newline) cs) else 0))"
  using assms
  by (induction cs arbitrary: l k) (auto simp: locate_char_def is_newline_def)

lemma rev_concat_texts: "concat (map (\<lambda>t. rev (f t)) (rev ts)) = rev (concat (map f ts))"
  by (induction ts) auto

lemma marks_not_lexed: "LEX_TK_FBEG \<notin> set lex_tks"
  by (simp add: lex_tks_def)

lemma tiled_each:
  "tiled input off ts \<Longrightarrow> \<forall>t \<in> set ts. text_of input t \<noteq> [] \<and> tok_tk t \<noteq> LEX_TK_FBEG"
proof (induction ts arbitrary: off)
  case (Cons t ts)
  then have "text_of input t \<noteq> []" "tok_tk t \<noteq> LEX_TK_FBEG"
    using marks_not_lexed by (auto simp: text_of_def)
  then show ?case using Cons.IH [of "tok_end t"] Cons.prems by simp
qed simp

lemma tiled_take:
  "tiled input off ts \<Longrightarrow> k < length ts \<Longrightarrow>
    concat (map (text_of input) (take k ts)) = take (tok_beg (ts ! k) - off) (drop off input) \<and>
    off \<le> tok_beg (ts ! k)"
proof (induction ts arbitrary: off k)
  case (Cons t ts)
  show ?case
  proof (cases k)
    case 0
    then show ?thesis using Cons.prems by simp
  next
    case (Suc j)
    let ?b = "tok_beg (ts ! j)"
    have IH: "concat (map (text_of input) (take j ts)) = take (?b - tok_end t) (drop (tok_end t) input)"
      "tok_end t \<le> ?b"
      using Cons.IH [of "tok_end t" j] Cons.prems Suc by auto
    have "take (?b - off) (drop off input) =
        take (tok_end t - off) (drop off input) @ take (?b - tok_end t) (drop (tok_end t) input)"
    proof -
      have "?b - off = (tok_end t - off) + (?b - tok_end t)"
        and "drop (tok_end t) input = drop (tok_end t - off) (drop off input)"
        using IH(2) Cons.prems(1) by simp_all
      then show ?thesis by (simp only: take_add)
    qed
    then show ?thesis
      using Cons.prems(1) IH Suc by (simp add: text_of_def [of input t])
  qed
qed simp

text \<open>
  C32. For every token of a lexed file but the two markers, the position reported is: line
  one plus the number of newline characters before the token, column one plus the length of
  the text since the last of them. The walk never runs out of the token array and never
  meets an empty token. (Both \<^verbatim>\<open>CR\<close> and \<^verbatim>\<open>LF\<close> count, so a \<^verbatim>\<open>CR LF\<close> pair counts two lines.)
\<close>

theorem locate_linecol_correct:
  assumes "lex mem_ok input = LEX_OK toks" and "0 < i" and "Suc i < length toks"
  shows "let pre = take (tok_beg (toks ! i)) input
    in lex_locate_linecol input toks i =
      Some (Suc (length (filter is_newline pre)),
            Suc (length (takeWhile (Not \<circ> is_newline) (rev pre))))"
proof -
  obtain mid where toks: "toks = fbeg # mid @ [fend]" and tiled: "tiled input 0 mid"
    using lex_ok_tiled [OF assms(1)] by (auto simp: fbeg_def fend_def)
  obtain j where j: "i = Suc j" "j < length mid" using assms(2,3) toks by (cases i) auto
  let ?pre = "take (tok_beg (mid ! j)) input"
  have "lex_locate_linecol input toks i =
      locate_back input (rev (take j mid) @ fbeg # []) (1, 1)"
    using j by (simp add: lex_locate_linecol_def toks)
  also have "\<dots> = Some (fold locate_char (rev ?pre) (1, 1))"
    by (subst locate_back_fold)
      (use tiled_each [OF tiled] tiled_take [OF tiled j(2)] in
        \<open>auto simp: fbeg_def rev_concat_texts dest: in_set_takeD\<close>)
  finally show ?thesis
    using j fold_locate_char [of 1 "rev ?pre" 1] by (simp add: toks nth_append rev_filter [symmetric])
qed

theorem locate_linecol_correct_witness:
  "lex_locate_linecol [CHR ''a'', CHR 0x0A, CHR '';'', CHR '';''] [fbeg,
      \<lparr>tok_tk = LEX_TK_NAME, tok_beg = 0, tok_end = 1\<rparr>, \<lparr>tok_tk = LEX_TK_WSPC, tok_beg = 1, tok_end = 2\<rparr>,
      \<lparr>tok_tk = LEX_TK_SCOL, tok_beg = 2, tok_end = 3\<rparr>, \<lparr>tok_tk = LEX_TK_SCOL, tok_beg = 3, tok_end = 4\<rparr>,
      fend] 4 = Some (2, 2)"
proof -
  have "lex (\<lambda>_. True) [CHR ''a'', CHR 0x0A, CHR '';'', CHR '';''] = LEX_OK [fbeg,
      \<lparr>tok_tk = LEX_TK_NAME, tok_beg = 0, tok_end = 1\<rparr>, \<lparr>tok_tk = LEX_TK_WSPC, tok_beg = 1, tok_end = 2\<rparr>,
      \<lparr>tok_tk = LEX_TK_SCOL, tok_beg = 2, tok_end = 3\<rparr>, \<lparr>tok_tk = LEX_TK_SCOL, tok_beg = 3, tok_end = 4\<rparr>,
      fend]"
    by code_simp
  from locate_linecol_correct [OF this, of 4] show ?thesis
    by (simp add: is_newline_def)
qed

end
