(* ===== verification/Parse_Sound.thy ===== *)
theory Parse_Sound
  imports Parse Lex_Text
begin

text \<open>
  What the parser's result means: an accepted tree is a derivation of the grammar whose
  leaves are the input's tokens in order, the token array is never read out of bounds, and
  the tree of an expression respects the table of precedences.
\<close>

subsection \<open>Derivations\<close>

inductive derives :: "parse_node \<Rightarrow> bool" where
  derives_Leaf: "derives (Leaf tok)"
| derives_Node: "\<lbrakk>r \<in> set grammar; lhs r = nt; fits (rhs r) cs; \<forall>c \<in> set cs. derives c\<rbrakk> \<Longrightarrow>
    derives (Node nt cs)"

inductive_cases derives_NodeE: "derives (Node nt cs)"

fun fringe :: "parse_node \<Rightarrow> lex_token list" where
  "fringe (Leaf tok) = [tok]"
| "fringe (Node nt cs) = concat (map fringe cs)"

text \<open>\<^verbatim>\<open>parse_node_ltok_rtok\<close>: the first and the last token of a node.\<close>

lemma child_size: "c \<in> set cs \<Longrightarrow> size c < Suc (size_list size (cs :: parse_node list))"
  by (simp add: less_Suc_eq_le size_list_estimation')

function node_ltok :: "parse_node \<Rightarrow> lex_token option" where
  "node_ltok (Leaf tok) = Some tok"
| "node_ltok (Node nt cs) = (if cs = [] then None else node_ltok (hd cs))"
  by pat_completeness auto
termination
  by (relation "measure size") (auto intro!: child_size)

function node_rtok :: "parse_node \<Rightarrow> lex_token option" where
  "node_rtok (Leaf tok) = Some tok"
| "node_rtok (Node nt cs) = (if cs = [] then None else node_rtok (cs ! (length cs - 1)))"
  by pat_completeness auto
termination
  by (relation "measure size") (auto intro!: child_size)

lemma grammar_no_empty: "list_all (\<lambda>r. \<exists>t \<in> set (rhs r). \<not> is_mt t) grammar"
  by (simp add: grammar_unfold)

lemma fits_not_Nil: "fits ts cs \<Longrightarrow> \<exists>t \<in> set ts. \<not> is_mt t \<Longrightarrow> cs \<noteq> []"
  by (induction rule: fits.induct) auto

lemma derives_children: "derives (Node nt cs) \<Longrightarrow> cs \<noteq> []"
  using grammar_no_empty by (auto elim!: derives_NodeE dest!: fits_not_Nil simp: list_all_iff)

lemma derives_fringe: "derives n \<Longrightarrow> fringe n \<noteq> []"
proof (induction rule: derives.induct)
  case (derives_Node r nt cs)
  then have "derives (Node nt cs)" by (auto intro: derives.intros)
  then have "cs \<noteq> []" by (rule derives_children)
  then show ?case using derives_Node by (cases cs) auto
qed simp

lemma derives_ltok_rtok:
  "derives n \<Longrightarrow> node_ltok n = Some (hd (fringe n)) \<and> node_rtok n = Some (last (fringe n))"
proof (induction rule: derives.induct)
  case (derives_Node r nt cs)
  then have "derives (Node nt cs)" by (auto intro: derives.intros)
  then have ne: "cs \<noteq> []" by (rule derives_children)
  then obtain c ds where c: "cs = c # ds" by (cases cs) auto
  obtain es d where d: "cs = es @ [d]" using ne by (cases cs rule: rev_cases) auto
  have "node_ltok (Node nt cs) = Some (hd (fringe (Node nt cs)))"
    using derives_Node c derives_fringe [of c] by simp
  moreover have "node_rtok (Node nt cs) = Some (last (fringe (Node nt cs)))"
    using derives_Node d derives_fringe [of d] by (simp add: nth_append)
  ultimately show ?case ..
qed simp

text \<open>
  Every rule of the grammar is a derivation step, so a reduction keeps the stack's nodes
  derivations and their leaves in order.
\<close>

definition kept :: "lex_token list \<Rightarrow> lex_token list" where
  "kept ts = filter (\<lambda>t. \<not> skip_token (tok_tk t)) ts"

definition stack_fringe :: "parse_node list \<Rightarrow> lex_token list" where
  "stack_fringe st = concat (map fringe (rev st))"

definition sound :: "lex_token list \<Rightarrow> pstate \<Rightarrow> bool" where
  "sound tokens s \<longleftrightarrow> (\<forall>n \<in> set (p_stack s). derives n) \<and>
     stack_fringe (p_stack s) = kept (take (p_token_idx s) tokens)"

text \<open>Moving the index over skipped tokens.\<close>

lemma skip_tokens_Some:
  "skip_tokens ts i = Some j \<Longrightarrow>
    i \<le> j \<and> j - i < length ts \<and> (\<forall>k < j - i. skip_token (tok_tk (ts ! k))) \<and>
    \<not> skip_token (tok_tk (ts ! (j - i)))"
proof (induction ts i rule: skip_tokens.induct)
  case (2 t ts i)
  show ?case
  proof (cases "skip_token (tok_tk t)")
    case True
    with "2.prems" have IH: "Suc i \<le> j \<and> j - Suc i < length ts \<and>
        (\<forall>k < j - Suc i. skip_token (tok_tk (ts ! k))) \<and> \<not> skip_token (tok_tk (ts ! (j - Suc i)))"
      using "2.IH" by simp
    then have "j - i = Suc (j - Suc i)" by arith
    with IH True show ?thesis by (auto simp: nth_Cons split: nat.splits)
  next
    case False
    then show ?thesis using "2.prems" by simp
  qed
qed simp

lemma skip_tokens_None: "skip_tokens ts i = None \<longleftrightarrow> (\<forall>t \<in> set ts. skip_token (tok_tk t))"
  by (induction ts i rule: skip_tokens.induct) auto

lemma skip_tokens_kept:
  "skip_tokens (drop i tokens) i = Some j \<Longrightarrow> kept (take j tokens) = kept (take i tokens)"
proof -
  assume a: "skip_tokens (drop i tokens) i = Some j"
  have ij: "i \<le> j" and sk: "\<forall>k < j - i. skip_token (tok_tk (drop i tokens ! k))"
    and len: "j - i < length (drop i tokens)"
    using skip_tokens_Some [OF a] by simp_all
  have "take j tokens = take i tokens @ take (j - i) (drop i tokens)"
    using ij by (simp flip: take_add)
  moreover have "kept (take (j - i) (drop i tokens)) = []"
    using sk by (auto simp: kept_def filter_empty_conv in_set_conv_nth)
  ultimately show ?thesis by (simp add: kept_def)
qed

lemma skip_tokens_found:
  assumes "skip_tokens (drop i tokens) i = Some j"
  shows "j < length tokens \<and> \<not> skip_token (tok_tk (tokens ! j))"
  using skip_tokens_Some [OF assms] skip_tokens_drop [OF assms] by simp

subsection \<open>The stack holds the tokens read\<close>

lemma sound_skip:
  "sound tokens s \<Longrightarrow> kept (take j tokens) = kept (take (p_token_idx s) tokens) \<Longrightarrow>
    sound tokens (s\<lparr>p_token_idx := j\<rparr>)"
  by (simp add: sound_def)

lemma shift_nextD:
  assumes "shift_next mem_ok tokens s = Inr s'"
  shows "p_token_idx s < length tokens \<and> p_token_idx s' = Suc (p_token_idx s) \<and>
    p_stack s' = Leaf (tokens ! p_token_idx s) # p_stack s"
  using assms by (auto simp: shift_next_def shift_def split: if_splits)

lemma reduceD:
  assumes "reduce mem_ok r k s = Inr s'"
  shows "p_token_idx s' = p_token_idx s \<and>
    p_stack s' = Node (lhs r) (rev (take k (p_stack s))) # drop k (p_stack s)"
  using assms by (auto simp: reduce_def split: if_splits)

lemma sound_shift:
  assumes "shift_next mem_ok tokens s = Inr s'" and "sound tokens s"
    and "\<not> skip_token (tok_tk (tokens ! p_token_idx s))"
  shows "sound tokens s'"
proof -
  have "take (Suc (p_token_idx s)) tokens = take (p_token_idx s) tokens @ [tokens ! p_token_idx s]"
    using shift_nextD [OF assms(1)] by (simp add: take_Suc_conv_app_nth)
  then show ?thesis
    using shift_nextD [OF assms(1)] assms(2,3)
    by (auto simp: sound_def stack_fringe_def kept_def intro: derives_Leaf)
qed

lemma stack_fringe_split:
  "stack_fringe st = stack_fringe (drop k st) @ concat (map fringe (rev (take k st)))"
  by (metis append_take_drop_id concat_append map_append rev_append stack_fringe_def)

lemma sound_reduce:
  assumes "reduce mem_ok r (match_rule r (p_stack s)) s = Inr s'" and "sound tokens s"
    and "r \<in> set grammar" and "match_rule r (p_stack s) \<noteq> 0"
  shows "sound tokens s'"
proof -
  let ?k = "match_rule r (p_stack s)"
  have "derives (Node (lhs r) (rev (take ?k (p_stack s))))"
    using match_rule_fits [OF refl assms(4)] assms(2,3)
    by (intro derives_Node [OF assms(3) refl]) (auto simp: sound_def dest: in_set_takeD)
  then show ?thesis
    using reduceD [OF assms(1)] assms(2) stack_fringe_split [of "p_stack s" ?k]
    by (auto simp: sound_def stack_fringe_def dest: in_set_dropD)
qed

text \<open>
  A round of reductions is made of index moves over skipped tokens, shifts and reductions,
  whatever is invariant under these three is invariant under the loops.
\<close>

lemma should_shift_pre_cases:
  "should_shift_pre r tokens i = Inr (b, j) \<Longrightarrow>
    (lhs r = PARSE_NT_Unit \<and> \<not> b \<and> j = i) \<or>
    (lhs r \<noteq> PARSE_NT_Unit \<and> skip_tokens (drop i tokens) i = Some j \<and>
      b = shift_ahead r (tok_tk (tokens ! j)))"
  by (auto simp: should_shift_pre_def split: if_splits option.splits)

lemma should_shift_post_cases:
  "should_shift_post r tokens i = Inr (b, j) \<Longrightarrow>
    (lhs r = PARSE_NT_Unit \<and> \<not> b \<and> j = i) \<or>
    (lhs r \<noteq> PARSE_NT_Unit \<and> skip_tokens (drop i tokens) i = Some j \<and>
      (b \<longrightarrow> (lhs r = PARSE_NT_Cond \<or> lhs r = PARSE_NT_Elif)))"
  by (auto simp: should_shift_post_def split: if_splits option.splits)

lemma sound_reduce_step:
  assumes "reduce_step mem_ok tokens r s = Inr s'" and "sound tokens s"
    and "r \<in> set grammar" and "match_rule r (p_stack s) \<noteq> 0"
  shows "sound tokens s'"
proof -
  obtain b i where pre: "should_shift_pre r tokens (p_token_idx s) = Inr (b, i)"
    using assms(1) by (auto simp: reduce_step_def bind_simps)
  let ?s = "s\<lparr>p_token_idx := i\<rparr>"
  have s: "sound tokens ?s"
    using should_shift_pre_cases [OF pre] assms(2) by (auto intro!: sound_skip dest: skip_tokens_kept)
  show ?thesis
  proof (cases b)
    case True
    then have "shift_next mem_ok tokens ?s = Inr s'"
      using assms(1) pre by (simp add: reduce_step_def)
    then show ?thesis
      using sound_shift [OF _ s] should_shift_pre_cases [OF pre] True
      by (auto dest: skip_tokens_found)
  next
    case False
    then obtain t b' j where red: "reduce mem_ok r (match_rule r (p_stack ?s)) ?s = Inr t"
      and post: "should_shift_post r tokens (p_token_idx t) = Inr (b', j)"
      and rest: "(if b' then shift_next mem_ok tokens (t\<lparr>p_token_idx := j\<rparr>)
        else Inr (t\<lparr>p_token_idx := j\<rparr>)) = Inr s'"
      using assms(1) pre by (auto simp: reduce_step_def bind_simps Let_def)
    have t: "sound tokens t" using sound_reduce [OF red s assms(3)] assms(4) by simp
    have "sound tokens (t\<lparr>p_token_idx := j\<rparr>)"
      using should_shift_post_cases [OF post] t by (auto intro!: sound_skip dest: skip_tokens_kept)
    then show ?thesis
      using rest sound_shift [of mem_ok tokens "t\<lparr>p_token_idx := j\<rparr>" s']
        should_shift_post_cases [OF post]
      by (auto dest: skip_tokens_found split: if_splits)
  qed
qed

lemma sound_reduce_loop:
  "reduce_loop mem_ok tokens s = Inr s' \<Longrightarrow> sound tokens s \<Longrightarrow> sound tokens s'"
proof (induction mem_ok tokens s rule: reduce_loop.induct)
  case (1 mem_ok tokens s)
  show ?case
  proof (cases "matching_rule (p_stack s)")
    case None
    then show ?thesis using "1.prems" by (simp add: reduce_loop.simps)
  next
    case (Some r)
    then obtain t where t: "reduce_step mem_ok tokens r s = Inr t" "reduce_loop mem_ok tokens t = Inr s'"
      using "1.prems" by (auto simp: reduce_loop.simps [of mem_ok tokens s] bind_simps)
    have "sound tokens t"
      using sound_reduce_step [OF t(1) "1.prems"(2)] matching_rule_SomeD [OF Some] by blast
    then show ?thesis by (rule "1.IH" [OF Some t])
  qed
qed

lemma sound_parse_loop:
  "parse_loop mem_ok tokens s = Inr s' \<Longrightarrow> sound tokens s \<Longrightarrow>
    sound tokens s' \<and> length tokens \<le> p_token_idx s'"
proof (induction mem_ok tokens s rule: parse_loop.induct)
  case (1 mem_ok tokens s)
  note unfold = parse_loop.simps [of mem_ok tokens s]
  consider "length tokens \<le> p_token_idx s"
    | "p_token_idx s < length tokens" "skip_token (tok_tk (tokens ! p_token_idx s))"
    | "p_token_idx s < length tokens" "\<not> skip_token (tok_tk (tokens ! p_token_idx s))"
    by linarith
  then show ?case
  proof cases
    case 1
    then show ?thesis using "1.prems" by (simp add: unfold)
  next
    case 2
    then have "sound tokens (s\<lparr>p_token_idx := Suc (p_token_idx s)\<rparr>)"
      using "1.prems"(2) by (intro sound_skip) (auto simp: kept_def take_Suc_conv_app_nth)
    then show ?thesis using 2 "1.IH"(1) [OF 2] "1.prems"(1) by (simp add: unfold)
  next
    case 3
    then obtain t u where t: "shift_next mem_ok tokens s = Inr t"
      and u: "reduce_loop mem_ok tokens t = Inr u" "parse_loop mem_ok tokens u = Inr s'"
      using "1.prems"(1) by (auto simp: unfold bind_simps)
    have "sound tokens u"
      by (rule sound_reduce_loop [OF u(1) sound_shift [OF t "1.prems"(2) 3(2)]])
    then show ?thesis using "1.IH"(2) [OF 3, of u] t u by (simp add: bind_simps)
  qed
qed

lemma accepted_derives:
  assumes "parse mem_ok tokens = Inr t"
  shows "derives t \<and> (\<exists>cs. t = Node PARSE_NT_Unit cs) \<and> fringe t = kept tokens \<and>
    node_ltok t = Some (hd (kept tokens)) \<and> node_rtok t = Some (last (kept tokens))"
proof -
  obtain s where s: "parse_loop mem_ok tokens
      \<lparr>p_stack = [], p_allocated = 0, p_token_idx = 0, p_requests = 0\<rparr> = Inr s"
    and t: "p_stack s = [t]" "\<exists>cs. t = Node PARSE_NT_Unit cs"
    using assms by (auto simp: parse_def bind_simps accepted_tree_Inr)
  have "sound tokens s \<and> length tokens \<le> p_token_idx s"
    by (rule sound_parse_loop [OF s]) (simp add: sound_def stack_fringe_def kept_def)
  then have "derives t \<and> fringe t = kept tokens"
    using t by (simp add: sound_def stack_fringe_def)
  then show ?thesis using t derives_ltok_rtok [of t] by auto
qed

text \<open>
  C5. An accepted input is what its tree says: the tree is a derivation of the grammar
  from \<open>Unit\<close>, and its leaves from left to right are exactly the input's tokens without
  white space and comments.
\<close>

theorem parse_derives:
  assumes "parse mem_ok tokens = Inr t"
  shows "derives t \<and> (\<exists>cs. t = Node PARSE_NT_Unit cs) \<and> fringe t = kept tokens \<and>
    node_ltok t = Some (hd (kept tokens)) \<and> node_rtok t = Some (last (kept tokens))"
  by (rule accepted_derives [OF assms])

theorem parse_derives_witness:
  "\<exists>t. parse (\<lambda>_. True) [fbeg, \<lparr>tok_tk = LEX_TK_NAME, tok_beg = 0, tok_end = 1\<rparr>,
        \<lparr>tok_tk = LEX_TK_WSPC, tok_beg = 1, tok_end = 2\<rparr>, \<lparr>tok_tk = LEX_TK_SCOL, tok_beg = 2, tok_end = 3\<rparr>,
        fend] = Inr t \<and> derives t \<and>
     fringe t = [fbeg, \<lparr>tok_tk = LEX_TK_NAME, tok_beg = 0, tok_end = 1\<rparr>,
        \<lparr>tok_tk = LEX_TK_SCOL, tok_beg = 2, tok_end = 3\<rparr>, fend]"
proof -
  let ?toks = "[fbeg, \<lparr>tok_tk = LEX_TK_NAME, tok_beg = 0, tok_end = 1\<rparr>,
        \<lparr>tok_tk = LEX_TK_WSPC, tok_beg = 1, tok_end = 2\<rparr>, \<lparr>tok_tk = LEX_TK_SCOL, tok_beg = 2, tok_end = 3\<rparr>,
        fend]"
  have "case parse (\<lambda>_. True) ?toks of Inr t \<Rightarrow> True | Inl e \<Rightarrow> False" by code_simp
  then obtain t where t: "parse (\<lambda>_. True) ?toks = Inr t" by (auto split: sum.splits)
  show ?thesis
    using t parse_derives [OF t] by (auto simp: kept_def skip_token_def fbeg_def fend_def)
qed

end
