(* ===== verification/Parse_Bounds.thy ===== *)
theory Parse_Bounds
  imports Parse_Sound
begin

text \<open>
  The parser reads \<^verbatim>\<open>tokens[token_idx]\<close> after a match without comparing the index to
  \<^verbatim>\<open>ntokens\<close>. This stays in bounds because the end marker is the last token and no rule
  but the last one of the derivation has it.
\<close>

fun final_node :: "parse_node \<Rightarrow> bool" where
  "final_node (Leaf tok) \<longleftrightarrow> tok_tk tok = LEX_TK_FEND"
| "final_node (Node nt _) \<longleftrightarrow> nt = PARSE_NT_Unit"

definition bounded :: "lex_token list \<Rightarrow> pstate \<Rightarrow> bool" where
  "bounded tokens s \<longleftrightarrow> p_token_idx s \<le> length tokens \<and>
     (p_token_idx s = length tokens \<longrightarrow> p_stack s \<noteq> [] \<and> final_node (hd (p_stack s)))"

definition ends_marked :: "lex_token list \<Rightarrow> bool" where
  "ends_marked tokens \<longleftrightarrow> tokens \<noteq> [] \<and> tok_tk (last tokens) = LEX_TK_FEND"

lemma fits_nodes: "fits ts cs \<Longrightarrow> c \<in> set cs \<Longrightarrow> \<exists>t \<in> set ts. term_eq_node t c"
  by (induction rule: fits.induct) auto

lemma grammar_not_final:
  "list_all (\<lambda>r. lhs r = PARSE_NT_Unit \<or>
     (\<forall>t \<in> set (rhs r). t \<noteq> T LEX_TK_FEND \<and> t \<noteq> N PARSE_NT_Unit \<and> t \<noteq> M PARSE_NT_Unit)) grammar"
  by (simp add: grammar_unfold)

lemma matched_not_final:
  assumes "r \<in> set grammar" and "lhs r \<noteq> PARSE_NT_Unit" and "match_rule r st \<noteq> 0"
  shows "st \<noteq> [] \<and> \<not> final_node (hd st)"
proof -
  have fits: "fits (rhs r) (rev (take (match_rule r st) st))" and "match_rule r st \<le> length st"
    using match_rule_fits [OF refl assms(3)] by auto
  then obtain n st' where st: "st = n # st'" using assms(3) by (cases st) auto
  obtain t where t: "t \<in> set (rhs r)" "term_eq_node t n"
    using fits_nodes [OF fits, of n] assms(3) st by (auto simp: take_Cons')
  have "t \<noteq> T LEX_TK_FEND \<and> t \<noteq> N PARSE_NT_Unit \<and> t \<noteq> M PARSE_NT_Unit"
    using grammar_not_final assms(1,2) t(1) by (auto simp: list_all_iff)
  then show ?thesis using t(2) st by (cases t; cases n) auto
qed

lemma skip_tokens_reach:
  assumes "ends_marked tokens" and "i < length tokens"
  shows "\<exists>j. skip_tokens (drop i tokens) i = Some j"
proof -
  have "last tokens \<in> set (drop i tokens)"
    using assms by (metis drop_eq_Nil last_drop last_in_set not_le)
  moreover have "\<not> skip_token (tok_tk (last tokens))"
    using assms(1) by (simp add: ends_marked_def skip_token_def)
  ultimately show ?thesis using skip_tokens_None [of "drop i tokens" i] by (cases "skip_tokens (drop i tokens) i") auto
qed

lemma shift_next_in_bounds:
  assumes "p_token_idx s < length tokens"
  shows "shift_next mem_ok tokens s \<noteq> Inl Parse_overrun \<and>
    (\<exists>s'. shift_next (\<lambda>_. True) tokens s = Inr s')"
  using assms by (auto simp: shift_next_def shift_def)

lemma shift_next_bounded:
  assumes "shift_next mem_ok tokens s = Inr s'" and "ends_marked tokens"
  shows "bounded tokens s'"
proof -
  have "length tokens - 1 = p_token_idx s" if "Suc (p_token_idx s) = length tokens"
    using that by simp
  then show ?thesis
    using shift_nextD [OF assms(1)] assms(2)
    by (auto simp: bounded_def ends_marked_def last_conv_nth)
qed

text \<open>The errors other than running out of memory that a step can have: none.\<close>

definition no_overrun :: "(nat \<Rightarrow> bool) \<Rightarrow> parse_error + 'a \<Rightarrow> bool" where
  "no_overrun mem_ok x \<longleftrightarrow> x \<noteq> Inl Parse_overrun \<and> x \<noteq> Inl PARSE_REJECT \<and>
     ((\<forall>k. mem_ok k) \<longrightarrow> x \<noteq> Inl PARSE_NOMEM)"

lemma no_overrun_Inr [simp]: "no_overrun mem_ok (Inr x)"
  by (simp add: no_overrun_def)

lemma no_overrun_bind:
  "no_overrun mem_ok m \<Longrightarrow> (\<And>x. m = Inr x \<Longrightarrow> no_overrun mem_ok (k x)) \<Longrightarrow> no_overrun mem_ok (bind_r m k)"
  by (cases m) (auto simp: no_overrun_def)

lemma no_overrun_shift:
  "p_token_idx s < length tokens \<Longrightarrow> no_overrun mem_ok (shift_next mem_ok tokens s)"
  by (auto simp: no_overrun_def shift_next_def shift_def)

lemma no_overrun_reduce: "no_overrun mem_ok (reduce mem_ok r k s)"
  by (auto simp: no_overrun_def reduce_def)

lemma reduce_step_bounded:
  assumes "ends_marked tokens" and "bounded tokens s" and "r \<in> set grammar"
    and "match_rule r (p_stack s) \<noteq> 0"
  shows "no_overrun mem_ok (reduce_step mem_ok tokens r s) \<and>
    (\<forall>s'. reduce_step mem_ok tokens r s = Inr s' \<longrightarrow> bounded tokens s')"
proof (cases "lhs r = PARSE_NT_Unit")
  case True
  then show ?thesis
    using no_overrun_reduce [of mem_ok r _ s] assms(2)
    by (auto simp: reduce_step_def should_shift_pre_def should_shift_post_def bind_simps bounded_def
        dest!: reduceD intro!: no_overrun_bind)
next
  case False
  let ?i = "p_token_idx s"
  have "?i < length tokens"
    using matched_not_final [OF assms(3) False assms(4)] assms(2) by (auto simp: bounded_def)
  then obtain j where j: "skip_tokens (drop ?i tokens) ?i = Some j" "j < length tokens"
    using skip_tokens_reach [OF assms(1)] skip_tokens_drop by blast
  then obtain j' where j': "skip_tokens (drop j tokens) j = Some j'" "j' < length tokens"
    using skip_tokens_reach [OF assms(1)] skip_tokens_drop by blast
  show ?thesis
  proof (cases "shift_ahead r (tok_tk (tokens ! j))")
    case True
    then show ?thesis
      using False j no_overrun_shift [of "s\<lparr>p_token_idx := j\<rparr>" tokens mem_ok]
        shift_next_bounded [OF _ assms(1)]
      by (auto simp: reduce_step_def should_shift_pre_def Let_def)
  next
    case no: False
    show ?thesis
      using False no j j' shift_next_bounded [OF _ assms(1)]
      by (auto simp: reduce_step_def should_shift_pre_def should_shift_post_def Let_def bind_simps
          bounded_def dest!: reduceD
          intro!: no_overrun_bind no_overrun_reduce no_overrun_shift split: if_splits)
  qed
qed

lemma reduce_loop_bounded:
  "ends_marked tokens \<Longrightarrow> bounded tokens s \<Longrightarrow>
    no_overrun mem_ok (reduce_loop mem_ok tokens s) \<and>
    (\<forall>s'. reduce_loop mem_ok tokens s = Inr s' \<longrightarrow> bounded tokens s')"
proof (induction mem_ok tokens s rule: reduce_loop.induct)
  case (1 mem_ok tokens s)
  show ?case
  proof (cases "matching_rule (p_stack s)")
    case None
    then show ?thesis using "1.prems" by (simp add: reduce_loop.simps)
  next
    case (Some r)
    have step: "no_overrun mem_ok (reduce_step mem_ok tokens r s)"
      "\<And>t. reduce_step mem_ok tokens r s = Inr t \<Longrightarrow> bounded tokens t"
      using reduce_step_bounded [OF "1.prems"] matching_rule_SomeD [OF Some] by auto
    then show ?thesis
      using Some "1.IH" [OF Some _ "1.prems"(1)]
      by (auto simp: reduce_loop.simps [of mem_ok tokens s] bind_simps intro!: no_overrun_bind)
  qed
qed

lemma parse_loop_bounded:
  "ends_marked tokens \<Longrightarrow> no_overrun mem_ok (parse_loop mem_ok tokens s)"
proof (induction mem_ok tokens s rule: parse_loop.induct)
  case (1 mem_ok tokens s)
  note unfold = parse_loop.simps [of mem_ok tokens s]
  show ?case
  proof (cases "p_token_idx s < length tokens \<and> \<not> skip_token (tok_tk (tokens ! p_token_idx s))")
    case True
    let ?m = "bind_r (shift_next mem_ok tokens s) (reduce_loop mem_ok tokens)"
    have "no_overrun mem_ok ?m"
      using True no_overrun_shift reduce_loop_bounded [OF "1.prems"] shift_next_bounded [OF _ "1.prems"]
      by (auto intro!: no_overrun_bind)
    then show ?thesis
      using True "1.IH"(2) "1.prems" by (auto simp: unfold intro!: no_overrun_bind)
  next
    case False
    then show ?thesis using "1.IH"(1) "1.prems" by (auto simp: unfold)
  qed
qed

lemma parse_in_bounds:
  assumes "lex lex_mem input = LEX_OK tokens"
  shows "parse mem_ok tokens \<noteq> Inl Parse_overrun \<and>
    ((\<exists>t. parse (\<lambda>_. True) tokens = Inr t) \<or> parse (\<lambda>_. True) tokens = Inl PARSE_REJECT)"
proof -
  have "ends_marked tokens"
    using lex_ok_tiled [OF assms] by (auto simp: ends_marked_def)
  then have loop: "no_overrun m (parse_loop m tokens s)" for m s
    by (rule parse_loop_bounded)
  have acc: "accepted_tree st \<in> range Inr \<union> {Inl PARSE_REJECT}" for st
    by (cases st rule: accepted_tree.cases) auto
  have "parse m tokens \<in> range Inr \<union> {Inl PARSE_REJECT, Inl PARSE_NOMEM} \<and>
      ((\<forall>k. m k) \<longrightarrow> parse m tokens \<noteq> Inl PARSE_NOMEM)" for m
  proof (cases "parse_loop m tokens \<lparr>p_stack = [], p_allocated = 0, p_token_idx = 0, p_requests = 0\<rparr>")
    case (Inl e)
    then show ?thesis
      using loop [of m "\<lparr>p_stack = [], p_allocated = 0, p_token_idx = 0, p_requests = 0\<rparr>"]
      by (cases e) (auto simp: parse_def no_overrun_def)
  next
    case (Inr s)
    then show ?thesis using acc [of "p_stack s"] by (auto simp: parse_def)
  qed
  from this [of mem_ok] this [of "\<lambda>_. True"] show ?thesis by auto
qed

text \<open>
  C22. Parsing what the lexer returned never reads the token array past its end, although
  the reads after a match are not checked; and when memory is available it returns a tree
  or rejects the program (it ends on every input, since the loops are total functions).
\<close>

theorem parse_stays_in_bounds:
  assumes "lex lex_mem input = LEX_OK tokens"
  shows "parse mem_ok tokens \<noteq> Inl Parse_overrun \<and>
    ((\<exists>t. parse (\<lambda>_. True) tokens = Inr t) \<or> parse (\<lambda>_. True) tokens = Inl PARSE_REJECT)"
  by (rule parse_in_bounds [OF assms])

theorem parse_stays_in_bounds_witness:
  "parse (\<lambda>k. k < 3) [fbeg, \<lparr>tok_tk = LEX_TK_QUES, tok_beg = 0, tok_end = 1\<rparr>, fend] \<noteq> Inl Parse_overrun"
proof -
  have "lex (\<lambda>_. True) ''?'' =
      LEX_OK [fbeg, \<lparr>tok_tk = LEX_TK_QUES, tok_beg = 0, tok_end = 1\<rparr>, fend]"
    by code_simp
  from parse_stays_in_bounds [OF this] show ?thesis by simp
qed

end
