(* ===== verification/Parse_Prec.thy ===== *)
theory Parse_Prec
  imports Parse_Bounds
begin

text \<open>
  Precedence and associativity in the trees the parser accepts. The parser has one
  nonterminal for all expressions and decides with the token ahead; that this gives each
  operator the operands the table says is an invariant of the stack: what stands under a
  token does not want it, and what stands right of an operator binds tighter than it.
\<close>

definition first_tk :: "parse_node \<Rightarrow> lex_tk" where
  "first_tk n = tok_tk (hd (fringe n))"

text \<open>No rule on the right edge of the node would have shifted the token that follows it.\<close>

function right_ok :: "parse_node \<Rightarrow> lex_tk \<Rightarrow> bool" where
  "right_ok (Leaf tok) a \<longleftrightarrow> True"
| "right_ok (Node nt cs) a \<longleftrightarrow> nt = PARSE_NT_Unit \<or>
     (if cs = [] then True else (\<exists>r \<in> set grammar. lhs r = nt \<and> fits (rhs r) cs \<and> \<not> shift_ahead r a) \<and> right_ok (last cs) a)"
  by pat_completeness auto
termination
  by (relation "measure (size \<circ> fst)") (auto intro!: child_size)

definition is_expr :: "parse_node \<Rightarrow> bool" where
  "is_expr n \<longleftrightarrow> (\<exists>cs. n = Node PARSE_NT_Expr cs)"

definition leaf_tk :: "parse_node \<Rightarrow> lex_tk option" where
  "leaf_tk n = (case n of Leaf tok \<Rightarrow> Some (tok_tk tok) | _ \<Rightarrow> None)"

text \<open>Every operator on the left edge of the node is one that the operator left of it lets pass.\<close>

function left_ok :: "lex_tk \<Rightarrow> parse_node \<Rightarrow> bool" where
  "left_ok op (Leaf tok) \<longleftrightarrow> True"
| "left_ok op (Node nt cs) \<longleftrightarrow>
     (if cs = [] then True else left_ok op (hd cs) \<and>
      (\<forall>tk. is_expr (hd cs) \<and> tl cs \<noteq> [] \<and> leaf_tk (hd (tl cs)) = Some tk \<longrightarrow>
        shift_ahead (bexp op) tk))"
  by pat_completeness auto
termination
  by (relation "measure (size \<circ> snd)") (auto intro!: child_size)

text \<open>
  The operator whose right operand is being read, given the stack below that operand. A
  colon is the typecast operator unless a question mark is waiting for it.
\<close>

fun after_ques :: "parse_node list \<Rightarrow> bool" where
  "after_ques (Leaf tok # m # _) \<longleftrightarrow> tok_tk tok = LEX_TK_QUES \<and> is_expr m"
| "after_ques _ \<longleftrightarrow> False"

fun op_context :: "parse_node list \<Rightarrow> lex_tk option" where
  "op_context (Leaf tok # m # st) =
     (if is_expr m \<and> tok_tk tok \<in> set binary_ops \<and> (tok_tk tok = LEX_TK_COLN \<longrightarrow> \<not> after_ques st)
      then Some (tok_tk tok) else None)"
| "op_context _ = None"

definition place_ok :: "parse_node \<Rightarrow> parse_node list \<Rightarrow> bool" where
  "place_ok n st \<longleftrightarrow>
     (\<forall>op. op_context st = Some op \<longrightarrow> left_ok op n) \<and>
     (st \<noteq> [] \<longrightarrow> right_ok (hd st) (first_tk n)) \<and>
     (\<forall>op tk. st \<noteq> [] \<and> is_expr (hd st) \<and> op_context (tl st) = Some op \<and> leaf_tk n = Some tk \<longrightarrow>
       shift_ahead (bexp op) tk)"

fun stack_ok :: "parse_node list \<Rightarrow> bool" where
  "stack_ok [] \<longleftrightarrow> True"
| "stack_ok (n # st) \<longleftrightarrow> stack_ok st \<and> place_ok n st"

fun node_ok :: "parse_node \<Rightarrow> bool" where
  "node_ok (Leaf tok) \<longleftrightarrow> True"
| "node_ok (Node nt cs) \<longleftrightarrow> stack_ok (rev cs) \<and> (\<forall>c \<in> set cs. node_ok c)"

text \<open>
  The stack may be cut where that does not hide the question mark of a colon: the nodes
  above the cut do not begin with a question mark, and with an expression and a colon only
  if no question mark is below.
\<close>

fun colon_first :: "parse_node list \<Rightarrow> bool" where
  "colon_first (m # Leaf tok # _) \<longleftrightarrow> is_expr m \<and> tok_tk tok = LEX_TK_COLN"
| "colon_first _ \<longleftrightarrow> False"

fun ques_first :: "parse_node list \<Rightarrow> bool" where
  "ques_first (Leaf tok # _) \<longleftrightarrow> tok_tk tok = LEX_TK_QUES"
| "ques_first _ \<longleftrightarrow> False"

definition cut_ok :: "parse_node list \<Rightarrow> parse_node list \<Rightarrow> bool" where
  "cut_ok cs ys \<longleftrightarrow> \<not> ques_first cs \<and> (colon_first cs \<longrightarrow> \<not> after_ques ys)"

lemma cut_ok_append: "cut_ok (cs @ ds) ys \<Longrightarrow> cut_ok cs ys"
  by (cases cs rule: colon_first.cases; cases cs rule: ques_first.cases) (auto simp: cut_ok_def)

lemma after_ques_append: "after_ques (x # y # zs @ ys) = after_ques (x # y # zs)"
  by (cases x) auto

lemma op_context_append:
  assumes "op_context st = Some op" and "cut_ok (rev st) ys"
  shows "op_context (st @ ys) = Some op"
proof -
  obtain tok m ws where st: "st = Leaf tok # m # ws" and m: "is_expr m" "tok_tk tok = op" "op \<in> set binary_ops"
    and q: "op = LEX_TK_COLN \<Longrightarrow> \<not> after_ques ws"
    using assms(1) by (cases st rule: op_context.cases) (auto split: if_splits)
  have "\<not> after_ques (ws @ ys)" if c: "op = LEX_TK_COLN"
  proof (cases ws)
    case Nil
    then show ?thesis using assms(2) st m c by (simp add: cut_ok_def)
  next
    case (Cons x ws')
    show ?thesis
    proof (cases ws')
      case Nil
      then have "\<not> ques_first [x]" using assms(2) st Cons by (cases x) (auto simp: cut_ok_def)
      then have "\<not> after_ques (x # ys)" by (cases "x # ys" rule: after_ques.cases) auto
      then show ?thesis using Cons Nil by simp
    qed (use q [OF c] Cons after_ques_append in auto)
  qed
  then show ?thesis using st m by simp
qed

lemma stack_ok_suffix: "stack_ok (xs @ ys) \<Longrightarrow> stack_ok ys"
  by (induction xs) auto

lemma place_ok_prefix: "place_ok n (xs @ ys) \<Longrightarrow> cut_ok (rev xs) ys \<Longrightarrow> place_ok n xs"
  by (cases xs) (auto simp: place_ok_def dest: op_context_append [of _ _ ys] cut_ok_append)

lemma stack_ok_prefix: "stack_ok (xs @ ys) \<Longrightarrow> cut_ok (rev xs) ys \<Longrightarrow> stack_ok xs"
  by (induction xs) (auto intro: place_ok_prefix dest: cut_ok_append)

lemma left_ok_reduced:
  assumes "stack_ok (rev cs @ rest)" and "cs \<noteq> []" and "op_context rest = Some op"
  shows "left_ok op (Node nt cs)"
proof -
  obtain c ds where cs: "cs = c # ds" using assms(2) by (cases cs) auto
  have "stack_ok (c # rest)"
    using assms(1) cs stack_ok_suffix [of "rev ds" "c # rest"] by simp
  then have "left_ok op c" using assms(3) by (simp add: place_ok_def)
  moreover have "shift_ahead (bexp op) tk"
    if "is_expr c" "ds \<noteq> []" "leaf_tk (hd ds) = Some tk" for tk
  proof -
    obtain d es where ds: "ds = d # es" using \<open>ds \<noteq> []\<close> by (cases ds) auto
    have "place_ok d (c # rest)"
      using assms(1) cs ds stack_ok_suffix [of "rev es" "d # c # rest"] by simp
    then show ?thesis using that ds assms(3) by (simp add: place_ok_def)
  qed
  ultimately show ?thesis using cs by simp
qed

lemma first_tk_reduced: "fringe c \<noteq> [] \<Longrightarrow> first_tk (Node nt (c # ds)) = first_tk c"
  by (simp add: first_tk_def)

lemma stack_ok_reduced:
  assumes "stack_ok (rev cs @ rest)" and "cs \<noteq> []" and "fringe (hd cs) \<noteq> []"
  shows "stack_ok (Node nt cs # rest)"
proof -
  obtain c ds where cs: "cs = c # ds" using assms(2) by (cases cs) auto
  have "stack_ok (c # rest)"
    using assms(1) cs stack_ok_suffix [of "rev ds" "c # rest"] by simp
  then show ?thesis
    using left_ok_reduced [OF assms(1,2)] first_tk_reduced [of c nt ds] assms(3) cs
    by (simp add: place_ok_def leaf_tk_def del: left_ok.simps)
qed

subsection \<open>Which rule matches right of an operator\<close>

lemma find_skip: "\<forall>x \<in> set xs. \<not> P x \<Longrightarrow> find P (xs @ ys) = find P ys"
  by (induction xs) auto

lemma find_only:
  "x \<in> set xs \<Longrightarrow> P x \<Longrightarrow> (\<And>y. y \<in> set xs \<Longrightarrow> P y \<Longrightarrow> y = x) \<Longrightarrow> find P (xs @ ys) = Some x"
proof (induction xs)
  case (Cons a xs)
  show ?case
  proof (cases "P a")
    case True
    then have "a = x" using Cons.prems(3) [of a] by simp
    then show ?thesis using True by simp
  next
    case False
    then have "x \<in> set xs" using Cons.prems(1,2) by auto
    then have "find P (xs @ ys) = Some x"
      by (rule Cons.IH [OF _ Cons.prems(2)]) (rule Cons.prems(3), simp_all)
    then show ?thesis using False by simp
  qed
qed simp

text \<open>On \<open>expression, operator, expression\<close> no rule before those for the operators matches.\<close>

lemma prims_last:
  "list_all (\<lambda>r. (rhs r \<noteq> [] \<and> rule_last r \<noteq> N PARSE_NT_Expr \<and> \<not> is_mt (rule_last r)) \<or>
     rhs r = [N PARSE_NT_Cond, M PARSE_NT_Elif] \<or>
     rhs r = [N PARSE_NT_Expr, T LEX_TK_QUES, N PARSE_NT_Expr, T LEX_TK_COLN, N PARSE_NT_Expr])
   (grammar_stmts @ grammar_prims)"
  by (simp add: grammar_stmts_def grammar_prims_def rule_last_def)

lemma match_rule_last:
  "rhs r \<noteq> [] \<Longrightarrow> \<not> is_mt (rule_last r) \<Longrightarrow> \<not> term_eq_node (rule_last r) n \<Longrightarrow> match_rule r (n # st) = 0"
  by (cases "rhs r" rule: rev_cases) (simp_all add: match_rule_def rule_last_def)

lemma term_eq_N: "term_eq_node (N nt) m \<longleftrightarrow> (\<exists>cs. m = Node nt cs)"
  by (cases m) auto

abbreviation texp :: rule where
  "texp \<equiv> rl PARSE_NT_Texp [N PARSE_NT_Expr, T LEX_TK_QUES, N PARSE_NT_Expr, T LEX_TK_COLN, N PARSE_NT_Expr]"

lemma match_texp:
  "rhs r = rhs texp \<Longrightarrow> match_rule r (Node PARSE_NT_Expr cs # Leaf tok # Node PARSE_NT_Expr ds # st) =
    (if tok_tk tok = LEX_TK_COLN \<and> after_ques st then 5 else 0)"
  by (cases st rule: after_ques.cases)
    (auto simp: match_rule_def is_expr_def term_eq_N)

lemma none_before:
  assumes "tok_tk tok = LEX_TK_COLN \<longrightarrow> \<not> after_ques st" and "r \<in> set (grammar_stmts @ grammar_prims)"
  shows "match_rule r (Node PARSE_NT_Expr cs # Leaf tok # Node PARSE_NT_Expr ds # st) = 0"
proof -
  consider "rhs r \<noteq> []" "rule_last r \<noteq> N PARSE_NT_Expr" "\<not> is_mt (rule_last r)"
    | "rhs r = [N PARSE_NT_Cond, M PARSE_NT_Elif]"
    | "rhs r = [N PARSE_NT_Expr, T LEX_TK_QUES, N PARSE_NT_Expr, T LEX_TK_COLN, N PARSE_NT_Expr]"
    using prims_last assms(2) unfolding list_all_iff by blast
  then show ?thesis
  proof cases
    case 1
    then have "\<not> term_eq_node (rule_last r) (Node PARSE_NT_Expr cs)"
      by (cases "rule_last r") auto
    then show ?thesis by (rule match_rule_last [OF 1(1,3)])
  next
    case 3
    then show ?thesis using match_texp [of r cs tok ds st] assms(1) by simp
  qed (simp add: match_rule_def)
qed

lemma match_bexp:
  "match_rule (bexp op) (Node PARSE_NT_Expr cs # Leaf tok # Node PARSE_NT_Expr ds # st) =
    (if op = tok_tk tok then 3 else 0)"
  by (cases st) (auto simp: match_rule_def bexp_def)

lemma matching_rule_context:
  assumes "op_context st = Some op" and "is_expr n"
  shows "matching_rule (n # st) = Some (bexp op)"
proof -
  obtain tok cs ds st' where st: "st = Leaf tok # Node PARSE_NT_Expr ds # st'"
    and n: "n = Node PARSE_NT_Expr cs" and op: "tok_tk tok = op" "op \<in> set binary_ops" "op = LEX_TK_COLN \<longrightarrow> \<not> after_ques st'"
    using assms by (cases st rule: op_context.cases) (auto simp: is_expr_def split: if_splits)
  show ?thesis
    unfolding matching_rule_def grammar_def append_assoc [symmetric] st n
    unfolding append_assoc [of "grammar_stmts @ grammar_prims"]
  proof (rule trans [OF find_skip find_only])
    show "\<forall>r \<in> set (grammar_stmts @ grammar_prims).
        \<not> match_rule r (Node PARSE_NT_Expr cs # Leaf tok # Node PARSE_NT_Expr ds # st') \<noteq> 0"
      using op by (metis none_before)
  qed (use op in \<open>auto simp: match_bexp split: if_splits\<close>)
qed

subsection \<open>Where a reduction cuts the stack\<close>

fun starts_apart :: "gterm list \<Rightarrow> bool" where
  "starts_apart (T tk # ts) \<longleftrightarrow> tk \<noteq> LEX_TK_QUES"
| "starts_apart [N nt] \<longleftrightarrow> True"
| "starts_apart (N nt # T tk # ts) \<longleftrightarrow> tk \<noteq> LEX_TK_COLN"
| "starts_apart (N nt # t # ts) \<longleftrightarrow> nt \<noteq> PARSE_NT_Expr"
| "starts_apart (M nt # N nt' # T tk # ts) \<longleftrightarrow> nt \<noteq> PARSE_NT_Expr \<and> tk \<noteq> LEX_TK_COLN"
| "starts_apart _ \<longleftrightarrow> False"

lemma grammar_starts: "list_all (\<lambda>r. starts_apart (rhs r) \<or> r = bexp LEX_TK_COLN) grammar"
  by (simp add: grammar_unfold)

lemma not_colon_first: "\<not> is_expr c \<Longrightarrow> \<not> colon_first (c # cs)"
  by (cases "c # cs" rule: colon_first.cases) auto

lemma fits_starts:
  assumes "fits ts cs" and "starts_apart ts"
  shows "\<not> ques_first cs \<and> \<not> colon_first cs"
  using assms(2,1)
proof (cases ts rule: starts_apart.cases)
  case (5 nt nt' tk ts')
  then obtain ms a ns where "cs = ms @ Node nt' a # ns" "\<forall>m \<in> set ms. term_eq_node (M nt) m"
    and "ns = [] \<or> (\<exists>tok ns'. ns = Leaf tok # ns' \<and> tok_tk tok \<noteq> LEX_TK_COLN)" "nt \<noteq> PARSE_NT_Expr"
    using assms by (auto simp: fits_M_iff fits_N_iff fits_T_iff)
  then show ?thesis by (cases ms; cases "hd ms") (auto simp: not_colon_first is_expr_def)
qed (auto simp: fits_T_iff fits_N_iff is_expr_def elim: colon_first.elims elim!: fits_NilE)

lemma find_first_part: "find P (xs @ ys) = Some z \<Longrightarrow> \<exists>x \<in> set xs. P x \<Longrightarrow> z \<in> set xs"
  by (induction xs) (auto split: if_splits)

lemma reduction_cut:
  assumes "matching_rule st = Some r"
  shows "cut_ok (rev (take (match_rule r st) st)) (drop (match_rule r st) st)"
proof -
  let ?cs = "rev (take (match_rule r st) st)" and ?rest = "drop (match_rule r st) st"
  have r: "r \<in> set grammar" "match_rule r st \<noteq> 0" using matching_rule_SomeD [OF assms] by auto
  have fits: "fits (rhs r) ?cs" using match_rule_fits [OF refl r(2)] by simp
  show ?thesis
  proof (cases "starts_apart (rhs r)")
    case True
    then show ?thesis using fits_starts [OF fits] by (simp add: cut_ok_def)
  next
    case False
    then have coln: "r = bexp LEX_TK_COLN" using grammar_starts r(1) by (auto simp: list_all_iff)
    then obtain as tok bs where cs: "?cs = [Node PARSE_NT_Expr as, Leaf tok, Node PARSE_NT_Expr bs]"
      and tok: "tok_tk tok = LEX_TK_COLN"
      using fits by (auto simp: bexp_def fits_N_iff fits_T_iff elim: fits_NilE)
    have "st = rev ?cs @ ?rest" by simp
    then have st: "st = Node PARSE_NT_Expr bs # Leaf tok # Node PARSE_NT_Expr as # ?rest" using cs by simp
    have "\<not> after_ques ?rest"
    proof
      assume "after_ques ?rest"
      then have "match_rule texp st \<noteq> 0" using match_texp [of texp bs tok as ?rest] st tok by simp
      moreover have "texp \<in> set (grammar_stmts @ grammar_prims)" by (simp add: grammar_prims_def)
      ultimately have "r \<in> set (grammar_stmts @ grammar_prims)"
        using assms find_first_part [of "\<lambda>r. match_rule r st \<noteq> 0" "grammar_stmts @ grammar_prims"]
        unfolding matching_rule_def grammar_def by (metis append_assoc)
      then show False by (simp add: coln bexp_def grammar_stmts_def grammar_prims_def)
    qed
    then show ?thesis using cs by (simp add: cut_ok_def)
  qed
qed

subsection \<open>The invariant\<close>

definition top_ok :: "lex_token list \<Rightarrow> pstate \<Rightarrow> bool" where
  "top_ok tokens s \<longleftrightarrow> (\<forall>n st j. p_stack s = n # st \<and>
     skip_tokens (drop (p_token_idx s) tokens) (p_token_idx s) = Some j \<longrightarrow>
     right_ok n (tok_tk (tokens ! j)))"

definition prec_inv :: "lex_token list \<Rightarrow> pstate \<Rightarrow> bool" where
  "prec_inv tokens s \<longleftrightarrow> sound tokens s \<and> stack_ok (p_stack s) \<and>
     (\<forall>n \<in> set (p_stack s). node_ok n) \<and> top_ok tokens s"

text \<open>Shifting \<open>tk\<close> is not against an operator whose right operand lies on top.\<close>

definition may_shift :: "lex_tk \<Rightarrow> parse_node list \<Rightarrow> bool" where
  "may_shift tk st \<longleftrightarrow>
     (\<forall>n rest op. st = n # rest \<and> is_expr n \<and> op_context rest = Some op \<longrightarrow> shift_ahead (bexp op) tk)"

lemma skip_tokens_here:
  "i < length tokens \<Longrightarrow> \<not> skip_token (tok_tk (tokens ! i)) \<Longrightarrow> skip_tokens (drop i tokens) i = Some i"
  by (simp add: Cons_nth_drop_Suc [symmetric])

lemma prec_inv_skip:
  assumes "prec_inv tokens s" and "skip_tokens (drop (p_token_idx s) tokens) (p_token_idx s) = Some j"
  shows "prec_inv tokens (s\<lparr>p_token_idx := j\<rparr>)"
  using assms skip_tokens_here [of j tokens] skip_tokens_found [OF assms(2)]
    skip_tokens_kept [OF assms(2)]
  by (auto simp: prec_inv_def top_ok_def intro: sound_skip)

lemma prec_inv_shift:
  assumes "shift_next mem_ok tokens s = Inr s'" and "prec_inv tokens s"
    and "\<not> skip_token (tok_tk (tokens ! p_token_idx s))"
    and "may_shift (tok_tk (tokens ! p_token_idx s)) (p_stack s)"
  shows "prec_inv tokens s'"
proof -
  note s' = shift_nextD [OF assms(1)]
  have "skip_tokens (drop (p_token_idx s) tokens) (p_token_idx s) = Some (p_token_idx s)"
    using skip_tokens_here s' assms(3) by blast
  then have "place_ok (Leaf (tokens ! p_token_idx s)) (p_stack s)"
    using assms(2,4) by (cases "p_stack s")
      (auto simp: place_ok_def prec_inv_def top_ok_def may_shift_def first_tk_def leaf_tk_def)
  then show ?thesis
    using assms(2) s' sound_shift [OF assms(1) _ assms(3)]
    by (auto simp: prec_inv_def top_ok_def)
qed

lemma prec_inv_reduce:
  assumes "reduce mem_ok r (match_rule r (p_stack s)) s = Inr s'" and "prec_inv tokens s"
    and "matching_rule (p_stack s) = Some r" and "r \<in> set grammar" and "match_rule r (p_stack s) \<noteq> 0"
    and "lhs r = PARSE_NT_Unit \<or> (p_token_idx s < length tokens \<and>
      \<not> skip_token (tok_tk (tokens ! p_token_idx s)) \<and>
      \<not> shift_ahead r (tok_tk (tokens ! p_token_idx s)))"
  shows "prec_inv tokens s'"
proof -
  let ?k = "match_rule r (p_stack s)"
  let ?cs = "rev (take ?k (p_stack s))"
  have fits: "fits (rhs r) ?cs" and k: "?k \<le> length (p_stack s)"
    using match_rule_fits [OF refl assms(5)] by auto
  have st: "p_stack s = rev ?cs @ drop ?k (p_stack s)" by simp
  have ne: "?cs \<noteq> []" using assms(5) k by (cases "p_stack s") auto
  have "hd ?cs \<in> set (p_stack s)" using ne by (metis hd_in_set in_set_takeD set_rev)
  then have fr: "fringe (hd ?cs) \<noteq> []"
    using assms(2) derives_fringe by (auto simp: prec_inv_def sound_def)
  have "stack_ok (rev ?cs @ drop ?k (p_stack s))" using assms(2) by (simp add: prec_inv_def)
  then have "stack_ok (Node (lhs r) ?cs # drop ?k (p_stack s))" "stack_ok (rev ?cs)"
    using stack_ok_reduced [OF _ ne fr] stack_ok_prefix [of "take ?k (p_stack s)" "drop ?k (p_stack s)"]
      reduction_cut [OF assms(3)] by simp_all
  moreover have "last ?cs = hd (p_stack s)" using ne by (cases "p_stack s") (auto simp: last_rev hd_take)
  then have "right_ok (Node (lhs r) ?cs) (tok_tk (tokens ! j))"
    if "skip_tokens (drop (p_token_idx s) tokens) (p_token_idx s) = Some j" for j
    using that assms(2,4,6) fits ne skip_tokens_here
    by (cases "p_stack s") (auto simp: prec_inv_def top_ok_def)
  ultimately show ?thesis
    using reduceD [OF assms(1)] assms(2) sound_reduce [OF assms(1) _ assms(4,5)]
    by (auto simp: prec_inv_def top_ok_def dest: in_set_takeD in_set_dropD)
qed

lemma may_shift_no_match: "matching_rule st = None \<Longrightarrow> may_shift tk st"
  using matching_rule_context by (auto simp: may_shift_def)

lemma may_shift_match: "matching_rule st = Some r \<Longrightarrow> shift_ahead r tk \<Longrightarrow> may_shift tk st"
  using matching_rule_context by (auto simp: may_shift_def)

lemma prec_inv_reduce_step:
  assumes "reduce_step mem_ok tokens r s = Inr s'" and "prec_inv tokens s"
    and "matching_rule (p_stack s) = Some r"
  shows "prec_inv tokens s'"
proof -
  have r: "r \<in> set grammar" "match_rule r (p_stack s) \<noteq> 0"
    using matching_rule_SomeD [OF assms(3)] by auto
  obtain b i where pre: "should_shift_pre r tokens (p_token_idx s) = Inr (b, i)"
    using assms(1) by (auto simp: reduce_step_def bind_simps)
  let ?s = "s\<lparr>p_token_idx := i\<rparr>"
  have s: "prec_inv tokens ?s"
    using should_shift_pre_cases [OF pre] assms(2) by (auto intro: prec_inv_skip)
  show ?thesis
  proof (cases b)
    case True
    then have sh: "shift_next mem_ok tokens ?s = Inr s'"
      using assms(1) pre by (simp add: reduce_step_def)
    have i: "skip_tokens (drop (p_token_idx s) tokens) (p_token_idx s) = Some i"
      and ah: "shift_ahead r (tok_tk (tokens ! i))"
      using should_shift_pre_cases [OF pre] True by auto
    show ?thesis
      using prec_inv_shift [OF sh s] skip_tokens_found [OF i] may_shift_match [OF assms(3) ah] by simp
  next
    case False
    then obtain t b' j where red: "reduce mem_ok r (match_rule r (p_stack ?s)) ?s = Inr t"
      and post: "should_shift_post r tokens (p_token_idx t) = Inr (b', j)"
      and rest: "(if b' then shift_next mem_ok tokens (t\<lparr>p_token_idx := j\<rparr>)
        else Inr (t\<lparr>p_token_idx := j\<rparr>)) = Inr s'"
      using assms(1) pre by (auto simp: reduce_step_def bind_simps Let_def)
    have t: "prec_inv tokens t"
      using should_shift_pre_cases [OF pre] False r
      by (intro prec_inv_reduce [OF red s _ r(1)]) (auto simp: assms(3) dest: skip_tokens_found)
    have j: "prec_inv tokens (t\<lparr>p_token_idx := j\<rparr>)"
      using should_shift_post_cases [OF post] t by (auto intro: prec_inv_skip)
    show ?thesis
    proof (cases b')
      case True
      then have i: "skip_tokens (drop (p_token_idx t) tokens) (p_token_idx t) = Some j"
        and ctrl: "lhs r = PARSE_NT_Cond \<or> lhs r = PARSE_NT_Elif"
        and sh: "shift_next mem_ok tokens (t\<lparr>p_token_idx := j\<rparr>) = Inr s'"
        using should_shift_post_cases [OF post] rest by auto
      have "may_shift tk (p_stack t)" for tk
        using reduceD [OF red] ctrl by (auto simp: may_shift_def is_expr_def)
      then show ?thesis
        using prec_inv_shift [OF sh j] skip_tokens_found [OF i] by simp
    qed (use rest j in simp)
  qed
qed

lemma prec_inv_reduce_loop:
  "reduce_loop mem_ok tokens s = Inr s' \<Longrightarrow> prec_inv tokens s \<Longrightarrow>
    prec_inv tokens s' \<and> matching_rule (p_stack s') = None"
proof (induction mem_ok tokens s rule: reduce_loop.induct)
  case (1 mem_ok tokens s)
  show ?case
  proof (cases "matching_rule (p_stack s)")
    case None
    then show ?thesis using "1.prems" by (simp add: reduce_loop.simps)
  next
    case (Some r)
    then obtain t where t: "reduce_step mem_ok tokens r s = Inr t" "reduce_loop mem_ok tokens t = Inr s'"
      using "1.prems" by (auto simp: reduce_loop.simps [of mem_ok tokens s] bind_simps)
    show ?thesis
      by (rule "1.IH" [OF Some t prec_inv_reduce_step [OF t(1) "1.prems"(2) Some]])
  qed
qed

lemma prec_inv_parse_loop:
  "parse_loop mem_ok tokens s = Inr s' \<Longrightarrow> prec_inv tokens s \<Longrightarrow>
    p_stack s = [] \<or> matching_rule (p_stack s) = None \<Longrightarrow> prec_inv tokens s'"
proof (induction mem_ok tokens s rule: parse_loop.induct)
  case (1 mem_ok tokens s)
  note unfold = parse_loop.simps [of mem_ok tokens s]
  let ?i = "p_token_idx s"
  consider "length tokens \<le> ?i"
    | "?i < length tokens" "skip_token (tok_tk (tokens ! ?i))"
    | "?i < length tokens" "\<not> skip_token (tok_tk (tokens ! ?i))"
    by linarith
  then show ?case
  proof cases
    case 1
    then show ?thesis using "1.prems" by (simp add: unfold)
  next
    case 2
    have "skip_tokens (drop (Suc ?i) tokens) (Suc ?i) = skip_tokens (drop ?i tokens) ?i"
      using 2 by (simp add: Cons_nth_drop_Suc [symmetric])
    moreover have "kept (take (Suc ?i) tokens) = kept (take ?i tokens)"
      using 2 by (simp add: kept_def take_Suc_conv_app_nth)
    ultimately have "prec_inv tokens (s\<lparr>p_token_idx := Suc ?i\<rparr>)"
      using "1.prems"(2) by (auto simp: prec_inv_def top_ok_def intro: sound_skip)
    then show ?thesis using 2 "1.IH"(1) [OF 2] "1.prems"(1,3) by (simp add: unfold)
  next
    case 3
    then obtain t u where t: "shift_next mem_ok tokens s = Inr t"
      and u: "reduce_loop mem_ok tokens t = Inr u" "parse_loop mem_ok tokens u = Inr s'"
      using "1.prems"(1) by (auto simp: unfold bind_simps)
    have "may_shift (tok_tk (tokens ! ?i)) (p_stack s)"
      using "1.prems"(3) may_shift_no_match by (auto simp: may_shift_def)
    then have "prec_inv tokens t" by (rule prec_inv_shift [OF t "1.prems"(2) 3(2)])
    then have "prec_inv tokens u \<and> matching_rule (p_stack u) = None"
      by (rule prec_inv_reduce_loop [OF u(1)])
    then show ?thesis using "1.IH"(2) [OF 3, of u] t u by (simp add: bind_simps)
  qed
qed

lemma parse_node_ok:
  assumes "parse mem_ok tokens = Inr t"
  shows "node_ok t \<and> derives t"
proof -
  obtain s where s: "parse_loop mem_ok tokens
      \<lparr>p_stack = [], p_allocated = 0, p_token_idx = 0, p_requests = 0\<rparr> = Inr s"
    and t: "p_stack s = [t]"
    using assms by (auto simp: parse_def bind_simps accepted_tree_Inr)
  have "prec_inv tokens s"
    by (rule prec_inv_parse_loop [OF s])
      (simp_all add: prec_inv_def top_ok_def sound_def stack_fringe_def kept_def)
  then show ?thesis using t by (simp add: prec_inv_def sound_def)
qed

subsection \<open>The trees respect the table\<close>

fun subnodes :: "parse_node \<Rightarrow> parse_node set" where
  "subnodes (Leaf tok) = {Leaf tok}"
| "subnodes (Node nt cs) = insert (Node nt cs) (\<Union>c \<in> set cs. subnodes c)"

definition right_assoc :: "lex_tk \<Rightarrow> bool" where
  "right_assoc op \<longleftrightarrow> lex_tk_is_assn op \<or> op = LEX_TK_COLN \<or> op = LEX_TK_COMA \<or> op = LEX_TK_SCOP"

lemma subnodes_ok: "m \<in> subnodes n \<Longrightarrow> node_ok n \<and> derives n \<Longrightarrow> node_ok m \<and> derives m"
  by (induction n) (auto elim!: derives_NodeE intro: derives.intros)

lemma grammar_bexp: "r \<in> set grammar \<Longrightarrow> lhs r = PARSE_NT_Bexp \<Longrightarrow> r \<in> bexp ` set binary_ops"
proof -
  have "list_all (\<lambda>r. lhs r \<noteq> PARSE_NT_Bexp) (grammar_stmts @ grammar_prims @ grammar_exprs)"
    by (simp add: grammar_stmts_def grammar_prims_def grammar_exprs_def uexp_def)
  then show "r \<in> set grammar \<Longrightarrow> lhs r = PARSE_NT_Bexp \<Longrightarrow> ?thesis"
    by (auto simp: grammar_def list_all_iff)
qed

lemma binary_ops_range:
  "op \<in> set binary_ops \<Longrightarrow> LEX_TK_ASSN \<le> op \<and> op \<le> LEX_TK_QUES"
proof -
  have "list_all (\<lambda>op. LEX_TK_ASSN \<le> op \<and> op \<le> LEX_TK_QUES) binary_ops"
    by code_simp
  then show "op \<in> set binary_ops \<Longrightarrow> ?thesis" by (simp add: list_all_iff)
qed

lemma bexp_simps [simp]: "lhs (bexp op) = PARSE_NT_Bexp" "rule_operator (bexp op) = op"
  by (simp_all add: bexp_def rule_operator_def)

lemma shift_ahead_bexp:
  "op' \<in> set binary_ops \<Longrightarrow>
    shift_ahead (bexp op) op' \<longleftrightarrow> prec op' < prec op \<or> prec op' = prec op \<and> right_assoc op"
  using binary_ops_range [of op'] by (auto simp: shift_ahead_def right_assoc_def)

lemma fits_bexp:
  "fits (rhs (bexp op)) cs \<longleftrightarrow>
    (\<exists>as tok bs. tok_tk tok = op \<and> cs = [Node PARSE_NT_Expr as, Leaf tok, Node PARSE_NT_Expr bs])"
  by (auto simp: bexp_def fits_N_iff fits_T_iff intro: fits_Nil elim: fits_NilE)

lemma derives_bexp:
  "derives (Node PARSE_NT_Bexp [l, Leaf tok, r]) \<Longrightarrow> tok_tk tok \<in> set binary_ops \<and> is_expr l \<and> is_expr r"
  by (auto elim!: derives_NodeE dest!: grammar_bexp simp: fits_bexp is_expr_def)

lemma operand_edges:
  assumes "node_ok (Node PARSE_NT_Bexp [l, Leaf tok, r])" and "derives (Node PARSE_NT_Bexp [l, Leaf tok, r])"
  shows "right_ok l (tok_tk tok) \<and> left_ok (tok_tk tok) r"
  using assms(1) derives_bexp [OF assms(2)] by (simp add: place_ok_def first_tk_def)

lemma right_edge_bexp:
  assumes "right_ok (Node PARSE_NT_Expr [Node PARSE_NT_Bexp [l, Leaf tok, r]]) a"
  shows "\<not> shift_ahead (bexp (tok_tk tok)) a"
  using assms by (auto dest!: grammar_bexp simp: fits_bexp)

lemma left_edge_bexp:
  assumes "left_ok op (Node PARSE_NT_Expr [Node PARSE_NT_Bexp [l, Leaf tok, r]])" and "is_expr l"
  shows "shift_ahead (bexp op) (tok_tk tok)"
  using assms by (simp add: leaf_tk_def)

text \<open>
  C11. In every accepted tree, for every binary operator in it: when its left operand is
  itself an operator expression without parentheses, that operator binds tighter, or as
  tight and is not right associative; and when its right operand is one, that operator
  binds tighter, or as tight and is right associative. The typecast colon is one of them;
  that of \<open>? :\<close> is not a binary operator. So \<open>a - b - c\<close> is \<open>(a - b) - c\<close>, \<open>a = b = c\<close> is \<open>a = (b = c)\<close>, and
  \<open>a + b * c\<close> is \<open>a + (b * c)\<close>, for all operators of the table.
\<close>

theorem precedence_respected:
  assumes "parse mem_ok tokens = Inr t"
    and "Node PARSE_NT_Bexp [l, Leaf tok, r] \<in> subnodes t"
  shows "(l = Node PARSE_NT_Expr [Node PARSE_NT_Bexp [l1, Leaf ltok, l2]] \<longrightarrow>
      prec (tok_tk ltok) < prec (tok_tk tok) \<or>
      prec (tok_tk ltok) = prec (tok_tk tok) \<and> \<not> right_assoc (tok_tk ltok)) \<and>
    (r = Node PARSE_NT_Expr [Node PARSE_NT_Bexp [r1, Leaf rtok, r2]] \<longrightarrow>
      prec (tok_tk rtok) < prec (tok_tk tok) \<or>
      prec (tok_tk rtok) = prec (tok_tk tok) \<and> right_assoc (tok_tk tok))"
proof -
  have ok: "node_ok (Node PARSE_NT_Bexp [l, Leaf tok, r])" "derives (Node PARSE_NT_Bexp [l, Leaf tok, r])"
    using subnodes_ok [OF assms(2)] parse_node_ok [OF assms(1)] by auto
  note edges = operand_edges [OF ok] and op = derives_bexp [OF ok(2)]
  have l: "\<not> shift_ahead (bexp (tok_tk ltok)) (tok_tk tok)"
    if "l = Node PARSE_NT_Expr [Node PARSE_NT_Bexp [l1, Leaf ltok, l2]]"
    using edges that right_edge_bexp by blast
  have r: "shift_ahead (bexp (tok_tk tok)) (tok_tk rtok) \<and> tok_tk rtok \<in> set binary_ops"
    if r: "r = Node PARSE_NT_Expr [Node PARSE_NT_Bexp [r1, Leaf rtok, r2]]"
  proof -
    have "derives (Node PARSE_NT_Bexp [r1, Leaf rtok, r2])"
      using ok(2) r by (auto elim!: derives_NodeE)
    then show ?thesis using derives_bexp edges r left_edge_bexp by blast
  qed
  show ?thesis
    using l r op by (auto simp: shift_ahead_bexp not_less)
qed

definition tok_of :: "lex_tk \<Rightarrow> lex_token" where
  "tok_of tk = \<lparr>tok_tk = tk, tok_beg = 0, tok_end = 0\<rparr>"

definition name_expr :: parse_node where
  "name_expr = Node PARSE_NT_Expr [Node PARSE_NT_Atom [Leaf (tok_of LEX_TK_NAME)]]"

theorem precedence_respected_witness:
  "prec LEX_TK_MULT < prec LEX_TK_PLUS \<or> prec LEX_TK_MULT = prec LEX_TK_PLUS \<and> right_assoc LEX_TK_PLUS"
proof -
  let ?mult = "Node PARSE_NT_Expr [Node PARSE_NT_Bexp [name_expr, Leaf (tok_of LEX_TK_MULT), name_expr]]"
  let ?plus = "Node PARSE_NT_Bexp [name_expr, Leaf (tok_of LEX_TK_PLUS), ?mult]"
  let ?t = "Node PARSE_NT_Unit [Leaf (tok_of LEX_TK_FBEG),
      Node PARSE_NT_Stmt [Node PARSE_NT_Expr [?plus], Leaf (tok_of LEX_TK_SCOL)], Leaf (tok_of LEX_TK_FEND)]"
  have "parse (\<lambda>_. True) (map tok_of [LEX_TK_FBEG, LEX_TK_NAME, LEX_TK_PLUS, LEX_TK_NAME, LEX_TK_MULT,
      LEX_TK_NAME, LEX_TK_SCOL, LEX_TK_FEND]) = Inr ?t"
    by code_simp
  from precedence_respected [OF this, where l = name_expr and tok = "tok_of LEX_TK_PLUS" and r = ?mult
      and ?r1.0 = name_expr and rtok = "tok_of LEX_TK_MULT" and ?r2.0 = name_expr] show ?thesis
    by (simp add: tok_of_def)
qed

end
