(* ===== verification/Ast_Shape.thy ===== *)
theory Ast_Shape
  imports Parse_View Parse_Prec
begin

text \<open>
  The tree of an accepted program has the shapes the builder reads: every node derived by
  the grammar has a view, whose parts are derived too.
\<close>

definition rules_of :: "parse_nt \<Rightarrow> gterm list list" where
  "rules_of nt = map rhs (filter (\<lambda>r. lhs r = nt) grammar)"

lemma derives_rules:
  "derives (Node nt cs) \<longleftrightarrow> (\<exists>ts \<in> set (rules_of nt). fits ts cs) \<and> (\<forall>c \<in> set cs. derives c)"
  by (auto simp: rules_of_def elim: derives_NodeE intro: derives_Node)

lemma rules_of_exprs:
  "rules_of PARSE_NT_Expr = map (\<lambda>nt. [N nt]) [PARSE_NT_Atom, PARSE_NT_Fexp, PARSE_NT_Pexp, PARSE_NT_Texp,
     PARSE_NT_Bexp, PARSE_NT_Uexp, PARSE_NT_Xexp, PARSE_NT_Wexp, PARSE_NT_Aexp]"
  "rules_of PARSE_NT_Atom = [[T LEX_TK_NAME], [T LEX_TK_NMBR], [T LEX_TK_STRL]]"
  "rules_of PARSE_NT_Fexp = [[N PARSE_NT_Expr, T LEX_TK_LPAR, N PARSE_NT_Expr, T LEX_TK_RPAR],
     [N PARSE_NT_Expr, T LEX_TK_LPAR, T LEX_TK_RPAR]]"
  "rules_of PARSE_NT_Pexp = [[T LEX_TK_LPAR, N PARSE_NT_Expr, T LEX_TK_RPAR]]"
  "rules_of PARSE_NT_Texp = [[N PARSE_NT_Expr, T LEX_TK_QUES, N PARSE_NT_Expr, T LEX_TK_COLN, N PARSE_NT_Expr]]"
  "rules_of PARSE_NT_Bexp = map (\<lambda>tk. [N PARSE_NT_Expr, T tk, N PARSE_NT_Expr]) binary_ops"
  "rules_of PARSE_NT_Uexp = map (\<lambda>tk. [T tk, N PARSE_NT_Expr]) [LEX_TK_PLUS, LEX_TK_MINS, LEX_TK_EXCL,
     LEX_TK_TILD, LEX_TK_MULT, LEX_TK_AMPS, LEX_TK_CARE, LEX_TK_INCR, LEX_TK_DECR, LEX_TK_SZOF, LEX_TK_ALOF]"
  "rules_of PARSE_NT_Xexp = [[N PARSE_NT_Expr, T LEX_TK_INCR], [N PARSE_NT_Expr, T LEX_TK_DECR]]"
  "rules_of PARSE_NT_Wexp = [[N PARSE_NT_Expr, T LEX_TK_WMSE], [N PARSE_NT_Expr, T LEX_TK_WSEC]]"
  "rules_of PARSE_NT_Aexp = [[N PARSE_NT_Expr, T LEX_TK_LBRA, N PARSE_NT_Expr, T LEX_TK_RBRA]]"
  by code_simp+

lemma rules_of_stmts:
  "rules_of PARSE_NT_Unit = [[T LEX_TK_FBEG, M PARSE_NT_Stmt, T LEX_TK_FEND]]"
  "rules_of PARSE_NT_Ctrl = [[N PARSE_NT_Cond, M PARSE_NT_Elif], [N PARSE_NT_Cond, M PARSE_NT_Elif, N PARSE_NT_Else],
     [N PARSE_NT_Dowh], [N PARSE_NT_Whil]]"
  "rules_of PARSE_NT_Cond = [[T LEX_TK_COND, N PARSE_NT_Expr, T LEX_TK_LBRC, M PARSE_NT_Stmt, T LEX_TK_RBRC]]"
  "rules_of PARSE_NT_Elif = [[T LEX_TK_ELIF, N PARSE_NT_Expr, T LEX_TK_LBRC, M PARSE_NT_Stmt, T LEX_TK_RBRC]]"
  "rules_of PARSE_NT_Else = [[T LEX_TK_ELSE, T LEX_TK_LBRC, M PARSE_NT_Stmt, T LEX_TK_RBRC]]"
  "rules_of PARSE_NT_Dowh = [[T LEX_TK_DOWH, T LEX_TK_LBRC, M PARSE_NT_Stmt, T LEX_TK_RBRC, T LEX_TK_WHIL,
      N PARSE_NT_Expr, T LEX_TK_SCOL]]"
  "rules_of PARSE_NT_Whil = [[T LEX_TK_WHIL, N PARSE_NT_Expr, T LEX_TK_LBRC, M PARSE_NT_Stmt, T LEX_TK_RBRC]]"
  "rules_of PARSE_NT_Func = [[M PARSE_NT_Qual, N PARSE_NT_Expr, T LEX_TK_LBRC, M PARSE_NT_Stmt, T LEX_TK_RBRC]]"
  "rules_of PARSE_NT_Qual = [[T LEX_TK_CONS], [T LEX_TK_EXPO], [T LEX_TK_STAT]]"
  "rules_of PARSE_NT_Stmt = [
    [T LEX_TK_WAIT, N PARSE_NT_Expr, T LEX_TK_WFOR, N PARSE_NT_Expr, T LEX_TK_SCOL],
    [T LEX_TK_WAIT, N PARSE_NT_Expr, T LEX_TK_WFOR, N PARSE_NT_Expr, T LEX_TK_WNOB, T LEX_TK_SCOL],
    [T LEX_TK_WAIT, N PARSE_NT_Expr, T LEX_TK_WUNT, N PARSE_NT_Expr, T LEX_TK_SCOL],
    [T LEX_TK_WAIT, N PARSE_NT_Expr, T LEX_TK_WUNT, N PARSE_NT_Expr, T LEX_TK_WNOB, T LEX_TK_SCOL],
    [T LEX_TK_WAIT, N PARSE_NT_Expr, T LEX_TK_SCOL],
    [T LEX_TK_WAIT, N PARSE_NT_Expr, T LEX_TK_WNOB, T LEX_TK_SCOL],
    [T LEX_TK_RETN, N PARSE_NT_Expr, T LEX_TK_SCOL],
    [T LEX_TK_RETN, T LEX_TK_SCOL],
    [T LEX_TK_USEU, N PARSE_NT_Expr, T LEX_TK_SCOL],
    [T LEX_TK_EXPO, T LEX_TK_TYPE, N PARSE_NT_Expr, T LEX_TK_SCOL],
    [T LEX_TK_TYPE, N PARSE_NT_Expr, T LEX_TK_SCOL],
    [M PARSE_NT_Qual, N PARSE_NT_Expr, T LEX_TK_SCOL],
    [N PARSE_NT_Ctrl],
    [N PARSE_NT_Func],
    [T LEX_TK_NOIN, T LEX_TK_LBRC, M PARSE_NT_Stmt, T LEX_TK_RBRC],
    [T LEX_TK_LBRC, M PARSE_NT_Stmt, T LEX_TK_RBRC],
    [T LEX_TK_LBRA, N PARSE_NT_Expr, T LEX_TK_RBRA]]"
  by code_simp+

lemma fits_simps:
  "fits [] ns \<longleftrightarrow> ns = []"
  "fits (T tk # ts) ns \<longleftrightarrow> (\<exists>t ms. ns = Leaf t # ms \<and> tok_tk t = tk \<and> fits ts ms)"
  "fits (N nt # ts) ns \<longleftrightarrow> (\<exists>cs ms. ns = Node nt cs # ms \<and> fits ts ms)"
  "fits (M nt # ts) ns \<longleftrightarrow> (\<exists>xs ms. ns = xs @ ms \<and> (\<forall>x \<in> set xs. \<exists>cs. x = Node nt cs) \<and> fits ts ms)"
proof -
  have "term_eq_node (M nt) x \<longleftrightarrow> (\<exists>cs. x = Node nt cs)" for x by (cases x) auto
  then show "fits (M nt # ts) ns \<longleftrightarrow> (\<exists>xs ms. ns = xs @ ms \<and> (\<forall>x \<in> set xs. \<exists>cs. x = Node nt cs) \<and> fits ts ms)"
    by (auto simp: fits_M_iff)
qed (auto simp: fits_T_iff fits_N_iff intro: fits_Nil elim: fits_NilE)

subsection \<open>Expressions\<close>

definition expr_node :: "parse_node \<Rightarrow> bool" where
  "expr_node e \<longleftrightarrow> (\<exists>cs. e = Node PARSE_NT_Expr cs) \<and> derives e"

lemma expr_nodeI [simp]: "derives (Node PARSE_NT_Expr cs) \<Longrightarrow> expr_node (Node PARSE_NT_Expr cs)"
  by (simp add: expr_node_def)

definition unary_ops :: "lex_tk list" where
  "unary_ops = [LEX_TK_PLUS, LEX_TK_MINS, LEX_TK_EXCL, LEX_TK_TILD, LEX_TK_MULT, LEX_TK_AMPS, LEX_TK_CARE,
     LEX_TK_INCR, LEX_TK_DECR, LEX_TK_SZOF, LEX_TK_ALOF]"

definition good_view :: "expr_shape \<Rightarrow> bool" where
  "good_view v \<longleftrightarrow>
     (case v of
        V_atom t \<Rightarrow> tok_tk t \<in> {LEX_TK_NAME, LEX_TK_NMBR, LEX_TK_STRL}
      | V_pexp e \<Rightarrow> expr_node e
      | V_fexp l r \<Rightarrow> expr_node l \<and> (\<forall>e. r = Some e \<longrightarrow> expr_node e)
      | V_texp c x y \<Rightarrow> expr_node c \<and> expr_node x \<and> expr_node y
      | V_bexp l op r \<Rightarrow> op \<in> set binary_ops \<and> expr_node l \<and> expr_node r
      | V_uexp op r \<Rightarrow> op \<in> set unary_ops \<and> expr_node r
      | V_xexp l op \<Rightarrow> op \<in> {LEX_TK_INCR, LEX_TK_DECR} \<and> expr_node l
      | V_wexp l op \<Rightarrow> expr_node l
      | V_aexp b off \<Rightarrow> expr_node b \<and> expr_node off
      | V_bad \<Rightarrow> False)"

lemma good_view_node:
  assumes "derives (Node nt cs)" and "[N nt] \<in> set (rules_of PARSE_NT_Expr)"
  shows "good_view (view_node nt cs)"
proof -
  have "nt = PARSE_NT_Bexp \<Longrightarrow> good_view (view_node nt cs)"
    using assms(1) by (auto simp: derives_rules rules_of_exprs fits_simps view_node_def good_view_def expr_node_def)
  moreover have "nt = PARSE_NT_Uexp \<Longrightarrow> good_view (view_node nt cs)"
    using assms(1) by (auto simp: derives_rules [of PARSE_NT_Uexp] rules_of_exprs fits_simps view_node_def good_view_def
        expr_node_def unary_ops_def)
  ultimately show ?thesis
    using assms by (auto simp: derives_rules [of nt] rules_of_exprs fits_simps view_node_def good_view_def expr_node_def)
qed

lemma expr_view: "expr_node e \<Longrightarrow> good_view (view e)"
proof -
  assume "expr_node e"
  then obtain nt cs where e: "e = Node PARSE_NT_Expr [Node nt cs]" and d: "derives (Node nt cs)"
    and nt: "[N nt] \<in> set (rules_of PARSE_NT_Expr)"
    by (auto simp: expr_node_def derives_rules [of PARSE_NT_Expr] rules_of_exprs fits_simps)
  show ?thesis using good_view_node [OF d nt] by (simp add: e view_def)
qed

lemma name_node: "expr_is_name e = Some t \<longleftrightarrow> view e = V_atom t \<and> tok_tk t = LEX_TK_NAME"
  by (auto simp: expr_is_name_def split: expr_shape.splits)

subsection \<open>Statements\<close>

definition stmt_node :: "parse_node \<Rightarrow> bool" where
  "stmt_node n \<longleftrightarrow> (\<exists>cs. n = Node PARSE_NT_Stmt cs) \<and> derives n"

abbreviation stmt_nodes :: "parse_node list \<Rightarrow> bool" where
  "stmt_nodes ss \<equiv> \<forall>s \<in> set ss. stmt_node s"

definition good_sview :: "stmt_shape \<Rightarrow> bool" where
  "good_sview v \<longleftrightarrow>
     (case v of
        SV_useu e \<Rightarrow> expr_node e
      | SV_type _ e \<Rightarrow> expr_node e
      | SV_wait e how _ \<Rightarrow> expr_node e \<and> (\<forall>k x. how = Some (k, x) \<longrightarrow> expr_node x)
      | SV_retn e \<Rightarrow> (\<forall>x. e = Some x \<longrightarrow> expr_node x)
      | SV_wlab e \<Rightarrow> expr_node e
      | SV_blok _ ss \<Rightarrow> stmt_nodes ss
      | SV_expr qs e \<Rightarrow> set qs \<subseteq> {LEX_TK_CONS, LEX_TK_EXPO, LEX_TK_STAT} \<and> expr_node e
      | SV_func qs e ss \<Rightarrow> set qs \<subseteq> {LEX_TK_CONS, LEX_TK_EXPO, LEX_TK_STAT} \<and> expr_node e \<and> stmt_nodes ss
      | SV_cond e ss bs els \<Rightarrow> expr_node e \<and> stmt_nodes ss \<and> (\<forall>(x, ts) \<in> set bs. expr_node x \<and> stmt_nodes ts) \<and>
          (\<forall>ts. els = Some ts \<longrightarrow> stmt_nodes ts)
      | SV_whil e ss \<Rightarrow> expr_node e \<and> stmt_nodes ss
      | SV_dowh ss e \<Rightarrow> expr_node e \<and> stmt_nodes ss
      | SV_bad \<Rightarrow> False)"

lemma case_snoc:
  "(case xs @ [y] of [] \<Rightarrow> g | s # ss \<Rightarrow> f (butlast (s # ss))) = f xs"
  by (cases xs) (simp_all add: butlast_append)

lemma guarded_run: "guarded nt (Node nt (Leaf a # e # Leaf b # ss @ [Leaf c])) = Some (e, ss)"
  by (cases ss) (simp_all add: guarded_def)

lemma derives_guarded:
  assumes "derives (Node nt cs)" and "rules_of nt = [[T a, N PARSE_NT_Expr, T b, M PARSE_NT_Stmt, T c]]"
  obtains e ss where "guarded nt (Node nt cs) = Some (e, ss)" and "expr_node e" and "stmt_nodes ss"
proof -
  from assms obtain ta tb tc es ss where cs: "cs = Leaf ta # Node PARSE_NT_Expr es # Leaf tb # ss @ [Leaf tc]"
    and ss: "\<forall>x \<in> set ss. \<exists>cs. x = Node PARSE_NT_Stmt cs" and d: "\<forall>c \<in> set cs. derives c"
    by (auto simp: derives_rules [of nt] fits_simps)
  have "expr_node (Node PARSE_NT_Expr es)" and "stmt_nodes ss" using ss d by (auto simp: cs stmt_node_def)
  then show thesis using that guarded_run by (metis cs)
qed

lemma derives_quals:
  assumes "\<forall>x \<in> set xs. (\<exists>cs. x = Node PARSE_NT_Qual cs) \<and> derives x" and "\<nexists>cs. y = Node PARSE_NT_Qual cs"
  obtains qs where "qualifiers (xs @ y # ys) = (qs, y # ys)" and "set qs \<subseteq> {LEX_TK_CONS, LEX_TK_EXPO, LEX_TK_STAT}"
proof -
  have stop: "qualifiers (y # ys) = ([], y # ys)" using assms(2) by (cases "y # ys" rule: qualifiers.cases) auto
  have "\<exists>qs. qualifiers (xs @ y # ys) = (qs, y # ys) \<and> set qs \<subseteq> {LEX_TK_CONS, LEX_TK_EXPO, LEX_TK_STAT}"
    using assms(1)
  proof (induction xs)
    case (Cons x xs)
    then obtain qs where "qualifiers (xs @ y # ys) = (qs, y # ys)" "set qs \<subseteq> {LEX_TK_CONS, LEX_TK_EXPO, LEX_TK_STAT}"
      by auto
    moreover obtain t where "x = Node PARSE_NT_Qual [Leaf t]" "tok_tk t \<in> {LEX_TK_CONS, LEX_TK_EXPO, LEX_TK_STAT}"
      using Cons.prems by (auto simp: derives_rules [of PARSE_NT_Qual] rules_of_stmts fits_simps)
    ultimately show ?case by simp
  qed (simp add: stop)
  then show thesis using that by blast
qed

lemma derives_elifs:
  assumes "\<forall>x \<in> set xs. (\<exists>cs. x = Node PARSE_NT_Elif cs) \<and> derives x"
    and "ys = [] \<or> (\<exists>cs. ys = [Node PARSE_NT_Else cs] \<and> derives (hd ys))"
  shows "\<exists>bs els. count_elif_else (xs @ ys) = Some (bs, els) \<and> (\<forall>(x, ts) \<in> set bs. expr_node x \<and> stmt_nodes ts) \<and>
     (\<forall>ts. els = Some ts \<longrightarrow> stmt_nodes ts)"
  using assms(1)
proof (induction xs)
  case Nil
  show ?case
  proof (cases "ys = []")
    case False
    then obtain cs where ys: "ys = [Node PARSE_NT_Else cs]" "derives (Node PARSE_NT_Else cs)" using assms(2) by auto
    then obtain a b c ss where cs: "cs = Leaf a # Leaf b # ss @ [Leaf c]" and "stmt_nodes ss"
      by (auto simp: derives_rules [of PARSE_NT_Else] rules_of_stmts fits_simps stmt_node_def)
    moreover have "guarded PARSE_NT_Elif (Node PARSE_NT_Else cs) = None"
      by (auto simp: guarded_def split: list.splits parse_node.splits)
    ultimately show ?thesis using ys by (cases ss) (auto simp: butlast_append)
  qed simp
next
  case (Cons x xs)
  obtain cs where x: "x = Node PARSE_NT_Elif cs" "derives x" using Cons.prems by auto
  obtain e ss where "guarded PARSE_NT_Elif (Node PARSE_NT_Elif cs) = Some (e, ss)" "expr_node e" "stmt_nodes ss"
    using derives_guarded [OF x(2) [unfolded x(1)] rules_of_stmts(4)] .
  moreover obtain bs els where "count_elif_else (xs @ ys) = Some (bs, els)" "\<forall>(x, ts) \<in> set bs. expr_node x \<and> stmt_nodes ts"
      "\<forall>ts. els = Some ts \<longrightarrow> stmt_nodes ts"
    using Cons by auto
  ultimately show ?case using x by auto
qed

lemma good_ctrl:
  assumes "derives (Node PARSE_NT_Ctrl cs)"
  shows "good_sview (view_ctrl cs)"
proof -
  consider (cond) ds xs ys where "cs = Node PARSE_NT_Cond ds # xs @ ys" "\<forall>x \<in> set xs. \<exists>cs. x = Node PARSE_NT_Elif cs"
      "ys = [] \<or> (\<exists>cs. ys = [Node PARSE_NT_Else cs])"
    | (dowh) ds where "cs = [Node PARSE_NT_Dowh ds]" | (whil) ds where "cs = [Node PARSE_NT_Whil ds]"
    using assms by (auto simp: derives_rules [of PARSE_NT_Ctrl] rules_of_stmts fits_simps) (metis append_Nil2)+
  then show ?thesis
  proof cases
    case cond
    have d: "derives (Node PARSE_NT_Cond ds)" "\<forall>x \<in> set (xs @ ys). derives x"
      using assms by (auto simp: derives_rules [of PARSE_NT_Ctrl] cond)
    obtain e ss where "guarded PARSE_NT_Cond (Node PARSE_NT_Cond ds) = Some (e, ss)" "expr_node e" "stmt_nodes ss"
      using derives_guarded [OF d(1) rules_of_stmts(3)] .
    moreover obtain bs els where "count_elif_else (xs @ ys) = Some (bs, els)"
      "\<forall>(x, ts) \<in> set bs. expr_node x \<and> stmt_nodes ts" "\<forall>ts. els = Some ts \<longrightarrow> stmt_nodes ts"
      using derives_elifs [of xs ys] cond d(2) by auto
    ultimately show ?thesis by (simp add: view_ctrl_def cond good_sview_def)
  next
    case dowh
    then have "derives (Node PARSE_NT_Dowh ds)" using assms by (auto simp: derives_rules [of PARSE_NT_Ctrl])
    then obtain a b c d e ss es where ds: "ds = Leaf a # Leaf b # ss @ [Leaf c, Leaf d, Node PARSE_NT_Expr es, Leaf e]"
      and "stmt_nodes ss" "expr_node (Node PARSE_NT_Expr es)"
      by (auto simp: derives_rules [of PARSE_NT_Dowh] rules_of_stmts fits_simps stmt_node_def)
    then show ?thesis by (simp add: view_ctrl_def dowh good_sview_def)
  next
    case whil
    then have "derives (Node PARSE_NT_Whil ds)" using assms by (auto simp: derives_rules [of PARSE_NT_Ctrl])
    from derives_guarded [OF this rules_of_stmts(7)] obtain e ss where
      "guarded PARSE_NT_Whil (Node PARSE_NT_Whil ds) = Some (e, ss)" "expr_node e" "stmt_nodes ss" .
    then show ?thesis by (simp add: view_ctrl_def whil good_sview_def)
  qed
qed

lemma good_func:
  assumes "derives (Node PARSE_NT_Func cs)"
  shows "good_sview (view_func cs)"
proof -
  obtain xs es a ss b where cs: "cs = xs @ Node PARSE_NT_Expr es # Leaf a # ss @ [Leaf b]"
    and "\<forall>x \<in> set xs. (\<exists>cs. x = Node PARSE_NT_Qual cs) \<and> derives x"
    and d: "expr_node (Node PARSE_NT_Expr es)" "stmt_nodes ss"
    using assms by (auto simp: derives_rules [of PARSE_NT_Func] rules_of_stmts fits_simps stmt_node_def)
  then obtain qs where q: "qualifiers cs = (qs, Node PARSE_NT_Expr es # Leaf a # ss @ [Leaf b])"
    "set qs \<subseteq> {LEX_TK_CONS, LEX_TK_EXPO, LEX_TK_STAT}"
    using derives_quals [of xs "Node PARSE_NT_Expr es" "Leaf a # ss @ [Leaf b]"] by auto
  show ?thesis using q d by (cases ss) (auto simp: view_func_def good_sview_def butlast_append)
qed

lemma good_keyword:
  assumes "derives (Node PARSE_NT_Stmt (Leaf t # cs))"
  shows "good_sview (view_keyword (tok_tk t) cs)"
proof -
  have d: "\<forall>c \<in> set cs. derives c" using assms by (auto simp: derives_rules [of PARSE_NT_Stmt])
  have ex: "Node PARSE_NT_Expr es \<in> set cs \<Longrightarrow> expr_node (Node PARSE_NT_Expr es)" for es
    using d by (simp add: expr_node_def)
  from assms have "\<exists>ts \<in> set (rules_of PARSE_NT_Stmt). fits ts (Leaf t # cs)" by (simp only: derives_rules)
  then consider (wait) "tok_tk t = LEX_TK_WAIT" "good_sview (view_wait cs)"
    | (expr) e a where "cs = [Node PARSE_NT_Expr e, Leaf a]"
        "tok_tk t = LEX_TK_RETN \<or> tok_tk t = LEX_TK_USEU \<or> tok_tk t = LEX_TK_TYPE \<or> tok_tk t = LEX_TK_LBRA"
    | (retn) a where "cs = [Leaf a]" "tok_tk t = LEX_TK_RETN"
    | (expo) e a b where "cs = [Leaf b, Node PARSE_NT_Expr e, Leaf a]" "tok_tk t = LEX_TK_EXPO"
    | (noin) ss a b where "cs = Leaf a # ss @ [Leaf b]" "tok_tk t = LEX_TK_NOIN" "stmt_nodes ss"
    | (blok) ss a where "cs = ss @ [Leaf a]" "tok_tk t = LEX_TK_LBRC" "stmt_nodes ss"
  proof (cases "tok_tk t = LEX_TK_WAIT")
    case True
    with \<open>\<exists>ts \<in> set (rules_of PARSE_NT_Stmt). fits ts (Leaf t # cs)\<close> have "good_sview (view_wait cs)"
      using ex by (auto simp: rules_of_stmts fits_simps view_wait_def good_sview_def Cons_eq_append_conv)
    then show ?thesis using True that by blast
  next
    case False
    with \<open>\<exists>ts \<in> set (rules_of PARSE_NT_Stmt). fits ts (Leaf t # cs)\<close> show ?thesis
      using that d by (auto simp: rules_of_stmts fits_simps Cons_eq_append_conv stmt_node_def)
  qed
  then show ?thesis
  proof cases
    case expr
    then show ?thesis using ex [of e] by (auto simp: view_keyword_def good_sview_def)
  next
    case expo
    then show ?thesis using ex [of e] by (auto simp: view_keyword_def good_sview_def)
  next
    case noin
    then show ?thesis by (cases ss) (auto simp: view_keyword_def good_sview_def butlast_append)
  next
    case blok
    then show ?thesis by (cases ss) (auto simp: view_keyword_def good_sview_def butlast_append)
  qed (simp_all add: view_keyword_def good_sview_def)
qed

lemma stmt_view:
  assumes "stmt_node n"
  shows "good_sview (sview n)"
proof -
  obtain cs where n: "n = Node PARSE_NT_Stmt cs" and d: "derives (Node PARSE_NT_Stmt cs)"
    using assms by (auto simp: stmt_node_def)
  show ?thesis
  proof (cases "\<exists>t ds. cs = Leaf t # ds")
    case True
    then obtain t ds where cs: "cs = Leaf t # ds" by blast
    show ?thesis using good_keyword [OF d [unfolded cs]] by (simp add: n cs sview_def)
  next
    case False
    then consider (ctrl) ds where "cs = [Node PARSE_NT_Ctrl ds]" | (func) ds where "cs = [Node PARSE_NT_Func ds]"
      | (expr) xs es a where "cs = xs @ [Node PARSE_NT_Expr es, Leaf a]" "\<forall>x \<in> set xs. \<exists>cs. x = Node PARSE_NT_Qual cs"
      using d by (auto simp: derives_rules [of PARSE_NT_Stmt] rules_of_stmts fits_simps)
    then show ?thesis
    proof cases
      case ctrl
      then have "derives (Node PARSE_NT_Ctrl ds)" using d by (simp add: derives_rules [of PARSE_NT_Stmt])
      then show ?thesis using good_ctrl by (simp add: n ctrl sview_def)
    next
      case func
      then have "derives (Node PARSE_NT_Func ds)" using d by (simp add: derives_rules [of PARSE_NT_Stmt])
      then show ?thesis using good_func by (simp add: n func sview_def)
    next
      case expr
      have "\<forall>c \<in> set cs. derives c" using d by (simp add: derives_rules [of PARSE_NT_Stmt])
      then have "\<forall>x \<in> set xs. (\<exists>cs. x = Node PARSE_NT_Qual cs) \<and> derives x" and e: "expr_node (Node PARSE_NT_Expr es)"
        using expr by (auto simp: expr_node_def)
      then obtain qs where q: "qualifiers cs = (qs, [Node PARSE_NT_Expr es, Leaf a])"
        "set qs \<subseteq> {LEX_TK_CONS, LEX_TK_EXPO, LEX_TK_STAT}"
        using derives_quals [of xs "Node PARSE_NT_Expr es" "[Leaf a]"] expr(1) by auto
      obtain nt ds rest where "cs = Node nt ds # rest" "nt = PARSE_NT_Qual \<or> nt = PARSE_NT_Expr"
        using expr by (cases xs) auto
      then show ?thesis using q e by (auto simp: n sview_def good_sview_def)
    qed
  qed
qed

lemma unit_stmts:
  assumes "derives (Node PARSE_NT_Unit cs)"
  obtains a ss b where "cs = Leaf a # ss @ [Leaf b]" and "stmt_nodes ss"
  using assms by (auto simp: derives_rules [of PARSE_NT_Unit] rules_of_stmts fits_simps stmt_node_def)

end
