(* ===== verification/Scope.thy ===== *)
theory Scope
  imports Ast "HOL-Library.List_Lexorder"
begin

text \<open>
  Scopes (\<^verbatim>\<open>src/scope.h\<close>, \<^verbatim>\<open>src/scope.c\<close>): the tables of built-in constants and functions,
  building the scope of the unit, of functions and of blocks, and looking a name up. The
  library functions are those of glibc: \<^verbatim>\<open>qsort\<close> is a stable sort, \<^verbatim>\<open>bsearch\<close> halves the
  interval and takes the lower middle. Requests for memory are numbered as in \<open>Types\<close>.
\<close>

subsection \<open>Built-in constants and functions\<close>

definition sym :: "string \<Rightarrow> lex_symbol" where
  "sym s = \<lparr>sym_beg = 0, sym_text = s\<rparr>"

abbreviation prim :: "type_t \<Rightarrow> qtype" where
  "prim t \<equiv> Ty_prim t (lay 1)"

definition scope_builtin_consts :: "(lex_symbol \<times> qtype) list" where
  "scope_builtin_consts =
     [(sym ''null'', prim TYPE_VPTR), (sym ''true'', prim TYPE_U8), (sym ''false'', prim TYPE_U8)]"

record builtin_func =
  bf_name :: lex_symbol
  bf_rettype :: "qtype option"
  bf_params :: "(lex_symbol \<times> qtype) list"

definition bfun :: "string \<Rightarrow> qtype option \<Rightarrow> (string \<times> qtype) list \<Rightarrow> builtin_func" where
  "bfun n r ps = \<lparr>bf_name = sym n, bf_rettype = r, bf_params = map (\<lambda>(n, t). (sym n, t)) ps\<rparr>"

definition scope_builtin_funcs :: "builtin_func list" where
  "scope_builtin_funcs = [
     bfun ''|'' None [],
     bfun ''monotime'' (Some (prim TYPE_U64)) [],
     bfun ''malloc'' (Some (prim TYPE_VPTR)) [(''size'', prim TYPE_USIZE)],
     bfun ''calloc'' (Some (prim TYPE_VPTR)) [(''size'', prim TYPE_USIZE)],
     bfun ''realloc'' (Some (prim TYPE_VPTR)) [(''oldptr'', prim TYPE_VPTR), (''newsize'', prim TYPE_USIZE)],
     bfun ''free'' None [(''ptr'', prim TYPE_VPTR)],
     bfun ''ps'' None [(''str'', Ty_ptr (lay 1) (prim TYPE_U8))],
     bfun ''pu8'' None [(''num'', prim TYPE_U8)],
     bfun ''pi8'' None [(''num'', prim TYPE_I8)],
     bfun ''pu16'' None [(''num'', prim TYPE_U16)],
     bfun ''pi16'' None [(''num'', prim TYPE_I16)],
     bfun ''pu32'' None [(''num'', prim TYPE_U32)],
     bfun ''pi32'' None [(''num'', prim TYPE_I32)],
     bfun ''pu64'' None [(''num'', prim TYPE_U64)],
     bfun ''pi64'' None [(''num'', prim TYPE_I64)],
     bfun ''pnl'' None [],
     bfun ''exit'' None [(''status'', prim TYPE_I32)]]"

fun so_name :: "scope_obj \<Rightarrow> lex_symbol" where
  "so_name (SCOPE_OBJ_DUPL n) = n"
| "so_name (SCOPE_OBJ_BCON n _) = n"
| "so_name (SCOPE_OBJ_BFUN n _) = n"
| "so_name (SCOPE_OBJ_GVAR n _) = n"
| "so_name (SCOPE_OBJ_AVAR n _) = n"
| "so_name (SCOPE_OBJ_FUNC n _) = n"
| "so_name (SCOPE_OBJ_PARM n _) = n"

definition is_dupl :: "scope_obj \<Rightarrow> bool" where
  "is_dupl x \<longleftrightarrow> (case x of SCOPE_OBJ_DUPL _ \<Rightarrow> True | _ \<Rightarrow> False)"

definition add_builtins :: "scope_obj list" where
  "add_builtins =
     map (\<lambda>i. SCOPE_OBJ_BCON (fst (scope_builtin_consts ! i)) i) [0..<length scope_builtin_consts] @
     map (\<lambda>i. SCOPE_OBJ_BFUN (bf_name (scope_builtin_funcs ! i)) i) [0..<length scope_builtin_funcs]"

subsection \<open>Comparing, sorting and searching\<close>

text \<open>\<^verbatim>\<open>strcmp\<close> on the texts: they have no zero byte, being names of the source.\<close>

definition sym_key :: "lex_symbol \<Rightarrow> nat list" where
  "sym_key s = map of_char (sym_text s)"

definition cmp_scope_obj :: "lex_symbol \<Rightarrow> lex_symbol \<Rightarrow> int" where
  "cmp_scope_obj a b = (if sym_key a < sym_key b then -1 else if sym_key a = sym_key b then 0 else 1)"

definition qsort :: "('a \<Rightarrow> lex_symbol) \<Rightarrow> 'a list \<Rightarrow> 'a list" where
  "qsort name xs = sort_key (sym_key \<circ> name) xs"

function bsearch :: "lex_symbol \<Rightarrow> lex_symbol list \<Rightarrow> nat \<Rightarrow> nat \<Rightarrow> nat option" where
  "bsearch needle xs l u =
     (if l < u then
        let i = (l + u) div 2; c = cmp_scope_obj needle (xs ! i)
        in if c < 0 then bsearch needle xs l i
           else if c > 0 then bsearch needle xs (Suc i) u
           else Some i
      else None)"
  by pat_completeness auto

termination
  by (relation "measure (\<lambda>(needle, xs, l, u). u - l)") auto

declare bsearch.simps [simp del]

subsection \<open>Errors\<close>

datatype scope_error = SCOPE_OK | SCOPE_NOMEM | SCOPE_DUPLICATED

definition aggr_error :: "scope_error \<Rightarrow> scope_error \<Rightarrow> scope_error" where
  "aggr_error err current =
     (case err of
        SCOPE_OK \<Rightarrow> current
      | SCOPE_NOMEM \<Rightarrow> SCOPE_NOMEM
      | SCOPE_DUPLICATED \<Rightarrow> if current = SCOPE_NOMEM then SCOPE_NOMEM else SCOPE_DUPLICATED)"

text \<open>A name declared twice in a scope is marked, at every place.\<close>

function mark_duplicates :: "scope_obj list \<Rightarrow> scope_obj list \<times> bool" where
  "mark_duplicates [] = ([], False)"
| "mark_duplicates (x # xs) =
     (if is_dupl x then let (xs', d) = mark_duplicates xs in (x # xs', d)
      else
        let same = (\<lambda>y. lex_symbols_equal (so_name x) (so_name y));
            dup = list_ex same xs;
            (xs', d) = mark_duplicates (map (\<lambda>y. if same y then SCOPE_OBJ_DUPL (so_name y) else y) xs)
        in ((if dup then SCOPE_OBJ_DUPL (so_name x) else x) # xs', dup \<or> d))"
  by pat_completeness auto

termination by (relation "measure length") auto

definition find_duplicates :: "scope_obj list \<Rightarrow> scope_error \<times> scope_obj list" where
  "find_duplicates xs =
     (let (xs', dup) = mark_duplicates xs in (if dup then SCOPE_DUPLICATED else SCOPE_OK, xs'))"

subsection \<open>Wait labels\<close>

text \<open>The state while a function is built: requests for memory, and its labels in order.\<close>

record build =
  b_requests :: nat
  b_wlabs :: "lex_symbol list"

definition add_func_wlab :: "(nat \<Rightarrow> bool) \<Rightarrow> lex_symbol \<Rightarrow> build \<Rightarrow> scope_error \<times> build" where
  "add_func_wlab mem_ok name b =
     (let ok = mem_ok (b_requests b); b = b\<lparr>b_requests := Suc (b_requests b)\<rparr> in
      if ok then (SCOPE_OK, b\<lparr>b_wlabs := b_wlabs b @ [name]\<rparr>) else (SCOPE_NOMEM, b\<lparr>b_wlabs := []\<rparr>))"

text \<open>The labels are sorted; a run of equal names has one number.\<close>

function identify_wlabs :: "u64 \<Rightarrow> lex_symbol list \<Rightarrow> (lex_symbol \<times> u64) list" where
  "identify_wlabs wlab_id [] = []"
| "identify_wlabs wlab_id (n # ns) =
     (n, wlab_id) # map (\<lambda>m. (m, wlab_id)) (takeWhile (lex_symbols_equal n) ns) @
     identify_wlabs (wlab_id + 1) (dropWhile (lex_symbols_equal n) ns)"
  by pat_completeness auto

termination
  by (relation "measure (\<lambda>(i, ns). length ns)") (auto simp: le_imp_less_Suc length_dropWhile_le)

definition scope_find_wlab :: "func \<Rightarrow> lex_symbol \<Rightarrow> nat option" where
  "scope_find_wlab f name = bsearch name (map fst (f_wlabs f)) 0 (length (f_wlabs f))"

subsection \<open>Building\<close>

definition count_decls :: "stmt list \<Rightarrow> nat" where
  "count_decls ss =
     (\<Sum>s \<leftarrow> ss. case s of S_decl d _ \<Rightarrow> length (d_names d) | _ \<Rightarrow> 0)"

definition count_objects_unit :: "stmt list \<Rightarrow> nat" where
  "count_objects_unit ss =
     length scope_builtin_consts + length scope_builtin_funcs +
     (\<Sum>s \<leftarrow> ss. case s of S_decl d _ \<Rightarrow> length (d_names d) | S_func _ _ _ \<Rightarrow> 1 | _ \<Rightarrow> 0)"

definition count_objects_block :: "stmt \<Rightarrow> nat" where
  "count_objects_block s =
     (case s of
        S_blok _ _ ss \<Rightarrow> count_decls ss
      | S_whil _ _ ss \<Rightarrow> count_decls ss
      | S_dowh _ _ ss \<Rightarrow> count_decls ss
      | S_func f _ ss \<Rightarrow> length (f_params f) + count_decls ss
      | _ \<Rightarrow> 0)"

definition alloc_scope :: "(nat \<Rightarrow> bool) \<Rightarrow> build \<Rightarrow> bool \<times> build" where
  "alloc_scope mem_ok b = (mem_ok (b_requests b), b\<lparr>b_requests := Suc (b_requests b)\<rparr>)"

definition seal_scope :: "scope_error \<Rightarrow> scope_obj list \<Rightarrow> scope_error \<times> scope_obj list" where
  "seal_scope err objs =
     (let (dup, objs) = find_duplicates objs in (aggr_error err dup, qsort so_name objs))"

text \<open>
  \<^verbatim>\<open>scope_build_inner\<close> on the statements of a function: \<open>build_stmts\<close> is its loop over a
  block, which collects the variables declared. Functions are not nested, so the labels of
  all blocks go to the one being built.
\<close>

fun scope_build_inner :: "(nat \<Rightarrow> bool) \<Rightarrow> stmt \<Rightarrow> build \<Rightarrow> scope_error \<times> stmt \<times> build"
  and build_stmts :: "(nat \<Rightarrow> bool) \<Rightarrow> stmt list \<Rightarrow> build \<Rightarrow> scope_error \<times> stmt list \<times> scope_obj list \<times> build"
  and build_elifs :: "(nat \<Rightarrow> bool) \<Rightarrow> (expr \<times> stmt) list \<Rightarrow> build \<Rightarrow> scope_error \<times> (expr \<times> stmt) list \<times> build"
where
  "scope_build_inner mem_ok (S_blok noin sc ss) b =
     (let (ok, b) = alloc_scope mem_ok b in
      if \<not> ok then (SCOPE_NOMEM, S_blok noin sc ss, b)
      else let (err, ss, objs, b) = build_stmts mem_ok ss b; (err, objs) = seal_scope err objs
           in (err, S_blok noin objs ss, b))"
| "scope_build_inner mem_ok (S_whil e sc ss) b =
     (let (ok, b) = alloc_scope mem_ok b in
      if \<not> ok then (SCOPE_NOMEM, S_whil e sc ss, b)
      else let (err, ss, objs, b) = build_stmts mem_ok ss b; (err, objs) = seal_scope err objs
           in (err, S_whil e objs ss, b))"
| "scope_build_inner mem_ok (S_dowh e sc ss) b =
     (let (ok, b) = alloc_scope mem_ok b in
      if \<not> ok then (SCOPE_NOMEM, S_dowh e sc ss, b)
      else let (err, ss, objs, b) = build_stmts mem_ok ss b; (err, objs) = seal_scope err objs
           in (err, S_dowh e objs ss, b))"
| "scope_build_inner mem_ok (S_cond e s elifs els) b =
     (let (err, s, b) = scope_build_inner mem_ok s b;
          (err', elifs, b) = build_elifs mem_ok elifs b
      in case els of
           None \<Rightarrow> (aggr_error err err', S_cond e s elifs None, b)
         | Some t \<Rightarrow>
             let (err'', t, b) = scope_build_inner mem_ok t b
             in (aggr_error (aggr_error err err') err'', S_cond e s elifs (Some t), b))"
| "scope_build_inner mem_ok s b = (SCOPE_OK, s, b)"
| "build_stmts mem_ok [] b = (SCOPE_OK, [], [], b)"
| "build_stmts mem_ok (s # ss) b =
     (case s of
        S_decl d init \<Rightarrow>
          let (err, ss, objs, b) = build_stmts mem_ok ss b
          in (err, s # ss, map (\<lambda>n. SCOPE_OBJ_AVAR n d) (d_names d) @ objs, b)
      | S_wlab name f i \<Rightarrow>
          let (err, b) = add_func_wlab mem_ok name b;
              (err', ss, objs, b) = build_stmts mem_ok ss b
          in (aggr_error err err', s # ss, objs, b)
      | _ \<Rightarrow>
          let (err, s, b) = scope_build_inner mem_ok s b;
              (err', ss, objs, b) = build_stmts mem_ok ss b
          in (aggr_error err err', s # ss, objs, b))"
| "build_elifs mem_ok [] b = (SCOPE_OK, [], b)"
| "build_elifs mem_ok ((e, s) # es) b =
     (let (err, s, b) = scope_build_inner mem_ok s b;
          (err', es, b) = build_elifs mem_ok es b
      in (aggr_error err err', (e, s) # es, b))"

text \<open>The case of a function: its parameters come first in its scope.\<close>

definition build_func :: "(nat \<Rightarrow> bool) \<Rightarrow> func \<Rightarrow> stmt list \<Rightarrow> nat \<Rightarrow>
    scope_error \<times> func \<times> scope_obj list \<times> stmt list \<times> nat" where
  "build_func mem_ok f ss k =
     (let (ok, b) = alloc_scope mem_ok \<lparr>b_requests = k, b_wlabs = []\<rparr> in
      if \<not> ok then (SCOPE_NOMEM, f, [], ss, b_requests b)
      else
        let (err, ss, objs, b) = build_stmts mem_ok ss b;
            wlabs = identify_wlabs 1 (qsort id (b_wlabs b));
            (err, objs) = seal_scope err (map (\<lambda>(n, t). SCOPE_OBJ_PARM n t) (f_params f) @ objs)
        in (err, f\<lparr>f_wlabs := wlabs\<rparr>, objs, ss, b_requests b))"

fun build_unit :: "(nat \<Rightarrow> bool) \<Rightarrow> stmt list \<Rightarrow> nat \<Rightarrow> scope_error \<times> stmt list \<times> scope_obj list \<times> nat" where
  "build_unit mem_ok [] k = (SCOPE_OK, [], [], k)"
| "build_unit mem_ok (s # ss) k =
     (case s of
        S_decl d init \<Rightarrow>
          let (err, ss, objs, k) = build_unit mem_ok ss k
          in (err, s # ss, map (\<lambda>n. SCOPE_OBJ_GVAR n d) (d_names d) @ objs, k)
      | S_func f sc body \<Rightarrow>
          let (err, f, sc, body, k) = build_func mem_ok f body k;
              (err', ss, objs, k) = build_unit mem_ok ss k
          in (aggr_error err err', S_func f sc body # ss, SCOPE_OBJ_FUNC (f_name f) f # objs, k)
      | _ \<Rightarrow> let (err, ss, objs, k) = build_unit mem_ok ss k in (err, s # ss, objs, k))"

definition scope_build :: "(nat \<Rightarrow> bool) \<Rightarrow> stmt list \<Rightarrow> scope_error \<times> stmt list \<times> scope_obj list" where
  "scope_build mem_ok ss =
     (if \<not> mem_ok 0 then (SCOPE_NOMEM, ss, [])
      else let (err, ss, objs, k) = build_unit mem_ok ss 1;
               (err, objs) = seal_scope err (add_builtins @ objs)
           in (err, ss, objs))"

subsection \<open>Looking up\<close>

text \<open>A variable of a block is seen behind its declaration only; an outer one does not replace it.\<close>

fun scope_find_object :: "scopes \<Rightarrow> lex_symbol \<Rightarrow> scope_obj option" where
  "scope_find_object [] name = None"
| "scope_find_object (objs # outer) name =
     (case bsearch name (map so_name objs) 0 (length objs) of
        None \<Rightarrow> scope_find_object outer name
      | Some i \<Rightarrow>
          (case objs ! i of
             SCOPE_OBJ_DUPL _ \<Rightarrow> scope_find_object outer name
           | SCOPE_OBJ_AVAR n d \<Rightarrow>
               if sym_beg (hd (d_names d)) < sym_beg name then Some (SCOPE_OBJ_AVAR n d) else None
           | x \<Rightarrow> Some x))"

end
