(* ===== verification/Type_Check.thy ===== *)
theory Type_Check
  imports Scope
begin

text \<open>
  The type checker (\<^verbatim>\<open>src/type.c\<close> from \<^verbatim>\<open>type_of_expr\<close> on): it annotates every expression with
  its type, resolves names, members and labels, and checks statements. What the functions
  return is the annotated tree. A null pointer for the type of an expression is the error
  \<open>TYPE_INVALID\<close>, which is also what running out of memory comes to; \<open>Type_abort\<close> is a failed
  assertion and \<open>Type_undefined\<close> a null pointer that is followed. Requests for memory are
  numbered as in \<open>Types\<close>; after one that failed the numbers no longer matter, because the
  result can only be an error.
\<close>

subsection \<open>Results\<close>

type_synonym 'a chk = "nat \<Rightarrow> (type_error + 'a) \<times> nat"

definition ret_c :: "'a \<Rightarrow> 'a chk" where
  "ret_c x = (\<lambda>k. (Inr x, k))"

definition lift_c :: "type_error + 'a \<Rightarrow> 'a chk" where
  "lift_c r = (\<lambda>k. (r, k))"

definition bind_c :: "'a chk \<Rightarrow> ('a \<Rightarrow> 'b chk) \<Rightarrow> 'b chk" where
  "bind_c m f = (\<lambda>k. case m k of (Inl e, k) \<Rightarrow> (Inl e, k) | (Inr x, k) \<Rightarrow> f x k)"

text \<open>Both are checked, the second also when the first is invalid.\<close>

definition both_c :: "'a chk \<Rightarrow> 'b chk \<Rightarrow> ('a \<times> 'b) chk" where
  "both_c m n = (\<lambda>k. case m k of
       (Inr x, k) \<Rightarrow> (case n k of (Inr y, k) \<Rightarrow> (Inr (x, y), k) | (Inl e, k) \<Rightarrow> (Inl e, k))
     | (Inl TYPE_INVALID, k) \<Rightarrow> (case n k of (Inr _, k) \<Rightarrow> (Inl TYPE_INVALID, k) | (Inl e, k) \<Rightarrow> (Inl e, k))
     | (Inl e, k) \<Rightarrow> (Inl e, k))"

lemma bind_c_cong [fundef_cong]:
  assumes "m k = m' k'" and "\<And>x j. m' k' = (Inr x, j) \<Longrightarrow> f x j = f' x j" and "k = k'"
  shows "bind_c m f k = bind_c m' f' k'"
  using assms by (auto simp: bind_c_def split: prod.splits sum.splits)

lemma both_c_cong [fundef_cong]:
  assumes "m k = m' k'" and "\<And>j. n j = n' j" and "k = k'"
  shows "both_c m n k = both_c m' n' k'"
  using assms by (auto simp: both_c_def split: prod.splits sum.splits type_error.splits)

definition need :: "bool \<Rightarrow> type_error + unit" where
  "need c = guard_r TYPE_INVALID c"

text \<open>Running out of memory has no result of its own.\<close>

definition no_type :: "type_error \<Rightarrow> type_error" where
  "no_type e = (if e = TYPE_NOMEM then TYPE_INVALID else e)"

definition alloc_c :: "(nat \<Rightarrow> bool) \<Rightarrow> unit chk" where
  "alloc_c mem_ok = (\<lambda>k. (if mem_ok k then Inr () else Inl TYPE_INVALID, Suc k))"

definition copy_c :: "(nat \<Rightarrow> bool) \<Rightarrow> qtype \<Rightarrow> qtype chk" where
  "copy_c mem_ok t = (\<lambda>k. case type_copy mem_ok t k of Some (c, k) \<Rightarrow> (Inr c, k) | None \<Rightarrow> (Inl TYPE_INVALID, Suc k))"

definition quantify_c :: "(nat \<Rightarrow> bool) \<Rightarrow> qtype \<Rightarrow> qtype chk" where
  "quantify_c mem_ok t = (\<lambda>k. case type_quantify mem_ok t k of
       Inr (q, k) \<Rightarrow> (Inr q, k)
     | Inl e \<Rightarrow> (Inl (no_type e), Suc k))"

subsection \<open>Lvalues\<close>

text \<open>The errors printed are not modelled: the result is whether the expression may be assigned to.\<close>

definition obj_modifiable :: "scope_obj \<Rightarrow> type_error + unit" where
  "obj_modifiable ob =
     (case ob of
        SCOPE_OBJ_BCON _ _ \<Rightarrow> Inl TYPE_INVALID
      | SCOPE_OBJ_BFUN _ _ \<Rightarrow> Inl TYPE_INVALID
      | SCOPE_OBJ_GVAR _ d \<Rightarrow> need (\<not> d_cons d)
      | SCOPE_OBJ_AVAR _ d \<Rightarrow> need (\<not> d_cons d)
      | SCOPE_OBJ_FUNC _ _ \<Rightarrow> Inl TYPE_INVALID
      | SCOPE_OBJ_PARM _ _ \<Rightarrow> Inr ()
      | SCOPE_OBJ_DUPL _ \<Rightarrow> Inl Type_abort)"

definition typed :: "qtype option \<Rightarrow> type_error + 'a \<Rightarrow> type_error + 'a" where
  "typed t r = (if t = None then Inl Type_abort else r)"

fun expr_is_lvalue :: "expr \<Rightarrow> type_error + unit" where
  "expr_is_lvalue (E_bexp op l r ref t) =
     typed t (if op = LEX_TK_MEMB then expr_is_lvalue l
              else if op = LEX_TK_AROW then Inr () else Inl TYPE_INVALID)"
| "expr_is_lvalue (E_cast op l c t) = typed t (Inl TYPE_INVALID)"
| "expr_is_lvalue (E_uexp op r t) =
     typed t (if op = LEX_TK_MULT then
                case type_of_expr r of
                  None \<Rightarrow> Inl Type_undefined
                | Some t' \<Rightarrow> need (ty_t t' \<noteq> TYPE_QUAINT)
              else Inl TYPE_INVALID)"
| "expr_is_lvalue (E_size op ts t) = typed t (Inl TYPE_INVALID)"
| "expr_is_lvalue (E_fexp _ _ _ _) = Inl TYPE_INVALID"
| "expr_is_lvalue (E_xexp _ _ _) = Inl TYPE_INVALID"
| "expr_is_lvalue (E_aexp b off t) = typed t (expr_is_lvalue b)"
| "expr_is_lvalue (E_texp _ _ _ _) = Inl TYPE_INVALID"
| "expr_is_lvalue (E_name s scoped t) =
     typed t (case scoped of None \<Rightarrow> Inl Type_abort | Some ob \<Rightarrow> obj_modifiable ob)"
| "expr_is_lvalue (E_nmbr _ _) = Inl TYPE_INVALID"
| "expr_is_lvalue (E_strl _ _) = Inl TYPE_INVALID"
| "expr_is_lvalue E_void = Inl Type_abort"
| "expr_is_lvalue E_null = Inl Type_abort"

subsection \<open>Operators\<close>

abbreviation scalar :: "qtype \<Rightarrow> bool" where
  "scalar t \<equiv> ty_count t = 1"

text \<open>Pointers count as unsigned.\<close>

definition signd :: "type_t \<Rightarrow> bool" where
  "signd t = (if type_is_integral t then type_is_signed t else False)"

definition integral_or_ptr :: "type_t \<Rightarrow> bool" where
  "integral_or_ptr t \<longleftrightarrow> type_is_integral t \<or> type_is_ptr t"

text \<open>The left operand may be a pointer to something for \<open>+\<close>, \<open>-\<close>, \<open>+=\<close> and \<open>-=\<close>.\<close>

definition arith_operands :: "bool \<Rightarrow> qtype \<Rightarrow> qtype \<Rightarrow> bool" where
  "arith_operands additive lt rt \<longleftrightarrow>
     (if additive then integral_or_ptr (ty_t lt) \<and> ty_t lt \<noteq> TYPE_VPTR \<and> ty_t lt \<noteq> TYPE_FPTR
      else type_is_integral (ty_t lt)) \<and>
     type_is_integral (ty_t rt) \<and>
     ty_size lt = ty_size rt \<and> signd (ty_t lt) = signd (ty_t rt)"

definition bit_operands :: "qtype \<Rightarrow> qtype \<Rightarrow> bool" where
  "bit_operands lt rt \<longleftrightarrow>
     type_is_integral (ty_t lt) \<and> type_is_integral (ty_t rt) \<and>
     type_is_unsigned (ty_t lt) \<and> type_is_unsigned (ty_t rt) \<and>
     ty_size lt = ty_size rt"

definition logic_operands :: "qtype \<Rightarrow> qtype \<Rightarrow> bool" where
  "logic_operands lt rt \<longleftrightarrow>
     integral_or_ptr (ty_t lt) \<and> integral_or_ptr (ty_t rt) \<and>
     ty_size lt = ty_size rt \<and> signd (ty_t lt) = signd (ty_t rt)"

text \<open>The type to copy for the result of a binary operator; a comparison has a fresh \<^verbatim>\<open>u8\<close>.\<close>

datatype source = Copy qtype | Fresh type_t

definition bexp_source :: "lex_tk \<Rightarrow> expr \<Rightarrow> qtype \<Rightarrow> qtype \<Rightarrow> type_error + source" where
  "bexp_source op l lt rt =
     (if op = LEX_TK_ASSN then
        bind_r (expr_is_lvalue l) (\<lambda>_.
        bind_r (need (type_equals lt rt)) (\<lambda>_. Inr (Copy rt)))
      else if op \<in> {LEX_TK_ASPL, LEX_TK_ASMI, LEX_TK_ASMU, LEX_TK_ASDI, LEX_TK_ASMO} then
        bind_r (need (scalar lt \<and> scalar rt)) (\<lambda>_.
        bind_r (expr_is_lvalue l) (\<lambda>_.
        bind_r (need (arith_operands (op = LEX_TK_ASPL \<or> op = LEX_TK_ASMI) lt rt)) (\<lambda>_. Inr (Copy lt))))
      else if op \<in> {LEX_TK_ASLS, LEX_TK_ASRS, LEX_TK_ASAN, LEX_TK_ASXO, LEX_TK_ASOR} then
        bind_r (need (scalar lt \<and> scalar rt)) (\<lambda>_.
        bind_r (expr_is_lvalue l) (\<lambda>_.
        bind_r (need (bit_operands lt rt)) (\<lambda>_. Inr (Copy lt))))
      else if op \<in> {LEX_TK_EQUL, LEX_TK_NEQL} then
        bind_r (need (ty_count lt = ty_count rt)) (\<lambda>_.
        bind_r (need (logic_operands lt rt)) (\<lambda>_. Inr (Fresh TYPE_U8)))
      else if op \<in> {LEX_TK_LTHN, LEX_TK_GTHN, LEX_TK_LTEQ, LEX_TK_GTEQ, LEX_TK_CONJ, LEX_TK_DISJ} then
        bind_r (need (scalar lt \<and> scalar rt)) (\<lambda>_.
        bind_r (need (logic_operands lt rt)) (\<lambda>_. Inr (Fresh TYPE_U8)))
      else if op \<in> {LEX_TK_PLUS, LEX_TK_MINS, LEX_TK_MULT, LEX_TK_DIVI, LEX_TK_MODU} then
        bind_r (need (scalar lt \<and> scalar rt)) (\<lambda>_.
        bind_r (need (arith_operands (op = LEX_TK_PLUS \<or> op = LEX_TK_MINS) lt rt)) (\<lambda>_. Inr (Copy lt)))
      else if op \<in> {LEX_TK_LSHF, LEX_TK_RSHF, LEX_TK_AMPS, LEX_TK_CARE, LEX_TK_PIPE} then
        bind_r (need (scalar lt \<and> scalar rt)) (\<lambda>_.
        bind_r (need (bit_operands lt rt)) (\<lambda>_. Inr (Copy lt)))
      else if op = LEX_TK_COMA then Inr (Copy rt)
      else Inl Type_abort)"

text \<open>What the checker does to the type of the operand of a unary operator.\<close>

definition uexp_adapt :: "lex_tk \<Rightarrow> qtype \<Rightarrow> qtype" where
  "uexp_adapt op c =
     (if op = LEX_TK_MINS then
        (case c of Ty_prim t l \<Rightarrow> if type_is_unsigned t then Ty_prim (type_succ t) l else c | _ \<Rightarrow> c)
      else if op = LEX_TK_TILD then Ty_quaint (lay 1) c
      else if op = LEX_TK_AMPS then Ty_ptr (lay 1) c
      else if op = LEX_TK_MULT then (case c of Ty_ptr _ s \<Rightarrow> s | Ty_quaint _ s \<Rightarrow> s | _ \<Rightarrow> c)
      else c)"

definition uexp_guard :: "lex_tk \<Rightarrow> expr \<Rightarrow> qtype \<Rightarrow> type_error + unit" where
  "uexp_guard op r rt =
     (let t = ty_t rt in
      if op = LEX_TK_PLUS then need (scalar rt \<and> type_is_integral t)
      else if op = LEX_TK_MINS then need (scalar rt \<and> type_is_integral t \<and> t \<noteq> TYPE_ENUM)
      else if op = LEX_TK_EXCL then need (scalar rt \<and> (integral_or_ptr t \<or> type_is_quaint t))
      else if op = LEX_TK_TILD then Inr ()
      else if op = LEX_TK_MULT then
        bind_r (if type_is_quaint t then expr_is_lvalue r else Inr ()) (\<lambda>_.
        need (scalar rt \<and> (type_is_ptr t \<or> type_is_quaint t) \<and> t \<noteq> TYPE_VPTR \<and> t \<noteq> TYPE_FPTR))
      else if op = LEX_TK_AMPS then expr_is_lvalue r
      else if op = LEX_TK_CARE then need (scalar rt \<and> type_is_integral t \<and> \<not> type_is_signed t)
      else if op \<in> {LEX_TK_INCR, LEX_TK_DECR} then
        bind_r (expr_is_lvalue r) (\<lambda>_. need (scalar rt \<and> integral_or_ptr t \<and> t \<noteq> TYPE_VPTR \<and> t \<noteq> TYPE_FPTR))
      else Inl Type_abort)"

definition xexp_guard :: "lex_tk \<Rightarrow> expr \<Rightarrow> qtype \<Rightarrow> type_error + unit" where
  "xexp_guard op l lt =
     (let t = ty_t lt in
      if op \<in> {LEX_TK_INCR, LEX_TK_DECR} then
        bind_r (expr_is_lvalue l) (\<lambda>_. need (scalar lt \<and> integral_or_ptr t \<and> t \<noteq> TYPE_VPTR \<and> t \<noteq> TYPE_FPTR))
      else Inl Type_abort)"

subsection \<open>Names, members and labels\<close>

record tenv =
  te_mem :: "nat \<Rightarrow> bool"
  te_types :: symtab
  te_unit :: "scope_obj list"

text \<open>The type to copy for a name.\<close>

definition name_type :: "scope_obj \<Rightarrow> type_error + qtype" where
  "name_type ob =
     (case ob of
        SCOPE_OBJ_BCON _ i \<Rightarrow> Inr (snd (scope_builtin_consts ! i))
      | SCOPE_OBJ_PARM _ t \<Rightarrow> Inr t
      | SCOPE_OBJ_GVAR _ d \<Rightarrow> Inr (d_type d)
      | SCOPE_OBJ_AVAR _ d \<Rightarrow> Inr (d_type d)
      | SCOPE_OBJ_BFUN _ i \<Rightarrow>
          (let f = scope_builtin_funcs ! i in Inr (Ty_fptr (lay 1) (bf_params f) (bf_rettype f)))
      | SCOPE_OBJ_FUNC _ f \<Rightarrow> Inr (Ty_fptr (lay 1) (f_params f) (f_rettype f))
      | SCOPE_OBJ_DUPL _ \<Rightarrow> Inl Type_abort)"

fun find_member :: "lex_symbol \<Rightarrow> (lex_symbol \<times> qtype) list \<Rightarrow> (nat \<times> qtype) option" where
  "find_member field [] = None"
| "find_member field ((n, t) # ms) =
     (if lex_symbols_equal field n then Some (0, t)
      else map_option (\<lambda>(i, t). (Suc i, t)) (find_member field ms))"

definition members_of :: "qtype \<Rightarrow> type_error + (lex_symbol \<times> qtype) list" where
  "members_of t =
     (case t of Ty_struct _ ms _ \<Rightarrow> Inr ms | Ty_union _ ms _ \<Rightarrow> Inr ms | _ \<Rightarrow> Inl TYPE_INVALID)"

definition member_source :: "lex_tk \<Rightarrow> qtype \<Rightarrow> expr \<Rightarrow> type_error + nat \<times> qtype" where
  "member_source op lt r =
     bind_r (need (scalar lt)) (\<lambda>_.
     case r of
       E_null \<Rightarrow> Inl Type_undefined
     | E_name field _ _ \<Rightarrow>
         bind_r (if op = LEX_TK_MEMB then members_of lt
                 else case lt of
                   Ty_ptr _ s \<Rightarrow>
                     bind_r (members_of s) (\<lambda>ms. bind_r (need (scalar s)) (\<lambda>_. Inr ms))
                 | _ \<Rightarrow> Inl TYPE_INVALID) (\<lambda>ms.
         case find_member field ms of None \<Rightarrow> Inl TYPE_INVALID | Some m \<Rightarrow> Inr m)
     | _ \<Rightarrow> Inl TYPE_INVALID)"

text \<open>The label of a function, as in \<open>q @ f::l\<close> and in a wait.\<close>

definition find_label :: "scope_obj list \<Rightarrow> expr \<Rightarrow> expr \<Rightarrow> type_error + func \<times> nat" where
  "find_label unit_scope l r =
     (case l of
        E_null \<Rightarrow> Inl Type_undefined
      | E_name fname _ _ \<Rightarrow>
          (case r of
             E_null \<Rightarrow> Inl Type_undefined
           | E_name label _ _ \<Rightarrow>
               (case scope_find_object [unit_scope] fname of
                  Some (SCOPE_OBJ_FUNC _ f) \<Rightarrow>
                    (case scope_find_wlab f label of
                       Some i \<Rightarrow> Inr (f, i)
                     | None \<Rightarrow> Inl TYPE_INVALID)
                | _ \<Rightarrow> Inl TYPE_INVALID)
           | _ \<Rightarrow> Inl TYPE_INVALID)
      | _ \<Rightarrow> Inl TYPE_INVALID)"

definition label_ref :: "scope_obj list \<Rightarrow> qtype \<Rightarrow> expr \<Rightarrow> type_error + bexp_ref" where
  "label_ref unit_scope lt r =
     bind_r (need (scalar lt \<and> type_is_quaint (ty_t lt))) (\<lambda>_.
     case r of
       E_null \<Rightarrow> Inl Type_undefined
     | E_name s _ _ \<Rightarrow>
         if lex_symbols_equal (sym ''start'') s then Inr (Wlab_ref Wf_start 0)
         else if lex_symbols_equal (sym ''end'') s then Inr (Wlab_ref Wf_end 0)
         else Inl TYPE_INVALID
     | E_bexp op l r _ _ \<Rightarrow>
         if op = LEX_TK_SCOP then
           bind_r (find_label unit_scope l r) (\<lambda>(f, i). Inr (Wlab_ref (Wf_func f) i))
         else Inl TYPE_INVALID
     | _ \<Rightarrow> Inl TYPE_INVALID)"

text \<open>
  The names of a chain \<open>a::b::c\<close>, counted; a null pointer at its end stops the count, one
  before it is followed.
\<close>

fun count_scoped :: "expr \<Rightarrow> type_error + nat" where
  "count_scoped (E_bexp op l r ref t) =
     (if op = LEX_TK_SCOP then
        (case l of
           E_name _ _ _ \<Rightarrow> (if r = E_null then Inr 1 else bind_r (count_scoped r) (\<lambda>n. Inr (Suc n)))
         | E_null \<Rightarrow> Inl Type_undefined
         | _ \<Rightarrow> Inl TYPE_INVALID)
      else Inl TYPE_INVALID)"
| "count_scoped (E_name _ _ _) = Inr 1"
| "count_scoped E_null = Inl Type_undefined"
| "count_scoped _ = Inl TYPE_INVALID"

text \<open>
  A right side that is no name passes the counting only as \<open>b::\<close> without its second name,
  which the tree builder has rejected. The code compares the first token of it; here that
  is \<open>Type_undefined\<close>.
\<close>

definition scoped_name :: "tenv \<Rightarrow> expr \<Rightarrow> type_error + qtype" where
  "scoped_name env e =
     bind_r (count_scoped e) (\<lambda>n.
     bind_r (need (n \<le> 2)) (\<lambda>_.
     case e of
       E_bexp _ (E_name first _ _) r _ _ \<Rightarrow>
         (case type_symtab_find (te_types env) first of
            Some (Ty_enum l vs t) \<Rightarrow>
              (case r of
                 E_name second _ _ \<Rightarrow>
                   bind_r (need (\<exists>(n, v) \<in> set vs. lex_symbols_equal n second)) (\<lambda>_. Inr (Ty_enum l vs t))
               | _ \<Rightarrow> Inl Type_undefined)
          | _ \<Rightarrow> Inl TYPE_INVALID)
     | _ \<Rightarrow> Inl Type_abort))"

definition with_count :: "u64 \<Rightarrow> qtype \<Rightarrow> qtype" where
  "with_count n = map_lay (\<lambda>l. l\<lparr>lay_count := n\<rparr>)"

subsection \<open>Expressions\<close>

text \<open>The types of literals are static objects, which \<^verbatim>\<open>type_check_ast\<close> quantifies once.\<close>

definition sized_prim :: "type_t \<Rightarrow> qtype" where
  "sized_prim t = map_lay (set_size (desc_size t) (desc_size t)) (prim t)"

definition nmbr_type :: "u64 \<Rightarrow> qtype" where
  "nmbr_type v =
     sized_prim (if v \<le> 0xFF then TYPE_U8 else if v \<le> 0xFFFF then TYPE_U16
                 else if v \<le> 0xFFFFFFFF then TYPE_U32 else TYPE_U64)"

definition strl_type :: qtype where
  "strl_type = map_lay (set_size (desc_size TYPE_PTR) (desc_size TYPE_PTR)) (Ty_ptr (lay 1) (prim TYPE_U8))"

text \<open>Making the type of a node: an object is allocated, filled, and quantified.\<close>

definition make_type :: "(nat \<Rightarrow> bool) \<Rightarrow> source \<Rightarrow> qtype chk" where
  "make_type mem_ok src =
     bind_c (alloc_c mem_ok) (\<lambda>_.
     case src of Copy t \<Rightarrow> copy_c mem_ok t | Fresh t \<Rightarrow> ret_c (prim t))"

definition finish_type :: "(nat \<Rightarrow> bool) \<Rightarrow> (qtype option \<Rightarrow> expr) \<Rightarrow> qtype \<Rightarrow> expr chk" where
  "finish_type mem_ok mk t = bind_c (quantify_c mem_ok t) (\<lambda>q. ret_c (mk (Some q)))"

definition the_type :: "expr \<Rightarrow> type_error + qtype" where
  "the_type e = (case type_of_expr e of Some t \<Rightarrow> Inr t | None \<Rightarrow> Inl Type_abort)"

definition untyped :: "bool \<Rightarrow> 'a chk \<Rightarrow> 'a chk" where
  "untyped c m = (if c then m else lift_c (Inl Type_abort))"

text \<open>\<open>check_expr\<close> is \<^verbatim>\<open>type_from_expr\<close> with its cases; \<open>check_args\<close> the loop over arguments.\<close>

fun check_expr :: "tenv \<Rightarrow> scopes \<Rightarrow> expr \<Rightarrow> expr chk"
  and check_args :: "tenv \<Rightarrow> scopes \<Rightarrow> (lex_symbol \<times> qtype) list \<Rightarrow> expr \<Rightarrow> expr chk"
where
  "check_expr env sc (E_bexp op l r ref t) k =
     untyped (t = None) (
     if op = LEX_TK_SCOP then
       bind_c (lift_c (scoped_name env (E_bexp op l r ref t))) (\<lambda>t.
       bind_c (make_type (te_mem env) (Copy t)) (\<lambda>c.
       finish_type (te_mem env) (E_bexp op l r ref) (with_count 1 c)))
     else if op = LEX_TK_ATSI then
       bind_c (check_expr env sc l) (\<lambda>l.
       bind_c (lift_c (the_type l)) (\<lambda>lt.
       bind_c (lift_c (label_ref (te_unit env) lt r)) (\<lambda>ref.
       bind_c (make_type (te_mem env) (Fresh TYPE_U8)) (finish_type (te_mem env) (E_bexp op l r ref)))))
     else if op \<in> {LEX_TK_MEMB, LEX_TK_AROW} then
       bind_c (check_expr env sc l) (\<lambda>l.
       bind_c (lift_c (the_type l)) (\<lambda>lt.
       bind_c (lift_c (member_source op lt r)) (\<lambda>(i, t).
       bind_c (make_type (te_mem env) (Copy t)) (finish_type (te_mem env) (E_bexp op l r (Member_idx i))))))
     else
       bind_c (both_c (check_expr env sc l) (check_expr env sc r)) (\<lambda>(l, r).
       bind_c (lift_c (the_type l)) (\<lambda>lt.
       bind_c (lift_c (the_type r)) (\<lambda>rt.
       bind_c (lift_c (bexp_source op l lt rt)) (\<lambda>src.
       bind_c (make_type (te_mem env) src) (finish_type (te_mem env) (E_bexp op l r ref))))))) k"
| "check_expr env sc (E_cast op l cast t) k =
     untyped (t = None \<and> op \<in> {LEX_TK_CAST, LEX_TK_COLN}) (
     bind_c (check_expr env sc l) (\<lambda>l.
     bind_c (lift_c (the_type l)) (\<lambda>lt.
     case cast of
       None \<Rightarrow> lift_c (Inl TYPE_INVALID)
     | Some ct \<Rightarrow>
         bind_c (lift_c (need (ty_t lt \<noteq> TYPE_VOID))) (\<lambda>_.
         bind_c (make_type (te_mem env) (Copy ct)) (finish_type (te_mem env) (E_cast op l cast)))))) k"
| "check_expr env sc (E_uexp op r t) k =
     untyped (t = None) (
     bind_c (alloc_c (te_mem env)) (\<lambda>_.
     bind_c (check_expr env sc r) (\<lambda>r.
     bind_c (lift_c (the_type r)) (\<lambda>rt.
     bind_c (copy_c (te_mem env) rt) (\<lambda>c.
     bind_c (lift_c (uexp_guard op r rt)) (\<lambda>_.
     bind_c (if op \<in> {LEX_TK_TILD, LEX_TK_AMPS} then alloc_c (te_mem env) else ret_c ()) (\<lambda>_.
     finish_type (te_mem env) (E_uexp op r) (uexp_adapt op c)))))))) k"
| "check_expr env sc (E_size op ts t) k =
     untyped (t = None \<and> op \<in> {LEX_TK_SZOF, LEX_TK_ALOF}) (
     bind_c (make_type (te_mem env) (Fresh TYPE_USIZE)) (finish_type (te_mem env) (E_size op ts))) k"
| "check_expr env sc (E_fexp l args n t) k =
     untyped (t = None \<and> n = 0) (
     bind_c (check_expr env sc l) (\<lambda>l.
     bind_c (lift_c (the_type l)) (\<lambda>lt.
     case lt of
       Ty_fptr ly ps ret \<Rightarrow>
         bind_c (lift_c (need (scalar lt))) (\<lambda>_.
         bind_c (case args of
                   None \<Rightarrow> lift_c (bind_r (need (ps = [])) (\<lambda>_. Inr None))
                 | Some a \<Rightarrow> bind_c (check_args env sc ps a) (\<lambda>a. ret_c (Some a))) (\<lambda>args.
         bind_c (alloc_c (te_mem env)) (\<lambda>_.
         bind_c (case ret of None \<Rightarrow> ret_c (Ty_prim TYPE_VOID (lay 0)) | Some rt \<Rightarrow> copy_c (te_mem env) rt)
           (finish_type (te_mem env) (E_fexp l args (length ps))))))
     | _ \<Rightarrow> lift_c (Inl TYPE_INVALID)))) k"
| "check_expr env sc (E_xexp op l t) k =
     untyped (t = None) (
     bind_c (check_expr env sc l) (\<lambda>l.
     bind_c (lift_c (the_type l)) (\<lambda>lt.
     bind_c (make_type (te_mem env) (Copy lt)) (\<lambda>c.
     bind_c (lift_c (xexp_guard op l lt)) (\<lambda>_.
     finish_type (te_mem env) (E_xexp op l) c))))) k"
| "check_expr env sc (E_aexp b off t) k =
     untyped (t = None) (
     bind_c (both_c (check_expr env sc b) (check_expr env sc off)) (\<lambda>(b, off).
     bind_c (lift_c (the_type b)) (\<lambda>bt.
     bind_c (lift_c (the_type off)) (\<lambda>ot.
     bind_c (lift_c (need (\<not> scalar bt \<and> type_is_integral (ty_t ot) \<and> \<not> type_is_signed (ty_t ot)))) (\<lambda>_.
     bind_c (make_type (te_mem env) (Copy bt)) (\<lambda>c.
     finish_type (te_mem env) (E_aexp b off) (with_count 1 c))))))) k"
| "check_expr env sc (E_texp c x y t) k =
     untyped (t = None) (
     bind_c (both_c (check_expr env sc c) (both_c (check_expr env sc x) (check_expr env sc y))) (\<lambda>(c, x, y).
     bind_c (lift_c (the_type c)) (\<lambda>ct.
     bind_c (lift_c (the_type x)) (\<lambda>xt.
     bind_c (lift_c (the_type y)) (\<lambda>yt.
     bind_c (lift_c (need ((integral_or_ptr (ty_t ct) \<or> type_is_quaint (ty_t ct)) \<and> type_equals xt yt))) (\<lambda>_.
     bind_c (make_type (te_mem env) (Copy xt)) (finish_type (te_mem env) (E_texp c x y)))))))) k"
| "check_expr env sc (E_name s ob t) k =
     untyped (t = None) (
     case scope_find_object sc s of
       None \<Rightarrow> lift_c (Inl TYPE_INVALID)
     | Some found \<Rightarrow>
         bind_c (alloc_c (te_mem env)) (\<lambda>_.
         bind_c (lift_c (name_type found)) (\<lambda>nt.
         bind_c (copy_c (te_mem env) nt) (finish_type (te_mem env) (E_name s (Some found)))))) k"
| "check_expr env sc (E_nmbr v t) k = untyped (t = None) (ret_c (E_nmbr v (Some (nmbr_type v)))) k"
| "check_expr env sc (E_strl s t) k = untyped (t = None) (ret_c (E_strl s (Some strl_type))) k"
| "check_expr env sc E_null k = (Inl TYPE_INVALID, k)"
| "check_expr env sc E_void k = (Inl TYPE_INVALID, k)"
| "check_args env sc ps a k =
     (case ps of
        [] \<Rightarrow> lift_c (Inl TYPE_INVALID)
      | (n, p) # ps \<Rightarrow>
          (case a of
             E_bexp op x rest ref t \<Rightarrow>
               if op = LEX_TK_COMA then
                 bind_c (check_expr env sc x) (\<lambda>x.
                 bind_c (lift_c (the_type x)) (\<lambda>xt.
                 bind_c (lift_c (need (type_equals xt p))) (\<lambda>_.
                 if rest = E_null then lift_c (bind_r (need (ps = [])) (\<lambda>_. Inr (E_bexp op x rest ref t)))
                 else bind_c (check_args env sc ps rest) (\<lambda>rest. ret_c (E_bexp op x rest ref t)))))
               else
                 bind_c (check_expr env sc a) (\<lambda>x.
                 bind_c (lift_c (the_type x)) (\<lambda>xt.
                 bind_c (lift_c (need (type_equals xt p \<and> ps = []))) (\<lambda>_. ret_c x)))
           | _ \<Rightarrow>
               bind_c (check_expr env sc a) (\<lambda>x.
               bind_c (lift_c (the_type x)) (\<lambda>xt.
               bind_c (lift_c (need (type_equals xt p \<and> ps = []))) (\<lambda>_. ret_c x))))) k"

subsection \<open>Statements\<close>

text \<open>The statements of a block are all checked, whatever was found before.\<close>

fun each_c :: "('a \<Rightarrow> 'b chk) \<Rightarrow> 'a list \<Rightarrow> 'b list chk" where
  "each_c f [] = ret_c []"
| "each_c f (x # xs) = bind_c (both_c (f x) (each_c f xs)) (\<lambda>(y, ys). ret_c (y # ys))"

definition check_decl :: "tenv \<Rightarrow> scopes \<Rightarrow> decl \<Rightarrow> expr option \<Rightarrow> stmt chk" where
  "check_decl env sc d init =
     bind_c (both_c
       (case init of
          None \<Rightarrow> ret_c None
        | Some e \<Rightarrow>
            bind_c (check_expr env sc e) (\<lambda>e.
            bind_c (lift_c (the_type e)) (\<lambda>t.
            bind_c (lift_c (need (type_equals (d_type d) t))) (\<lambda>_. ret_c (Some e)))))
       (quantify_c (te_mem env) (d_type d))) (\<lambda>(init, t). ret_c (S_decl (d\<lparr>d_type := t\<rparr>) init))"

definition check_retn :: "tenv \<Rightarrow> scopes \<Rightarrow> func \<Rightarrow> expr option \<Rightarrow> stmt chk" where
  "check_retn env sc outer_func ex =
     (case (ex, f_rettype outer_func) of
        (Some e, Some rt) \<Rightarrow>
          bind_c (check_expr env sc e) (\<lambda>e.
          bind_c (lift_c (the_type e)) (\<lambda>t.
          bind_c (lift_c (need (type_equals rt t))) (\<lambda>_. ret_c (S_retn (Some e)))))
      | (Some e, None) \<Rightarrow> lift_c (Inl TYPE_INVALID)
      | (None, Some rt) \<Rightarrow> lift_c (Inl TYPE_INVALID)
      | (None, None) \<Rightarrow> ret_c (S_retn None))"

definition check_wait :: "tenv \<Rightarrow> scopes \<Rightarrow> expr \<Rightarrow> expr option \<Rightarrow> expr option \<Rightarrow> bool \<Rightarrow> bool \<Rightarrow>
    func option \<Rightarrow> nat \<Rightarrow> stmt chk" where
  "check_wait env sc wquaint wfor wunt noblock units fn idx =
     bind_c (both_c
       (bind_c (check_expr env sc wquaint) (\<lambda>q.
        bind_c (lift_c (the_type q)) (\<lambda>t.
        bind_c (lift_c (need (ty_t t = TYPE_QUAINT))) (\<lambda>_. ret_c q))))
       (case wfor of
          Some e \<Rightarrow>
            bind_c (check_expr env sc e) (\<lambda>e.
            bind_c (lift_c (the_type e)) (\<lambda>t.
            bind_c (lift_c (need (scalar t \<and> type_is_integral (ty_t t) \<and> \<not> type_is_signed (ty_t t)))) (\<lambda>_.
            ret_c (Some e, fn, idx))))
        | None \<Rightarrow>
            (case wunt of
               None \<Rightarrow> ret_c (None, fn, idx)
             | Some (E_bexp op l r ref t) \<Rightarrow>
                 if op = LEX_TK_SCOP then
                   bind_c (lift_c (find_label (te_unit env) l r)) (\<lambda>(f, i). ret_c (None, Some f, i))
                 else lift_c (Inl TYPE_INVALID)
             | Some _ \<Rightarrow> lift_c (Inl TYPE_INVALID)))) (\<lambda>(q, wfor, fn, idx).
     ret_c (S_wait q wfor wunt noblock units fn idx))"

definition identify_wlab :: "func \<Rightarrow> lex_symbol \<Rightarrow> u64 \<Rightarrow> u64 \<Rightarrow> type_error + stmt" where
  "identify_wlab f name wfunc wid =
     (if wfunc \<noteq> 0 \<or> wid \<noteq> 0 then Inl Type_abort
      else case scope_find_wlab f name of
        None \<Rightarrow> Inl Type_abort
      | Some i \<Rightarrow>
          if f_addr f \<noteq> 0 \<and> snd (f_wlabs f ! i) \<noteq> 0
          then Inr (S_wlab name (f_addr f) (snd (f_wlabs f ! i)))
          else Inl Type_abort)"

text \<open>
  \<open>check_stmt\<close> is one turn of the loop of \<^verbatim>\<open>check_block\<close>, with \<^verbatim>\<open>check_cond\<close> and \<^verbatim>\<open>check_blok\<close>;
  \<open>check_block\<close> is called on the blocks of conditions and loops.
\<close>

function (sequential) check_stmt :: "tenv \<Rightarrow> scopes \<Rightarrow> func \<Rightarrow> stmt \<Rightarrow> stmt chk"
  and check_block :: "tenv \<Rightarrow> scopes \<Rightarrow> func \<Rightarrow> stmt \<Rightarrow> stmt chk"
  and check_stmts :: "tenv \<Rightarrow> scopes \<Rightarrow> func \<Rightarrow> stmt list \<Rightarrow> stmt list chk"
  and check_elifs :: "tenv \<Rightarrow> scopes \<Rightarrow> func \<Rightarrow> (expr \<times> stmt) list \<Rightarrow> (expr \<times> stmt) list chk"
where
  "check_stmt env sc f S_skip k = ret_c S_skip k"
| "check_stmt env sc f (S_func g gsc ss) k = ret_c (S_func g gsc ss) k"
| "check_stmt env sc f (S_decl d init) k = check_decl env sc d init k"
| "check_stmt env sc f (S_cond e s elifs els) k =
     bind_c (both_c (check_expr env sc e) (both_c (check_block env sc f s) (both_c (check_elifs env sc f elifs)
       (case els of None \<Rightarrow> ret_c None | Some t \<Rightarrow> bind_c (check_block env sc f t) (\<lambda>t. ret_c (Some t))))))
     (\<lambda>(e, s, elifs, els). ret_c (S_cond e s elifs els)) k"
| "check_stmt env sc f (S_blok noin bsc ss) k = check_block env sc f (S_blok noin bsc ss) k"
| "check_stmt env sc f (S_whil e bsc ss) k =
     bind_c (both_c (check_expr env sc e) (check_stmts env (bsc # sc) f ss)) (\<lambda>(e, ss). ret_c (S_whil e bsc ss)) k"
| "check_stmt env sc f (S_dowh e bsc ss) k =
     bind_c (both_c (check_stmts env (bsc # sc) f ss) (check_expr env sc e)) (\<lambda>(ss, e). ret_c (S_dowh e bsc ss)) k"
| "check_stmt env sc f (S_retn ex) k = check_retn env sc f ex k"
| "check_stmt env sc f (S_wait q wfor wunt nb units fn idx) k = check_wait env sc q wfor wunt nb units fn idx k"
| "check_stmt env sc f (S_wlab name wfunc wid) k = lift_c (identify_wlab f name wfunc wid) k"
| "check_stmt env sc f (S_expr e) k = bind_c (check_expr env sc e) (\<lambda>e. ret_c (S_expr e)) k"
| "check_block env sc f (S_blok noin bsc ss) k =
     bind_c (check_stmts env (bsc # sc) f ss) (\<lambda>ss. ret_c (S_blok noin bsc ss)) k"
| "check_block env sc f s k = lift_c (Inl Type_abort) k"
| "check_stmts env sc f [] k = ret_c [] k"
| "check_stmts env sc f (s # ss) k =
     bind_c (both_c (check_stmt env sc f s) (check_stmts env sc f ss)) (\<lambda>(s, ss). ret_c (s # ss)) k"
| "check_elifs env sc f [] k = ret_c [] k"
| "check_elifs env sc f ((e, s) # es) k =
     bind_c (both_c (check_expr env sc e) (both_c (check_block env sc f s) (check_elifs env sc f es)))
     (\<lambda>(e, s, es). ret_c ((e, s) # es)) k"
  by pat_completeness auto

termination
  by (relation "measure (\<lambda>x. case x of
      Inl (Inl (env, sc, f, s, k)) \<Rightarrow> Suc (2 * size s)
    | Inl (Inr (env, sc, f, s, k)) \<Rightarrow> 2 * size s
    | Inr (Inl (env, sc, f, ss, k)) \<Rightarrow> 2 * size_list size ss
    | Inr (Inr (env, sc, f, es, k)) \<Rightarrow> 2 * size_list (size_prod (\<lambda>_. 0) size) es)") auto

definition check_param :: "tenv \<Rightarrow> lex_symbol \<times> qtype \<Rightarrow> (lex_symbol \<times> qtype) chk" where
  "check_param env p = bind_c (quantify_c (te_mem env) (snd p)) (\<lambda>t. ret_c (fst p, t))"

definition check_func :: "tenv \<Rightarrow> func \<Rightarrow> scope_obj list \<Rightarrow> stmt list \<Rightarrow> stmt chk" where
  "check_func env f sc ss =
     bind_c (both_c (each_c (check_param env) (f_params f)) (check_stmts env [sc, te_unit env] f ss)) (\<lambda>(ps, ss).
     ret_c (S_func (f\<lparr>f_params := ps\<rparr>) sc ss))"

definition check_unit_stmt :: "tenv \<Rightarrow> stmt \<Rightarrow> stmt chk" where
  "check_unit_stmt env s =
     (case s of
        S_decl d init \<Rightarrow> check_decl env [te_unit env] d init
      | S_func f sc ss \<Rightarrow> check_func env f sc ss
      | S_expr _ \<Rightarrow> lift_c (Inl TYPE_INVALID)
      | _ \<Rightarrow> ret_c s)"

definition type_check_ast :: "tenv \<Rightarrow> stmt list \<Rightarrow> type_error + stmt list" where
  "type_check_ast env ss = fst (each_c (check_unit_stmt env) ss 0)"

end
