(* ===== verification/Type_Laws.thy ===== *)
theory Type_Laws
  imports Types
begin

text \<open>
  What the operations on types guarantee: the table of kinds, the table of named types,
  that equality is sameness of shape and copies are equal, that sizes can always be
  computed, and the layout of structs and unions.
\<close>

subsection \<open>Kinds and names\<close>

lemma type_t_all: "(\<forall>t. P t) \<longleftrightarrow> (\<forall>t \<in> set type_ts. P t)"
proof -
  have "t \<in> set type_ts" for t by (cases t; simp add: type_ts_def)
  then show ?thesis by blast
qed

lemma type_match_cases:
  "type_match w = t \<Longrightarrow> t \<noteq> TYPE_VOID \<Longrightarrow>
     w = td_name (typedescs ! (type_code t - 1)) \<or> w = td_alias (typedescs ! (type_code t - 1))"
  by (auto simp: type_match_def find_Some_iff Let_def split: option.splits)

lemma type_match_name: "t \<noteq> TYPE_VOID \<Longrightarrow> type_match (td_name (typedescs ! (type_code t - 1))) = t"
  by (cases t; simp add: type_match_def type_ts_def typedescs_def)

lemma type_match_alias:
  "t \<noteq> TYPE_VOID \<Longrightarrow> td_alias (typedescs ! (type_code t - 1)) \<noteq> [] \<Longrightarrow>
     type_match (td_alias (typedescs ! (type_code t - 1))) = t"
  by (cases t; simp add: type_match_def type_ts_def typedescs_def)

lemma unsigned_then_signed:
  "type_is_integral t \<and> type_is_unsigned t \<and> t \<noteq> TYPE_ENUM \<longrightarrow>
     type_is_integral (type_succ t) \<and> type_is_signed (type_succ t) \<and> desc_size (type_succ t) = desc_size t"
proof -
  have "\<forall>t \<in> set type_ts. type_is_integral t \<and> type_is_unsigned t \<and> t \<noteq> TYPE_ENUM \<longrightarrow>
     type_is_integral (type_succ t) \<and> type_is_signed (type_succ t) \<and> desc_size (type_succ t) = desc_size t"
    by code_simp
  then show ?thesis using type_t_all [of "\<lambda>t. type_is_integral t \<and> type_is_unsigned t \<and> t \<noteq> TYPE_ENUM \<longrightarrow>
     type_is_integral (type_succ t) \<and> type_is_signed (type_succ t) \<and> desc_size (type_succ t) = desc_size t"]
    by blast
qed

lemma type_match_empty: "type_match [] = TYPE_USIZE"
  by (simp add: type_match_def type_ts_def typedescs_def)

text \<open>
  The names of types: a nonempty word stands for the kind \<open>t\<close> exactly when it is the name
  or the alias of \<open>t\<close> in the table, so no two kinds share a name; and the predicates on
  kinds agree with the table: every integer kind but the enumerations is unsigned or
  signed in turn, and the signed one after an unsigned one has the same size.
\<close>

theorem type_match_names:
  assumes "w \<noteq> []" and "t \<noteq> TYPE_VOID"
  shows "(type_match w = t \<longleftrightarrow>
      w = td_name (typedescs ! (type_code t - 1)) \<or> w = td_alias (typedescs ! (type_code t - 1))) \<and>
    (type_is_integral t \<and> type_is_unsigned t \<and> t \<noteq> TYPE_ENUM \<longrightarrow>
      type_is_integral (type_succ t) \<and> type_is_signed (type_succ t) \<and> desc_size (type_succ t) = desc_size t)"
proof
  show "type_match w = t \<longleftrightarrow>
      w = td_name (typedescs ! (type_code t - 1)) \<or> w = td_alias (typedescs ! (type_code t - 1))"
    using assms type_match_cases type_match_name type_match_alias by metis
  show "type_is_integral t \<and> type_is_unsigned t \<and> t \<noteq> TYPE_ENUM \<longrightarrow>
      type_is_integral (type_succ t) \<and> type_is_signed (type_succ t) \<and> desc_size (type_succ t) = desc_size t"
    using unsigned_then_signed by blast
qed

theorem type_match_names_witness:
  "type_match ''u16'' = TYPE_U16 \<and> type_match ''ushort'' = TYPE_U16 \<and> type_is_signed (type_succ TYPE_U16)"
  using type_match_names [of "''u16''" TYPE_U16] type_match_names [of "''ushort''" TYPE_U16]
  by (simp add: typedescs_def, code_simp)

subsection \<open>The table of named types\<close>

lemma symbols_equal_iff: "lex_symbols_equal a b \<longleftrightarrow> sym_text a = sym_text b"
  by (auto simp: lex_symbols_equal_def)

lemma find_append: "find P (xs @ ys) = (case find P xs of None \<Rightarrow> find P ys | Some x \<Rightarrow> Some x)"
  by (induction xs) auto

lemma type_symtab_find_text: "sym_text a = sym_text b \<Longrightarrow> type_symtab_find st a = type_symtab_find st b"
  by (simp add: type_symtab_find_def symbols_equal_iff)

text \<open>
  C36. Inserting a named type: a new name is then found with its type and every other name as
  before; a name that is in the table leaves it as it was, so the first declaration stays;
  and when there is no memory the table is empty afterwards. Names are told apart by their
  text.
\<close>

theorem symtab_insert_find:
  assumes "type_symtab_insert mem_ok s t st = (r, st')"
  shows "(r = 0 \<longrightarrow> (\<forall>x. type_symtab_find st' x =
            (if sym_text x = sym_text s then Some t else type_symtab_find st x))) \<and>
    (r = 1 \<longrightarrow> st' = st) \<and> (r = -1 \<longrightarrow> (\<forall>x. type_symtab_find st' x = None)) \<and>
    (r = 1 \<longleftrightarrow> type_symtab_find st s \<noteq> None) \<and> r \<in> {0, 1, -1}"
proof (cases "type_symtab_find st s")
  case None
  then have "type_symtab_find st x = None" if "sym_text x = sym_text s" for x
    using type_symtab_find_text [OF that] by simp
  with None show ?thesis
    using assms
    by (auto simp: type_symtab_insert_def Let_def type_symtab_clear_def type_symtab_find_def
        find_append symbols_equal_iff split: if_splits option.splits)
next
  case (Some y)
  then show ?thesis using assms by (simp add: type_symtab_insert_def)
qed

theorem symtab_insert_find_witness:
  "type_symtab_find (snd (type_symtab_insert (\<lambda>_. True) \<lparr>sym_beg = 5, sym_text = ''t''\<rparr> (Ty_prim TYPE_U8 (lay 1))
     \<lparr>st_entries = [], st_allocated = 0\<rparr>)) \<lparr>sym_beg = 9, sym_text = ''t''\<rparr> = Some (Ty_prim TYPE_U8 (lay 1))"
  using symtab_insert_find [of "\<lambda>_. True" "\<lparr>sym_beg = 5, sym_text = ''t''\<rparr>" "Ty_prim TYPE_U8 (lay 1)"
      "\<lparr>st_entries = [], st_allocated = 0\<rparr>" 0 "\<lparr>st_entries = [(\<lparr>sym_beg = 5, sym_text = ''t''\<rparr>, Ty_prim TYPE_U8 (lay 1))],
      st_allocated = 8\<rparr>"]
  by (simp add: type_symtab_insert_def type_symtab_find_def)

subsection \<open>Equality and copies\<close>

text \<open>
  The shape of a type is what equality looks at: kinds, counts, the shapes of the parts in
  order, and the texts and values of enumeration constants.
\<close>

abbreviation no_name :: lex_symbol where
  "no_name \<equiv> \<lparr>sym_beg = 0, sym_text = []\<rparr>"

fun shape :: "qtype \<Rightarrow> qtype" and shapes :: "(lex_symbol \<times> qtype) list \<Rightarrow> (lex_symbol \<times> qtype) list" where
  "shape (Ty_prim t l) = Ty_prim t (lay (lay_count l))"
| "shape (Ty_ptr l s) = Ty_ptr (lay (lay_count l)) (shape s)"
| "shape (Ty_quaint l s) = Ty_quaint (lay (lay_count l)) (shape s)"
| "shape (Ty_struct l ms os) = Ty_struct (lay (lay_count l)) (shapes ms) []"
| "shape (Ty_union l ms os) = Ty_union (lay (lay_count l)) (shapes ms) []"
| "shape (Ty_fptr l ps None) = Ty_fptr (lay (lay_count l)) (shapes ps) None"
| "shape (Ty_fptr l ps (Some r)) = Ty_fptr (lay (lay_count l)) (shapes ps) (Some (shape r))"
| "shape (Ty_enum l vs t) = Ty_enum (lay (lay_count l))
     (map (\<lambda>(n, v). (\<lparr>sym_beg = 0, sym_text = sym_text n\<rparr>, v)) vs) t"
| "shapes [] = []"
| "shapes ((n, t) # ms) = (no_name, shape t) # shapes ms"

lemma shapes_Nil_iff [simp]: "shapes ms = [] \<longleftrightarrow> ms = []"
  by (cases ms rule: shapes.cases) auto

lemma Nil_shapes_iff [simp]: "[] = shapes ms \<longleftrightarrow> ms = []"
  by (metis shapes_Nil_iff)

lemma enum_values_shape:
  "list_all2 (\<lambda>(n, v) (n', v'). lex_symbols_equal n n' \<and> v = v') vs ws \<longleftrightarrow>
     map (\<lambda>(n, v). (\<lparr>sym_beg = 0, sym_text = sym_text n\<rparr> :: lex_symbol, v :: u64)) vs =
     map (\<lambda>(n, v). (\<lparr>sym_beg = 0, sym_text = sym_text n\<rparr>, v)) ws"
proof (induction vs arbitrary: ws)
  case (Cons v vs)
  then show ?case by (cases ws) (auto simp: symbols_equal_iff split: prod.splits)
qed simp

lemma shape_fptr:
  "shape (Ty_fptr l ps r) = Ty_fptr (lay (lay_count l)) (shapes ps) (map_option shape r)"
  by (cases r) simp_all

lemma type_equals_shape: "type_equals a b \<longleftrightarrow> shape a = shape b"
proof -
  have "(type_equals a b \<longleftrightarrow> shape a = shape b)"
    and "(members_equal ms ns \<longleftrightarrow> shapes ms = shapes ns)" for ms ns
  proof (induction a b and ms ns rule: type_equals_members_equal.induct)
    case (6 l ps r b)
    then show ?case
      by (cases b; cases r) (auto simp: shape_fptr split: option.splits)
  next
    case (7 l vs t b)
    then show ?case
      by (cases b) (auto simp: enum_values_shape shape_fptr dest: map_eq_imp_length_eq)
  next
    case (9 n t ms bs)
    then show ?case by (cases bs) auto
  qed (auto split: qtype.splits simp: shape_fptr)
  then show ?thesis by blast
qed

text \<open>
  C19. Two types are equal for the type checker exactly when they have the same shape. So
  equality is an equivalence relation; names of members and of parameters do not matter,
  array counts do, at every depth.
\<close>

theorem type_equals_iff_shape:
  "type_equals a b \<longleftrightarrow> shape a = shape b"
  by (rule type_equals_shape)

text \<open>A type whose size can be computed, whatever its layout fields hold; and fresh layout fields.\<close>

fun well_sized :: "qtype \<Rightarrow> bool" and well_sized_members :: "(lex_symbol \<times> qtype) list \<Rightarrow> bool" where
  "well_sized (Ty_prim t l) \<longleftrightarrow> t = TYPE_VOID \<or> desc_size t \<noteq> 0"
| "well_sized (Ty_struct l ms os) \<longleftrightarrow> ms \<noteq> [] \<and> well_sized_members ms"
| "well_sized (Ty_union l ms os) \<longleftrightarrow> ms \<noteq> [] \<and> well_sized_members ms"
| "well_sized (Ty_enum l vs t) \<longleftrightarrow> t \<noteq> TYPE_VOID \<and> desc_size t \<noteq> 0"
| "well_sized _ \<longleftrightarrow> True"
| "well_sized_members [] \<longleftrightarrow> True"
| "well_sized_members ((n, t) # ms) \<longleftrightarrow> ty_t t \<noteq> TYPE_VOID \<and> well_sized t \<and> well_sized_members ms"

abbreviation zero_lay :: "layout \<Rightarrow> bool" where
  "zero_lay l \<equiv> lay_size l = 0 \<and> lay_alignment l = 0"

fun unquantified :: "qtype \<Rightarrow> bool" and unquantified_members :: "(lex_symbol \<times> qtype) list \<Rightarrow> bool" where
  "unquantified (Ty_struct l ms os) \<longleftrightarrow> zero_lay l \<and> os = [] \<and> unquantified_members ms"
| "unquantified (Ty_union l ms os) \<longleftrightarrow> zero_lay l \<and> os = [] \<and> unquantified_members ms"
| "unquantified t \<longleftrightarrow> zero_lay (ty_lay t)"
| "unquantified_members [] \<longleftrightarrow> True"
| "unquantified_members ((n, t) # ms) \<longleftrightarrow> unquantified t \<and> unquantified_members ms"

lemma type_copy_Some:
  "type_copy mem_ok t k = Some (c, k') \<Longrightarrow>
     shape c = shape t \<and> unquantified c \<and> ty_t c = ty_t t \<and> (well_sized t \<longrightarrow> well_sized c)"
  "copy_members mem_ok ms k = Some (ms', k') \<Longrightarrow>
     shapes ms' = shapes ms \<and> unquantified_members ms' \<and> (well_sized_members ms \<longrightarrow> well_sized_members ms')"
proof (induction mem_ok t k and mem_ok ms k arbitrary: c k' and ms' k' rule: type_copy_copy_members.induct)
  case (10 mem_ok n t ms k)
  then show ?case by (fastforce split: bind_splits prod.splits)
qed (fastforce split: bind_splits prod.splits if_splits)+

lemma type_copy_mem:
  "\<exists>c k'. type_copy (\<lambda>_. True) t k = Some (c, k')"
  "\<exists>ms' k'. copy_members (\<lambda>_. True) ms k = Some (ms', k')"
proof (induction "\<lambda>_ :: nat. True" t k and "\<lambda>_ :: nat. True" ms k rule: type_copy_copy_members.induct)
qed (fastforce simp: type_alloc_def split: bind_splits)+

lemma desc_size_cases: "t \<noteq> TYPE_VOID \<Longrightarrow> desc_size t \<in> {0, 1, 2, 4, 8}"
  by (cases t; simp add: desc_size_def typedescs_def)

lemma max_mem: "a \<in> S \<Longrightarrow> b \<in> S \<Longrightarrow> max a b \<in> S"
  by (simp add: max_def)

lemma max_word_0 [simp]: "max a b = (0 :: u64) \<longleftrightarrow> a = 0 \<and> b = 0"
  by (auto simp: max_def)

abbreviation alignments :: "u64 set" where
  "alignments \<equiv> {1, 2, 4, 8}"

definition quantified_as :: "qtype \<Rightarrow> qtype \<Rightarrow> bool" where
  "quantified_as t q \<longleftrightarrow> shape q = shape t \<and> ty_t q = ty_t t \<and>
     (ty_t t \<noteq> TYPE_VOID \<longrightarrow> ty_alignment q \<in> alignments)"

definition aligned_members :: "(lex_symbol \<times> qtype) list \<Rightarrow> bool" where
  "aligned_members ms \<longleftrightarrow> (\<forall>(n, t) \<in> set ms. ty_alignment t \<in> alignments)"

lemma aligned_members_simps [simp]:
  "aligned_members []"
  "aligned_members ((n, t) # ms) \<longleftrightarrow> ty_alignment t \<in> alignments \<and> aligned_members ms"
  by (auto simp: aligned_members_def)

definition only_nomem :: "(nat \<Rightarrow> bool) \<Rightarrow> type_error + 'a \<Rightarrow> ('a \<Rightarrow> bool) \<Rightarrow> bool" where
  "only_nomem mem_ok r P \<longleftrightarrow>
     (case r of Inl e \<Rightarrow> e = TYPE_NOMEM \<and> (\<exists>j. \<not> mem_ok j) | Inr x \<Rightarrow> P x)"

lemma only_nomem_bind:
  "only_nomem ok r P \<Longrightarrow> (\<And>x. P x \<Longrightarrow> only_nomem ok (f x) Q) \<Longrightarrow> only_nomem ok (bind_r r f) Q"
  by (cases r) (auto simp: only_nomem_def)

lemma only_nomem_Inr [simp]: "only_nomem ok (Inr x) P \<longleftrightarrow> P x"
  by (simp add: only_nomem_def)

lemma sized_by_ok:
  "desc_size s \<noteq> 0 \<Longrightarrow> s \<noteq> TYPE_VOID \<Longrightarrow> shape (map_lay (set_size (desc_size s) (desc_size s)) t) = shape t \<Longrightarrow>
     only_nomem ok (sized_by s t k) (\<lambda>(q, k). quantified_as t q)"
  using desc_size_cases [of s]
  by (cases t) (auto simp: sized_by_def quantified_as_def set_size_def)

lemma type_quantify_ok:
  "well_sized t \<Longrightarrow> unquantified t \<Longrightarrow>
     only_nomem ok (type_quantify ok t k) (\<lambda>(q, k). quantified_as t q)"
  "well_sized_members ms \<Longrightarrow> unquantified_members ms \<Longrightarrow> gr \<in> insert 0 alignments \<Longrightarrow>
     only_nomem ok (struct_members ok ms cur gr k) (\<lambda>(ms', os, cur', gr', k).
       shapes ms' = shapes ms \<and> aligned_members ms' \<and> gr' \<in> insert 0 alignments \<and> (ms = [] \<and> gr = 0 \<longleftrightarrow> gr' = 0))"
  "well_sized_members us \<Longrightarrow> unquantified_members us \<Longrightarrow> gr \<in> insert 0 alignments \<Longrightarrow>
     only_nomem ok (union_members ok us gs gr k) (\<lambda>(us', gs', gr', k).
       shapes us' = shapes us \<and> aligned_members us' \<and> gr' \<in> insert 0 alignments \<and> (us = [] \<and> gr = 0 \<longleftrightarrow> gr' = 0))"
proof (induction ok t k and ok ms cur gr k and ok us gs gr k
    rule: type_quantify_struct_members_union_members.induct)
  case (1 ok t l k)
  then show ?case by (cases "t = TYPE_VOID") (auto simp: unsized_def set_size_def quantified_as_def [of _ "Ty_prim TYPE_VOID l"] intro!: sized_by_ok)
next
  case (6 ok l ms os k)
  show ?case
  proof (cases "ok k")
    case True
    with 6 have m: "only_nomem ok (struct_members ok ms 0 0 (Suc k)) (\<lambda>(ms', os, cur', gr', k).
        shapes ms' = shapes ms \<and> aligned_members ms' \<and> gr' \<in> insert 0 alignments \<and> (ms = [] \<longleftrightarrow> gr' = 0))"
      by simp
    show ?thesis
      using 6 True
      by (simp add: unsized_def) (rule only_nomem_bind [OF m], auto simp: quantified_as_def set_size_def)
  qed (use 6 in \<open>auto simp: unsized_def only_nomem_def\<close>)
next
  case (7 ok l ms os k)
  show ?case
  proof (cases "ok k")
    case True
    with 7 have m: "only_nomem ok (union_members ok ms 0 0 (Suc k)) (\<lambda>(ms', gs', gr', k).
        shapes ms' = shapes ms \<and> aligned_members ms' \<and> gr' \<in> insert 0 alignments \<and> (ms = [] \<longleftrightarrow> gr' = 0))"
      by simp
    show ?thesis
      using 7 True
      by (simp add: unsized_def) (rule only_nomem_bind [OF m], auto simp: quantified_as_def set_size_def)
  qed (use 7 in \<open>auto simp: unsized_def only_nomem_def\<close>)
next
  case (9 ok n t ms cur gr k)
  have q: "only_nomem ok (type_quantify ok t k) (\<lambda>(q, k). quantified_as t q)"
    using 9 by simp
  show ?case
  proof (cases "type_quantify ok t k")
    case (Inr x)
    obtain q k' where x: "x = (q, k')" by fastforce
    have al: "shape q = shape t" "ty_alignment q \<in> alignments" "ty_alignment q \<noteq> 0"
      using q Inr x 9 by (auto simp: quantified_as_def)
    have "max gr (ty_alignment q) \<in> insert 0 alignments"
      using al(2) 9(5) by (intro max_mem) auto
    from "9.IH"(2) [OF Inr x [symmetric] al(3) refl _ _ this]
    have m: "only_nomem ok (struct_members ok ms (align_up cur (ty_alignment q) + ty_size q * ty_count q)
        (max gr (ty_alignment q)) k') (\<lambda>(ms', os, cur', gr', k).
        shapes ms' = shapes ms \<and> aligned_members ms' \<and> gr' \<in> insert 0 alignments \<and> gr' \<noteq> 0)"
      using 9 al(3) by simp
    show ?thesis
      using al Inr x by (simp add: Let_def) (rule only_nomem_bind [OF m], auto)
  qed (use q in \<open>simp add: only_nomem_def\<close>)
next
  case (11 ok n t ms gs gr k)
  have q: "only_nomem ok (type_quantify ok t k) (\<lambda>(q, k). quantified_as t q)"
    using 11 by simp
  show ?case
  proof (cases "type_quantify ok t k")
    case (Inr x)
    obtain q k' where x: "x = (q, k')" by fastforce
    have al: "shape q = shape t" "ty_alignment q \<in> alignments" "ty_alignment q \<noteq> 0"
      using q Inr x 11 by (auto simp: quantified_as_def)
    have "max gr (ty_alignment q) \<in> insert 0 alignments"
      using al(2) 11(5) by (intro max_mem) auto
    from "11.IH"(2) [OF Inr x [symmetric] _ _ this]
    have m: "only_nomem ok (union_members ok ms (max gs (ty_size q * ty_count q))
        (max gr (ty_alignment q)) k') (\<lambda>(us', gs', gr', k).
        shapes us' = shapes ms \<and> aligned_members us' \<and> gr' \<in> insert 0 alignments \<and> gr' \<noteq> 0)"
      using 11 al(3) by simp
    show ?thesis
      using al Inr x by simp (rule only_nomem_bind [OF m], auto)
  qed (use q in \<open>simp add: only_nomem_def\<close>)
qed (auto simp: unsized_def set_size_def shape_fptr desc_size_def typedescs_def intro!: sized_by_ok)

text \<open>A type without its layout, at every depth: what a copy is.\<close>

fun strip :: "qtype \<Rightarrow> qtype" and strip_members :: "(lex_symbol \<times> qtype) list \<Rightarrow> (lex_symbol \<times> qtype) list" where
  "strip (Ty_prim t l) = Ty_prim t (lay (lay_count l))"
| "strip (Ty_ptr l s) = Ty_ptr (lay (lay_count l)) (strip s)"
| "strip (Ty_quaint l s) = Ty_quaint (lay (lay_count l)) (strip s)"
| "strip (Ty_struct l ms os) = Ty_struct (lay (lay_count l)) (strip_members ms) []"
| "strip (Ty_union l ms os) = Ty_union (lay (lay_count l)) (strip_members ms) []"
| "strip (Ty_fptr l ps None) = Ty_fptr (lay (lay_count l)) (strip_members ps) None"
| "strip (Ty_fptr l ps (Some r)) = Ty_fptr (lay (lay_count l)) (strip_members ps) (Some (strip r))"
| "strip (Ty_enum l vs t) = Ty_enum (lay (lay_count l)) vs t"
| "strip_members [] = []"
| "strip_members ((n, t) # ms) = (n, strip t) # strip_members ms"

lemma strip_fptr:
  "strip (Ty_fptr l ps r) = Ty_fptr (lay (lay_count l)) (strip_members ps) (map_option strip r)"
  by (cases r) simp_all

lemma type_copy_strip:
  "type_copy mem_ok t k = Some (c, k') \<Longrightarrow> c = strip t"
  "copy_members mem_ok ms k = Some (ms', k') \<Longrightarrow> ms' = strip_members ms"
proof (induction mem_ok t k and mem_ok ms k arbitrary: c k' and ms' k' rule: type_copy_copy_members.induct)
  case (10 mem_ok n t ms k)
  then show ?case by (fastforce split: bind_splits prod.splits)
qed (fastforce split: bind_splits prod.splits if_splits)+

text \<open>Quantifying changes nothing but the layout, and the layout does not depend on memory.\<close>

lemma quantify_strip:
  "type_quantify ok t k = Inr (q, j) \<Longrightarrow> strip q = strip t"
  "struct_members ok ms cur gr k = Inr (ms', os, cur', gr', j) \<Longrightarrow> strip_members ms' = strip_members ms"
  "union_members ok us gs gr k = Inr (us', gs', gr', j) \<Longrightarrow> strip_members us' = strip_members us"
  by (induction ok t k and ok ms cur gr k and ok us gs gr k arbitrary: q j and ms' os cur' gr' j and us' gs' gr' j
      rule: type_quantify_struct_members_union_members.induct)
    (fastforce simp: unsized_def sized_by_def set_size_def strip_fptr bind_simps Let_def split: if_splits)+

lemma quantify_all:
  "type_quantify ok t k = Inr (q, j) \<Longrightarrow> \<exists>j'. type_quantify (\<lambda>_. True) t k' = Inr (q, j')"
  "struct_members ok ms cur gr k = Inr (x, os, c, g, j) \<Longrightarrow>
    \<exists>j'. struct_members (\<lambda>_. True) ms cur gr k' = Inr (x, os, c, g, j')"
  "union_members ok us gs gr k = Inr (y, s, g, j) \<Longrightarrow>
    \<exists>j'. union_members (\<lambda>_. True) us gs gr k' = Inr (y, s, g, j')"
proof (induction ok t k and ok ms cur gr k and ok us gs gr k
    arbitrary: q j k' and x os c g j k' and y s g j k' rule: type_quantify_struct_members_union_members.induct)
  case (6 ok l ms os k)
  obtain x os' c g j0 where m: "struct_members ok ms 0 0 (Suc k) = Inr (x, os', c, g, j0)"
    and q: "q = Ty_struct (set_size (align_up c g) g l) x os'" and l: "zero_lay l" "ms \<noteq> []" "os = []" "ok k"
    using 6(2) by (auto simp: unsized_def bind_simps split: if_splits)
  obtain j' where "struct_members (\<lambda>_. True) ms 0 0 (Suc k') = Inr (x, os', c, g, j')"
    using 6(1) [OF _ _ m] l by blast
  then show ?case using q l by (simp add: unsized_def)
next
  case (7 ok l ms os k)
  obtain x c g j0 where m: "union_members ok ms 0 0 (Suc k) = Inr (x, c, g, j0)"
    and q: "q = Ty_union (set_size c g l) x (replicate (length ms) 0)" and l: "zero_lay l" "ms \<noteq> []" "os = []" "ok k"
    using 7(2) by (auto simp: unsized_def bind_simps split: if_splits)
  obtain j' where "union_members (\<lambda>_. True) ms 0 0 (Suc k') = Inr (x, c, g, j')"
    using 7(1) [OF _ _ m] l by blast
  then show ?case using q l by (simp add: unsized_def)
next
  case (9 ok n t ms cur gr k)
  obtain t' k1 where t: "type_quantify ok t k = Inr (t', k1)" "ty_alignment t' \<noteq> 0"
    using 9(3) by (auto simp: bind_simps split: if_splits)
  obtain x1 os1 where m: "struct_members ok ms (align_up cur (ty_alignment t') + ty_size t' * ty_count t')
      (max gr (ty_alignment t')) k1 = Inr (x1, os1, c, g, j)"
    and x: "x = (n, t') # x1" "os = align_up cur (ty_alignment t') # os1"
    using 9(3) t by (auto simp: bind_simps Let_def)
  obtain j1 where "type_quantify (\<lambda>_. True) t k' = Inr (t', j1)" using 9(1) [OF t(1)] by blast
  moreover obtain j2 where "struct_members (\<lambda>_. True) ms (align_up cur (ty_alignment t') + ty_size t' * ty_count t')
      (max gr (ty_alignment t')) j1 = Inr (x1, os1, c, g, j2)"
    using 9(2) [OF t(1) refl t(2) refl m] by blast
  ultimately show ?case using t(2) x by simp
next
  case (11 ok n t ms gs gr k)
  obtain t' k1 where t: "type_quantify ok t k = Inr (t', k1)" using 11(3) by (auto simp: bind_simps)
  obtain y1 where m: "union_members ok ms (max gs (ty_size t' * ty_count t')) (max gr (ty_alignment t')) k1 =
      Inr (y1, s, g, j)" and y: "y = (n, t') # y1"
    using 11(3) t by (auto simp: bind_simps)
  obtain j1 where "type_quantify (\<lambda>_. True) t k' = Inr (t', j1)" using 11(1) [OF t] by blast
  moreover obtain j2 where "union_members (\<lambda>_. True) ms (max gs (ty_size t' * ty_count t'))
      (max gr (ty_alignment t')) j1 = Inr (y1, s, g, j2)"
    using 11(2) [OF t refl m] by blast
  ultimately show ?case using y by simp
qed (auto simp: unsized_def sized_by_def split: if_splits)

lemma quantify_same:
  "type_quantify ok t k = Inr (q, j) \<Longrightarrow> type_quantify ok' t k' = Inr (q', j') \<Longrightarrow> q' = q"
  using quantify_all(1) [of ok t k q j 0] quantify_all(1) [of ok' t k' q' j' 0] by auto

text \<open>
  C37. A copy of a type has its kinds, names and counts at every depth and none of its
  layout, so it is equal to the type, and its size can be computed: neither the assertions
  of \<^verbatim>\<open>type_quantify\<close> nor an alignment of zero are met, and the only failure is that of memory.
  The result is still equal to the type and has an alignment of 1, 2, 4 or 8; and if the
  type had itself been quantified, from a type without a layout, the result is that very
  type, with the same sizes, alignments and offsets.
\<close>

theorem type_copy_quantify:
  assumes "well_sized t" and "type_copy mem_ok t k = Some (c, k')"
  shows "c = strip t \<and> type_equals t c \<and>
    (case type_quantify mem_ok c k' of
       Inl e \<Rightarrow> e = TYPE_NOMEM \<and> (\<exists>j. \<not> mem_ok j)
     | Inr (q, _) \<Rightarrow> type_equals t q \<and> (ty_t t \<noteq> TYPE_VOID \<longrightarrow> ty_alignment q \<in> {1, 2, 4, 8}) \<and>
         (\<forall>ok t0 k0 k1. strip t0 = t0 \<and> type_quantify ok t0 k0 = Inr (t, k1) \<longrightarrow> q = t)) \<and>
    (\<exists>c k'. type_copy (\<lambda>_. True) t k = Some (c, k'))"
proof -
  have c: "shape c = shape t" "unquantified c" "ty_t c = ty_t t" "well_sized c"
    using type_copy_Some(1) [OF assms(2)] assms(1) by auto
  have "only_nomem mem_ok (type_quantify mem_ok c k') (\<lambda>(q, k). quantified_as c q)"
    by (rule type_quantify_ok(1) [OF c(4,2)])
  moreover have "q = t"
    if "type_quantify mem_ok c k' = Inr (q, j)" "strip t0 = t0" "type_quantify ok t0 k0 = Inr (t, k1)"
    for q j ok t0 k0 k1
    using that quantify_strip(1) [OF that(3)] type_copy_strip(1) [OF assms(2)] quantify_same by metis
  ultimately show ?thesis
    using c type_copy_mem(1) [of t k] type_copy_strip(1) [OF assms(2)]
    by (cases "type_quantify mem_ok c k'") (auto simp: only_nomem_def quantified_as_def type_equals_shape)
qed

text \<open>A struct of a byte and a pointer to the same kind of struct's byte.\<close>

definition demo_struct :: qtype where
  "demo_struct = Ty_struct (lay 1)
     [(\<lparr>sym_beg = 1, sym_text = ''a''\<rparr>, Ty_prim TYPE_U8 (lay 1)),
      (\<lparr>sym_beg = 2, sym_text = ''b''\<rparr>, Ty_ptr (lay 3) (Ty_prim TYPE_U16 (lay 1)))] []"

definition demo_struct_sized :: "qtype \<times> nat" where
  "demo_struct_sized = (Ty_struct \<lparr>lay_count = 1, lay_size = 32, lay_alignment = 8\<rparr>
     [(\<lparr>sym_beg = 1, sym_text = ''a''\<rparr>, Ty_prim TYPE_U8 \<lparr>lay_count = 1, lay_size = 1, lay_alignment = 1\<rparr>),
      (\<lparr>sym_beg = 2, sym_text = ''b''\<rparr>, Ty_ptr \<lparr>lay_count = 3, lay_size = 8, lay_alignment = 8\<rparr>
        (Ty_prim TYPE_U16 (lay 1)))] [0, 8], 1)"

theorem type_copy_quantify_witness:
  "\<exists>k. type_quantify (\<lambda>_. True) (fst (the (type_copy (\<lambda>_. True) (fst demo_struct_sized) 0))) 4 =
    Inr (fst demo_struct_sized, k)"
proof -
  let ?t = "fst demo_struct_sized"
  have q: "type_quantify (\<lambda>_. True) demo_struct 0 = Inr (?t, 1)"
    and "case type_quantify (\<lambda>_. True) demo_struct 4 of Inr x \<Rightarrow> True | Inl e \<Rightarrow> False"
    by (simp_all add: demo_struct_def demo_struct_sized_def unsized_def sized_by_def set_size_def desc_size_def
        typedescs_def Let_def align_up_def)
  then obtain c k where c: "type_quantify (\<lambda>_. True) demo_struct 4 = Inr (c, k)" by (auto split: sum.splits)
  have copy: "type_copy (\<lambda>_. True) ?t 0 = Some (demo_struct, 4)"
    by (simp add: demo_struct_sized_def demo_struct_def type_alloc_def)
  have w: "well_sized ?t" by (simp add: demo_struct_sized_def desc_size_def typedescs_def)
  have "\<forall>ok t0 k0 k1. strip t0 = t0 \<and> type_quantify ok t0 k0 = Inr (?t, k1) \<longrightarrow> c = ?t"
    using type_copy_quantify [OF w copy, unfolded c] by simp
  moreover have "strip demo_struct = demo_struct" by (simp add: demo_struct_def)
  ultimately have "c = ?t" using q by blast
  then show ?thesis using copy c by simp
qed

subsection \<open>The layout of structs and unions\<close>

text \<open>The bytes a member takes, as a number.\<close>

definition extent :: "qtype \<Rightarrow> nat" where
  "extent t = unat (ty_size t) * unat (ty_count t)"

text \<open>Each member starts at the first aligned offset behind the one before.\<close>

fun laid_out :: "nat \<Rightarrow> (lex_symbol \<times> qtype) list \<Rightarrow> u64 list \<Rightarrow> nat \<Rightarrow> bool" where
  "laid_out cur [] [] fin \<longleftrightarrow> cur = fin"
| "laid_out cur ((n, t) # ms) (off # os) fin \<longleftrightarrow>
     cur \<le> unat off \<and> unat off < cur + unat (ty_alignment t) \<and> unat (ty_alignment t) dvd unat off \<and>
     laid_out (unat off + extent t) ms os fin"
| "laid_out cur _ _ fin \<longleftrightarrow> False"

lemma align_up_nat:
  assumes "a \<in> alignments" and "unat x + 8 \<le> 2 ^ 64"
  shows "unat x \<le> unat (align_up x a) \<and> unat (align_up x a) < unat x + unat a \<and>
    unat a dvd unat (align_up x a)"
proof (cases "x mod a = 0")
  case True
  then have "unat a dvd unat x"
    by (metis dvd_eq_mod_eq_0 unat_mod unat_0)
  then show ?thesis using True assms(1) by (auto simp: align_up_def)
next
  case False
  have a: "unat a \<in> {1, 2, 4, 8}" using assms(1) by auto
  let ?r = "unat x mod unat a"
  have r: "unat (x mod a) = ?r" "?r < unat a" "?r \<noteq> 0"
  proof -
    show eq: "unat (x mod a) = ?r" by (rule unat_mod)
    show "?r < unat a" using a by auto
    show "?r \<noteq> 0" using False eq by (metis unsigned_eq_0_iff)
  qed
  have "x mod a \<le> a" using r by (simp add: word_le_nat_alt)
  then have d: "unat (a - x mod a) = unat a - ?r" by (simp add: unat_sub r(1))
  have "unat x + (unat a - ?r) < 2 ^ 64" using a assms(2) r(3) by auto
  then have s: "unat (x + (a - x mod a)) = unat x + (unat a - ?r)"
    using d by (simp add: unat_word_ariths)
  have "unat x + (unat a - ?r) = unat a * (unat x div unat a) + unat a"
    using r(2) mult_div_mod_eq [of "unat a" "unat x"] by linarith
  then have "unat a dvd unat x + (unat a - ?r)" by simp
  then show ?thesis using False s r(2,3) by (simp add: align_up_def)
qed

lemma max_alignments: "a \<in> insert 0 alignments \<Longrightarrow> b \<in> alignments \<Longrightarrow> max a b \<in> alignments"
  by (auto simp: max_def)

lemma struct_members_layout:
  assumes "struct_members ok ms cur gr k = Inr (ms', os, cur', gr', k')"
    and "unat cur + (\<Sum>(n, t) \<leftarrow> ms'. extent t + 8) < 2 ^ 64"
    and "aligned_members ms'"
  shows "laid_out (unat cur) ms' os (unat cur') \<and> gr' = foldl max gr (map (ty_alignment \<circ> snd) ms')"
  using assms
proof (induction ms arbitrary: cur gr k ms' os)
  case (Cons m ms)
  obtain n t where m: "m = (n, t)" by fastforce
  obtain q k1 where q: "type_quantify ok t k = Inr (q, k1)" "ty_alignment q \<noteq> 0"
    using Cons.prems(1) m by (auto simp: bind_simps split: if_splits)
  let ?off = "align_up cur (ty_alignment q)"
  obtain ms1 os1 where r: "struct_members ok ms (?off + ty_size q * ty_count q) (max gr (ty_alignment q)) k1 =
      Inr (ms1, os1, cur', gr', k')" "ms' = (n, q) # ms1" "os = ?off # os1"
    using Cons.prems(1) m q by (auto simp: bind_simps Let_def)
  have sum: "unat cur + extent q + 8 + (\<Sum>(n, t) \<leftarrow> ms1. extent t + 8) < 2 ^ 64"
    and al: "ty_alignment q \<in> alignments" "aligned_members ms1"
    using Cons.prems(2,3) r(2) by auto
  have off: "unat cur \<le> unat ?off" "unat ?off < unat cur + unat (ty_alignment q)"
    "unat (ty_alignment q) dvd unat ?off"
    using align_up_nat [OF al(1), of cur] sum by auto
  have le8: "unat (ty_alignment q) \<le> 8" using al(1) by auto
  have "unat (ty_size q * ty_count q) = extent q"
    using sum by (simp add: extent_def unat_word_ariths)
  then have cur1: "unat (?off + ty_size q * ty_count q) = unat ?off + extent q"
    using sum off le8 by (simp add: unat_word_ariths)
  have "unat (?off + ty_size q * ty_count q) + (\<Sum>(n, t) \<leftarrow> ms1. extent t + 8) < 2 ^ 64"
    unfolding cur1 using sum off le8 by linarith
  from Cons.IH [OF r(1) this al(2)] show ?case
    using off cur1 r(2,3) by simp
qed (auto simp: extent_def)

lemma laid_out_mono: "laid_out cur ms os fin \<Longrightarrow> cur \<le> fin"
  by (induction cur ms os fin rule: laid_out.induct) auto

lemma laid_out_length: "laid_out cur ms os fin \<Longrightarrow> length os = length ms"
  by (induction cur ms os fin rule: laid_out.induct) auto

lemma laid_out_end:
  "laid_out cur ms os fin \<Longrightarrow> aligned_members ms \<Longrightarrow>
     fin \<le> cur + (\<Sum>(n, t) \<leftarrow> ms. extent t + 8)"
  by (induction cur ms os fin rule: laid_out.induct) fastforce+

lemma laid_out_nth:
  assumes "laid_out cur ms os fin" and "i < length ms"
  shows "unat (ty_alignment (snd (ms ! i))) dvd unat (os ! i) \<and> cur \<le> unat (os ! i) \<and>
    unat (os ! i) + extent (snd (ms ! i)) \<le> fin \<and>
    (\<forall>j < i. unat (os ! j) + extent (snd (ms ! j)) \<le> unat (os ! i))"
  using assms
proof (induction cur ms os fin arbitrary: i rule: laid_out.induct)
  case (2 cur n t ms off os fin)
  then have rest: "laid_out (unat off + extent t) ms os fin" by simp
  show ?case
  proof (cases i)
    case 0
    then show ?thesis using 2 laid_out_mono [OF rest] by simp
  next
    case (Suc i')
    with 2 have IH: "unat (ty_alignment (snd (ms ! i'))) dvd unat (os ! i') \<and> unat off + extent t \<le> unat (os ! i') \<and>
      unat (os ! i') + extent (snd (ms ! i')) \<le> fin \<and>
      (\<forall>j < i'. unat (os ! j) + extent (snd (ms ! j)) \<le> unat (os ! i'))"
      by simp
    have "unat ((off # os) ! j) + extent (snd (((n, t) # ms) ! j)) \<le> unat (os ! i')" if "j < Suc i'" for j
      using IH that by (cases j) auto
    moreover have "cur \<le> unat (os ! i')" using IH 2 by (auto intro: order_trans add_leD1)
    ultimately show ?thesis using IH Suc by auto
  qed
qed auto

lemma foldl_max_bounds:
  "(\<forall>a \<in> set as. a \<le> foldl max gr as) \<and> gr \<le> foldl max gr as \<and>
     (foldl max gr as = gr \<or> foldl max gr as \<in> set as)" for gr :: "'a :: linorder"
proof (induction as arbitrary: gr)
  case (Cons a as)
  have "a \<le> max gr a" "gr \<le> max gr a" by simp_all
  then show ?case using Cons [of "max gr a"] by (fastforce simp: max_def)
qed simp

lemma foldl_max_alignments:
  "as \<noteq> [] \<Longrightarrow> set as \<subseteq> alignments \<Longrightarrow> foldl max 0 as \<in> alignments"
  using foldl_max_bounds [of as 0] by (cases as) (auto simp: word_le_nat_alt)

lemma type_quantify_structD:
  assumes "type_quantify ok (Ty_struct l ms os0) k = Inr (q, k')"
    and "well_sized (Ty_struct l ms os0)" and "unquantified (Ty_struct l ms os0)"
  shows "\<exists>ms' os cur gr. q = Ty_struct (set_size (align_up cur gr) gr l) ms' os \<and> ms' \<noteq> [] \<and>
    struct_members ok ms 0 0 (Suc k) = Inr (ms', os, cur, gr, k') \<and> aligned_members ms'"
proof -
  have m: "only_nomem ok (struct_members ok ms 0 0 (Suc k)) (\<lambda>(ms', os, cur', gr', k).
      shapes ms' = shapes ms \<and> aligned_members ms' \<and> gr' \<in> insert 0 alignments \<and> (ms = [] \<longleftrightarrow> gr' = 0))"
    using type_quantify_ok(2) [of ms 0 ok 0 "Suc k"] assms(2,3) by simp
  obtain ms' os cur gr where r: "struct_members ok ms 0 0 (Suc k) = Inr (ms', os, cur, gr, k')"
    "q = Ty_struct (set_size (align_up cur gr) gr l) ms' os" "ms \<noteq> []"
    using assms(1) by (auto simp: unsized_def bind_simps split: if_splits)
  then have "shapes ms' = shapes ms" "aligned_members ms'" using m by (simp_all add: only_nomem_def)
  then show ?thesis using r by (metis shapes_Nil_iff)
qed

text \<open>
  C18. The layout of a struct, as long as its members and the padding fit into the address
  space: every member has an offset that is a multiple of its alignment, lies behind the
  members before it and within the size of the struct; the struct is aligned like its most
  aligned member, and its size is a multiple of that, so arrays of structs are aligned.
\<close>

theorem struct_layout:
  assumes "type_quantify mem_ok (Ty_struct l ms []) k = Inr (Ty_struct l' ms' os, k')"
    and "well_sized (Ty_struct l ms [])" and "unquantified (Ty_struct l ms [])"
    and "(\<Sum>(n, t) \<leftarrow> ms'. extent t + 8) + 8 \<le> 2 ^ 64"
  shows "length os = length ms' \<and>
    (\<forall>i < length ms'. unat (ty_alignment (snd (ms' ! i))) dvd unat (os ! i) \<and>
       unat (os ! i) + extent (snd (ms' ! i)) \<le> unat (lay_size l') \<and>
       ty_alignment (snd (ms' ! i)) \<le> lay_alignment l' \<and>
       (\<forall>j < i. unat (os ! j) + extent (snd (ms' ! j)) \<le> unat (os ! i))) \<and>
    lay_alignment l' \<in> (ty_alignment \<circ> snd) ` set ms' \<and>
    unat (lay_alignment l') dvd unat (lay_size l')"
proof -
  obtain cur gr where l': "l' = set_size (align_up cur gr) gr l" and ms': "ms' \<noteq> []" "aligned_members ms'"
    and m: "struct_members mem_ok ms 0 0 (Suc k) = Inr (ms', os, cur, gr, k')"
    using type_quantify_structD [OF assms(1-3)] by auto
  have *: "laid_out 0 ms' os (unat cur)" "gr = foldl max 0 (map (ty_alignment \<circ> snd) ms')"
    using struct_members_layout [OF m _ ms'(2)] assms(4) by auto
  let ?as = "map (ty_alignment \<circ> snd) ms'"
  have as: "?as \<noteq> []" "set ?as \<subseteq> alignments"
    using ms' by (auto simp: aligned_members_def split: prod.splits)
  have gr: "gr \<in> alignments" "gr \<in> set ?as" "\<forall>a \<in> set ?as. a \<le> gr"
    using foldl_max_alignments [OF as] foldl_max_bounds [of ?as 0] *(2) as by auto
  have "unat cur \<le> 0 + (\<Sum>(n, t) \<leftarrow> ms'. extent t + 8)"
    by (rule laid_out_end [OF *(1) ms'(2)])
  then have "unat cur + 8 \<le> 2 ^ 64" using assms(4) by linarith
  note size = align_up_nat [OF gr(1) this]
  have "unat (os ! i) + extent (snd (ms' ! i)) \<le> unat (lay_size l')" if "i < length ms'" for i
    using laid_out_nth [OF *(1) that] size l' by (simp add: set_size_def)
  moreover have "ty_alignment (snd (ms' ! i)) \<le> lay_alignment l'" if "i < length ms'" for i
    using gr(3) that l' by (simp add: set_size_def)
  ultimately show ?thesis
    using laid_out_nth [OF *(1)] laid_out_length [OF *(1)] gr(2) l' size
    by (simp add: set_size_def)
qed

theorem struct_layout_witness:
  "type_quantify (\<lambda>_. True) demo_struct 0 = Inr demo_struct_sized \<and> (8 :: nat) dvd 32"
proof
  show q: "type_quantify (\<lambda>_. True) demo_struct 0 = Inr demo_struct_sized"
    by (simp add: demo_struct_def demo_struct_sized_def unsized_def sized_by_def set_size_def desc_size_def
        typedescs_def Let_def align_up_def)
  have "well_sized demo_struct" "unquantified demo_struct"
    by (simp_all add: demo_struct_def desc_size_def typedescs_def)
  then show "(8 :: nat) dvd 32"
    using struct_layout [OF q [unfolded demo_struct_def demo_struct_sized_def]]
    by (simp add: demo_struct_def extent_def)
qed

lemma union_members_layout:
  assumes "union_members ok ms gs gr k = Inr (ms', gs', gr', k')"
    and "\<forall>(n, t) \<in> set ms'. extent t < 2 ^ 64"
  shows "unat gs' = foldl max (unat gs) (map (extent \<circ> snd) ms') \<and>
    gr' = foldl max gr (map (ty_alignment \<circ> snd) ms') \<and> length ms' = length ms"
  using assms
proof (induction ms arbitrary: gs gr k ms')
  case (Cons m ms)
  obtain n t where m: "m = (n, t)" by fastforce
  obtain q k1 ms1 where q: "type_quantify ok t k = Inr (q, k1)" "ms' = (n, q) # ms1"
    and r: "union_members ok ms (max gs (ty_size q * ty_count q)) (max gr (ty_alignment q)) k1 =
      Inr (ms1, gs', gr', k')"
    using Cons.prems(1) m by (auto simp: bind_simps)
  have "unat (ty_size q * ty_count q) = extent q"
    using Cons.prems(2) q(2) by (simp add: extent_def unat_word_ariths)
  then have "unat (max gs (ty_size q * ty_count q)) = max (unat gs) (extent q)"
    by (simp add: max_def word_le_nat_alt)
  with Cons.IH [OF r] Cons.prems(2) q(2) show ?case by simp
qed simp

lemma foldl_max_least:
  assumes "as \<noteq> []" and "\<forall>a \<in> set as. (z :: 'a :: linorder) \<le> a"
  shows "foldl max z as \<in> set as \<and> (\<forall>a \<in> set as. a \<le> foldl max z as)"
  using foldl_max_bounds [of as z] assms by (cases as) (fastforce simp: max_def)+

text \<open>
  C40. The layout of a union: all members start at offset 0, every one fits, the size is that
  of the biggest member and the alignment that of the most aligned one. The size is not
  rounded up to the alignment, as it is for a struct: the union of the witness, of a 32-bit
  integer and five bytes, has size 5 and alignment 4, so in an array of two the second one
  is not aligned.
\<close>

theorem union_layout:
  assumes "type_quantify mem_ok (Ty_union l ms []) k = Inr (Ty_union l' ms' os, k')"
    and "\<forall>(n, t) \<in> set ms'. extent t < 2 ^ 64"
  shows "os = replicate (length ms') 0 \<and>
    (\<forall>(n, t) \<in> set ms'. extent t \<le> unat (lay_size l') \<and> ty_alignment t \<le> lay_alignment l') \<and>
    unat (lay_size l') \<in> (extent \<circ> snd) ` set ms' \<and>
    lay_alignment l' \<in> (ty_alignment \<circ> snd) ` set ms'"
proof -
  obtain gs gr where l': "l' = set_size gs gr l" "os = replicate (length ms) 0" "ms \<noteq> []"
    and m: "union_members mem_ok ms 0 0 (Suc k) = Inr (ms', gs, gr, k')"
    using assms(1) by (auto simp: unsized_def bind_simps split: if_splits)
  note * = union_members_layout [OF m assms(2)]
  have "map (extent \<circ> snd) ms' \<noteq> []" "map (ty_alignment \<circ> snd) ms' \<noteq> []"
    using * l'(3) by (cases ms', auto)+
  from foldl_max_least [OF this(1), of 0] foldl_max_least [OF this(2), of 0] show ?thesis
    using * l'(1,2) by (auto simp: set_size_def)
qed

theorem union_layout_witness:
  "type_quantify (\<lambda>_. True) (Ty_union (lay 2)
      [(no_name, Ty_prim TYPE_U32 (lay 1)), (no_name, Ty_prim TYPE_U8 (lay 5))] []) 0 =
    Inr (Ty_union \<lparr>lay_count = 2, lay_size = 5, lay_alignment = 4\<rparr>
      [(no_name, Ty_prim TYPE_U32 \<lparr>lay_count = 1, lay_size = 4, lay_alignment = 4\<rparr>),
       (no_name, Ty_prim TYPE_U8 \<lparr>lay_count = 5, lay_size = 1, lay_alignment = 1\<rparr>)] [0, 0], 1) \<and>
   (4 :: nat) \<le> unat (5 :: u64)"
proof
  show q: "type_quantify (\<lambda>_. True) (Ty_union (lay 2)
      [(no_name, Ty_prim TYPE_U32 (lay 1)), (no_name, Ty_prim TYPE_U8 (lay 5))] []) 0 =
    Inr (Ty_union \<lparr>lay_count = 2, lay_size = 5, lay_alignment = 4\<rparr>
      [(no_name, Ty_prim TYPE_U32 \<lparr>lay_count = 1, lay_size = 4, lay_alignment = 4\<rparr>),
       (no_name, Ty_prim TYPE_U8 \<lparr>lay_count = 5, lay_size = 1, lay_alignment = 1\<rparr>)] [0, 0], 1)"
    by (simp add: unsized_def sized_by_def set_size_def desc_size_def typedescs_def max_def word_le_nat_alt)
  show "(4 :: nat) \<le> unat (5 :: u64)"
    using union_layout [OF q] by (simp add: extent_def)
qed

end
