(* ===== verification/Scope_Laws.thy ===== *)
theory Scope_Laws
  imports Scope "HOL-Library.Multiset"
begin

text \<open>
  What building and searching scopes guarantees: lookup by bisection finds the declaration
  of a name that is declared once, scopes are filled exactly to the size they were
  allocated with, and labels have the same number when they have the same name.
\<close>

subsection \<open>Searching a sorted scope\<close>

abbreviation same_text :: "lex_symbol \<Rightarrow> lex_symbol \<Rightarrow> bool" where
  "same_text a b \<equiv> sym_text a = sym_text b"

lemma symbols_equal_text [simp]: "lex_symbols_equal a b \<longleftrightarrow> same_text a b"
  by (auto simp: lex_symbols_equal_def)

lemma sym_key_eq [simp]: "sym_key a = sym_key b \<longleftrightarrow> same_text a b"
proof -
  have "inj (of_char :: char \<Rightarrow> nat)" by (simp add: inj_def)
  then show ?thesis by (simp add: sym_key_def inj_map_eq_map)
qed

lemma bsearch_correct:
  assumes "sorted (map sym_key xs)" and "u \<le> length xs"
  shows "case bsearch s xs l u of
      None \<Rightarrow> \<forall>i. l \<le> i \<and> i < u \<longrightarrow> \<not> same_text (xs ! i) s
    | Some i \<Rightarrow> l \<le> i \<and> i < u \<and> same_text (xs ! i) s"
  using assms
proof (induction s xs l u rule: bsearch.induct)
  case (1 s xs l u)
  let ?i = "(l + u) div 2"
  have le: "sym_key (xs ! i) \<le> sym_key (xs ! j)" if "i \<le> j" "j < length xs" for i j
    using sorted_nth_mono [OF "1.prems"(1), of i j] that by simp
  show ?case
  proof (cases "l < u")
    case True
    then have i: "l \<le> ?i" "?i < u" by auto
    consider (less) "sym_key s < sym_key (xs ! ?i)" | (eq) "sym_key s = sym_key (xs ! ?i)"
      | (greater) "sym_key (xs ! ?i) < sym_key s" by (meson linorder_less_linear)
    then show ?thesis
    proof cases
      case less
      then have cmp: "cmp_scope_obj s (xs ! ?i) < 0" by (simp add: cmp_scope_obj_def)
      then have eq: "bsearch s xs l u = bsearch s xs l ?i"
        using True by (simp add: bsearch.simps [of s xs l u] Let_def)
      have "\<not> same_text (xs ! j) s" if "?i \<le> j" "j < u" for j
        using le [of ?i j] that less "1.prems"(2) by (metis leD less_le_trans sym_key_eq)
      then show ?thesis
        using "1.IH"(1) [OF True refl refl cmp "1.prems"(1)] i "1.prems"(2)
        unfolding eq by (auto split: option.splits) (meson not_le)
    next
      case eq
      then have "cmp_scope_obj s (xs ! ?i) = 0" by (simp add: cmp_scope_obj_def del: sym_key_eq)
      then have "bsearch s xs l u = Some ?i"
        using True by (simp add: bsearch.simps [of s xs l u] Let_def)
      then show ?thesis using i eq by simp
    next
      case greater
      then have cmp: "\<not> cmp_scope_obj s (xs ! ?i) < 0" "cmp_scope_obj s (xs ! ?i) > 0"
        by (auto simp: cmp_scope_obj_def simp del: sym_key_eq)
      then have eq: "bsearch s xs l u = bsearch s xs (Suc ?i) u"
        using True by (simp add: bsearch.simps [of s xs l u] Let_def)
      have "\<not> same_text (xs ! j) s" if "j \<le> ?i" for j
        using le [of j ?i] that i greater "1.prems"(2) by (metis leD less_le_trans sym_key_eq)
      then show ?thesis
        using "1.IH"(2) [OF True refl refl cmp "1.prems"(1)] i "1.prems"(2)
        unfolding eq by (auto split: option.splits) (meson not_less_eq_eq)
    qed
  qed (auto simp: bsearch.simps [of s xs l u])
qed

subsection \<open>Duplicates\<close>

definition occurrences :: "lex_symbol \<Rightarrow> scope_obj list \<Rightarrow> scope_obj list" where
  "occurrences n xs = filter (\<lambda>x. same_text (so_name x) n) xs"

text \<open>Marking is uniform when all declarations of a name are marked, or none.\<close>

definition uniform :: "scope_obj list \<Rightarrow> bool" where
  "uniform xs \<longleftrightarrow> (\<forall>x \<in> set xs. \<forall>y \<in> set xs. same_text (so_name x) (so_name y) \<longrightarrow> (is_dupl x \<longleftrightarrow> is_dupl y))"

definition marked :: "scope_obj list \<Rightarrow> scope_obj \<Rightarrow> scope_obj" where
  "marked xs x = (if \<not> is_dupl x \<and> length (occurrences (so_name x) xs) \<ge> 2 then SCOPE_OBJ_DUPL (so_name x) else x)"

lemma is_dupl_simps [simp]:
  "is_dupl (SCOPE_OBJ_DUPL n)" "\<not> is_dupl (SCOPE_OBJ_BCON n i)" "\<not> is_dupl (SCOPE_OBJ_BFUN n i)"
  "\<not> is_dupl (SCOPE_OBJ_GVAR n d)" "\<not> is_dupl (SCOPE_OBJ_AVAR n d)" "\<not> is_dupl (SCOPE_OBJ_FUNC n f)"
  "\<not> is_dupl (SCOPE_OBJ_PARM n t)"
  by (simp_all add: is_dupl_def)

lemma occurrences_map [simp]:
  "(\<And>x. so_name (f x) = so_name x) \<Longrightarrow> length (occurrences n (map f xs)) = length (occurrences n xs)"
  by (induction xs) (auto simp: occurrences_def)

lemma occurrences_Cons [simp]:
  "length (occurrences n (x # xs)) = (if same_text (so_name x) n then 1 else 0) + length (occurrences n xs)"
  by (simp add: occurrences_def)

lemma occurrences_ex: "0 < length (occurrences n xs) \<longleftrightarrow> (\<exists>x \<in> set xs. same_text (so_name x) n)"
  by (auto simp: occurrences_def filter_empty_conv)

lemma uniformD:
  "uniform xs \<Longrightarrow> x \<in> set xs \<Longrightarrow> y \<in> set xs \<Longrightarrow> same_text (so_name x) (so_name y) \<Longrightarrow>
     is_dupl x \<longleftrightarrow> is_dupl y"
  unfolding uniform_def by blast

lemma uniform_tl: "uniform (x # xs) \<Longrightarrow> uniform xs"
  unfolding uniform_def by (meson list.set_intros(2))

lemma mark_duplicates_spec:
  "uniform xs \<Longrightarrow> mark_duplicates xs =
     (map (marked xs) xs, \<exists>x \<in> set xs. \<not> is_dupl x \<and> length (occurrences (so_name x) xs) \<ge> 2)"
proof (induction xs rule: mark_duplicates.induct)
  case (2 x xs)
  show ?case
  proof (cases "is_dupl x")
    case True
    have u: "uniform xs" by (rule uniform_tl [OF "2.prems"])
    have occ: "length (occurrences (so_name y) (x # xs)) = length (occurrences (so_name y) xs)"
      if "y \<in> set xs" "\<not> is_dupl y" for y
      using uniformD [OF "2.prems", of x y] that True by auto
    have "map (marked xs) xs = map (marked (x # xs)) xs"
      using occ by (auto simp: marked_def simp del: occurrences_Cons)
    then show ?thesis
      using "2.IH"(1) [OF True u] True occ by (auto simp: marked_def simp del: occurrences_Cons)
  next
    case False
    let ?same = "\<lambda>y. lex_symbols_equal (so_name x) (so_name y)"
    let ?f = "\<lambda>y. if ?same y then SCOPE_OBJ_DUPL (so_name y) else y"
    have f: "so_name (?f y) = so_name y" for y by simp
    have u: "uniform (map ?f xs)"
      unfolding uniform_def
    proof (intro ballI impI)
      fix y z assume "y \<in> set (map ?f xs)" "z \<in> set (map ?f xs)" and yz: "same_text (so_name y) (so_name z)"
      then obtain y' z' where "y' \<in> set xs" "y = ?f y'" "z' \<in> set xs" "z = ?f z'"
        unfolding set_map by (elim imageE)
      moreover from this have "same_text (so_name y') (so_name z')" using yz by (simp only: f)
      ultimately show "is_dupl y \<longleftrightarrow> is_dupl z"
        using uniformD [OF uniform_tl [OF "2.prems"], of y' z'] by (cases "?same y'") simp_all
    qed
    note IH = "2.IH"(2) [OF False refl refl u]
    have dup: "list_ex ?same xs \<longleftrightarrow> length (occurrences (so_name x) (x # xs)) \<ge> 2"
    proof -
      have "list_ex ?same xs \<longleftrightarrow> (\<exists>y \<in> set xs. same_text (so_name y) (so_name x))"
        by (simp add: list_ex_iff) metis
      then show ?thesis
        unfolding occurrences_ex [symmetric] by (simp add: numeral_2_eq_2 Suc_le_eq)
    qed
    have tail: "map (marked (map ?f xs)) (map ?f xs) = map (marked (x # xs)) xs"
    proof (rule nth_equalityI)
      fix i assume i: "i < length (map (marked (map ?f xs)) (map ?f xs))"
      let ?y = "xs ! i"
      have y: "?y \<in> set xs" using i by simp
      have "marked (map ?f xs) (?f ?y) = marked (x # xs) ?y"
      proof (cases "?same ?y")
        case True
        then have "length (occurrences (so_name ?y) (x # xs)) \<ge> 2" "\<not> is_dupl ?y"
          using occurrences_ex [of "so_name ?y" xs] y False uniformD [OF "2.prems", of x ?y]
          by (auto simp: Suc_le_eq)
        then show ?thesis using True by (simp add: marked_def)
      next
        case False
        then show ?thesis by (auto simp: marked_def f)
      qed
      then show "map (marked (map ?f xs)) (map ?f xs) ! i = map (marked (x # xs)) xs ! i"
        using i by simp
    qed simp
    have d: "(list_ex ?same xs \<or> (\<exists>y \<in> set (map ?f xs). \<not> is_dupl y \<and> length (occurrences (so_name y) (map ?f xs)) \<ge> 2)) \<longleftrightarrow>
      (\<exists>y \<in> set (x # xs). \<not> is_dupl y \<and> length (occurrences (so_name y) (x # xs)) \<ge> 2)"
    proof (cases "list_ex ?same xs")
      case True
      then show ?thesis using dup False by (meson list.set_intros(1))
    next
      case no: False
      then have nosame: "\<not> ?same y" if "y \<in> set xs" for y
        using that by (auto simp: list_ex_iff)
      then have "map ?f xs = xs" by (simp add: map_idI)
      moreover have "length (occurrences (so_name y) (x # xs)) = length (occurrences (so_name y) xs)"
        if "y \<in> set xs" for y
        using nosame [OF that] by simp
      ultimately show ?thesis using no dup by (simp del: occurrences_Cons)
    qed
    show ?thesis
      using IH tail d dup False by (simp add: marked_def Let_def)
  qed
qed simp

lemma uniform_fresh: "\<forall>x \<in> set xs. \<not> is_dupl x \<Longrightarrow> uniform xs"
  by (simp add: uniform_def)

lemma so_name_marked [simp]: "so_name (marked xs x) = so_name x"
  by (simp add: marked_def)

lemma qsort_set [simp]: "set (qsort name xs) = set xs"
  by (simp add: qsort_def)

lemma qsort_length [simp]: "length (qsort name xs) = length xs"
  by (simp add: qsort_def)

lemma qsort_sorted: "sorted (map sym_key (map name (qsort name xs)))"
  by (simp add: qsort_def comp_assoc)

lemma seal_scope_objs:
  "\<forall>x \<in> set xs. \<not> is_dupl x \<Longrightarrow> snd (seal_scope err xs) = qsort so_name (map (marked xs) xs)"
  by (simp add: seal_scope_def find_duplicates_def mark_duplicates_spec uniform_fresh split_beta)

lemma distinct_occurrences:
  "distinct (map (sym_text \<circ> so_name) xs) \<longleftrightarrow> (\<forall>x \<in> set xs. length (occurrences (so_name x) xs) < 2)"
proof (induction xs)
  case (Cons x xs)
  have new: "(sym_text \<circ> so_name) x \<notin> set (map (sym_text \<circ> so_name) xs) \<longleftrightarrow> length (occurrences (so_name x) xs) = 0"
    using occurrences_ex [of "so_name x" xs] by (auto simp: image_iff)
  show ?case
  proof (cases "length (occurrences (so_name x) xs) = 0")
    case True
    then have "\<not> same_text (so_name x) (so_name y)" if "y \<in> set xs" for y
      using occurrences_ex [of "so_name x" xs] that by auto
    then show ?thesis using Cons new True by auto
  next
    case False
    then show ?thesis using new by auto
  qed
qed simp

lemma seal_scope_error:
  "\<forall>x \<in> set xs. \<not> is_dupl x \<Longrightarrow>
     fst (seal_scope SCOPE_OK xs) = (if distinct (map (sym_text \<circ> so_name) xs) then SCOPE_OK else SCOPE_DUPLICATED)"
  by (auto simp: seal_scope_def find_duplicates_def mark_duplicates_spec uniform_fresh split_beta
      aggr_error_def distinct_occurrences not_less)

text \<open>Whether a use of a name may refer to the object found.\<close>

definition visible :: "scope_obj \<Rightarrow> lex_symbol \<Rightarrow> scope_obj option" where
  "visible x name =
     (case x of
        SCOPE_OBJ_AVAR n d \<Rightarrow> if sym_beg (hd (d_names d)) < sym_beg name then Some x else None
      | _ \<Rightarrow> Some x)"

lemma bsearch_marked:
  "case bsearch name (map so_name (qsort so_name (map (marked objs) objs))) 0 (length (qsort so_name (map (marked objs) objs))) of
     None \<Rightarrow> occurrences name objs = []
   | Some i \<Rightarrow> \<exists>x. x \<in> set (occurrences name objs) \<and> qsort so_name (map (marked objs) objs) ! i = marked objs x \<and>
       occurrences (so_name x) objs = occurrences name objs"
proof -
  let ?ys = "qsort so_name (map (marked objs) objs)"
  have b: "case bsearch name (map so_name ?ys) 0 (length ?ys) of
      None \<Rightarrow> \<forall>i. 0 \<le> i \<and> i < length ?ys \<longrightarrow> \<not> same_text (map so_name ?ys ! i) name
    | Some i \<Rightarrow> 0 \<le> i \<and> i < length ?ys \<and> same_text (map so_name ?ys ! i) name"
    by (rule bsearch_correct [OF qsort_sorted]) simp
  show ?thesis
  proof (cases "bsearch name (map so_name ?ys) 0 (length ?ys)")
    case None
    then have none: "\<not> same_text (so_name y) name" if "y \<in> set ?ys" for y
      using b that unfolding in_set_conv_nth by force
    have "\<not> same_text (so_name x) name" if "x \<in> set objs" for x
      using none [of "marked objs x"] that by simp
    then show ?thesis using None by (simp add: occurrences_def filter_empty_conv)
  next
    case (Some i)
    then have i: "i < length ?ys" "same_text (so_name (?ys ! i)) name" using b by auto
    then have "?ys ! i \<in> set ?ys" by (simp only: nth_mem)
    then obtain x where x: "x \<in> set objs" "?ys ! i = marked objs x" by auto
    then have "same_text (so_name x) name" using i(2) by simp
    then show ?thesis using Some x by (auto simp: occurrences_def)
  qed
qed

text \<open>
  C20. Looking a name up. In a scope made of the declarations \<open>objs\<close> and sealed, a name that is
  declared exactly once is found there by bisection, wherever it was declared; a variable
  of a block is not found before its declaration, and then no outer declaration is taken
  in its place. A name that is not declared in the scope, or more than once, is looked up
  in the scopes around it.
\<close>

theorem scope_lookup:
  assumes "\<forall>x \<in> set objs. \<not> is_dupl x"
  shows "scope_find_object (snd (seal_scope err objs) # outer) name =
    (case filter (\<lambda>x. sym_text (so_name x) = sym_text name) objs of
       [x] \<Rightarrow> visible x name
     | _ \<Rightarrow> scope_find_object outer name)"
proof -
  let ?ys = "qsort so_name (map (marked objs) objs)"
  let ?occ = "occurrences name objs"
  show ?thesis
  proof (cases "bsearch name (map so_name ?ys) 0 (length ?ys)")
    case None
    then have "?occ = []" using bsearch_marked [of name objs] by simp
    with None show ?thesis by (simp add: seal_scope_objs [OF assms] flip: occurrences_def)
  next
    case (Some i)
    then obtain x where x: "x \<in> set ?occ" "?ys ! i = marked objs x" and eq: "occurrences (so_name x) objs = ?occ"
      using bsearch_marked [of name objs] by auto
    then have mem: "x \<in> set objs" by (simp add: occurrences_def)
    show ?thesis
    proof (cases "length ?occ \<ge> 2")
      case True
      then have "?ys ! i = SCOPE_OBJ_DUPL (so_name x)" using x mem assms eq by (simp add: marked_def)
      moreover obtain u v w where "?occ = u # v # w" using True by (metis Suc_le_length_iff numeral_2_eq_2)
      ultimately show ?thesis
        using Some by (simp add: seal_scope_objs [OF assms] flip: occurrences_def)
    next
      case False
      then have "?occ = [x]" using x(1) by (cases ?occ) (auto simp: Suc_le_eq)
      moreover have "?ys ! i = x" using x False eq by (simp add: marked_def)
      ultimately show ?thesis
        using Some assms mem
        by (cases x) (auto simp: seal_scope_objs [OF assms] visible_def simp flip: occurrences_def)
    qed
  qed
qed

definition demo_decl :: "string \<Rightarrow> nat \<Rightarrow> decl" where
  "demo_decl s i = \<lparr>d_cons = False, d_expo = False, d_stat = False,
     d_names = [\<lparr>sym_beg = i, sym_text = s\<rparr>], d_type = prim TYPE_U8\<rparr>"

theorem scope_lookup_witness:
  "scope_find_object (snd (seal_scope SCOPE_OK
      [SCOPE_OBJ_AVAR (sym ''b'') (demo_decl ''b'' 7), SCOPE_OBJ_AVAR (sym ''a'') (demo_decl ''a'' 9)]) # [])
      \<lparr>sym_beg = 20, sym_text = ''a''\<rparr> = Some (SCOPE_OBJ_AVAR (sym ''a'') (demo_decl ''a'' 9)) \<and>
   scope_find_object (snd (seal_scope SCOPE_OK
      [SCOPE_OBJ_AVAR (sym ''b'') (demo_decl ''b'' 7), SCOPE_OBJ_AVAR (sym ''a'') (demo_decl ''a'' 9)]) # [])
      \<lparr>sym_beg = 8, sym_text = ''a''\<rparr> = None"
  using scope_lookup [of "[SCOPE_OBJ_AVAR (sym ''b'') (demo_decl ''b'' 7), SCOPE_OBJ_AVAR (sym ''a'') (demo_decl ''a'' 9)]"
      SCOPE_OK "[]" "\<lparr>sym_beg = 20, sym_text = ''a''\<rparr>"]
    scope_lookup [of "[SCOPE_OBJ_AVAR (sym ''b'') (demo_decl ''b'' 7), SCOPE_OBJ_AVAR (sym ''a'') (demo_decl ''a'' 9)]"
      SCOPE_OK "[]" "\<lparr>sym_beg = 8, sym_text = ''a''\<rparr>"]
  by (simp add: is_dupl_def sym_def visible_def demo_decl_def)

subsection \<open>Building\<close>

text \<open>
  What the scopes of a tree must be, written without the passes of the code: the
  declarations of a block, in their order; whether they have names of their own; the labels
  of a function; and the tree with every block carrying its declarations, sealed.
\<close>

definition block_objs :: "stmt list \<Rightarrow> scope_obj list" where
  "block_objs ss = concat (map (\<lambda>s. case s of S_decl d _ \<Rightarrow> map (\<lambda>n. SCOPE_OBJ_AVAR n d) (d_names d) | _ \<Rightarrow> []) ss)"

definition sealed :: "scope_obj list \<Rightarrow> scope_obj list" where
  "sealed objs = snd (seal_scope SCOPE_OK objs)"

definition distinct_names :: "scope_obj list \<Rightarrow> bool" where
  "distinct_names objs \<longleftrightarrow> distinct (map (sym_text \<circ> so_name) objs)"

fun scoped :: "stmt \<Rightarrow> stmt" where
  "scoped (S_blok noin _ ss) = S_blok noin (sealed (block_objs ss)) (map scoped ss)"
| "scoped (S_whil e _ ss) = S_whil e (sealed (block_objs ss)) (map scoped ss)"
| "scoped (S_dowh e _ ss) = S_dowh e (sealed (block_objs ss)) (map scoped ss)"
| "scoped (S_cond e s es els) = S_cond e (scoped s) (map (map_prod id scoped) es) (map_option scoped els)"
| "scoped s = s"

fun dup_free :: "stmt \<Rightarrow> bool" where
  "dup_free (S_blok _ _ ss) \<longleftrightarrow> distinct_names (block_objs ss) \<and> list_all dup_free ss"
| "dup_free (S_whil _ _ ss) \<longleftrightarrow> distinct_names (block_objs ss) \<and> list_all dup_free ss"
| "dup_free (S_dowh _ _ ss) \<longleftrightarrow> distinct_names (block_objs ss) \<and> list_all dup_free ss"
| "dup_free (S_cond _ s es els) \<longleftrightarrow> dup_free s \<and> list_all dup_free (map snd es) \<and> pred_option dup_free els"
| "dup_free _ \<longleftrightarrow> True"

fun labels :: "stmt \<Rightarrow> lex_symbol list"
  and block_labels :: "stmt list \<Rightarrow> lex_symbol list"
  and elif_labels :: "(expr \<times> stmt) list \<Rightarrow> lex_symbol list"
where
  "labels (S_blok _ _ ss) = block_labels ss"
| "labels (S_whil _ _ ss) = block_labels ss"
| "labels (S_dowh _ _ ss) = block_labels ss"
| "labels (S_cond _ s es els) = labels s @ elif_labels es @ (case els of None \<Rightarrow> [] | Some t \<Rightarrow> labels t)"
| "labels _ = []"
| "block_labels [] = []"
| "block_labels (s # ss) = (case s of S_wlab n _ _ \<Rightarrow> [n] | _ \<Rightarrow> labels s) @ block_labels ss"
| "elif_labels [] = []"
| "elif_labels (e # es) = labels (snd e) @ elif_labels es"

definition status :: "bool \<Rightarrow> scope_error" where
  "status ok = (if ok then SCOPE_OK else SCOPE_DUPLICATED)"

text \<open>The result of a pass: out of memory, or the error and the value that are due.\<close>

definition due :: "(nat \<Rightarrow> bool) \<Rightarrow> scope_error \<Rightarrow> bool \<Rightarrow> bool \<Rightarrow> bool" where
  "due mem_ok err ok val \<longleftrightarrow>
     (err = SCOPE_NOMEM \<and> \<not> (\<forall>k. mem_ok k)) \<or> (err = status ok \<and> val)"

lemma aggr_status [simp]: "aggr_error (status p) (status q) = status (p \<and> q)"
  by (simp add: status_def aggr_error_def)

lemma aggr_nomem [simp]: "aggr_error SCOPE_NOMEM e = SCOPE_NOMEM" "aggr_error e SCOPE_NOMEM = SCOPE_NOMEM"
  by (cases e; simp add: aggr_error_def)+

lemma aggr_ok [simp]: "aggr_error SCOPE_OK e = e"
  by (simp add: aggr_error_def)

lemma due_ok [intro!]: "val \<Longrightarrow> due mem_ok SCOPE_OK True val"
  by (simp add: due_def status_def)

lemma due_aggr:
  "due mem_ok e p v \<Longrightarrow> due mem_ok e' q w \<Longrightarrow> due mem_ok (aggr_error e e') (p \<and> q) (v \<and> w)"
  by (auto simp: due_def)

lemma due_mono: "due mem_ok e p v \<Longrightarrow> (v \<Longrightarrow> w) \<Longrightarrow> p = q \<Longrightarrow> due mem_ok e q w"
  by (auto simp: due_def)

lemma block_objs_fresh: "x \<in> set (block_objs ss) \<Longrightarrow> \<not> is_dupl x"
  by (auto simp: block_objs_def is_dupl_def split: stmt.splits)

lemma seal_scope_eq:
  assumes "\<forall>x \<in> set xs. \<not> is_dupl x"
  shows "seal_scope err xs = (aggr_error err (status (distinct_names xs)), sealed xs)"
proof -
  have "seal_scope err xs = (aggr_error err (fst (seal_scope SCOPE_OK xs)), snd (seal_scope SCOPE_OK xs))"
    by (simp add: seal_scope_def split_beta)
  then show ?thesis
    by (simp add: seal_scope_error [OF assms] sealed_def status_def distinct_names_def)
qed

lemma seal_scope_nomem [simp]: "fst (seal_scope SCOPE_NOMEM xs) = SCOPE_NOMEM"
  by (simp add: seal_scope_def split_beta)

lemma due_seal:
  assumes "\<forall>x \<in> set xs. \<not> is_dupl x" and "due mem_ok e p v"
  shows "due mem_ok (fst (seal_scope e xs)) (distinct_names xs \<and> p) (v \<and> snd (seal_scope e xs) = sealed xs)"
  using assms by (auto simp: due_def seal_scope_eq conj_commute)

lemma block_objs_simps [simp]:
  "block_objs [] = []"
  "block_objs (s # ss) = (case s of S_decl d _ \<Rightarrow> map (\<lambda>n. SCOPE_OBJ_AVAR n d) (d_names d) | _ \<Rightarrow> []) @ block_objs ss"
  by (simp_all add: block_objs_def)

lemma due_nomem: "\<not> mem_ok k \<Longrightarrow> due mem_ok SCOPE_NOMEM p v"
  by (auto simp: due_def)

lemma alloc_scope_simps [simp]:
  "fst (alloc_scope mem_ok b) = mem_ok (b_requests b)"
  "b_wlabs (snd (alloc_scope mem_ok b)) = b_wlabs b"
  by (simp_all add: alloc_scope_def)

definition block_due :: "(nat \<Rightarrow> bool) \<Rightarrow> stmt list \<Rightarrow> build \<Rightarrow> bool" where
  "block_due mem_ok ss b \<longleftrightarrow>
     (case build_stmts mem_ok ss b of (err, ss', objs, b') \<Rightarrow>
        due mem_ok err (list_all dup_free ss)
          (ss' = map scoped ss \<and> objs = block_objs ss \<and> b_wlabs b' = b_wlabs b @ block_labels ss))"

definition stmt_due :: "(nat \<Rightarrow> bool) \<Rightarrow> stmt \<Rightarrow> build \<Rightarrow> bool" where
  "stmt_due mem_ok s b \<longleftrightarrow>
     (case scope_build_inner mem_ok s b of (err, s', b') \<Rightarrow>
        due mem_ok err (dup_free s) (s' = scoped s \<and> b_wlabs b' = b_wlabs b @ labels s))"

definition elifs_due :: "(nat \<Rightarrow> bool) \<Rightarrow> (expr \<times> stmt) list \<Rightarrow> build \<Rightarrow> bool" where
  "elifs_due mem_ok es b \<longleftrightarrow>
     (case build_elifs mem_ok es b of (err, es', b') \<Rightarrow>
        due mem_ok err (list_all dup_free (map snd es))
          (es' = map (map_prod id scoped) es \<and> b_wlabs b' = b_wlabs b @ elif_labels es))"

lemma due_block:
  assumes "mem_ok (b_requests b) \<Longrightarrow> block_due mem_ok ss (snd (alloc_scope mem_ok b))"
  shows "case (let (ok, b) = alloc_scope mem_ok b in
      if \<not> ok then (SCOPE_NOMEM, t, b)
      else let (err, ss, objs, b) = build_stmts mem_ok ss b; (err, objs) = seal_scope err objs
           in (err, C objs ss, b)) of (err, s', b') \<Rightarrow>
    due mem_ok err (distinct_names (block_objs ss) \<and> list_all dup_free ss)
      (s' = C (sealed (block_objs ss)) (map scoped ss) \<and> b_wlabs b' = b_wlabs b @ block_labels ss)"
proof (cases "mem_ok (b_requests b)")
  case True
  obtain err ss' objs b' where r: "build_stmts mem_ok ss (snd (alloc_scope mem_ok b)) = (err, ss', objs, b')"
    by (metis prod_cases4)
  from assms [OF True] have d: "due mem_ok err (list_all dup_free ss)
      (ss' = map scoped ss \<and> objs = block_objs ss \<and> b_wlabs b' = b_wlabs b @ block_labels ss)"
    by (simp add: block_due_def r)
  have fresh: "\<forall>x \<in> set (block_objs ss). \<not> is_dupl x" by (simp add: block_objs_fresh)
  from d show ?thesis
    using True r seal_scope_eq [OF fresh] by (auto simp: split_beta due_def conj_commute)
qed (simp add: split_beta due_nomem)

lemma case_due: "(case x of (err, s', b') \<Rightarrow> due m err (p x) (v s' b')) \<longleftrightarrow>
   due m (fst x) (p x) (v (fst (snd x)) (snd (snd x)))"
  by (simp add: split_beta)

lemma block_due_step:
  assumes no: "\<And>d i. s \<noteq> S_decl d i" "\<And>n f i. s \<noteq> S_wlab n f i"
    and s: "stmt_due mem_ok s b"
    and ss: "\<And>err s' b1. (err, s', b1) = scope_build_inner mem_ok s b \<Longrightarrow> block_due mem_ok ss b1"
  shows "block_due mem_ok (s # ss) b"
proof -
  obtain err s' b1 where r1: "scope_build_inner mem_ok s b = (err, s', b1)" by (metis prod_cases3)
  obtain err' ss' objs b2 where r2: "build_stmts mem_ok ss b1 = (err', ss', objs, b2)" by (metis prod_cases4)
  have d1: "due mem_ok err (dup_free s) (s' = scoped s \<and> b_wlabs b1 = b_wlabs b @ labels s)"
    using s by (simp add: stmt_due_def r1)
  have d2: "due mem_ok err' (list_all dup_free ss)
      (ss' = map scoped ss \<and> objs = block_objs ss \<and> b_wlabs b2 = b_wlabs b1 @ block_labels ss)"
    using ss [OF r1 [symmetric]] by (simp add: block_due_def r2)
  have "build_stmts mem_ok (s # ss) b = (aggr_error err err', s' # ss', objs, b2)"
  proof -
    have "build_stmts mem_ok (s # ss) b =
      (let (err, s, b) = scope_build_inner mem_ok s b; (err', ss, objs, b) = build_stmts mem_ok ss b
       in (aggr_error err err', s # ss, objs, b))"
      unfolding build_stmts.simps(2) using no by (cases s) (simp_all only: stmt.case, auto)
    then show ?thesis by (simp add: r1 r2)
  qed
  moreover have "block_labels (s # ss) = labels s @ block_labels ss" "block_objs (s # ss) = block_objs ss"
    using no by (cases s; simp)+
  ultimately show ?thesis
    using due_mono [OF due_aggr [OF d1 d2]] by (simp add: block_due_def)
qed

lemma scope_build_inner_due:
  "stmt_due mem_ok s b" "block_due mem_ok ss b" "elifs_due mem_ok es b"
proof (induction mem_ok s b and mem_ok ss b and mem_ok es b
    rule: scope_build_inner_build_stmts_build_elifs.induct)
  case (1 mem_ok noin sc ss b)
  then have "mem_ok (b_requests b) \<Longrightarrow> block_due mem_ok ss (snd (alloc_scope mem_ok b))"
    by (simp add: alloc_scope_def)
  from due_block [OF this] show ?case by (simp add: stmt_due_def)
next
  case (2 mem_ok e sc ss b)
  then have "mem_ok (b_requests b) \<Longrightarrow> block_due mem_ok ss (snd (alloc_scope mem_ok b))"
    by (simp add: alloc_scope_def)
  from due_block [OF this] show ?case by (simp add: stmt_due_def)
next
  case (3 mem_ok e sc ss b)
  then have "mem_ok (b_requests b) \<Longrightarrow> block_due mem_ok ss (snd (alloc_scope mem_ok b))"
    by (simp add: alloc_scope_def)
  from due_block [OF this] show ?case by (simp add: stmt_due_def)
next
  case (4 mem_ok e s elifs els b)
  obtain err s' b1 where r1: "scope_build_inner mem_ok s b = (err, s', b1)" by (metis prod_cases3)
  obtain err' elifs' b2 where r2: "build_elifs mem_ok elifs b1 = (err', elifs', b2)" by (metis prod_cases3)
  have d1: "due mem_ok err (dup_free s) (s' = scoped s \<and> b_wlabs b1 = b_wlabs b @ labels s)"
    using "4.IH"(1) by (simp add: stmt_due_def r1)
  have d2: "due mem_ok err' (list_all dup_free (map snd elifs))
      (elifs' = map (map_prod id scoped) elifs \<and> b_wlabs b2 = b_wlabs b1 @ elif_labels elifs)"
    using "4.IH"(2) [OF r1 [symmetric] refl refl] by (simp add: elifs_due_def r2)
  note d12 = due_aggr [OF d1 d2]
  show ?case
  proof (cases els)
    case None
    show ?thesis
      unfolding stmt_due_def using due_mono [OF d12] None by (simp add: r1 r2)
  next
    case (Some t)
    obtain err'' t' b3 where r3: "scope_build_inner mem_ok t b2 = (err'', t', b3)" by (metis prod_cases3)
    have d3: "due mem_ok err'' (dup_free t) (t' = scoped t \<and> b_wlabs b3 = b_wlabs b2 @ labels t)"
      using "4.IH"(3) [OF r1 [symmetric] refl refl r2 [symmetric] refl refl Some] by (simp add: stmt_due_def r3)
    show ?thesis
      unfolding stmt_due_def using due_mono [OF due_aggr [OF d12 d3]] Some
      by (simp add: r1 r2 r3)
  qed
next
  case (7 mem_ok s ss b)
  show ?case
  proof (cases "\<exists>d init. s = S_decl d init")
    case True
    then obtain d init where s: "s = S_decl d init" by blast
    obtain err ss' objs b' where r: "build_stmts mem_ok ss b = (err, ss', objs, b')" by (metis prod_cases4)
    have "block_due mem_ok ss b" using "7.IH" s by blast
    then show ?thesis by (auto simp: block_due_def r s due_def)
  next
    case nodecl: False
    show ?thesis
    proof (cases "\<exists>n f i. s = S_wlab n f i")
      case True
      then obtain n f i where s: "s = S_wlab n f i" by blast
      obtain err b1 where a: "add_func_wlab mem_ok n b = (err, b1)" by force
      obtain err' ss' objs b' where r: "build_stmts mem_ok ss b1 = (err', ss', objs, b')" by (metis prod_cases4)
      have "block_due mem_ok ss b1" using "7.IH" s a by auto
      then show ?thesis
        using a by (auto simp: block_due_def r s due_def add_func_wlab_def Let_def split: if_splits)
    next
      case False
      have "stmt_due mem_ok s b" using "7.IH" nodecl False by (cases s) auto
      moreover have "block_due mem_ok ss b1" if "(err, s', b1) = scope_build_inner mem_ok s b" for err s' b1
        using "7.IH" nodecl False that by (cases s) auto
      ultimately show ?thesis using nodecl False block_due_step by blast
    qed
  qed
next
  case (9 mem_ok e s es b)
  obtain err s' b1 where r1: "scope_build_inner mem_ok s b = (err, s', b1)" by (metis prod_cases3)
  obtain err' es' b2 where r2: "build_elifs mem_ok es b1 = (err', es', b2)" by (metis prod_cases3)
  have d1: "due mem_ok err (dup_free s) (s' = scoped s \<and> b_wlabs b1 = b_wlabs b @ labels s)"
    using "9.IH"(1) by (simp add: stmt_due_def r1)
  have d2: "due mem_ok err' (list_all dup_free (map snd es))
      (es' = map (map_prod id scoped) es \<and> b_wlabs b2 = b_wlabs b1 @ elif_labels es)"
    using "9.IH"(2) [OF r1 [symmetric] refl refl] by (simp add: elifs_due_def r2)
  show ?case
    using due_mono [OF due_aggr [OF d1 d2]] by (simp add: elifs_due_def r1 r2)
qed (simp_all add: stmt_due_def block_due_def elifs_due_def due_ok)

subsection \<open>The unit\<close>

definition linked :: "func \<Rightarrow> stmt list \<Rightarrow> func" where
  "linked f body = f\<lparr>f_wlabs := identify_wlabs 1 (qsort id (block_labels body))\<rparr>"

definition func_objs :: "func \<Rightarrow> stmt list \<Rightarrow> scope_obj list" where
  "func_objs f body = map (\<lambda>(n, t). SCOPE_OBJ_PARM n t) (f_params f) @ block_objs body"

definition unit_objs :: "stmt list \<Rightarrow> scope_obj list" where
  "unit_objs ss = concat (map (\<lambda>s. case s of
       S_decl d _ \<Rightarrow> map (\<lambda>n. SCOPE_OBJ_GVAR n d) (d_names d)
     | S_func f _ body \<Rightarrow> [SCOPE_OBJ_FUNC (f_name f) (linked f body)]
     | _ \<Rightarrow> []) ss)"

fun scoped_unit :: "stmt \<Rightarrow> stmt" where
  "scoped_unit (S_func f _ body) = S_func (linked f body) (sealed (func_objs f body)) (map scoped body)"
| "scoped_unit s = s"

fun dup_free_unit :: "stmt \<Rightarrow> bool" where
  "dup_free_unit (S_func f _ body) \<longleftrightarrow> distinct_names (func_objs f body) \<and> list_all dup_free body"
| "dup_free_unit _ \<longleftrightarrow> True"

lemma linked_simps [simp]: "f_name (linked f body) = f_name f" "f_params (linked f body) = f_params f"
  by (simp_all add: linked_def)

lemma build_func_due:
  "case build_func mem_ok f body k of (err, f', objs, body', k') \<Rightarrow>
     due mem_ok err (dup_free_unit (S_func f sc body))
       (f' = linked f body \<and> objs = sealed (func_objs f body) \<and> body' = map scoped body)"
proof (cases "mem_ok k")
  case True
  let ?b = "snd (alloc_scope mem_ok \<lparr>b_requests = k, b_wlabs = []\<rparr>)"
  obtain err body' objs b' where r: "build_stmts mem_ok body ?b = (err, body', objs, b')"
    by (metis prod_cases4)
  have d: "due mem_ok err (list_all dup_free body)
      (body' = map scoped body \<and> objs = block_objs body \<and> b_wlabs b' = block_labels body)"
    using scope_build_inner_due(2) [of mem_ok body ?b] by (simp add: block_due_def r)
  have fresh: "\<forall>x \<in> set (func_objs f body). \<not> is_dupl x"
    using block_objs_fresh by (auto simp: func_objs_def is_dupl_def)
  from d show ?thesis
    using True r seal_scope_eq [OF fresh]
    by (auto simp: build_func_def split_beta Let_def due_def conj_commute linked_def func_objs_def)
qed (simp add: build_func_def split_beta due_nomem)

lemma build_unit_due:
  "case build_unit mem_ok ss k of (err, ss', objs, k') \<Rightarrow>
     due mem_ok err (list_all dup_free_unit ss) (ss' = map scoped_unit ss \<and> objs = unit_objs ss)"
proof (induction ss arbitrary: k)
  case (Cons s ss)
  show ?case
  proof (cases "\<exists>f sc body. s = S_func f sc body")
    case True
    then obtain f sc body where s: "s = S_func f sc body" by blast
    obtain err f' objs body' k1 where r1: "build_func mem_ok f body k = (err, f', objs, body', k1)"
      by (metis prod_cases5)
    obtain err' ss' objs' k2 where r2: "build_unit mem_ok ss k1 = (err', ss', objs', k2)" by (metis prod_cases4)
    have d1: "due mem_ok err (dup_free_unit (S_func f sc body))
        (f' = linked f body \<and> objs = sealed (func_objs f body) \<and> body' = map scoped body)"
      using build_func_due [where mem_ok = mem_ok and f = f and body = body and k = k and sc = sc] by (simp add: r1)
    have d2: "due mem_ok err' (list_all dup_free_unit ss) (ss' = map scoped_unit ss \<and> objs' = unit_objs ss)"
      using Cons.IH [where k = k1] by (simp add: r2)
    show ?thesis
      using due_mono [OF due_aggr [OF d1 d2]] by (simp add: s r1 r2 unit_objs_def)
  next
    case False
    obtain err' ss' objs' k2 where r2: "build_unit mem_ok ss k = (err', ss', objs', k2)" by (metis prod_cases4)
    have d2: "due mem_ok err' (list_all dup_free_unit ss) (ss' = map scoped_unit ss \<and> objs' = unit_objs ss)"
      using Cons.IH [where k = k] by (simp add: r2)
    from d2 show ?thesis
      using False by (cases s) (simp_all add: r2 unit_objs_def due_def)
  qed
qed (simp add: unit_objs_def due_ok)

lemma unit_objs_fresh: "x \<in> set (unit_objs ss) \<Longrightarrow> \<not> is_dupl x"
proof (induction ss)
  case (Cons s ss)
  then show ?case by (cases s) (auto simp: unit_objs_def)
qed (simp add: unit_objs_def)

lemma add_builtins_fresh: "x \<in> set add_builtins \<Longrightarrow> \<not> is_dupl x"
  by (auto simp: add_builtins_def is_dupl_def)

lemma scope_build_due:
  "case scope_build mem_ok ss of (err, ss', objs) \<Rightarrow>
     due mem_ok err (distinct_names (add_builtins @ unit_objs ss) \<and> list_all dup_free_unit ss)
       (ss' = map scoped_unit ss \<and> objs = sealed (add_builtins @ unit_objs ss))"
proof (cases "mem_ok 0")
  case True
  obtain err ss' objs k where r: "build_unit mem_ok ss 1 = (err, ss', objs, k)" by (metis prod_cases4)
  have d: "due mem_ok err (list_all dup_free_unit ss) (ss' = map scoped_unit ss \<and> objs = unit_objs ss)"
    using build_unit_due [where mem_ok = mem_ok and ss = ss and k = 1] unfolding r by simp
  have fresh: "\<forall>x \<in> set (add_builtins @ unit_objs ss). \<not> is_dupl x"
    using unit_objs_fresh add_builtins_fresh by auto
  from d show ?thesis
    using True r seal_scope_eq [OF fresh] by (auto simp: scope_build_def split_beta due_def conj_commute)
qed (simp add: scope_build_def due_nomem)

text \<open>
  C12. Building the scopes of a unit. When memory suffices, every function and every block, at any
  depth, gets the scope of its own declarations (a function its parameters before them), the
  unit gets the built-in objects, its variables and its functions, every function gets its
  labels, from its blocks at any depth, and the result is an error exactly when some scope,
  that of the unit with the built-in names, declares a name twice. When a request for memory
  fails the result is \<^verbatim>\<open>SCOPE_NOMEM\<close>, whatever was found elsewhere, or nothing was changed by it.
\<close>

theorem scope_build_spec:
  assumes "scope_build mem_ok ss = (err, ss', objs)"
  shows "(err = SCOPE_NOMEM \<and> (\<exists>k. \<not> mem_ok k)) \<or>
    ((err, ss', objs) =
      (if distinct_names (add_builtins @ unit_objs ss) \<and> list_all dup_free_unit ss then SCOPE_OK else SCOPE_DUPLICATED,
       map scoped_unit ss, sealed (add_builtins @ unit_objs ss)))"
  using scope_build_due [where mem_ok = mem_ok and ss = ss] assms by (auto simp: due_def status_def)

definition demo_unit :: "stmt list" where
  "demo_unit = [
     S_decl (demo_decl ''x'' 1) None,
     S_func \<lparr>f_addr = 1, f_expo = False, f_name = sym ''f'', f_params = [(sym ''p'', prim TYPE_U8)],
         f_rettype = None, f_wlabs = []\<rparr> []
       [S_wlab (sym ''a'') 0 0,
        S_blok True [] [S_decl (demo_decl ''y'' 30) None, S_decl (demo_decl ''y'' 40) None, S_wlab (sym ''b'') 0 0]]]"

theorem scope_build_spec_witness:
  "fst (scope_build (\<lambda>_. True) demo_unit) = SCOPE_DUPLICATED \<and>
   (case fst (snd (scope_build (\<lambda>_. True) demo_unit)) of
      [_, S_func f sc [_, S_blok _ sc' _]] \<Rightarrow>
        f_wlabs f = [(sym ''a'', 1), (sym ''b'', 2)] \<and> sc = [SCOPE_OBJ_PARM (sym ''p'') (prim TYPE_U8)] \<and>
        map is_dupl sc' = [True, True]
    | _ \<Rightarrow> False)"
proof -
  obtain err ss' objs where r: "scope_build (\<lambda>_. True) demo_unit = (err, ss', objs)" by (metis prod_cases3)
  have "err = SCOPE_DUPLICATED \<and> ss' = map scoped_unit demo_unit"
    using scope_build_spec [OF r]
    by (simp add: demo_unit_def demo_decl_def distinct_names_def func_objs_def)
  then show ?thesis
    unfolding r by (simp add: demo_unit_def demo_decl_def linked_def func_objs_def sealed_def seal_scope_def
        find_duplicates_def qsort_def sym_def sym_key_def)
qed

subsection \<open>Labels\<close>

lemma identify_wlabs_names [simp]: "map fst (identify_wlabs i ns) = ns"
proof (induction i ns rule: identify_wlabs.induct)
  case (2 i n ns)
  then show ?case by (simp add: comp_def)
qed simp

lemma dropWhile_sorted:
  assumes "sorted (map sym_key (n # ns))" and "m \<in> set (dropWhile (same_text n) ns)"
  shows "\<not> same_text n m"
  using assms
proof (induction ns)
  case (Cons x ns)
  show ?case
  proof (cases "same_text n x")
    case True
    then have "sym_key n = sym_key x" by simp
    then show ?thesis using Cons True by (auto simp del: sym_key_eq)
  next
    case False
    then have "sym_key n < sym_key x" using Cons.prems(1) by (simp add: order.not_eq_order_implies_strict)
    moreover have "sym_key x \<le> sym_key m" using Cons.prems False by auto
    ultimately show ?thesis by (metis leD sym_key_eq)
  qed
qed simp

lemma identify_wlabs_ids:
  assumes "sorted (map sym_key ns)" and "unat i + length ns < 2 ^ 64" and "0 < i"
  shows "\<forall>(n, a) \<in> set (identify_wlabs i ns). i \<le> a \<and>
    (\<forall>(m, b) \<in> set (identify_wlabs i ns). same_text n m \<longleftrightarrow> a = b)"
  using assms
proof (induction i ns rule: identify_wlabs.induct)
  case (2 i n ns)
  let ?tw = "takeWhile (same_text n) ns" and ?dw = "dropWhile (same_text n) ns"
  have eq: "lex_symbols_equal n = same_text n" by auto
  have i1: "unat (i + 1) = Suc (unat i)" using "2.prems"(2) by (simp add: unat_word_ariths)
  have "0 < length (n # ns)" "length ?dw \<le> length ns" by (simp_all add: length_dropWhile_le)
  then have "unat (i + 1) + length ?dw < 2 ^ 64" using "2.prems"(2) i1 by simp
  moreover have "sorted (map sym_key ?dw)"
    using "2.prems"(1) by (metis dropWhile_eq_drop drop_map list.simps(9) sorted_simps(2) sorted_wrt_drop)
  moreover have "0 < i + 1" using i1 by (metis unat_gt_0 word_neq_0_conv zero_less_Suc)
  ultimately have IH: "\<forall>(n, a) \<in> set (identify_wlabs (i + 1) ?dw). i + 1 \<le> a \<and>
      (\<forall>(m, b) \<in> set (identify_wlabs (i + 1) ?dw). same_text n m \<longleftrightarrow> a = b)"
    using "2.IH" eq by simp
  let ?rest = "identify_wlabs (i + 1) ?dw" and ?run = "(n, i) # map (\<lambda>m. (m, i)) ?tw"
  have step: "identify_wlabs i (n # ns) = ?run @ ?rest"
    unfolding identify_wlabs.simps eq by simp
  have new: "\<not> same_text n m" if "(m, b) \<in> set ?rest" for m b
  proof -
    have "m \<in> set (map fst ?rest)" using imageI [OF that, of fst] unfolding set_map by (simp only: fst_conv)
    then have "m \<in> set ?dw" unfolding identify_wlabs_names .
    then show ?thesis by (rule dropWhile_sorted [OF "2.prems"(1)])
  qed
  have run: "same_text n m \<and> b = i" if "(m, b) \<in> set ?run" for m b
    using that by (auto dest: set_takeWhileD)
  have i_less: "i < i + 1" using i1 by (simp add: word_less_nat_alt)
  have run_rest: "\<not> same_text m m' \<and> b \<noteq> b'" if "(m, b) \<in> set ?run" "(m', b') \<in> set ?rest" for m b m' b'
    using run [OF that(1)] new [OF that(2)] IH that(2) i_less by (auto simp: not_le dest: bspec)
  have above: "i \<le> a" if "(m, a) \<in> set ?rest" for m a
    using IH that i_less by fastforce
  have main: "i \<le> a \<and> (same_text m m' \<longleftrightarrow> a = b)"
    if "(m, a) \<in> set (?run @ ?rest)" "(m', b) \<in> set (?run @ ?rest)" for m a m' b
  proof -
    note mem = that
    consider "(m, a) \<in> set ?run" "(m', b) \<in> set ?run" | "(m, a) \<in> set ?run" "(m', b) \<in> set ?rest"
      | "(m, a) \<in> set ?rest" "(m', b) \<in> set ?run" | "(m, a) \<in> set ?rest" "(m', b) \<in> set ?rest"
      using mem unfolding set_append by blast
    then show ?thesis
    proof cases
      case 1
      then show ?thesis using run [OF 1(1)] run [OF 1(2)] by simp
    next
      case 2
      then show ?thesis using run_rest [OF 2] run [OF 2(1)] by simp
    next
      case 3
      then show ?thesis using run_rest [OF 3(2) 3(1)] above [OF 3(1)] by metis
    next
      case 4
      then show ?thesis using bspec [OF IH 4(1)] 4(2) above [OF 4(1)] by auto
    qed
  qed
  show ?case unfolding step using main by blast
qed simp

lemma labels_numbered:
  assumes "length (block_labels body) < 2 ^ 64 - 1"
  shows "mset (map fst (f_wlabs (linked f body))) = mset (block_labels body) \<and>
    (\<forall>(n, a) \<in> set (f_wlabs (linked f body)). a \<noteq> 0 \<and>
      (\<forall>(m, b) \<in> set (f_wlabs (linked f body)). sym_text n = sym_text m \<longleftrightarrow> a = b)) \<and>
    (case scope_find_wlab (linked f body) name of
       None \<Rightarrow> sym_text name \<notin> sym_text ` set (block_labels body)
     | Some i \<Rightarrow> i < length (block_labels body) \<and>
         sym_text (fst (f_wlabs (linked f body) ! i)) = sym_text name)"
proof -
  let ?ns = "qsort id (block_labels body)"
  let ?ws = "f_wlabs (linked f body)"
  have ws: "?ws = identify_wlabs 1 ?ns" by (simp add: linked_def)
  have names: "map fst ?ws = ?ns" by (simp add: ws)
  have sorted: "sorted (map sym_key ?ns)" using qsort_sorted [of id "block_labels body"] by simp
  have names_mset: "mset (map fst ?ws) = mset (block_labels body)"
    unfolding names by (simp add: qsort_def)
  have "\<forall>(n, a) \<in> set ?ws. 1 \<le> a \<and> (\<forall>(m, b) \<in> set ?ws. same_text n m \<longleftrightarrow> a = b)"
    unfolding ws using assms by (intro identify_wlabs_ids [OF sorted]) simp_all
  then have ids: "\<forall>(n, a) \<in> set ?ws. a \<noteq> 0 \<and> (\<forall>(m, b) \<in> set ?ws. same_text n m \<longleftrightarrow> a = b)"
    by fastforce
  have len: "length ?ws = length (block_labels body)"
    using names by (metis length_map qsort_length)
  have found: "case scope_find_wlab (linked f body) name of
      None \<Rightarrow> \<forall>i. 0 \<le> i \<and> i < length (block_labels body) \<longrightarrow> \<not> same_text (?ns ! i) name
    | Some i \<Rightarrow> 0 \<le> i \<and> i < length (block_labels body) \<and> same_text (?ns ! i) name"
    using bsearch_correct [OF sorted, where u = "length (block_labels body)" and s = name and l = 0]
    by (simp add: scope_find_wlab_def names len)
  have search: "case scope_find_wlab (linked f body) name of
       None \<Rightarrow> sym_text name \<notin> sym_text ` set (block_labels body)
     | Some i \<Rightarrow> i < length (block_labels body) \<and> sym_text (fst (?ws ! i)) = sym_text name"
  proof (cases "scope_find_wlab (linked f body) name")
    case None
    have "\<not> same_text n name" if n: "n \<in> set (block_labels body)" for n
    proof -
      have "n \<in> set ?ns" using n by simp
      then obtain i where i: "i < length (block_labels body)" "?ns ! i = n"
        unfolding in_set_conv_nth qsort_length by blast
      have "0 \<le> i \<and> i < length (block_labels body) \<longrightarrow> \<not> same_text (?ns ! i) name"
        using found unfolding None option.case by (rule spec)
      then show ?thesis using i by simp
    qed
    then have "sym_text name \<notin> sym_text ` set (block_labels body)" by (metis imageE)
    then show ?thesis unfolding None by simp
  next
    case (Some i)
    then have i: "i < length (block_labels body)" "same_text (?ns ! i) name" using found by auto
    moreover have "fst (?ws ! i) = ?ns ! i" using i(1) len by (metis names nth_map)
    ultimately show ?thesis using Some by simp
  qed
  show ?thesis by (rule conjI [OF names_mset conjI [OF ids search]])
qed

text \<open>
  C25. The labels of a function, once numbered and sorted. They are the names they were made
  from; no number is 0, which stands for the start of a function; two have the same number
  exactly when they have the same name; and searching for a name finds a label of that name,
  whenever there is one.
\<close>

theorem wlabs_numbered:
  assumes "length (block_labels body) < 2 ^ 64 - 1"
  shows "mset (map fst (f_wlabs (linked f body))) = mset (block_labels body) \<and>
    (\<forall>(n, a) \<in> set (f_wlabs (linked f body)). a \<noteq> 0 \<and>
      (\<forall>(m, b) \<in> set (f_wlabs (linked f body)). sym_text n = sym_text m \<longleftrightarrow> a = b)) \<and>
    (case scope_find_wlab (linked f body) name of
       None \<Rightarrow> sym_text name \<notin> sym_text ` set (block_labels body)
     | Some i \<Rightarrow> i < length (block_labels body) \<and>
         sym_text (fst (f_wlabs (linked f body) ! i)) = sym_text name)"
  using assms by (rule labels_numbered)

theorem wlabs_numbered_witness:
  "\<exists>i. scope_find_wlab (linked \<lparr>f_addr = 1, f_expo = False, f_name = sym ''f'', f_params = [], f_rettype = None,
      f_wlabs = []\<rparr> [S_wlab (sym ''b'') 0 0, S_wlab (sym ''a'') 0 0]) (sym ''a'') = Some i"
  using wlabs_numbered [where body = "[S_wlab (sym ''b'') 0 0, S_wlab (sym ''a'') 0 0]" and name = "sym ''a''" and
      f = "\<lparr>f_addr = 1, f_expo = False, f_name = sym ''f'', f_params = [], f_rettype = None, f_wlabs = []\<rparr>"]
  by (auto simp: sym_def split: option.splits)

end
