(* ===== verification/Type_Rules.thy ===== *)
theory Type_Rules
  imports Type_Check Type_Laws Scope_Laws
begin

text \<open>
  The type system of the language as inference rules, and that the checker decides them:
  it accepts an expression exactly when the rules give it a type, and annotates it with that
  type. The rules say which expressions may be assigned to without the checker's tree walk.
\<close>

subsection \<open>Types without layout, and with\<close>

lemma type_copy_all:
  "\<exists>k'. type_copy (\<lambda>_. True) t k = Some (strip t, k')"
  using type_copy_mem(1) [of t k] type_copy_strip(1) [of "\<lambda>_. True" t k] by fast

text \<open>\<open>quantifies t q\<close>: a copy of \<open>t\<close>, with its layout computed, is \<open>q\<close>.\<close>

definition quantifies :: "qtype \<Rightarrow> qtype \<Rightarrow> bool" where
  "quantifies t q \<longleftrightarrow> (\<exists>j. type_quantify (\<lambda>_. True) (strip t) 0 = Inr (q, j))"

lemma quantifies_det: "quantifies t q \<Longrightarrow> quantifies t q' \<Longrightarrow> q = q'"
  by (auto simp: quantifies_def)

subsection \<open>The rules\<close>

definition pointee :: "qtype \<Rightarrow> qtype" where
  "pointee t = uexp_adapt LEX_TK_MULT t"

text \<open>
  \<open>has_type env sc e q\<close>: in the scopes \<open>sc\<close> the expression has the type \<open>q\<close>, with layout.
  \<open>has_args env sc ps e\<close>: the list of arguments \<open>e\<close> has the types of the parameters.
  \<open>assignable env sc e\<close>: the expression denotes an object that is not constant.
\<close>

inductive has_type :: "tenv \<Rightarrow> scopes \<Rightarrow> expr \<Rightarrow> qtype \<Rightarrow> bool"
  and has_args :: "tenv \<Rightarrow> scopes \<Rightarrow> (lex_symbol \<times> qtype) list \<Rightarrow> expr \<Rightarrow> bool"
  and assignable :: "tenv \<Rightarrow> scopes \<Rightarrow> expr \<Rightarrow> bool"
  for env :: tenv and sc :: scopes
where
  T_nmbr: "has_type env sc (E_nmbr v None) (nmbr_type v)"
| T_strl: "has_type env sc (E_strl s None) strl_type"
| T_name: "scope_find_object sc s = Some ob \<Longrightarrow> name_type ob = Inr t \<Longrightarrow> quantifies t q \<Longrightarrow>
    has_type env sc (E_name s x None) q"
| T_enum: "type_symtab_find (te_types env) a = Some (Ty_enum l vs t) \<Longrightarrow>
    (n, v) \<in> set vs \<Longrightarrow> same_text n b \<Longrightarrow> quantifies (with_count 1 (Ty_enum l vs t)) q \<Longrightarrow>
    has_type env sc (E_bexp LEX_TK_SCOP (E_name a x y) (E_name b z w) ref None) q"
| T_label: "has_type env sc e t \<Longrightarrow> scalar t \<Longrightarrow> ty_t t = TYPE_QUAINT \<Longrightarrow>
    label_ref (te_unit env) t r = Inr ref' \<Longrightarrow> quantifies (prim TYPE_U8) q \<Longrightarrow>
    has_type env sc (E_bexp LEX_TK_ATSI e r ref None) q"
| T_member: "has_type env sc e t \<Longrightarrow> scalar t \<Longrightarrow> members_of t = Inr ms \<Longrightarrow>
    find_member field ms = Some (i, m) \<Longrightarrow> quantifies m q \<Longrightarrow>
    has_type env sc (E_bexp LEX_TK_MEMB e (E_name field x y) ref None) q"
| T_arrow: "has_type env sc e (Ty_ptr l s) \<Longrightarrow> lay_count l = 1 \<Longrightarrow> scalar s \<Longrightarrow> members_of s = Inr ms \<Longrightarrow>
    find_member field ms = Some (i, m) \<Longrightarrow> quantifies m q \<Longrightarrow>
    has_type env sc (E_bexp LEX_TK_AROW e (E_name field x y) ref None) q"
| T_assign: "has_type env sc a ta \<Longrightarrow> has_type env sc b tb \<Longrightarrow> assignable env sc a \<Longrightarrow>
    type_equals ta tb \<Longrightarrow> quantifies tb q \<Longrightarrow> has_type env sc (E_bexp LEX_TK_ASSN a b ref None) q"
| T_assign_arith: "op \<in> {LEX_TK_ASPL, LEX_TK_ASMI, LEX_TK_ASMU, LEX_TK_ASDI, LEX_TK_ASMO} \<Longrightarrow>
    has_type env sc a ta \<Longrightarrow> has_type env sc b tb \<Longrightarrow> assignable env sc a \<Longrightarrow> scalar ta \<Longrightarrow> scalar tb \<Longrightarrow>
    arith_operands (op = LEX_TK_ASPL \<or> op = LEX_TK_ASMI) ta tb \<Longrightarrow> quantifies ta q \<Longrightarrow>
    has_type env sc (E_bexp op a b ref None) q"
| T_assign_bits: "op \<in> {LEX_TK_ASLS, LEX_TK_ASRS, LEX_TK_ASAN, LEX_TK_ASXO, LEX_TK_ASOR} \<Longrightarrow>
    has_type env sc a ta \<Longrightarrow> has_type env sc b tb \<Longrightarrow> assignable env sc a \<Longrightarrow> scalar ta \<Longrightarrow> scalar tb \<Longrightarrow>
    bit_operands ta tb \<Longrightarrow> quantifies ta q \<Longrightarrow> has_type env sc (E_bexp op a b ref None) q"
| T_arith: "op \<in> {LEX_TK_PLUS, LEX_TK_MINS, LEX_TK_MULT, LEX_TK_DIVI, LEX_TK_MODU} \<Longrightarrow>
    has_type env sc a ta \<Longrightarrow> has_type env sc b tb \<Longrightarrow> scalar ta \<Longrightarrow> scalar tb \<Longrightarrow>
    arith_operands (op = LEX_TK_PLUS \<or> op = LEX_TK_MINS) ta tb \<Longrightarrow> quantifies ta q \<Longrightarrow>
    has_type env sc (E_bexp op a b ref None) q"
| T_bits: "op \<in> {LEX_TK_LSHF, LEX_TK_RSHF, LEX_TK_AMPS, LEX_TK_CARE, LEX_TK_PIPE} \<Longrightarrow>
    has_type env sc a ta \<Longrightarrow> has_type env sc b tb \<Longrightarrow> scalar ta \<Longrightarrow> scalar tb \<Longrightarrow>
    bit_operands ta tb \<Longrightarrow> quantifies ta q \<Longrightarrow> has_type env sc (E_bexp op a b ref None) q"
| T_equal: "op \<in> {LEX_TK_EQUL, LEX_TK_NEQL} \<Longrightarrow>
    has_type env sc a ta \<Longrightarrow> has_type env sc b tb \<Longrightarrow> ty_count ta = ty_count tb \<Longrightarrow>
    logic_operands ta tb \<Longrightarrow> quantifies (prim TYPE_U8) q \<Longrightarrow> has_type env sc (E_bexp op a b ref None) q"
| T_order: "op \<in> {LEX_TK_LTHN, LEX_TK_GTHN, LEX_TK_LTEQ, LEX_TK_GTEQ, LEX_TK_CONJ, LEX_TK_DISJ} \<Longrightarrow>
    has_type env sc a ta \<Longrightarrow> has_type env sc b tb \<Longrightarrow> scalar ta \<Longrightarrow> scalar tb \<Longrightarrow>
    logic_operands ta tb \<Longrightarrow> quantifies (prim TYPE_U8) q \<Longrightarrow> has_type env sc (E_bexp op a b ref None) q"
| T_comma: "has_type env sc a ta \<Longrightarrow> has_type env sc b tb \<Longrightarrow> quantifies tb q \<Longrightarrow>
    has_type env sc (E_bexp LEX_TK_COMA a b ref None) q"
| T_cast: "op \<in> {LEX_TK_CAST, LEX_TK_COLN} \<Longrightarrow> has_type env sc e t \<Longrightarrow> ty_t t \<noteq> TYPE_VOID \<Longrightarrow>
    quantifies ct q \<Longrightarrow> has_type env sc (E_cast op e (Some ct) None) q"
| T_plus: "has_type env sc e t \<Longrightarrow> scalar t \<Longrightarrow> type_is_integral (ty_t t) \<Longrightarrow> quantifies t q \<Longrightarrow>
    has_type env sc (E_uexp LEX_TK_PLUS e None) q"
| T_minus: "has_type env sc e t \<Longrightarrow> scalar t \<Longrightarrow> type_is_integral (ty_t t) \<Longrightarrow> ty_t t \<noteq> TYPE_ENUM \<Longrightarrow>
    quantifies (uexp_adapt LEX_TK_MINS t) q \<Longrightarrow> has_type env sc (E_uexp LEX_TK_MINS e None) q"
| T_not: "has_type env sc e t \<Longrightarrow> scalar t \<Longrightarrow> integral_or_ptr (ty_t t) \<or> ty_t t = TYPE_QUAINT \<Longrightarrow>
    quantifies t q \<Longrightarrow> has_type env sc (E_uexp LEX_TK_EXCL e None) q"
| T_quaint: "has_type env sc e t \<Longrightarrow> quantifies (Ty_quaint (lay 1) t) q \<Longrightarrow>
    has_type env sc (E_uexp LEX_TK_TILD e None) q"
| T_deref: "has_type env sc e t \<Longrightarrow> scalar t \<Longrightarrow> ty_t t = TYPE_PTR \<Longrightarrow> quantifies (pointee t) q \<Longrightarrow>
    has_type env sc (E_uexp LEX_TK_MULT e None) q"
| T_run: "has_type env sc e t \<Longrightarrow> assignable env sc e \<Longrightarrow> scalar t \<Longrightarrow> ty_t t = TYPE_QUAINT \<Longrightarrow> quantifies (pointee t) q \<Longrightarrow>
    has_type env sc (E_uexp LEX_TK_MULT e None) q"
| T_addr: "has_type env sc e t \<Longrightarrow> assignable env sc e \<Longrightarrow> quantifies (Ty_ptr (lay 1) t) q \<Longrightarrow>
    has_type env sc (E_uexp LEX_TK_AMPS e None) q"
| T_bneg: "has_type env sc e t \<Longrightarrow> scalar t \<Longrightarrow> type_is_integral (ty_t t) \<Longrightarrow> \<not> type_is_signed (ty_t t) \<Longrightarrow>
    quantifies t q \<Longrightarrow> has_type env sc (E_uexp LEX_TK_CARE e None) q"
| T_prefix: "op \<in> {LEX_TK_INCR, LEX_TK_DECR} \<Longrightarrow> has_type env sc e t \<Longrightarrow> assignable env sc e \<Longrightarrow> scalar t \<Longrightarrow>
    integral_or_ptr (ty_t t) \<Longrightarrow> ty_t t \<noteq> TYPE_VPTR \<Longrightarrow> ty_t t \<noteq> TYPE_FPTR \<Longrightarrow> quantifies t q \<Longrightarrow>
    has_type env sc (E_uexp op e None) q"
| T_postfix: "op \<in> {LEX_TK_INCR, LEX_TK_DECR} \<Longrightarrow> has_type env sc e t \<Longrightarrow> assignable env sc e \<Longrightarrow> scalar t \<Longrightarrow>
    integral_or_ptr (ty_t t) \<Longrightarrow> ty_t t \<noteq> TYPE_VPTR \<Longrightarrow> ty_t t \<noteq> TYPE_FPTR \<Longrightarrow> quantifies t q \<Longrightarrow>
    has_type env sc (E_xexp op e None) q"
| T_size: "op \<in> {LEX_TK_SZOF, LEX_TK_ALOF} \<Longrightarrow> quantifies (prim TYPE_USIZE) q \<Longrightarrow>
    has_type env sc (E_size op ts None) q"
| T_call_none: "has_type env sc e (Ty_fptr l [] ret) \<Longrightarrow> lay_count l = 1 \<Longrightarrow>
    quantifies (case ret of None \<Rightarrow> Ty_prim TYPE_VOID (lay 0) | Some r \<Rightarrow> r) q \<Longrightarrow>
    has_type env sc (E_fexp e None 0 None) q"
| T_call: "has_type env sc e (Ty_fptr l ps ret) \<Longrightarrow> lay_count l = 1 \<Longrightarrow> has_args env sc ps args \<Longrightarrow>
    quantifies (case ret of None \<Rightarrow> Ty_prim TYPE_VOID (lay 0) | Some r \<Rightarrow> r) q \<Longrightarrow>
    has_type env sc (E_fexp e (Some args) 0 None) q"
| T_index: "has_type env sc a ta \<Longrightarrow> has_type env sc i ti \<Longrightarrow> \<not> scalar ta \<Longrightarrow>
    type_is_integral (ty_t ti) \<Longrightarrow> \<not> type_is_signed (ty_t ti) \<Longrightarrow> quantifies (with_count 1 ta) q \<Longrightarrow>
    has_type env sc (E_aexp a i None) q"
| T_cond: "has_type env sc c tc \<Longrightarrow> has_type env sc a ta \<Longrightarrow> has_type env sc b tb \<Longrightarrow>
    integral_or_ptr (ty_t tc) \<or> ty_t tc = TYPE_QUAINT \<Longrightarrow> type_equals ta tb \<Longrightarrow> quantifies ta q \<Longrightarrow>
    has_type env sc (E_texp c a b None) q"
| A_last: "has_type env sc e t \<Longrightarrow> type_equals t p \<Longrightarrow> \<not> (\<exists>x y r u. e = E_bexp LEX_TK_COMA x y r u) \<Longrightarrow>
    has_args env sc [(n, p)] e"
| A_null: "has_type env sc e t \<Longrightarrow> type_equals t p \<Longrightarrow> has_args env sc [(n, p)] (E_bexp LEX_TK_COMA e E_null r u)"
| A_more: "has_type env sc e t \<Longrightarrow> type_equals t p \<Longrightarrow> has_args env sc ps rest \<Longrightarrow>
    has_args env sc ((n, p) # ps) (E_bexp LEX_TK_COMA e rest r u)"
| L_name: "scope_find_object sc s = Some ob \<Longrightarrow> obj_modifiable ob = Inr () \<Longrightarrow> assignable env sc (E_name s x None)"
| L_member: "assignable env sc e \<Longrightarrow> assignable env sc (E_bexp LEX_TK_MEMB e f r None)"
| L_arrow: "assignable env sc (E_bexp LEX_TK_AROW e f r None)"
| L_deref: "has_type env sc e t \<Longrightarrow> ty_t t \<noteq> TYPE_QUAINT \<Longrightarrow> assignable env sc (E_uexp LEX_TK_MULT e None)"
| L_index: "assignable env sc a \<Longrightarrow> assignable env sc (E_aexp a i None)"

subsection \<open>Results of the checker's steps\<close>

named_theorems chk_simps \<open>successful results of the steps of the checker\<close>

lemma bind_c_Inr [chk_simps]:
  "bind_c m f k = (Inr y, j) \<longleftrightarrow> (\<exists>x i. m k = (Inr x, i) \<and> f x i = (Inr y, j))"
  by (auto simp: bind_c_def split: prod.splits sum.splits)

lemma both_c_Inr [chk_simps]:
  "both_c m n k = (Inr (x, y), j) \<longleftrightarrow> (\<exists>i. m k = (Inr x, i) \<and> n i = (Inr y, j))"
  by (auto simp: both_c_def split: prod.splits sum.splits type_error.splits)

lemma ret_c_Inr [chk_simps]: "ret_c x k = (Inr y, j) \<longleftrightarrow> y = x \<and> j = k"
  by (auto simp: ret_c_def)

lemma lift_c_Inr [chk_simps]: "lift_c r k = (Inr y, j) \<longleftrightarrow> r = Inr y \<and> j = k"
  by (auto simp: lift_c_def)

lemma untyped_Inr [chk_simps]: "untyped c m k = (Inr y, j) \<longleftrightarrow> c \<and> m k = (Inr y, j)"
  by (auto simp: untyped_def lift_c_def)

lemma alloc_c_Inr [chk_simps]: "alloc_c ok k = (Inr u, j) \<longleftrightarrow> ok k \<and> j = Suc k"
  by (auto simp: alloc_c_def)

lemma need_Inr [chk_simps]: "need c = Inr u \<longleftrightarrow> c"
  by (simp add: need_def bind_simps)

lemma the_type_Inr [chk_simps]: "the_type e = Inr t \<longleftrightarrow> type_of_expr e = Some t"
  by (auto simp: the_type_def split: option.splits)

lemma copy_c_Inr: "copy_c ok t k = (Inr c, j) \<Longrightarrow> c = strip t"
  by (auto simp: copy_c_def dest: type_copy_strip split: option.splits)

lemma copy_c_all: "\<exists>j. copy_c (\<lambda>_. True) t k = (Inr (strip t), j)"
  using type_copy_all [of t k] by (auto simp: copy_c_def)

lemma strip_with_count: "strip (with_count n t) = with_count n (strip t)"
  by (cases t) (auto simp: with_count_def strip_fptr)

lemma strip_count: "ty_count (strip t) = ty_count t"
  by (cases t) (auto simp: strip_fptr)

lemma strip_ty_t: "ty_t (strip t) = ty_t t"
  by (cases t) (auto simp: strip_fptr)

lemma strip_adapt: "uexp_adapt op (strip t) = strip (uexp_adapt op t)"
  by (cases t) (auto simp: uexp_adapt_def strip_fptr)

lemma strip_idem:
  "strip (strip t) = strip t"
  "strip_members (strip_members ms) = strip_members ms"
  by (induction t and ms rule: strip_strip_members.induct) auto

lemma quantify_c_strip:
  assumes "quantify_c ok (strip t) k = (Inr q, j)"
  shows "quantifies t q"
  using assms quantify_all(1) [of ok "strip t" k q _ 0]
  by (auto simp: quantify_c_def quantifies_def split: sum.splits)

lemma quantify_c_all:
  assumes "quantifies t q"
  shows "\<exists>j. quantify_c (\<lambda>_. True) (strip t) k = (Inr q, j)"
proof -
  obtain j where "type_quantify (\<lambda>_. True) (strip t) 0 = Inr (q, j)"
    using assms by (auto simp: quantifies_def)
  from quantify_all(1) [OF this, of k] show ?thesis by (auto simp: quantify_c_def)
qed

lemma finish_Inr:
  assumes "finish_type ok mk (strip t) k = (Inr e, j)"
  obtains q where "e = mk (Some q)" and "quantifies t q"
  using assms quantify_c_strip by (fastforce simp: finish_type_def chk_simps)

lemma finish_all:
  "quantifies t q \<Longrightarrow> \<exists>j. finish_type (\<lambda>_. True) mk (strip t) k = (Inr (mk (Some q)), j)"
  using quantify_c_all [of t q k] by (auto simp: finish_type_def bind_c_def ret_c_def)

fun src_type :: "source \<Rightarrow> qtype" where
  "src_type (Copy t) = t"
| "src_type (Fresh t) = prim t"

lemma make_type_Inr: "make_type ok src k = (Inr c, j) \<Longrightarrow> c = strip (src_type src)"
  by (auto simp: make_type_def chk_simps split: source.splits dest: copy_c_Inr)

lemma make_type_all: "\<exists>j. make_type (\<lambda>_. True) src k = (Inr (strip (src_type src)), j)"
proof (cases src)
  case (Copy t)
  then show ?thesis
    using copy_c_all [of t "Suc k"] by (auto simp: make_type_def bind_c_def alloc_c_def)
qed (auto simp: make_type_def bind_c_def alloc_c_def ret_c_def)

lemma make_finish_Inr:
  assumes "bind_c (make_type ok src) (finish_type ok mk) k = (Inr e, j)"
  obtains q where "e = mk (Some q)" and "quantifies (src_type src) q"
proof -
  obtain c i where c: "make_type ok src k = (Inr c, i)" and f: "finish_type ok mk c i = (Inr e, j)"
    using assms unfolding bind_c_Inr by blast
  show ?thesis by (rule finish_Inr [OF f [unfolded make_type_Inr [OF c]]]) (rule that)
qed

lemma make_finish_all:
  assumes "quantifies (src_type src) q"
  shows "\<exists>j. bind_c (make_type (\<lambda>_. True) src) (finish_type (\<lambda>_. True) mk) k = (Inr (mk (Some q)), j)"
proof -
  obtain i where "make_type (\<lambda>_. True) src k = (Inr (strip (src_type src)), i)"
    using make_type_all by blast
  then show ?thesis using finish_all [OF assms, of mk i] by (auto simp: bind_c_def)
qed

subsection \<open>The checker follows the rules\<close>

lemma bexp_source_type:
  assumes "bexp_source op l ta tb = Inr src" and "quantifies (src_type src) q"
    and a: "has_type env sc a ta" and b: "has_type env sc b tb"
    and l: "expr_is_lvalue l = Inr () \<Longrightarrow> assignable env sc a"
  shows "has_type env sc (E_bexp op a b ref None) q"
proof -
  note r = assms(1)
  have "op = LEX_TK_ASSN \<or> op \<in> {LEX_TK_ASPL, LEX_TK_ASMI, LEX_TK_ASMU, LEX_TK_ASDI, LEX_TK_ASMO} \<or>
    op \<in> {LEX_TK_ASLS, LEX_TK_ASRS, LEX_TK_ASAN, LEX_TK_ASXO, LEX_TK_ASOR} \<or>
    op \<in> {LEX_TK_EQUL, LEX_TK_NEQL} \<or>
    op \<in> {LEX_TK_LTHN, LEX_TK_GTHN, LEX_TK_LTEQ, LEX_TK_GTEQ, LEX_TK_CONJ, LEX_TK_DISJ} \<or>
    op \<in> {LEX_TK_PLUS, LEX_TK_MINS, LEX_TK_MULT, LEX_TK_DIVI, LEX_TK_MODU} \<or>
    op \<in> {LEX_TK_LSHF, LEX_TK_RSHF, LEX_TK_AMPS, LEX_TK_CARE, LEX_TK_PIPE} \<or> op = LEX_TK_COMA"
  proof (rule ccontr)
    assume "\<not> ?thesis"
    then show False using r by (simp only: bexp_source_def de_Morgan_disj if_False sum.simps)
  qed
  then show ?thesis
  proof (elim disjE)
    assume 1: "op = LEX_TK_ASSN"
    then have "src = Copy tb" "expr_is_lvalue l = Inr ()" "type_equals ta tb"
      using r by (auto simp: bexp_source_def bind_simps chk_simps)
    then show ?thesis using T_assign [OF a b] 1 l assms(2) by simp
  next
    assume 2: "op \<in> {LEX_TK_ASPL, LEX_TK_ASMI, LEX_TK_ASMU, LEX_TK_ASDI, LEX_TK_ASMO}"
    then have "src = Copy ta" "expr_is_lvalue l = Inr ()" "scalar ta" "scalar tb"
      "arith_operands (op = LEX_TK_ASPL \<or> op = LEX_TK_ASMI) ta tb"
      using r by (auto simp: bexp_source_def bind_simps chk_simps)
    then show ?thesis using T_assign_arith [OF 2 a b] l assms(2) by simp
  next
    assume 3: "op \<in> {LEX_TK_ASLS, LEX_TK_ASRS, LEX_TK_ASAN, LEX_TK_ASXO, LEX_TK_ASOR}"
    then have "src = Copy ta" "expr_is_lvalue l = Inr ()" "scalar ta" "scalar tb" "bit_operands ta tb"
      using r by (auto simp: bexp_source_def bind_simps chk_simps)
    then show ?thesis using T_assign_bits [OF 3 a b] l assms(2) by simp
  next
    assume 4: "op \<in> {LEX_TK_EQUL, LEX_TK_NEQL}"
    then have "src = Fresh TYPE_U8" "ty_count ta = ty_count tb" "logic_operands ta tb"
      using r by (auto simp: bexp_source_def bind_simps chk_simps)
    then show ?thesis using T_equal [OF 4 a b] assms(2) by simp
  next
    assume 5: "op \<in> {LEX_TK_LTHN, LEX_TK_GTHN, LEX_TK_LTEQ, LEX_TK_GTEQ, LEX_TK_CONJ, LEX_TK_DISJ}"
    then have "src = Fresh TYPE_U8" "scalar ta" "scalar tb" "logic_operands ta tb"
      using r by (auto simp: bexp_source_def bind_simps chk_simps)
    then show ?thesis using T_order [OF 5 a b] assms(2) by simp
  next
    assume 6: "op \<in> {LEX_TK_PLUS, LEX_TK_MINS, LEX_TK_MULT, LEX_TK_DIVI, LEX_TK_MODU}"
    then have "src = Copy ta" "scalar ta" "scalar tb" "arith_operands (op = LEX_TK_PLUS \<or> op = LEX_TK_MINS) ta tb"
      using r by (auto simp: bexp_source_def bind_simps chk_simps)
    then show ?thesis using T_arith [OF 6 a b] assms(2) by simp
  next
    assume 7: "op \<in> {LEX_TK_LSHF, LEX_TK_RSHF, LEX_TK_AMPS, LEX_TK_CARE, LEX_TK_PIPE}"
    then have "src = Copy ta" "scalar ta" "scalar tb" "bit_operands ta tb"
      using r by (auto simp: bexp_source_def bind_simps chk_simps)
    then show ?thesis using T_bits [OF 7 a b] assms(2) by simp
  next
    assume 8: "op = LEX_TK_COMA"
    then have "src = Copy tb" using r by (auto simp: bexp_source_def)
    then show ?thesis using T_comma [OF a b] 8 assms(2) by simp
  qed
qed

lemma uexp_guard_type:
  assumes "uexp_guard op r t = Inr ()" and "quantifies (uexp_adapt op t) q"
    and e: "has_type env sc e t"
    and l: "expr_is_lvalue r = Inr () \<Longrightarrow> assignable env sc e"
  shows "has_type env sc (E_uexp op e None) q"
proof -
  note r = assms(1) and q = assms(2)
  consider "op = LEX_TK_PLUS" | "op = LEX_TK_MINS" | "op = LEX_TK_EXCL" | "op = LEX_TK_TILD"
    | "op = LEX_TK_MULT" | "op = LEX_TK_AMPS" | "op = LEX_TK_CARE" | "op \<in> {LEX_TK_INCR, LEX_TK_DECR}"
    using r unfolding uexp_guard_def by (auto simp: Let_def split: if_split_asm)
  then show ?thesis
  proof cases
    case 1
    then show ?thesis
      using r q e by (auto simp: uexp_guard_def Let_def uexp_adapt_def chk_simps intro: T_plus)
  next
    case 2
    then show ?thesis
      using r q e by (auto simp: uexp_guard_def Let_def chk_simps intro: T_minus)
  next
    case 3
    then show ?thesis
      using r q e by (auto simp: uexp_guard_def Let_def uexp_adapt_def chk_simps type_is_quaint_def intro: T_not)
  next
    case 4
    then show ?thesis
      using q e by (auto simp: uexp_adapt_def intro: T_quaint)
  next
    case 5
    then have g: "type_is_quaint (ty_t t) \<Longrightarrow> expr_is_lvalue r = Inr ()" "scalar t"
      "type_is_ptr (ty_t t) \<or> type_is_quaint (ty_t t)" "ty_t t \<noteq> TYPE_VPTR" "ty_t t \<noteq> TYPE_FPTR"
      using r by (auto simp: uexp_guard_def Let_def chk_simps bind_simps split: if_split_asm)
    then have "ty_t t = TYPE_PTR \<or> ty_t t = TYPE_QUAINT" by (auto simp: type_is_ptr_def type_is_quaint_def)
    then show ?thesis
      using g q e l 5 by (auto simp: pointee_def type_is_quaint_def intro: T_deref T_run)
  next
    case 6
    then show ?thesis
      using r q e l by (auto simp: uexp_guard_def Let_def uexp_adapt_def intro: T_addr)
  next
    case 7
    then show ?thesis
      using r q e by (auto simp: uexp_guard_def Let_def uexp_adapt_def chk_simps intro: T_bneg)
  next
    case 8
    then show ?thesis
      using r q e l by (auto simp: uexp_guard_def Let_def uexp_adapt_def chk_simps bind_simps intro: T_prefix)
  qed
qed

definition sound :: "tenv \<Rightarrow> scopes \<Rightarrow> expr \<Rightarrow> expr \<Rightarrow> bool" where
  "sound env sc e e' \<longleftrightarrow>
     (\<exists>q. type_of_expr e' = Some q \<and> has_type env sc e q) \<and>
     (expr_is_lvalue e' = Inr () \<longrightarrow> assignable env sc e)"

lemma xexp_guard_type:
  assumes "xexp_guard op l t = Inr ()" and "quantifies t q" and "has_type env sc e t"
    and "expr_is_lvalue l = Inr () \<Longrightarrow> assignable env sc e"
  shows "has_type env sc (E_xexp op e None) q"
  using assms by (auto simp: xexp_guard_def Let_def bind_simps chk_simps intro: T_postfix split: if_split_asm)

lemma label_ref_scalar: "label_ref u t r = Inr x \<Longrightarrow> scalar t \<and> ty_t t = TYPE_QUAINT"
  by (auto simp: label_ref_def bind_simps chk_simps type_is_quaint_def)

lemma member_source_type:
  assumes "member_source op t r = Inr (i, m)" and "quantifies m q" and "has_type env sc e t"
    and "op \<in> {LEX_TK_MEMB, LEX_TK_AROW}"
  shows "has_type env sc (E_bexp op e r ref None) q"
proof -
  obtain field x y where r: "r = E_name field x y"
    using assms(1) by (auto simp: member_source_def bind_simps split: expr.splits)
  show ?thesis
  proof (cases "op = LEX_TK_MEMB")
    case True
    then show ?thesis
      using assms r by (auto simp: member_source_def bind_simps chk_simps split: option.splits intro: T_member)
  next
    case False
    then show ?thesis
      using assms r by (auto simp: member_source_def bind_simps chk_simps split: option.splits qtype.splits intro: T_arrow)
  qed
qed

lemma scoped_name_type:
  assumes "scoped_name env (E_bexp LEX_TK_SCOP l r ref None) = Inr t" and "quantifies (with_count 1 t) q"
  shows "has_type env sc (E_bexp LEX_TK_SCOP l r ref None) q"
  using assms
  by (auto simp: scoped_name_def bind_simps chk_simps split: expr.splits option.splits qtype.splits intro: T_enum)

lemma lvalue_bexp:
  assumes "expr_is_lvalue (E_bexp op l' r ref t) = Inr ()" and "expr_is_lvalue l' = Inr () \<longrightarrow> assignable env sc l"
  shows "assignable env sc (E_bexp op l r' ref' None)"
  using assms by (auto simp: typed_def split: if_split_asm intro: L_member L_arrow)

lemma sound_intro:
  assumes "e' = mk (Some q)" and "type_of_expr (mk (Some q)) = Some q" and "has_type env sc e q"
    and "expr_is_lvalue (mk (Some q)) = Inr () \<Longrightarrow> assignable env sc e"
  shows "sound env sc e e'"
  using assms by (auto simp: sound_def)

lemma check_expr_sound:
  "check_expr env sc e k = (Inr e', k') \<Longrightarrow> sound env sc e e'"
  "check_args env sc ps a k = (Inr a', k') \<Longrightarrow> has_args env sc ps a"
proof (induction env sc e k and env sc ps a k arbitrary: e' k' and a' k'
    rule: check_expr_check_args.induct)
  case (1 env sc op l r ref t k)
  have t: "t = None" using "1.prems" by (auto simp: untyped_def lift_c_def split: if_split_asm)
  consider (scop) "op = LEX_TK_SCOP" | (label) "op = LEX_TK_ATSI" | (member) "op \<in> {LEX_TK_MEMB, LEX_TK_AROW}"
    | (other) "op \<noteq> LEX_TK_SCOP" "op \<noteq> LEX_TK_ATSI" "op \<notin> {LEX_TK_MEMB, LEX_TK_AROW}" by blast
  then show ?case
  proof cases
    case scop
    then obtain st c i j where st: "scoped_name env (E_bexp op l r ref t) = Inr st"
      and c: "make_type (te_mem env) (Copy st) i = (Inr c, j)"
      and f: "finish_type (te_mem env) (E_bexp op l r ref) (with_count 1 c) j = (Inr e', k')"
      using "1.prems" t by (auto simp: chk_simps)
    from make_type_Inr [OF c] have "with_count 1 c = strip (with_count 1 st)" by (simp add: strip_with_count)
    from finish_Inr [OF f [unfolded this]] obtain q where
      q: "e' = E_bexp op l r ref (Some q)" "quantifies (with_count 1 st) q" by blast
    show ?thesis
      using q scoped_name_type [OF st [unfolded scop t] q(2)] scop t
      by (auto simp: sound_def typed_def)
  next
    case label
    then obtain l' lt ref' i j where l': "check_expr env sc l k = (Inr l', i)" "type_of_expr l' = Some lt"
      and lr: "label_ref (te_unit env) lt r = Inr ref'"
      and f: "bind_c (make_type (te_mem env) (Fresh TYPE_U8)) (finish_type (te_mem env) (E_bexp op l' r ref')) j = (Inr e', k')"
      using "1.prems" t by (fastforce simp: chk_simps)
    have s: "sound env sc l l'" using "1.IH" label t l'(1) by auto
    from make_finish_Inr [OF f] obtain q where
      q: "e' = E_bexp op l' r ref' (Some q)" "quantifies (prim TYPE_U8) q" by auto
    show ?thesis
      using q label t s l'(2) label_ref_scalar [OF lr] T_label [OF _ _ _ lr]
      by (auto simp: sound_def typed_def)
  next
    case member
    then obtain l' lt m n i j where l': "check_expr env sc l k = (Inr l', i)" "type_of_expr l' = Some lt"
      and m: "member_source op lt r = Inr (n, m)"
      and f: "bind_c (make_type (te_mem env) (Copy m)) (finish_type (te_mem env) (E_bexp op l' r (Member_idx n))) j = (Inr e', k')"
      using "1.prems" t by (fastforce simp: chk_simps)
    have s: "sound env sc l l'" using "1.IH" member t l'(1) by auto
    from make_finish_Inr [OF f] obtain q where
      q: "e' = E_bexp op l' r (Member_idx n) (Some q)" "quantifies m q" by auto
    have "has_type env sc l lt" using s l'(2) by (auto simp: sound_def)
    then have "has_type env sc (E_bexp op l r ref None) q"
      by (rule member_source_type [OF m q(2) _ member])
    then show ?thesis
      using q(1) t s lvalue_bexp [of op l' r "Member_idx n" "Some q" env sc l r ref] by (auto simp: sound_def)
  next
    case other
    then obtain l' r' i lt rt src j where c: "check_expr env sc l k = (Inr l', i)" "check_expr env sc r i = (Inr r', j)"
      and ty: "type_of_expr l' = Some lt" "type_of_expr r' = Some rt"
      and b: "bexp_source op l' lt rt = Inr src"
      and f: "bind_c (make_type (te_mem env) src) (finish_type (te_mem env) (E_bexp op l' r' ref)) j = (Inr e', k')"
      using "1.prems" t by (simp add: chk_simps) blast
    have s: "sound env sc l l'" "sound env sc r r'" using "1.IH" other c by auto
    from make_finish_Inr [OF f] obtain q where
      q: "e' = E_bexp op l' r' ref (Some q)" "quantifies (src_type src) q" by auto
    have "has_type env sc (E_bexp op l r ref None) q"
      using s ty by (intro bexp_source_type [OF b q(2)]) (auto simp: sound_def)
    then show ?thesis
      using q(1) t s lvalue_bexp [of op l' r' ref "Some q" env sc l r ref] by (auto simp: sound_def)
  qed
next
  case (2 env sc op l cast t k)
  then obtain l' lt ct i j where t: "t = None" "op \<in> {LEX_TK_CAST, LEX_TK_COLN}" and c: "check_expr env sc l k = (Inr l', i)"
    and ty: "type_of_expr l' = Some lt" "ty_t lt \<noteq> TYPE_VOID" and ct: "cast = Some ct"
    and f: "bind_c (make_type (te_mem env) (Copy ct)) (finish_type (te_mem env) (E_cast op l' cast)) j = (Inr e', k')"
    by (fastforce simp: chk_simps split: option.splits)
  have s: "sound env sc l l'" using "2.IH" c by auto
  from make_finish_Inr [OF f] obtain q where "e' = E_cast op l' cast (Some q)" "quantifies ct q" by auto
  then show ?case
    using s ty t ct by (auto simp: sound_def typed_def intro: T_cast)
next
  case (3 env sc op r t k)
  then obtain r' rt c i j1 j2 j3 where t: "t = None" and r': "check_expr env sc r i = (Inr r', j1)"
    and ty: "type_of_expr r' = Some rt" and c: "copy_c (te_mem env) rt j1 = (Inr c, j2)"
    and g: "uexp_guard op r' rt = Inr ()"
    and f: "finish_type (te_mem env) (E_uexp op r') (uexp_adapt op c) j3 = (Inr e', k')"
    by (fastforce simp: chk_simps)
  have s: "sound env sc r r'" using "3.IH" r' by auto
  have "uexp_adapt op c = strip (uexp_adapt op rt)" using copy_c_Inr [OF c] by (simp add: strip_adapt)
  from finish_Inr [OF f [unfolded this]] obtain q where
    q: "e' = E_uexp op r' (Some q)" "quantifies (uexp_adapt op rt) q" by blast
  have h: "has_type env sc r rt" using s ty by (auto simp: sound_def)
  have "has_type env sc (E_uexp op r None) q"
    using s by (intro uexp_guard_type [OF g q(2) h]) (auto simp: sound_def)
  then show ?case
    using q(1) t ty L_deref [OF h] by (auto simp: sound_def typed_def need_Inr split: if_split_asm)
next
  case (4 env sc op ts t k)
  then have t: "t = None" "op \<in> {LEX_TK_SZOF, LEX_TK_ALOF}"
    and f: "bind_c (make_type (te_mem env) (Fresh TYPE_USIZE)) (finish_type (te_mem env) (E_size op ts)) k = (Inr e', k')"
    by (auto simp: untyped_Inr)
  from make_finish_Inr [OF f] obtain q where "e' = E_size op ts (Some q)" "quantifies (prim TYPE_USIZE) q" by auto
  then show ?case using t by (auto simp: sound_def typed_def intro: T_size)
next
  case (6 env sc op l t k)
  then obtain l' lt c i j1 where t: "t = None" and l': "check_expr env sc l k = (Inr l', i)"
    and ty: "type_of_expr l' = Some lt" and c: "make_type (te_mem env) (Copy lt) i = (Inr c, j1)"
    and g: "xexp_guard op l' lt = Inr ()"
    and f: "finish_type (te_mem env) (E_xexp op l') c j1 = (Inr e', k')"
    by (fastforce simp: chk_simps)
  have s: "sound env sc l l'" using "6.IH" l' by auto
  have "c = strip lt" using make_type_Inr [OF c] by simp
  from finish_Inr [OF f [unfolded this]] obtain q where q: "e' = E_xexp op l' (Some q)" "quantifies lt q" by blast
  then show ?case
    using s ty t xexp_guard_type [OF g q(2)] by (auto simp: sound_def)
next
  case (7 env sc b off t k)
  then obtain b' off' i j bt ot c j1 where t: "t = None" and ch: "check_expr env sc b k = (Inr b', i)" "check_expr env sc off i = (Inr off', j)"
    and ty: "type_of_expr b' = Some bt" "type_of_expr off' = Some ot"
    and g: "\<not> scalar bt" "type_is_integral (ty_t ot)" "\<not> type_is_signed (ty_t ot)"
    and c: "make_type (te_mem env) (Copy bt) j = (Inr c, j1)"
    and f: "finish_type (te_mem env) (E_aexp b' off') (with_count 1 c) j1 = (Inr e', k')"
    by (fastforce simp: chk_simps)
  have s: "sound env sc b b'" "sound env sc off off'" using "7.IH" ch by auto
  have "with_count 1 c = strip (with_count 1 bt)" using make_type_Inr [OF c] by (simp add: strip_with_count)
  from finish_Inr [OF f [unfolded this]] obtain q where
    q: "e' = E_aexp b' off' (Some q)" "quantifies (with_count 1 bt) q" by blast
  then show ?case
    using s ty g t by (auto simp: sound_def typed_def intro: T_index L_index)
next
  case (8 env sc c x y t k)
  then obtain c' x' y' i1 i2 j ct xt yt where t: "t = None"
    and ch: "check_expr env sc c k = (Inr c', i1)" "check_expr env sc x i1 = (Inr x', i2)" "check_expr env sc y i2 = (Inr y', j)"
    and ty: "type_of_expr c' = Some ct" "type_of_expr x' = Some xt" "type_of_expr y' = Some yt"
    and g: "integral_or_ptr (ty_t ct) \<or> type_is_quaint (ty_t ct)" "type_equals xt yt"
    and f: "bind_c (make_type (te_mem env) (Copy xt)) (finish_type (te_mem env) (E_texp c' x' y')) j = (Inr e', k')"
    by (fastforce simp: chk_simps)
  have s: "sound env sc c c'" "sound env sc x x'" "sound env sc y y'" using "8.IH" ch by auto
  from make_finish_Inr [OF f] obtain q where "e' = E_texp c' x' y' (Some q)" "quantifies xt q" by auto
  then show ?case
    using s ty g t by (auto simp: sound_def typed_def type_is_quaint_def intro: T_cond)
next
  case (9 env sc n ob t k)
  then obtain found nt c i j where t: "t = None" and found: "scope_find_object sc n = Some found" "name_type found = Inr nt"
    and c: "copy_c (te_mem env) nt i = (Inr c, j)"
    and f: "finish_type (te_mem env) (E_name n (Some found)) c j = (Inr e', k')"
    by (fastforce simp: chk_simps split: option.splits)
  from finish_Inr [OF f [unfolded copy_c_Inr [OF c]]] obtain q where
    q: "e' = E_name n (Some found) (Some q)" "quantifies nt q" by blast
  then show ?case
    using found t by (auto simp: sound_def typed_def intro: T_name L_name)
next
  case (10 env sc v t k)
  then show ?case by (auto simp: chk_simps sound_def intro: T_nmbr)
next
  case (11 env sc n t k)
  then show ?case by (auto simp: chk_simps sound_def intro: T_strl)
next
  case (5 env sc l args n t k)
  from "5.prems" have t: "t = None" "n = 0" by (auto simp: untyped_Inr)
  from "5.prems" t obtain l' lt i where l': "check_expr env sc l k = (Inr l', i)" "type_of_expr l' = Some lt"
    by (auto simp: chk_simps)
  have "\<exists>ly ps ret. lt = Ty_fptr ly ps ret"
    using "5.prems" t l' by (cases lt) (auto simp: chk_simps)
  then obtain ly ps ret where lt: "lt = Ty_fptr ly ps ret" by blast
  from "5.prems" t l' lt obtain args' j where one: "lay_count ly = 1"
    and as: "(case args of
        None \<Rightarrow> lift_c (bind_r (need (ps = [])) (\<lambda>_. Inr None))
      | Some a \<Rightarrow> bind_c (check_args env sc ps a) (\<lambda>a. ret_c (Some a))) i = (Inr args', j)"
    and f: "bind_c (alloc_c (te_mem env)) (\<lambda>_. bind_c (case ret of None \<Rightarrow> ret_c (Ty_prim TYPE_VOID (lay 0))
        | Some rt \<Rightarrow> copy_c (te_mem env) rt) (finish_type (te_mem env) (E_fexp l' args' (length ps)))) j = (Inr e', k')"
    by (simp add: bind_c_Inr untyped_Inr lift_c_Inr need_Inr the_type_Inr) blast
  let ?rt = "case ret of None \<Rightarrow> Ty_prim TYPE_VOID (lay 0) | Some r \<Rightarrow> r"
  from f obtain c j1 where "c = strip ?rt" and f': "finish_type (te_mem env) (E_fexp l' args' (length ps)) c j1 = (Inr e', k')"
    by (cases ret) (auto simp: chk_simps dest: copy_c_Inr)
  from finish_Inr [OF f' [unfolded this(1)]] obtain q where
    q: "e' = E_fexp l' args' (length ps) (Some q)" "quantifies ?rt q" by blast
  have s: "sound env sc l l'" using "5.IH" l'(1) by auto
  then have h: "has_type env sc l (Ty_fptr ly ps ret)" using l'(2) lt by (auto simp: sound_def)
  have "has_type env sc (E_fexp l args 0 None) q"
  proof (cases args)
    case None
    then have "ps = []" using as by (simp add: chk_simps bind_simps)
    then show ?thesis using T_call_none [of env sc l ly ret q] h one q(2) None by simp
  next
    case (Some a)
    then obtain a' j2 where "check_args env sc ps a i = (Inr a', j2)" using as by (auto simp: chk_simps)
    then have "has_args env sc ps a" using "5.IH"(2) l' lt one Some by auto
    then show ?thesis using T_call [OF h one _ q(2)] Some by simp
  qed
  then show ?case using q t by (simp add: sound_def)
next
  case (14 env sc ps a k)
  then obtain n p ps' where ps: "ps = (n, p) # ps'" by (cases ps) (auto simp: lift_c_def)
  show ?case
  proof (cases "\<exists>x rest ref t. a = E_bexp LEX_TK_COMA x rest ref t")
    case True
    then obtain x rest ref t where a: "a = E_bexp LEX_TK_COMA x rest ref t" by blast
    from "14.prems" ps a obtain x' xt i where x': "check_expr env sc x k = (Inr x', i)" "type_of_expr x' = Some xt"
      "type_equals xt p" by (auto simp: chk_simps)
    have h: "has_type env sc x xt" using "14.IH"(3) [OF ps refl a refl x'(1)] x'(2) by (auto simp: sound_def)
    show ?thesis
    proof (cases "rest = E_null")
      case True
      then have "ps' = []" using "14.prems" ps a x' by (auto simp: chk_simps bind_simps)
      then show ?thesis using A_null [OF h x'(3)] ps a True by simp
    next
      case False
      then obtain rest' j where "check_args env sc ps' rest i = (Inr rest', j)"
        using "14.prems" ps a x' by (auto simp: chk_simps)
      then have "has_args env sc ps' rest" by (rule "14.IH"(4) [OF ps refl a refl False])
      then show ?thesis using A_more [OF h x'(3)] ps a by simp
    qed
  next
    case False
    then have "\<exists>x' xt i. check_expr env sc a k = (Inr x', i) \<and> type_of_expr x' = Some xt \<and> type_equals xt p \<and> ps' = []"
      using "14.prems" ps by (cases a) (auto simp: chk_simps split: if_split_asm)
    then obtain x' xt i where x': "check_expr env sc a k = (Inr x', i)" "type_of_expr x' = Some xt"
      "type_equals xt p" "ps' = []" by blast
    have "sound env sc a x'" using "14.IH"(1,2,6,7,8,9,10,11,12,13,14,15) [OF ps refl _ x'(1)]
        "14.IH"(5) [OF ps refl _ _ x'(1)] False by (cases a) auto
    then have "has_type env sc a xt" using x'(2) by (auto simp: sound_def)
    then show ?thesis using A_last [OF _ x'(3) False] ps x'(4) by simp
  qed
qed (auto simp: lift_c_def)

subsection \<open>What the rules type is accepted\<close>

declare check_args.simps [simp del]

definition accepts :: "tenv \<Rightarrow> scopes \<Rightarrow> expr \<Rightarrow> qtype \<Rightarrow> bool" where
  "accepts env sc e q \<longleftrightarrow> (\<forall>k. \<exists>e' j. check_expr env sc e k = (Inr e', j) \<and> type_of_expr e' = Some q)"

definition accepts_args :: "tenv \<Rightarrow> scopes \<Rightarrow> (lex_symbol \<times> qtype) list \<Rightarrow> expr \<Rightarrow> bool" where
  "accepts_args env sc ps a \<longleftrightarrow> (\<forall>k. \<exists>a' j. check_args env sc ps a k = (Inr a', j))"

definition lvalue :: "tenv \<Rightarrow> scopes \<Rightarrow> expr \<Rightarrow> bool" where
  "lvalue env sc e \<longleftrightarrow> (\<forall>k e' j. check_expr env sc e k = (Inr e', j) \<longrightarrow> expr_is_lvalue e' = Inr ())"

lemma acceptsE:
  assumes "accepts env sc e q"
  obtains e' j where "check_expr env sc e k = (Inr e', j)" and "type_of_expr e' = Some q"
  using assms unfolding accepts_def by blast

lemma acceptsI:
  "(\<And>k. \<exists>e' j. check_expr env sc e k = (Inr e', j) \<and> type_of_expr e' = Some q) \<Longrightarrow> accepts env sc e q"
  by (simp add: accepts_def)

lemma lvalueD: "lvalue env sc e \<Longrightarrow> check_expr env sc e k = (Inr e', j) \<Longrightarrow> expr_is_lvalue e' = Inr ()"
  unfolding lvalue_def by blast

lemma bind_c_step: "m k = (Inr x, i) \<Longrightarrow> bind_c m f k = f x i"
  by (simp add: bind_c_def)

lemma both_c_step: "m k = (Inr x, i) \<Longrightarrow> n i = (Inr y, j) \<Longrightarrow> both_c m n k = (Inr (x, y), j)"
  by (simp add: both_c_def)

lemmas step_simps = bind_c_step both_c_step ret_c_def lift_c_def untyped_def the_type_def need_def

abbreviation unlimited :: "tenv \<Rightarrow> bool" where
  "unlimited env \<equiv> te_mem env = (\<lambda>_. True)"

lemma accepts_bexp:
  assumes mem: "unlimited env" and a: "accepts env sc a ta" and b: "accepts env sc b tb"
    and src: "\<And>k a' j. check_expr env sc a k = (Inr a', j) \<Longrightarrow> bexp_source op a' ta tb = Inr src"
    and q: "quantifies (src_type src) q"
    and op: "op \<noteq> LEX_TK_SCOP" "op \<noteq> LEX_TK_ATSI" "op \<notin> {LEX_TK_MEMB, LEX_TK_AROW}"
  shows "accepts env sc (E_bexp op a b ref None) q"
proof (rule acceptsI)
  fix k
  obtain a' i where a': "check_expr env sc a k = (Inr a', i)" "type_of_expr a' = Some ta" by (rule acceptsE [OF a])
  obtain b' j where b': "check_expr env sc b i = (Inr b', j)" "type_of_expr b' = Some tb" by (rule acceptsE [OF b])
  obtain j' where "bind_c (make_type (\<lambda>_. True) src) (finish_type (\<lambda>_. True) (E_bexp op a' b' ref)) j =
      (Inr (E_bexp op a' b' ref (Some q)), j')"
    using make_finish_all [OF q] by blast
  then show "\<exists>e' j. check_expr env sc (E_bexp op a b ref None) k = (Inr e', j) \<and> type_of_expr e' = Some q"
    using op src [OF a'(1)] by (simp add: step_simps a' b' mem)
qed

lemma accepts_member:
  assumes mem: "unlimited env" and a: "accepts env sc a ta"
    and m: "member_source op ta r = Inr (i, m)" and q: "quantifies m q" and op: "op \<in> {LEX_TK_MEMB, LEX_TK_AROW}"
  shows "accepts env sc (E_bexp op a r ref None) q"
proof (rule acceptsI)
  fix k
  obtain a' j where a': "check_expr env sc a k = (Inr a', j)" "type_of_expr a' = Some ta" by (rule acceptsE [OF a])
  obtain j' where "bind_c (make_type (\<lambda>_. True) (Copy m)) (finish_type (\<lambda>_. True) (E_bexp op a' r (Member_idx i))) j =
      (Inr (E_bexp op a' r (Member_idx i) (Some q)), j')"
    using make_finish_all [of "Copy m" q] q by auto
  then show "\<exists>e' j. check_expr env sc (E_bexp op a r ref None) k = (Inr e', j) \<and> type_of_expr e' = Some q"
    using op m by (auto simp: step_simps a' mem)
qed

lemma accepts_label:
  assumes mem: "unlimited env" and a: "accepts env sc a ta"
    and l: "label_ref (te_unit env) ta r = Inr ref'" and q: "quantifies (prim TYPE_U8) q"
  shows "accepts env sc (E_bexp LEX_TK_ATSI a r ref None) q"
proof (rule acceptsI)
  fix k
  obtain a' j where a': "check_expr env sc a k = (Inr a', j)" "type_of_expr a' = Some ta" by (rule acceptsE [OF a])
  obtain j' where "bind_c (make_type (\<lambda>_. True) (Fresh TYPE_U8)) (finish_type (\<lambda>_. True) (E_bexp LEX_TK_ATSI a' r ref')) j =
      (Inr (E_bexp LEX_TK_ATSI a' r ref' (Some q)), j')"
    using make_finish_all [of "Fresh TYPE_U8" q] q by auto
  then show "\<exists>e' j. check_expr env sc (E_bexp LEX_TK_ATSI a r ref None) k = (Inr e', j) \<and> type_of_expr e' = Some q"
    using l by (simp add: step_simps a' mem)
qed

lemma accepts_scoped:
  assumes mem: "unlimited env" and n: "scoped_name env (E_bexp LEX_TK_SCOP a b ref None) = Inr t"
    and q: "quantifies (with_count 1 t) q"
  shows "accepts env sc (E_bexp LEX_TK_SCOP a b ref None) q"
proof (rule acceptsI)
  fix k
  obtain i where i: "make_type (\<lambda>_. True) (Copy t) k = (Inr (strip t), i)"
    using make_type_all [of "Copy t" k] by auto
  obtain j where "finish_type (\<lambda>_. True) (E_bexp LEX_TK_SCOP a b ref) (with_count 1 (strip t)) i =
      (Inr (E_bexp LEX_TK_SCOP a b ref (Some q)), j)"
    using finish_all [OF q] unfolding strip_with_count by blast
  then show "\<exists>e' j. check_expr env sc (E_bexp LEX_TK_SCOP a b ref None) k = (Inr e', j) \<and> type_of_expr e' = Some q"
    using n i by (simp add: step_simps mem)
qed

lemma accepts_cast:
  assumes mem: "unlimited env" and a: "accepts env sc a ta" and "ty_t ta \<noteq> TYPE_VOID"
    and q: "quantifies ct q" and op: "op \<in> {LEX_TK_CAST, LEX_TK_COLN}"
  shows "accepts env sc (E_cast op a (Some ct) None) q"
proof (rule acceptsI)
  fix k
  obtain a' j where a': "check_expr env sc a k = (Inr a', j)" "type_of_expr a' = Some ta" by (rule acceptsE [OF a])
  obtain j' where "bind_c (make_type (\<lambda>_. True) (Copy ct)) (finish_type (\<lambda>_. True) (E_cast op a' (Some ct))) j =
      (Inr (E_cast op a' (Some ct) (Some q)), j')"
    using make_finish_all [of "Copy ct" q] q by auto
  then show "\<exists>e' j. check_expr env sc (E_cast op a (Some ct) None) k = (Inr e', j) \<and> type_of_expr e' = Some q"
    using op assms(3) by (auto simp: step_simps a' mem)
qed

lemma accepts_uexp:
  assumes mem: "unlimited env" and e: "accepts env sc e t"
    and g: "\<And>k e' j. check_expr env sc e k = (Inr e', j) \<Longrightarrow> uexp_guard op e' t = Inr ()"
    and q: "quantifies (uexp_adapt op t) q"
  shows "accepts env sc (E_uexp op e None) q"
proof (rule acceptsI)
  fix k
  obtain e' j where e': "check_expr env sc e (Suc k) = (Inr e', j)" "type_of_expr e' = Some t" by (rule acceptsE [OF e])
  obtain i where i: "copy_c (\<lambda>_. True) t j = (Inr (strip t), i)" using copy_c_all by blast
  have "\<exists>j. finish_type (\<lambda>_. True) (E_uexp op e') (uexp_adapt op (strip t)) i' = (Inr (E_uexp op e' (Some q)), j)" for i'
    using finish_all [OF q] unfolding strip_adapt by blast
  then show "\<exists>e' j. check_expr env sc (E_uexp op e None) k = (Inr e', j) \<and> type_of_expr e' = Some q"
    using i g [OF e'(1)] e' by (auto simp: step_simps mem alloc_c_def) (metis type_of_expr.simps(3))+
qed

lemma accepts_xexp:
  assumes mem: "unlimited env" and e: "accepts env sc e t"
    and g: "\<And>k e' j. check_expr env sc e k = (Inr e', j) \<Longrightarrow> xexp_guard op e' t = Inr ()"
    and q: "quantifies t q"
  shows "accepts env sc (E_xexp op e None) q"
proof (rule acceptsI)
  fix k
  obtain e' j where e': "check_expr env sc e k = (Inr e', j)" "type_of_expr e' = Some t" by (rule acceptsE [OF e])
  obtain i where i: "make_type (\<lambda>_. True) (Copy t) j = (Inr (strip t), i)"
    using make_type_all [of "Copy t" j] by auto
  obtain j' where "finish_type (\<lambda>_. True) (E_xexp op e') (strip t) i = (Inr (E_xexp op e' (Some q)), j')"
    using finish_all [OF q] by blast
  then show "\<exists>e' j. check_expr env sc (E_xexp op e None) k = (Inr e', j) \<and> type_of_expr e' = Some q"
    using i g [OF e'(1)] e' by (simp add: step_simps mem)
qed

lemma accepts_argsE:
  assumes "accepts_args env sc ps a"
  obtains a' j where "check_args env sc ps a k = (Inr a', j)"
  using assms unfolding accepts_args_def by blast

lemma accepts_call:
  assumes mem: "unlimited env" and e: "accepts env sc e (Ty_fptr ly ps ret)" and one: "lay_count ly = 1"
    and args: "case args of None \<Rightarrow> ps = [] | Some a \<Rightarrow> accepts_args env sc ps a"
    and q: "quantifies (case ret of None \<Rightarrow> Ty_prim TYPE_VOID (lay 0) | Some r \<Rightarrow> r) q"
  shows "accepts env sc (E_fexp e args 0 None) q"
proof (rule acceptsI)
  fix k
  let ?t = "case ret of None \<Rightarrow> Ty_prim TYPE_VOID (lay 0) | Some r \<Rightarrow> r"
  obtain e' j where e': "check_expr env sc e k = (Inr e', j)" "type_of_expr e' = Some (Ty_fptr ly ps ret)"
    by (rule acceptsE [OF e])
  have "\<exists>args' i. (case args of
      None \<Rightarrow> lift_c (bind_r (need (ps = [])) (\<lambda>_. Inr None))
    | Some a \<Rightarrow> bind_c (check_args env sc ps a) (\<lambda>a. ret_c (Some a))) j = (Inr args', i)"
  proof (cases args)
    case None
    then show ?thesis using args by (simp add: lift_c_def need_def)
  next
    case (Some a)
    then have "accepts_args env sc ps a" using args by simp
    then obtain a' i where "check_args env sc ps a j = (Inr a', i)" by (rule accepts_argsE)
    then show ?thesis using Some by (simp add: bind_c_def ret_c_def)
  qed
  then obtain args' i where as: "(case args of
      None \<Rightarrow> lift_c (bind_r (need (ps = [])) (\<lambda>_. Inr None))
    | Some a \<Rightarrow> bind_c (check_args env sc ps a) (\<lambda>a. ret_c (Some a))) j = (Inr args', i)" by blast
  have "\<exists>i'. (case ret of None \<Rightarrow> ret_c (Ty_prim TYPE_VOID (lay 0)) | Some rt \<Rightarrow> copy_c (\<lambda>_. True) rt) (Suc i) =
      (Inr (strip ?t), i')"
    using copy_c_all by (cases ret) (auto simp: ret_c_def)
  then obtain i' where c: "(case ret of None \<Rightarrow> ret_c (Ty_prim TYPE_VOID (lay 0))
    | Some rt \<Rightarrow> copy_c (te_mem env) rt) (Suc i) = (Inr (strip ?t), i')" unfolding mem by blast
  obtain j' where "finish_type (\<lambda>_. True) (E_fexp e' args' (length ps)) (strip ?t) i' =
      (Inr (E_fexp e' args' (length ps) (Some q)), j')"
    using finish_all [OF q] by blast
  then show "\<exists>e' j. check_expr env sc (E_fexp e args 0 None) k = (Inr e', j) \<and> type_of_expr e' = Some q"
    using one as c by (simp add: step_simps e' mem alloc_c_def)
qed

lemma accepts_index:
  assumes mem: "unlimited env" and a: "accepts env sc a ta" and b: "accepts env sc b tb"
    and g: "\<not> scalar ta" "type_is_integral (ty_t tb)" "\<not> type_is_signed (ty_t tb)"
    and q: "quantifies (with_count 1 ta) q"
  shows "accepts env sc (E_aexp a b None) q"
proof (rule acceptsI)
  fix k
  obtain a' i where a': "check_expr env sc a k = (Inr a', i)" "type_of_expr a' = Some ta" by (rule acceptsE [OF a])
  obtain b' j where b': "check_expr env sc b i = (Inr b', j)" "type_of_expr b' = Some tb" by (rule acceptsE [OF b])
  obtain i' where i': "make_type (\<lambda>_. True) (Copy ta) j = (Inr (strip ta), i')"
    using make_type_all [of "Copy ta" j] by auto
  obtain j' where "finish_type (\<lambda>_. True) (E_aexp a' b') (with_count 1 (strip ta)) i' = (Inr (E_aexp a' b' (Some q)), j')"
    using finish_all [OF q] unfolding strip_with_count by blast
  then show "\<exists>e' j. check_expr env sc (E_aexp a b None) k = (Inr e', j) \<and> type_of_expr e' = Some q"
    using g i' by (simp add: step_simps a' b' mem)
qed

lemma accepts_cond:
  assumes mem: "unlimited env" and c: "accepts env sc c tc" and a: "accepts env sc a ta" and b: "accepts env sc b tb"
    and g: "integral_or_ptr (ty_t tc) \<or> ty_t tc = TYPE_QUAINT" "type_equals ta tb" and q: "quantifies ta q"
  shows "accepts env sc (E_texp c a b None) q"
proof (rule acceptsI)
  fix k
  obtain c' i0 where c': "check_expr env sc c k = (Inr c', i0)" "type_of_expr c' = Some tc" by (rule acceptsE [OF c])
  obtain a' i where a': "check_expr env sc a i0 = (Inr a', i)" "type_of_expr a' = Some ta" by (rule acceptsE [OF a])
  obtain b' j where b': "check_expr env sc b i = (Inr b', j)" "type_of_expr b' = Some tb" by (rule acceptsE [OF b])
  obtain j' where "bind_c (make_type (\<lambda>_. True) (Copy ta)) (finish_type (\<lambda>_. True) (E_texp c' a' b')) j =
      (Inr (E_texp c' a' b' (Some q)), j')"
    using make_finish_all [of "Copy ta" q] q by auto
  then show "\<exists>e' j. check_expr env sc (E_texp c a b None) k = (Inr e', j) \<and> type_of_expr e' = Some q"
    using g by (simp add: step_simps c' a' b' mem type_is_quaint_def)
qed

lemma accepts_name:
  assumes mem: "unlimited env" and "scope_find_object sc n = Some ob" "name_type ob = Inr t" and q: "quantifies t q"
  shows "accepts env sc (E_name n x None) q"
proof (rule acceptsI)
  fix k
  obtain i where i: "copy_c (\<lambda>_. True) t (Suc k) = (Inr (strip t), i)" using copy_c_all by blast
  obtain j where "finish_type (\<lambda>_. True) (E_name n (Some ob)) (strip t) i = (Inr (E_name n (Some ob) (Some q)), j)"
    using finish_all [OF q] by blast
  then show "\<exists>e' j. check_expr env sc (E_name n x None) k = (Inr e', j) \<and> type_of_expr e' = Some q"
    using i assms by (simp add: step_simps mem alloc_c_def)
qed

lemma accepts_args_last:
  assumes e: "accepts env sc e t" and "type_equals t p"
    and no: "\<not> (\<exists>x y r u. e = E_bexp LEX_TK_COMA x y r u)"
  shows "accepts_args env sc [(n, p)] e"
  unfolding accepts_args_def
proof
  fix k
  obtain e' j where e': "check_expr env sc e k = (Inr e', j)" "type_of_expr e' = Some t" by (rule acceptsE [OF e])
  have "check_args env sc [(n, p)] e k = bind_c (check_expr env sc e) (\<lambda>x. bind_c (lift_c (the_type x)) (\<lambda>xt.
      bind_c (lift_c (need (type_equals xt p))) (\<lambda>_. ret_c x))) k"
    using no by (cases e) (simp_all add: check_args.simps del: check_expr.simps)
  then show "\<exists>a' j. check_args env sc [(n, p)] e k = (Inr a', j)"
    using e' assms(2) by (simp add: step_simps del: check_expr.simps)
qed

lemma accepts_args_more:
  assumes e: "accepts env sc e t" and "type_equals t p"
    and rest: "if rest = E_null then ps = [] else accepts_args env sc ps rest"
  shows "accepts_args env sc ((n, p) # ps) (E_bexp LEX_TK_COMA e rest r u)"
  unfolding accepts_args_def
proof
  fix k
  obtain e' j where e': "check_expr env sc e k = (Inr e', j)" "type_of_expr e' = Some t" by (rule acceptsE [OF e])
  show "\<exists>a' j. check_args env sc ((n, p) # ps) (E_bexp LEX_TK_COMA e rest r u) k = (Inr a', j)"
  proof (cases "rest = E_null")
    case True
    then show ?thesis using e' assms by (simp add: step_simps check_args.simps)
  next
    case False
    then have "accepts_args env sc ps rest" using rest by simp
    then obtain rest' i where "check_args env sc ps rest j = (Inr rest', i)" by (rule accepts_argsE)
    moreover have "check_args env sc ((n, p) # ps) (E_bexp LEX_TK_COMA e rest r u) k =
      bind_c (check_args env sc ps rest) (\<lambda>rest. ret_c (E_bexp LEX_TK_COMA e' rest r u)) j"
      using e' assms(2) False unfolding check_args.simps [of env sc "(n, p) # ps"]
      by (simp add: step_simps)
    ultimately show ?thesis by (simp add: bind_c_def ret_c_def)
  qed
qed

lemma scoped_name_enum:
  assumes "type_symtab_find (te_types env) a = Some (Ty_enum l vs t)" and "(n, v) \<in> set vs" and "same_text n b"
  shows "scoped_name env (E_bexp LEX_TK_SCOP (E_name a x y) (E_name b z w) ref None) = Inr (Ty_enum l vs t)"
proof -
  have "\<exists>(n, v) \<in> set vs. lex_symbols_equal n b" using assms(2, 3) by (auto intro!: bexI)
  then show ?thesis using assms(1) by (simp add: scoped_name_def need_def)
qed

lemma accepts_uexp_plain:
  assumes "unlimited env" and "accepts env sc e t" and "quantifies (uexp_adapt op t) q"
    and "\<And>e'. uexp_guard op e' t = Inr ()"
  shows "accepts env sc (E_uexp op e None) q"
  using assms by (intro accepts_uexp)

lemma accepts_uexp_lvalue:
  assumes "unlimited env" and "accepts env sc e t" and "quantifies (uexp_adapt op t) q"
    and "lvalue env sc e" and "\<And>e'. expr_is_lvalue e' = Inr () \<Longrightarrow> uexp_guard op e' t = Inr ()"
  shows "accepts env sc (E_uexp op e None) q"
  using assms by (intro accepts_uexp) (auto dest: lvalueD)

lemma lvalue_simps:
  assumes "unlimited env"
  shows "lvalue env sc e \<Longrightarrow> lvalue env sc (E_bexp LEX_TK_MEMB e f r None)"
    and "lvalue env sc (E_bexp LEX_TK_AROW e f r None)"
    and "lvalue env sc e \<Longrightarrow> lvalue env sc (E_aexp e i None)"
  by (auto simp: lvalue_def chk_simps typed_def finish_type_def split: prod.splits) blast+

lemma no_type_null: "\<not> has_type env sc E_null t"
  by (auto elim: has_type.cases)

lemma no_args_null: "\<not> has_args env sc ps E_null"
  by (auto elim: has_args.cases simp: no_type_null)

lemma lvalue_name:
  assumes "scope_find_object sc n = Some ob" and "obj_modifiable ob = Inr ()"
  shows "lvalue env sc (E_name n x None)"
  unfolding lvalue_def
proof (intro allI impI)
  fix k e' j assume "check_expr env sc (E_name n x None) k = (Inr e', j)"
  then obtain t where "e' = E_name n (Some ob) (Some t)"
    using assms(1) by (auto simp: chk_simps finish_type_def)
  then show "expr_is_lvalue e' = Inr ()" using assms(2) by (simp add: typed_def)
qed

lemma lvalue_deref:
  assumes "accepts env sc e t" and "ty_t t \<noteq> TYPE_QUAINT"
  shows "lvalue env sc (E_uexp LEX_TK_MULT e None)"
  unfolding lvalue_def
proof (intro allI impI)
  fix k e' j assume "check_expr env sc (E_uexp LEX_TK_MULT e None) k = (Inr e', j)"
  then obtain r i j' q where e': "e' = E_uexp LEX_TK_MULT r q" "q \<noteq> None" and r: "check_expr env sc e i = (Inr r, j')"
    by (auto simp: chk_simps finish_type_def)
  have "type_of_expr r = Some t"
    by (rule acceptsE [OF assms(1), of i]) (simp add: r)
  then show "expr_is_lvalue e' = Inr ()" using e' assms(2) by (simp add: typed_def need_def)
qed

lemma rules_accepted:
  assumes mem: "unlimited env"
  shows "has_type env sc e q \<Longrightarrow> accepts env sc e q"
    and "has_args env sc ps a \<Longrightarrow> accepts_args env sc ps a"
    and "assignable env sc e \<Longrightarrow> lvalue env sc e"
proof (induction rule: has_type_has_args_assignable.inducts)
  case (T_nmbr v)
  show ?case by (simp add: accepts_def step_simps)
next
  case (T_strl s)
  show ?case by (simp add: accepts_def step_simps)
next
  case (T_name s ob t q x)
  then show ?case by (intro accepts_name [OF mem])
next
  case (T_enum a l vs t n v b q x y z w ref)
  then show ?case by (intro accepts_scoped [OF mem scoped_name_enum])
next
  case (T_label e t r ref' q ref)
  then show ?case by (intro accepts_label [OF mem])
next
  case (T_member e t ms field i m q x y ref)
  then show ?case by (intro accepts_member [OF mem T_member.IH(2)]) (simp_all add: member_source_def need_def)
next
  case (T_arrow e l s ms field i m q x y ref)
  then show ?case by (intro accepts_member [OF mem T_arrow.IH(2)]) (simp_all add: member_source_def need_def)
next
  case (T_assign a ta b tb q ref)
  then show ?case
    by (intro accepts_bexp [OF mem T_assign.IH(2,4), where src = "Copy tb"]) (auto simp: bexp_source_def need_def dest: lvalueD)
next
  case (T_assign_arith op a ta b tb q ref)
  then show ?case
    by (intro accepts_bexp [OF mem T_assign_arith.IH(2,4), where src = "Copy ta"]) (auto simp: bexp_source_def need_def dest: lvalueD)
next
  case (T_assign_bits op a ta b tb q ref)
  then show ?case
    by (intro accepts_bexp [OF mem T_assign_bits.IH(2,4), where src = "Copy ta"]) (auto simp: bexp_source_def need_def dest: lvalueD)
next
  case (T_arith op a ta b tb q ref)
  then show ?case
    by (intro accepts_bexp [OF mem T_arith.IH(2,4), where src = "Copy ta"]) (auto simp: bexp_source_def need_def)
next
  case (T_bits op a ta b tb q ref)
  then show ?case
    by (intro accepts_bexp [OF mem T_bits.IH(2,4), where src = "Copy ta"]) (auto simp: bexp_source_def need_def)
next
  case (T_equal op a ta b tb q ref)
  then show ?case
    by (intro accepts_bexp [OF mem T_equal.IH(2,4), where src = "Fresh TYPE_U8"]) (auto simp: bexp_source_def need_def)
next
  case (T_order op a ta b tb q ref)
  then show ?case
    by (intro accepts_bexp [OF mem T_order.IH(2,4), where src = "Fresh TYPE_U8"]) (auto simp: bexp_source_def need_def)
next
  case (T_comma a ta b tb q ref)
  then show ?case
    by (intro accepts_bexp [OF mem T_comma.IH(2,4), where src = "Copy tb"]) (auto simp: bexp_source_def need_def)
next
  case (T_cast op e t ct q)
  then show ?case by (intro accepts_cast [OF mem])
next
  case (T_plus e t q)
  then show ?case
    by (intro accepts_uexp_plain [OF mem T_plus.IH(2)]) (simp_all add: uexp_guard_def uexp_adapt_def need_def Let_def)
next
  case (T_minus e t q)
  then show ?case
    by (intro accepts_uexp_plain [OF mem T_minus.IH(2)]) (simp_all add: uexp_guard_def need_def Let_def)
next
  case (T_not e t q)
  then show ?case
    by (intro accepts_uexp_plain [OF mem T_not.IH(2)]) (simp_all add: uexp_guard_def uexp_adapt_def need_def Let_def type_is_quaint_def)
next
  case (T_quaint e t q)
  then show ?case
    by (intro accepts_uexp_plain [OF mem T_quaint.IH(2)]) (simp_all add: uexp_guard_def uexp_adapt_def Let_def)
next
  case (T_deref e t q)
  then show ?case
    by (intro accepts_uexp_plain [OF mem T_deref.IH(2)])
      (simp_all add: uexp_guard_def pointee_def need_def Let_def type_is_quaint_def type_is_ptr_def)
next
  case (T_run e t q)
  then show ?case
    by (intro accepts_uexp_lvalue [OF mem T_run.IH(2)])
      (simp_all add: uexp_guard_def pointee_def need_def Let_def type_is_quaint_def)
next
  case (T_addr e t q)
  then show ?case
    by (intro accepts_uexp_lvalue [OF mem T_addr.IH(2)]) (simp_all add: uexp_guard_def uexp_adapt_def Let_def)
next
  case (T_bneg e t q)
  then show ?case
    by (intro accepts_uexp_plain [OF mem T_bneg.IH(2)]) (simp_all add: uexp_guard_def uexp_adapt_def need_def Let_def)
next
  case (T_prefix op e t q)
  then show ?case
    by (intro accepts_uexp_lvalue [OF mem T_prefix.IH(2)]) (auto simp: uexp_guard_def uexp_adapt_def need_def Let_def)
next
  case (T_postfix op e t q)
  then show ?case
    by (intro accepts_xexp [OF mem T_postfix.IH(2)]) (auto simp: xexp_guard_def need_def Let_def dest: lvalueD)
next
  case (T_size op q ts)
  show ?case
  proof (rule acceptsI)
    fix k
    obtain j where "bind_c (make_type (\<lambda>_. True) (Fresh TYPE_USIZE)) (finish_type (\<lambda>_. True) (E_size op ts)) k =
        (Inr (E_size op ts (Some q)), j)"
      using make_finish_all [of "Fresh TYPE_USIZE" q] T_size(2) by auto
    then show "\<exists>e' j. check_expr env sc (E_size op ts None) k = (Inr e', j) \<and> type_of_expr e' = Some q"
      using T_size(1) by (auto simp: step_simps mem)
  qed
next
  case (T_call_none e l ret q)
  then show ?case by (intro accepts_call [OF mem T_call_none.IH(2)]) simp_all
next
  case (T_call e l ps ret args q)
  then show ?case by (intro accepts_call [OF mem T_call.IH(2)]) simp_all
next
  case (T_index a ta i ti q)
  then show ?case by (intro accepts_index [OF mem T_index.IH(2,4)])
next
  case (T_cond c tc a ta b tb q)
  then show ?case by (intro accepts_cond [OF mem T_cond.IH(2,4,6)])
next
  case (A_last e t p n)
  then show ?case by (intro accepts_args_last [OF A_last.IH(2)])
next
  case (A_null e t p n r u)
  then show ?case by (intro accepts_args_more [OF A_null.IH(2)]) simp_all
next
  case (A_more e t p ps rest n r u)
  then show ?case using no_args_null [of env sc ps] by (intro accepts_args_more [OF A_more.IH(2)]) auto
next
  case (L_name s ob x)
  then show ?case by (intro lvalue_name)
next
  case (L_deref e t)
  then show ?case by (intro lvalue_deref)
qed (use lvalue_simps [OF mem] in blast)+

text \<open>
  C3. The checker of expressions decides the type rules. When memory suffices it accepts an
  expression in given scopes exactly when the rules give it a type, and annotates it with
  that type; in particular a type given by the rules is unique. However little memory there
  is, what it accepts has the type it is annotated with.
\<close>

theorem checker_decides_rules:
  "(check_expr env sc e k = (Inr e', j) \<longrightarrow> (\<exists>q. type_of_expr e' = Some q \<and> has_type env sc e q)) \<and>
   (te_mem env = (\<lambda>_. True) \<longrightarrow>
     (has_type env sc e q \<longleftrightarrow> (\<exists>e' j. check_expr env sc e k = (Inr e', j) \<and> type_of_expr e' = Some q)))"
proof (intro conjI impI)
  assume "check_expr env sc e k = (Inr e', j)"
  from check_expr_sound(1) [OF this] show "\<exists>q. type_of_expr e' = Some q \<and> has_type env sc e q"
    by (simp add: sound_def)
next
  assume mem: "te_mem env = (\<lambda>_. True)"
  show "has_type env sc e q \<longleftrightarrow> (\<exists>e' j. check_expr env sc e k = (Inr e', j) \<and> type_of_expr e' = Some q)"
  proof
    assume "has_type env sc e q"
    from rules_accepted(1) [OF mem this]
    show "\<exists>e' j. check_expr env sc e k = (Inr e', j) \<and> type_of_expr e' = Some q" by (simp add: accepts_def)
  next
    assume "\<exists>e' j. check_expr env sc e k = (Inr e', j) \<and> type_of_expr e' = Some q"
    then obtain e' j where c: "check_expr env sc e k = (Inr e', j)" "type_of_expr e' = Some q" by blast
    from check_expr_sound(1) [OF c(1)] c(2) show "has_type env sc e q" by (auto simp: sound_def)
  qed
qed

definition demo_scope :: scopes where
  "demo_scope = [[SCOPE_OBJ_PARM (sym ''p'') (prim TYPE_U8)]]"

definition demo_less :: expr where
  "demo_less = E_bexp LEX_TK_LTHN (E_name (sym ''p'') None None) (E_nmbr 7 None) No_ref None"

definition demo_tenv :: tenv where
  "demo_tenv = \<lparr>te_mem = \<lambda>_. True, te_types = \<lparr>st_entries = [], st_allocated = 0\<rparr>, te_unit = []\<rparr>"

theorem checker_decides_rules_witness:
  "has_type demo_tenv demo_scope demo_less (sized_prim TYPE_U8)"
proof -
  have "case check_expr demo_tenv demo_scope demo_less 0 of
      (Inr e', _) \<Rightarrow> type_of_expr e' = Some (sized_prim TYPE_U8) | _ \<Rightarrow> False" by code_simp
  then obtain e' j where "check_expr demo_tenv demo_scope demo_less 0 = (Inr e', j)"
    "type_of_expr e' = Some (sized_prim TYPE_U8)" by (auto split: prod.splits sum.splits)
  moreover have "te_mem demo_tenv = (\<lambda>_. True)" by (simp add: demo_tenv_def)
  ultimately show ?thesis
    using checker_decides_rules [of demo_tenv demo_scope demo_less 0 e' j "sized_prim TYPE_U8"] by blast
qed

subsection \<open>Constants\<close>

text \<open>The expressions an expression assigns to, increments or takes the address of.\<close>

fun targets :: "expr \<Rightarrow> expr list" where
  "targets (E_bexp op a b _ _) =
     (if lex_tk_is_assn op then [a] else []) @
     (if op = LEX_TK_SCOP then []
      else if op \<in> {LEX_TK_ATSI, LEX_TK_MEMB, LEX_TK_AROW} then targets a
      else targets a @ targets b)"
| "targets (E_cast _ a _ _) = targets a"
| "targets (E_uexp op a _) = (if op \<in> {LEX_TK_INCR, LEX_TK_DECR, LEX_TK_AMPS} then [a] else []) @ targets a"
| "targets (E_fexp f as _ _) = targets f @ (case as of None \<Rightarrow> [] | Some a \<Rightarrow> targets a)"
| "targets (E_xexp op a _) = (if op \<in> {LEX_TK_INCR, LEX_TK_DECR} then [a] else []) @ targets a"
| "targets (E_aexp a b _) = targets a @ targets b"
| "targets (E_texp a b c _) = targets a @ targets b @ targets c"
| "targets _ = []"

text \<open>The variable an lvalue is a part of, unless it is reached through a pointer.\<close>

fun root :: "expr \<Rightarrow> lex_symbol option" where
  "root (E_name s _ _) = Some s"
| "root (E_bexp op a _ _ _) = (if op = LEX_TK_MEMB then root a else None)"
| "root (E_aexp a _ _) = root a"
| "root _ = None"

lemma lex_tk_is_assn_cases:
  "lex_tk_is_assn op \<Longrightarrow> op \<in> {LEX_TK_ASSN, LEX_TK_ASPL, LEX_TK_ASMI, LEX_TK_ASMU, LEX_TK_ASDI, LEX_TK_ASMO,
     LEX_TK_ASLS, LEX_TK_ASRS, LEX_TK_ASAN, LEX_TK_ASXO, LEX_TK_ASOR}"
  by (cases op) (simp_all add: lex_tk_is_assn_def less_eq_lex_tk_def)

lemma targets_assignable:
  "has_type env sc e q \<Longrightarrow> \<forall>t \<in> set (targets e). assignable env sc t"
  "has_args env sc ps a \<Longrightarrow> \<forall>t \<in> set (targets a). assignable env sc t"
  "assignable env sc e \<Longrightarrow> assignable env sc e"
proof (induction rule: has_type_has_args_assignable.inducts)
qed (auto dest: lex_tk_is_assn_cases simp: lex_tk_is_assn_def less_eq_lex_tk_def intro: has_type_has_args_assignable.intros)

lemma root_assignable:
  assumes "assignable env sc e" and "root e = Some s"
  shows "\<exists>ob. scope_find_object sc s = Some ob \<and> obj_modifiable ob = Inr ()"
  using assms
proof (induction e arbitrary: s rule: root.induct)
qed (erule assignable.cases; force)+

text \<open>
  C14. Constants are not modified. Wherever an accepted expression assigns to, increments, or
  takes the address of a variable or a part of one, at any depth, the name denotes a
  parameter or a variable that is not declared constant; it is never a built-in object
  or a function.
\<close>

theorem constants_not_modified:
  assumes "check_expr env sc e k = (Inr e', j)" and "t \<in> set (targets e)" and "root t = Some s"
  shows "case scope_find_object sc s of
      Some (SCOPE_OBJ_PARM _ _) \<Rightarrow> True
    | Some (SCOPE_OBJ_GVAR _ d) \<Rightarrow> \<not> d_cons d
    | Some (SCOPE_OBJ_AVAR _ d) \<Rightarrow> \<not> d_cons d
    | _ \<Rightarrow> False"
proof -
  from check_expr_sound(1) [OF assms(1)] obtain q where "has_type env sc e q" by (auto simp: sound_def)
  then have "assignable env sc t" using targets_assignable(1) assms(2) by blast
  then obtain ob where ob: "scope_find_object sc s = Some ob" "obj_modifiable ob = Inr ()"
    using root_assignable assms(3) by blast
  then show ?thesis
    by (cases ob) (auto simp: obj_modifiable_def need_def guard_r_def split: if_splits)
qed

definition demo_assign :: expr where
  "demo_assign = E_bexp LEX_TK_ASSN (E_name (sym ''p'') None None) (E_nmbr 7 None) No_ref None"

theorem constants_not_modified_witness:
  "case scope_find_object demo_scope (sym ''p'') of Some (SCOPE_OBJ_PARM _ _) \<Rightarrow> True
    | Some (SCOPE_OBJ_GVAR _ d) \<Rightarrow> \<not> d_cons d | Some (SCOPE_OBJ_AVAR _ d) \<Rightarrow> \<not> d_cons d | _ \<Rightarrow> False"
proof -
  have "case check_expr demo_tenv demo_scope demo_assign 0 of (Inr e', _) \<Rightarrow> True | _ \<Rightarrow> False" by code_simp
  then obtain e' j where "check_expr demo_tenv demo_scope demo_assign 0 = (Inr e', j)"
    by (auto split: prod.splits sum.splits)
  then show ?thesis
    by (rule constants_not_modified [where t = "E_name (sym ''p'') None None"])
      (simp_all add: demo_assign_def lex_tk_is_assn_def less_eq_lex_tk_def)
qed

end
