(* ===== verification/Type_Stmts.thy ===== *)
theory Type_Stmts
  imports Type_Rules
begin

text \<open>
  Which statements and programs the type checker accepts: rules over the typing of
  expressions, and the proof that \<^verbatim>\<open>type_check_ast\<close> decides them.
\<close>

subsection \<open>Statements\<close>

definition passes :: "'a chk \<Rightarrow> nat \<Rightarrow> bool" where
  "passes m k \<longleftrightarrow> (\<exists>x j. m k = (Inr x, j))"

definition typable :: "tenv \<Rightarrow> scopes \<Rightarrow> expr \<Rightarrow> (qtype \<Rightarrow> bool) \<Rightarrow> bool" where
  "typable env sc e P \<longleftrightarrow> (\<exists>t. has_type env sc e t \<and> P t)"

definition sizable :: "qtype \<Rightarrow> bool" where
  "sizable t \<longleftrightarrow> (\<exists>q j. type_quantify (\<lambda>_. True) t 0 = Inr (q, j))"

lemma passes_expr:
  assumes "unlimited env"
  shows "passes (bind_c (check_expr env sc e) (\<lambda>e. bind_c (lift_c (the_type e)) (\<lambda>t.
      bind_c (lift_c (need (P t))) (\<lambda>_. ret_c (h e))))) k \<longleftrightarrow> typable env sc e P"
proof
  assume "typable env sc e P"
  then obtain t where t: "has_type env sc e t" "P t" by (auto simp: typable_def)
  obtain e' j where "check_expr env sc e k = (Inr e', j)" "type_of_expr e' = Some t"
    using acceptsE [OF rules_accepted(1) [OF assms t(1)]] by blast
  then show "passes (bind_c (check_expr env sc e) (\<lambda>e. bind_c (lift_c (the_type e)) (\<lambda>t.
      bind_c (lift_c (need (P t))) (\<lambda>_. ret_c (h e))))) k"
    using t(2) by (simp add: passes_def step_simps del: check_expr.simps)
qed (auto simp: passes_def typable_def chk_simps sound_def dest!: check_expr_sound simp del: check_expr.simps)

lemma passes_expr_any:
  assumes "unlimited env"
  shows "passes (check_expr env sc e) k \<longleftrightarrow> typable env sc e (\<lambda>_. True)"
proof
  assume "typable env sc e (\<lambda>_. True)"
  then obtain t where t: "has_type env sc e t" by (auto simp: typable_def)
  show "passes (check_expr env sc e) k"
    using acceptsE [OF rules_accepted(1) [OF assms t]] unfolding passes_def by blast
qed (auto simp: passes_def typable_def sound_def dest!: check_expr_sound simp del: check_expr.simps)

lemma passes_quantify:
  "passes (quantify_c (\<lambda>_. True) t) k \<longleftrightarrow> sizable t"
proof
  assume "passes (quantify_c (\<lambda>_. True) t) k"
  then obtain q j where "type_quantify (\<lambda>_. True) t k = Inr (q, j)"
    by (auto simp: passes_def quantify_c_def split: sum.splits)
  from quantify_all(1) [OF this, of 0] show "sizable t" by (auto simp: sizable_def)
next
  assume "sizable t"
  then obtain q j where "type_quantify (\<lambda>_. True) t 0 = Inr (q, j)" by (auto simp: sizable_def)
  from quantify_all(1) [OF this, of k] show "passes (quantify_c (\<lambda>_. True) t) k"
    by (auto simp: passes_def quantify_c_def)
qed

lemma passes_both:
  assumes m: "passes m k \<longleftrightarrow> P" and n: "\<And>i. passes n i \<longleftrightarrow> Q"
  shows "passes (both_c m n) k \<longleftrightarrow> P \<and> Q"
proof
  assume "passes (both_c m n) k"
  then obtain x y i j where "m k = (Inr x, i)" "n i = (Inr y, j)"
    by (auto simp: passes_def both_c_Inr)
  then show "P \<and> Q" using m n unfolding passes_def by blast
next
  assume "P \<and> Q"
  then obtain x i where "m k = (Inr x, i)" using m unfolding passes_def by blast
  moreover obtain y j where "n i = (Inr y, j)" using n [of i] \<open>P \<and> Q\<close> unfolding passes_def by blast
  ultimately show "passes (both_c m n) k" by (auto simp: passes_def both_c_def)
qed

lemma passes_bind_ret: "passes (bind_c m (\<lambda>x. ret_c (h x))) k \<longleftrightarrow> passes m k"
  by (auto simp: passes_def bind_c_def ret_c_def split: prod.splits sum.splits)

text \<open>
  The rules for statements: in the scopes of the block, in a function with its result type
  and its labels.
\<close>

definition decl_ok :: "tenv \<Rightarrow> scopes \<Rightarrow> decl \<Rightarrow> expr option \<Rightarrow> bool" where
  "decl_ok env sc d init \<longleftrightarrow>
     (case init of None \<Rightarrow> True | Some e \<Rightarrow> typable env sc e (\<lambda>t. type_equals (d_type d) t)) \<and> sizable (d_type d)"

definition retn_ok :: "tenv \<Rightarrow> scopes \<Rightarrow> func \<Rightarrow> expr option \<Rightarrow> bool" where
  "retn_ok env sc f ex \<longleftrightarrow>
     (case (ex, f_rettype f) of
        (Some e, Some rt) \<Rightarrow> typable env sc e (\<lambda>t. type_equals rt t)
      | (None, None) \<Rightarrow> True
      | _ \<Rightarrow> False)"

definition wait_ok :: "tenv \<Rightarrow> scopes \<Rightarrow> expr \<Rightarrow> expr option \<Rightarrow> expr option \<Rightarrow> bool" where
  "wait_ok env sc q wfor wunt \<longleftrightarrow>
     typable env sc q (\<lambda>t. ty_t t = TYPE_QUAINT) \<and>
     (case wfor of
        Some e \<Rightarrow> typable env sc e (\<lambda>t. scalar t \<and> type_is_integral (ty_t t) \<and> \<not> type_is_signed (ty_t t))
      | None \<Rightarrow> (case wunt of
          None \<Rightarrow> True
        | Some u \<Rightarrow> \<exists>l r ref t x. u = E_bexp LEX_TK_SCOP l r ref t \<and> find_label (te_unit env) l r = Inr x))"

definition wlab_ok :: "func \<Rightarrow> lex_symbol \<Rightarrow> u64 \<Rightarrow> u64 \<Rightarrow> bool" where
  "wlab_ok f name wfunc wid \<longleftrightarrow> wfunc = 0 \<and> wid = 0 \<and> f_addr f \<noteq> 0 \<and>
     (\<exists>i. scope_find_wlab f name = Some i \<and> snd (f_wlabs f ! i) \<noteq> 0)"

fun stmt_ok :: "tenv \<Rightarrow> scopes \<Rightarrow> func \<Rightarrow> stmt \<Rightarrow> bool"
  and stmts_ok :: "tenv \<Rightarrow> scopes \<Rightarrow> func \<Rightarrow> stmt list \<Rightarrow> bool"
  and elifs_ok :: "tenv \<Rightarrow> scopes \<Rightarrow> func \<Rightarrow> (expr \<times> stmt) list \<Rightarrow> bool"
where
  "stmt_ok env sc f S_skip \<longleftrightarrow> True"
| "stmt_ok env sc f (S_func _ _ _) \<longleftrightarrow> True"
| "stmt_ok env sc f (S_decl d init) \<longleftrightarrow> decl_ok env sc d init"
| "stmt_ok env sc f (S_cond e s es els) \<longleftrightarrow>
     typable env sc e (\<lambda>_. True) \<and> (\<exists>n b ss. s = S_blok n b ss) \<and> stmt_ok env sc f s \<and> elifs_ok env sc f es \<and>
     (case els of None \<Rightarrow> True | Some t \<Rightarrow> (\<exists>n b ss. t = S_blok n b ss) \<and> stmt_ok env sc f t)"
| "stmt_ok env sc f (S_blok _ b ss) \<longleftrightarrow> stmts_ok env (b # sc) f ss"
| "stmt_ok env sc f (S_whil e b ss) \<longleftrightarrow> typable env sc e (\<lambda>_. True) \<and> stmts_ok env (b # sc) f ss"
| "stmt_ok env sc f (S_dowh e b ss) \<longleftrightarrow> typable env sc e (\<lambda>_. True) \<and> stmts_ok env (b # sc) f ss"
| "stmt_ok env sc f (S_retn ex) \<longleftrightarrow> retn_ok env sc f ex"
| "stmt_ok env sc f (S_wait q wfor wunt _ _ _ _) \<longleftrightarrow> wait_ok env sc q wfor wunt"
| "stmt_ok env sc f (S_wlab name wfunc wid) \<longleftrightarrow> wlab_ok f name wfunc wid"
| "stmt_ok env sc f (S_expr e) \<longleftrightarrow> typable env sc e (\<lambda>_. True)"
| "stmts_ok env sc f [] \<longleftrightarrow> True"
| "stmts_ok env sc f (s # ss) \<longleftrightarrow> stmt_ok env sc f s \<and> stmts_ok env sc f ss"
| "elifs_ok env sc f [] \<longleftrightarrow> True"
| "elifs_ok env sc f (e # es) \<longleftrightarrow>
     typable env sc (fst e) (\<lambda>_. True) \<and> (\<exists>n b ss. snd e = S_blok n b ss) \<and> stmt_ok env sc f (snd e) \<and>
     elifs_ok env sc f es"

fun unit_stmt_ok :: "tenv \<Rightarrow> stmt \<Rightarrow> bool" where
  "unit_stmt_ok env (S_decl d init) \<longleftrightarrow> decl_ok env [te_unit env] d init"
| "unit_stmt_ok env (S_func f sc ss) \<longleftrightarrow>
     list_all (\<lambda>(n, t). sizable t) (f_params f) \<and> stmts_ok env [sc, te_unit env] f ss"
| "unit_stmt_ok env (S_expr e) \<longleftrightarrow> False"
| "unit_stmt_ok env _ \<longleftrightarrow> True"

text \<open>The checks of statements pass exactly when the rules hold.\<close>

lemma passes_ret [simp]: "passes (ret_c x) k"
  by (simp add: passes_def ret_c_def)

lemma check_stmt_eqs:
  "check_stmt env sc f (S_cond e s elifs els) =
     bind_c (both_c (check_expr env sc e) (both_c (check_block env sc f s) (both_c (check_elifs env sc f elifs)
       (case els of None \<Rightarrow> ret_c None | Some t \<Rightarrow> bind_c (check_block env sc f t) (\<lambda>t. ret_c (Some t))))))
     (\<lambda>(e, s, elifs, els). ret_c (S_cond e s elifs els))"
  "check_stmt env sc f (S_blok noin bsc ss) = check_block env sc f (S_blok noin bsc ss)"
  "check_stmt env sc f (S_whil e bsc ss) =
     bind_c (both_c (check_expr env sc e) (check_stmts env (bsc # sc) f ss)) (\<lambda>(e, ss). ret_c (S_whil e bsc ss))"
  "check_stmt env sc f (S_dowh e bsc ss) =
     bind_c (both_c (check_stmts env (bsc # sc) f ss) (check_expr env sc e)) (\<lambda>(ss, e). ret_c (S_dowh e bsc ss))"
  "check_stmt env sc f (S_decl d init) = check_decl env sc d init"
  "check_stmt env sc f (S_retn ex) = check_retn env sc f ex"
  "check_stmt env sc f (S_wait q wfor wunt nb units fn idx) = check_wait env sc q wfor wunt nb units fn idx"
  "check_stmt env sc f (S_wlab name wfunc wid) = lift_c (identify_wlab f name wfunc wid)"
  "check_stmt env sc f (S_expr e) = bind_c (check_expr env sc e) (\<lambda>e. ret_c (S_expr e))"
  "check_block env sc f (S_blok noin bsc ss) =
     bind_c (check_stmts env (bsc # sc) f ss) (\<lambda>ss. ret_c (S_blok noin bsc ss))"
  "check_stmts env sc f (s # ss) =
     bind_c (both_c (check_stmt env sc f s) (check_stmts env sc f ss)) (\<lambda>(s, ss). ret_c (s # ss))"
  "check_elifs env sc f ((e, s) # es) =
     bind_c (both_c (check_expr env sc e) (both_c (check_block env sc f s) (check_elifs env sc f es)))
     (\<lambda>(e, s, es). ret_c ((e, s) # es))"
  by (rule ext, simp only: check_stmt.simps check_block.simps check_stmts.simps check_elifs.simps)+

lemma passes_lift [simp]: "passes (lift_c r) k \<longleftrightarrow> (\<exists>x. r = Inr x)"
  by (simp add: passes_def lift_c_def)

lemma passes_both_ret:
  assumes "passes m k \<longleftrightarrow> P" and "\<And>i. passes n i \<longleftrightarrow> Q"
  shows "passes (bind_c (both_c m n) (\<lambda>(x, y). ret_c (h x y))) k \<longleftrightarrow> P \<and> Q"
  using passes_both [of m k P n Q] assms passes_bind_ret [of "both_c m n" "\<lambda>(x, y). h x y" k]
  by (simp add: split_def)

lemma passes_decl:
  assumes "unlimited env"
  shows "passes (check_decl env sc d init) k \<longleftrightarrow> decl_ok env sc d init"
  unfolding check_decl_def decl_ok_def
proof (rule passes_both_ret)
  show "passes (case init of None \<Rightarrow> ret_c None | Some e \<Rightarrow>
      bind_c (check_expr env sc e) (\<lambda>e. bind_c (lift_c (the_type e)) (\<lambda>t.
      bind_c (lift_c (need (type_equals (d_type d) t))) (\<lambda>_. ret_c (Some e))))) k \<longleftrightarrow>
    (case init of None \<Rightarrow> True | Some e \<Rightarrow> typable env sc e (type_equals (d_type d)))"
    by (cases init) (simp_all add: passes_expr [OF assms])
  show "passes (quantify_c (te_mem env) (d_type d)) i \<longleftrightarrow> sizable (d_type d)" for i
    unfolding assms by (rule passes_quantify)
qed

lemma passes_retn:
  assumes "unlimited env"
  shows "passes (check_retn env sc f ex) k \<longleftrightarrow> retn_ok env sc f ex"
  by (cases ex; cases "f_rettype f") (simp_all add: check_retn_def retn_ok_def passes_expr assms)

lemma passes_wait:
  assumes "unlimited env"
  shows "passes (check_wait env sc q wfor wunt nb units fn idx) k \<longleftrightarrow> wait_ok env sc q wfor wunt"
proof -
  have q: "passes (bind_c (check_expr env sc q) (\<lambda>q. bind_c (lift_c (the_type q)) (\<lambda>t.
      bind_c (lift_c (need (ty_t t = TYPE_QUAINT))) (\<lambda>_. ret_c q)))) k \<longleftrightarrow> typable env sc q (\<lambda>t. ty_t t = TYPE_QUAINT)"
    for k by (rule passes_expr [OF assms, where h = "\<lambda>q. q"])
  have w: "passes (case wfor of
          Some e \<Rightarrow>
            bind_c (check_expr env sc e) (\<lambda>e.
            bind_c (lift_c (the_type e)) (\<lambda>t.
            bind_c (lift_c (need (scalar t \<and> type_is_integral (ty_t t) \<and> \<not> type_is_signed (ty_t t)))) (\<lambda>_.
            ret_c (Some e, fn, idx))))
        | None \<Rightarrow>
            (case wunt of
               None \<Rightarrow> ret_c (None, fn, idx)
             | Some (E_bexp op l r ref t) \<Rightarrow>
                 if op = LEX_TK_SCOP then
                   bind_c (lift_c (find_label (te_unit env) l r)) (\<lambda>(f, i). ret_c (None, Some f, i))
                 else lift_c (Inl TYPE_INVALID)
             | Some _ \<Rightarrow> lift_c (Inl TYPE_INVALID))) k \<longleftrightarrow>
      (case wfor of
        Some e \<Rightarrow> typable env sc e (\<lambda>t. scalar t \<and> type_is_integral (ty_t t) \<and> \<not> type_is_signed (ty_t t))
      | None \<Rightarrow> (case wunt of
          None \<Rightarrow> True
        | Some u \<Rightarrow> \<exists>l r ref t x. u = E_bexp LEX_TK_SCOP l r ref t \<and> find_label (te_unit env) l r = Inr x))" for k
  proof (cases wfor)
    case (Some e)
    then show ?thesis using passes_expr [OF assms, where h = "\<lambda>e. (Some e, fn, idx)"] by simp
  next
    case None
    have label: "passes (bind_c (lift_c r) (\<lambda>(f, i). ret_c (None, Some f, i))) k \<longleftrightarrow> (\<exists>x. r = Inr x)"
      for r :: "type_error + func \<times> nat" and k
      by (cases r) (simp_all add: passes_def bind_c_def lift_c_def ret_c_def split_def)
    show ?thesis
    proof (cases wunt)
      case (Some u)
      show ?thesis
      proof (cases "\<exists>op l r ref t. u = E_bexp op l r ref t")
        case True
        then obtain op l r ref t where "u = E_bexp op l r ref t" by blast
        then show ?thesis using None Some label by (cases "op = LEX_TK_SCOP") simp_all
      next
        case False
        then show ?thesis using None Some by (cases u) simp_all
      qed
    qed (simp add: None)
  qed
  show ?thesis
    unfolding check_wait_def wait_ok_def
    using passes_bind_ret [of _ "\<lambda>(q, wfor, fn, idx). S_wait q wfor wunt nb units fn idx"] passes_both [OF q w]
    by (simp add: split_def)
qed

lemma passes_wlab:
  "passes (lift_c (identify_wlab f name wfunc wid)) k \<longleftrightarrow> wlab_ok f name wfunc wid"
  by (auto simp: identify_wlab_def wlab_ok_def split: option.splits if_splits)

lemma passes_stmt:
  assumes mem: "unlimited env"
  shows "passes (check_stmt env sc f s) k \<longleftrightarrow> stmt_ok env sc f s"
    and "passes (check_block env sc f b) k \<longleftrightarrow> (\<exists>n c ss. b = S_blok n c ss) \<and> stmt_ok env sc f b"
    and "passes (check_stmts env sc f ss) k \<longleftrightarrow> stmts_ok env sc f ss"
    and "passes (check_elifs env sc f es) k \<longleftrightarrow> elifs_ok env sc f es"
  using mem
proof (induction env sc f s k and env sc f b k and env sc f ss k and env sc f es k
    rule: check_stmt_check_block_check_stmts_check_elifs.induct)
  case (4 env sc f e s elifs els k)
  have els: "passes (case els of None \<Rightarrow> ret_c None | Some t \<Rightarrow> bind_c (check_block env sc f t) (\<lambda>t. ret_c (Some t))) i \<longleftrightarrow>
      (case els of None \<Rightarrow> True | Some t \<Rightarrow> (\<exists>n b ss. t = S_blok n b ss) \<and> stmt_ok env sc f t)" for i
  proof (cases els)
    case (Some t)
    then show ?thesis using "4.IH"(3) [OF Some "4.prems"] by (simp add: passes_bind_ret)
  qed simp
  have "passes (check_stmt env sc f (S_cond e s elifs els)) k \<longleftrightarrow>
      passes (both_c (check_expr env sc e) (both_c (check_block env sc f s) (both_c (check_elifs env sc f elifs)
        (case els of None \<Rightarrow> ret_c None | Some t \<Rightarrow> bind_c (check_block env sc f t) (\<lambda>t. ret_c (Some t)))))) k"
    unfolding check_stmt_eqs
    using passes_bind_ret [of _ "\<lambda>(e, s, elifs, els). S_cond e s elifs els"] by (simp add: split_def)
  also have "\<dots> \<longleftrightarrow> typable env sc e (\<lambda>_. True) \<and>
      ((\<exists>n c ss. s = S_blok n c ss) \<and> stmt_ok env sc f s) \<and> elifs_ok env sc f elifs \<and>
      (case els of None \<Rightarrow> True | Some t \<Rightarrow> (\<exists>n b ss. t = S_blok n b ss) \<and> stmt_ok env sc f t)"
    by (intro passes_both passes_expr_any els "4.IH"(1,2) "4.prems")
  finally show ?case by (simp only: stmt_ok.simps conj_assoc)
next
  case (5 env sc f noin bsc ss k)
  then show ?case by (simp add: check_stmt_eqs)
next
  case (6 env sc f e bsc ss k)
  show ?case
    unfolding check_stmt_eqs stmt_ok.simps
    by (intro passes_both_ret passes_expr_any "6.IH" "6.prems")
next
  case (7 env sc f e bsc ss k)
  have "passes (check_stmt env sc f (S_dowh e bsc ss)) k \<longleftrightarrow> stmts_ok env (bsc # sc) f ss \<and> typable env sc e (\<lambda>_. True)"
    unfolding check_stmt_eqs
    by (intro passes_both_ret passes_expr_any "7.IH" "7.prems")
  then show ?case by (simp only: stmt_ok.simps conj_commute)
next
  case (8 env sc f ex k)
  then show ?case by (simp add: check_stmt_eqs passes_retn)
next
  case (9 env sc f q wfor wunt nb units fn idx k)
  then show ?case by (simp add: check_stmt_eqs passes_wait)
next
  case (10 env sc f name wfunc wid k)
  then show ?case by (simp add: check_stmt_eqs passes_wlab del: passes_lift)
next
  case (11 env sc f e k)
  then show ?case by (simp add: check_stmt_eqs passes_bind_ret passes_expr_any)
next
  case (12 env sc f noin bsc ss k)
  then show ?case by (simp add: check_stmt_eqs passes_bind_ret)
next
  case (15 env sc f s ss k)
  show ?case
    unfolding check_stmt_eqs stmts_ok.simps
    by (intro passes_both_ret "15.IH" "15.prems")
next
  case (17 env sc f e s es k)
  have "passes (check_elifs env sc f ((e, s) # es)) k \<longleftrightarrow>
      passes (both_c (check_expr env sc e) (both_c (check_block env sc f s) (check_elifs env sc f es))) k"
    unfolding check_stmt_eqs
    using passes_bind_ret [of _ "\<lambda>(e, s, es). (e, s) # es"] by (simp add: split_def)
  also have "\<dots> \<longleftrightarrow> typable env sc e (\<lambda>_. True) \<and>
      ((\<exists>n c ss. s = S_blok n c ss) \<and> stmt_ok env sc f s) \<and> elifs_ok env sc f es"
    by (intro passes_both passes_expr_any "17.IH" "17.prems")
  finally show ?case by (simp only: elifs_ok.simps fst_conv snd_conv conj_assoc)
qed (simp_all add: check_stmt_eqs passes_decl, simp_all add: passes_def ret_c_def lift_c_def)

text \<open>The unit.\<close>

lemma passes_each:
  assumes "\<And>x k. x \<in> set xs \<Longrightarrow> passes (f x) k \<longleftrightarrow> P x"
  shows "passes (each_c f xs) k \<longleftrightarrow> list_all P xs"
  using assms
proof (induction xs arbitrary: k)
  case (Cons x xs)
  show ?case
    unfolding each_c.simps list.pred_inject
    by (intro passes_both_ret) (use Cons in auto)
qed simp

lemma passes_func:
  assumes "unlimited env"
  shows "passes (check_func env f sc ss) k \<longleftrightarrow>
    list_all (\<lambda>(n, t). sizable t) (f_params f) \<and> stmts_ok env [sc, te_unit env] f ss"
  unfolding check_func_def
proof (rule passes_both_ret)
  show "passes (each_c (check_param env) (f_params f)) k \<longleftrightarrow> list_all (\<lambda>(n, t). sizable t) (f_params f)"
    by (rule passes_each)
      (simp add: check_param_def passes_bind_ret passes_quantify assms split_def)
  show "passes (check_stmts env [sc, te_unit env] f ss) i \<longleftrightarrow> stmts_ok env [sc, te_unit env] f ss" for i
    by (rule passes_stmt(3) [OF assms])
qed

lemma passes_unit_stmt:
  assumes "unlimited env"
  shows "passes (check_unit_stmt env s) k \<longleftrightarrow> unit_stmt_ok env s"
  by (cases s) (simp_all add: check_unit_stmt_def passes_decl passes_func assms)

text \<open>
  C13. The type checker accepts a unit, when memory suffices, exactly when it is well typed:
  every variable has a type with a size and an initial value of that type; in every function,
  at every depth, the conditions and expression statements have a type by the rules, what is
  returned has the type of the result, and there is a value exactly when there is a result type, waits are for
  quaints and for unsigned times or existing labels; and no expression stands at the top level.
\<close>

theorem type_check_accepts:
  assumes "te_mem env = (\<lambda>_. True)"
  shows "(\<exists>ss'. type_check_ast env ss = Inr ss') \<longleftrightarrow> list_all (unit_stmt_ok env) ss"
proof -
  have "(\<exists>ss'. type_check_ast env ss = Inr ss') \<longleftrightarrow> passes (each_c (check_unit_stmt env) ss) 0"
    by (cases "each_c (check_unit_stmt env) ss 0") (simp add: type_check_ast_def passes_def)
  then show ?thesis
    using passes_each [of ss "check_unit_stmt env" "unit_stmt_ok env" 0] passes_unit_stmt [OF assms] by simp
qed

definition demo_param :: "lex_symbol \<times> qtype" where
  "demo_param = (sym ''p'', prim TYPE_U8)"

definition demo_body :: "stmt list" where
  "demo_body = [S_whil (E_bexp LEX_TK_LTHN (E_name \<lparr>sym_beg = 9, sym_text = ''p''\<rparr> None None) (E_nmbr 7 None) No_ref None) []
       [S_expr (E_bexp LEX_TK_ASPL (E_name \<lparr>sym_beg = 12, sym_text = ''p''\<rparr> None None) (E_nmbr 1 None) No_ref None)],
     S_retn (Some (E_name \<lparr>sym_beg = 20, sym_text = ''p''\<rparr> None None))]"

definition demo_func :: stmt where
  "demo_func = S_func \<lparr>f_addr = 1, f_expo = False, f_name = sym ''f'', f_params = [demo_param],
     f_rettype = Some (prim TYPE_U8), f_wlabs = []\<rparr> [SCOPE_OBJ_PARM (sym ''p'') (prim TYPE_U8)] demo_body"

definition demo_env :: tenv where
  "demo_env = \<lparr>te_mem = \<lambda>_. True, te_types = \<lparr>st_entries = [], st_allocated = 0\<rparr>, te_unit = []\<rparr>"

theorem type_check_accepts_witness:
  "list_all (unit_stmt_ok demo_env) [demo_func]"
proof -
  have "isl (type_check_ast demo_env [demo_func]) = False" by code_simp
  then have "\<exists>ss'. type_check_ast demo_env [demo_func] = Inr ss'"
    by (cases "type_check_ast demo_env [demo_func]") simp_all
  moreover have "te_mem demo_env = (\<lambda>_. True)" by (simp add: demo_env_def)
  ultimately show ?thesis using type_check_accepts [of demo_env "[demo_func]"] by simp
qed

end
