(* ===== verification/Type_Safe.thy ===== *)
theory Type_Safe
  imports Type_Stmts
begin

text \<open>
  The type checker neither fails an assertion nor follows a null pointer on a tree without
  nulls whose types are complete, once its scopes were built by \<^verbatim>\<open>scope_build\<close>: its only
  error is that the program is invalid.
\<close>

subsection \<open>Complete types\<close>

fun proper :: "qtype \<Rightarrow> bool" and proper_members :: "(lex_symbol \<times> qtype) list \<Rightarrow> bool" where
  "proper (Ty_prim t l) \<longleftrightarrow> t = TYPE_VOID \<or> t = TYPE_VPTR \<or> (type_is_integral t \<and> t \<noteq> TYPE_ENUM)"
| "proper (Ty_ptr l s) \<longleftrightarrow> proper s"
| "proper (Ty_quaint l s) \<longleftrightarrow> proper s"
| "proper (Ty_struct l ms os) \<longleftrightarrow> ms \<noteq> [] \<and> list_all (\<lambda>m. ty_t (snd m) \<noteq> TYPE_VOID) ms \<and> proper_members ms"
| "proper (Ty_union l ms os) \<longleftrightarrow> ms \<noteq> [] \<and> list_all (\<lambda>m. ty_t (snd m) \<noteq> TYPE_VOID) ms \<and> proper_members ms"
| "proper (Ty_fptr l ps None) \<longleftrightarrow> proper_members ps"
| "proper (Ty_fptr l ps (Some r)) \<longleftrightarrow> proper_members ps \<and> proper r"
| "proper (Ty_enum l vs t) \<longleftrightarrow> t \<noteq> TYPE_VOID \<and> desc_size t \<noteq> 0"
| "proper_members [] \<longleftrightarrow> True"
| "proper_members (m # ms) \<longleftrightarrow> proper (snd m) \<and> proper_members ms"

lemma shapes_kinds:
  "list_all (\<lambda>m. ty_t (snd m) \<noteq> TYPE_VOID) (shapes ms) = list_all (\<lambda>m. ty_t (snd m) \<noteq> TYPE_VOID) ms"
proof (induction ms)
  case (Cons m ms)
  moreover have "ty_t (shape t) = ty_t t" for t by (cases t) (auto simp: shape_fptr)
  ultimately show ?case by (cases m) simp
qed simp

lemma proper_shape: "proper (shape t) = proper t" "proper_members (shapes ms) = proper_members ms"
  by (induction t and ms rule: shape_shapes.induct) (auto simp: shapes_kinds)

lemma shape_strip: "shape (strip t) = shape t" "shapes (strip_members ms) = shapes ms"
  by (induction t and ms rule: strip_strip_members.induct) auto

lemma unquantified_strip: "unquantified (strip t)" "unquantified_members (strip_members ms)"
  by (induction t and ms rule: strip_strip_members.induct) auto

lemma integral_sized: "type_is_integral t \<longrightarrow> t \<noteq> TYPE_ENUM \<longrightarrow> desc_size t \<noteq> 0"
proof -
  have "\<forall>t \<in> set type_ts. type_is_integral t \<longrightarrow> t \<noteq> TYPE_ENUM \<longrightarrow> desc_size t \<noteq> 0" by code_simp
  then show ?thesis using type_t_all [of "\<lambda>t. type_is_integral t \<longrightarrow> t \<noteq> TYPE_ENUM \<longrightarrow> desc_size t \<noteq> 0"] by blast
qed

lemma proper_well_sized:
  "proper t \<Longrightarrow> well_sized t"
  "proper_members ms \<Longrightarrow> list_all (\<lambda>m. ty_t (snd m) \<noteq> TYPE_VOID) ms \<Longrightarrow> well_sized_members ms"
proof (induction t and ms rule: proper_proper_members.induct)
  case (1 t l)
  moreover have "desc_size TYPE_VPTR \<noteq> 0" by code_simp
  ultimately show ?case using integral_sized [of t] by auto
next
  case (10 m ms)
  then show ?case by (cases m) auto
qed auto

lemma well_sized_strip: "well_sized t \<Longrightarrow> well_sized (strip t)"
  using type_copy_all [of t 0] type_copy_Some(1) by blast

lemma quantifies_proper:
  assumes "quantifies t q" and "proper t"
  shows "proper q"
proof -
  obtain j where q: "type_quantify (\<lambda>_. True) (strip t) 0 = Inr (q, j)"
    using assms(1) by (auto simp: quantifies_def)
  have "only_nomem (\<lambda>_. True) (type_quantify (\<lambda>_. True) (strip t) 0) (\<lambda>(q, k). quantified_as (strip t) q)"
    using assms(2) by (intro type_quantify_ok well_sized_strip proper_well_sized unquantified_strip)
  then have "shape q = shape t" by (simp add: q only_nomem_def quantified_as_def shape_strip)
  then show ?thesis using assms(2) proper_shape by metis
qed

subsection \<open>Clean results\<close>

definition clean :: "type_error + 'a \<Rightarrow> bool" where
  "clean r \<longleftrightarrow> (\<forall>e. r = Inl e \<longrightarrow> e = TYPE_INVALID)"

definition clean_c :: "'a chk \<Rightarrow> bool" where
  "clean_c m \<longleftrightarrow> (\<forall>k. clean (fst (m k)))"

lemma clean_simps [simp]: "clean (Inr x)" "clean (Inl e) \<longleftrightarrow> e = TYPE_INVALID" "clean (need c)"
  by (auto simp: clean_def need_def guard_r_def)

lemma clean_bind_r: "clean m \<Longrightarrow> (\<And>x. m = Inr x \<Longrightarrow> clean (f x)) \<Longrightarrow> clean (bind_r m f)"
  by (cases m) auto

lemma clean_c_simps [simp]: "clean_c (ret_c x)" "clean_c (lift_c r) \<longleftrightarrow> clean r" "clean_c (alloc_c ok)" "clean_c (copy_c ok t)"
  by (auto simp: clean_c_def ret_c_def lift_c_def alloc_c_def copy_c_def split: option.splits)

lemma clean_bind_c:
  assumes "clean_c m" and "\<And>x k j. m k = (Inr x, j) \<Longrightarrow> clean_c (f x)"
  shows "clean_c (bind_c m f)"
  unfolding clean_c_def
proof
  fix k show "clean (fst (bind_c m f k))"
  proof (cases "m k")
    case (Pair r j)
    then have "clean r" using assms(1) unfolding clean_c_def by (metis fst_conv)
    then show ?thesis
      using Pair assms(2) [of k _ j] by (cases r) (auto simp: bind_c_def clean_c_def)
  qed
qed

lemma clean_both_c:
  assumes m: "clean_c m" and n: "clean_c n"
  shows "clean_c (both_c m n)"
  unfolding clean_c_def
proof
  fix k
  obtain r j where r: "m k = (r, j)" by fastforce
  obtain s i where s: "n j = (s, i)" by fastforce
  have "clean r" "clean s" using m n r s unfolding clean_c_def by (metis fst_conv)+
  then show "clean (fst (both_c m n k))"
    using r s by (cases r; cases s) (auto simp: both_c_def)
qed

lemma clean_quantify:
  assumes "proper t" and "unquantified t"
  shows "clean_c (quantify_c ok t)"
  unfolding clean_c_def
proof
  fix k
  have "only_nomem ok (type_quantify ok t k) (\<lambda>(q, k). quantified_as t q)"
    by (intro type_quantify_ok proper_well_sized assms)
  then show "clean (fst (quantify_c ok t k))"
    by (auto simp: only_nomem_def quantify_c_def no_type_def split: sum.splits)
qed

lemma proper_strip: "proper (strip t) = proper t"
  using proper_shape(1) shape_strip(1) by metis

lemma clean_finish: "proper t \<Longrightarrow> clean_c (finish_type ok mk (strip t))"
  unfolding finish_type_def
  by (intro clean_bind_c clean_quantify)
    (simp_all add: unquantified_strip proper_strip)

lemma clean_make: "clean_c (make_type ok src)"
  unfolding make_type_def by (intro clean_bind_c) (auto split: source.splits)

lemma clean_make_finish: "proper (src_type src) \<Longrightarrow> clean_c (bind_c (make_type ok src) (finish_type ok mk))"
  by (intro clean_bind_c clean_make) (auto dest!: make_type_Inr intro: clean_finish)

subsection \<open>Trees without nulls\<close>

definition bexp_ops :: "lex_tk set" where
  "bexp_ops = {LEX_TK_ASSN, LEX_TK_ASPL, LEX_TK_ASMI, LEX_TK_ASMU, LEX_TK_ASDI, LEX_TK_ASMO, LEX_TK_ASLS,
     LEX_TK_ASRS, LEX_TK_ASAN, LEX_TK_ASXO, LEX_TK_ASOR, LEX_TK_SCOP, LEX_TK_ATSI, LEX_TK_MEMB, LEX_TK_AROW,
     LEX_TK_EQUL, LEX_TK_NEQL, LEX_TK_LTHN, LEX_TK_GTHN, LEX_TK_LTEQ, LEX_TK_GTEQ, LEX_TK_CONJ, LEX_TK_DISJ,
     LEX_TK_PLUS, LEX_TK_MINS, LEX_TK_MULT, LEX_TK_DIVI, LEX_TK_MODU, LEX_TK_LSHF, LEX_TK_RSHF, LEX_TK_AMPS,
     LEX_TK_CARE, LEX_TK_PIPE, LEX_TK_COMA}"

definition uexp_ops :: "lex_tk set" where
  "uexp_ops = {LEX_TK_PLUS, LEX_TK_MINS, LEX_TK_EXCL, LEX_TK_TILD, LEX_TK_MULT, LEX_TK_AMPS, LEX_TK_CARE,
     LEX_TK_INCR, LEX_TK_DECR}"

text \<open>Complete and unchecked: no nulls, no types yet, operators and types as the grammar has them.\<close>

fun raw :: "expr \<Rightarrow> bool" where
  "raw (E_bexp op l r _ t) \<longleftrightarrow> t = None \<and> op \<in> bexp_ops \<and> raw l \<and> raw r"
| "raw (E_cast op l c t) \<longleftrightarrow> t = None \<and> op \<in> {LEX_TK_CAST, LEX_TK_COLN} \<and> raw l \<and> (case c of None \<Rightarrow> False | Some ct \<Rightarrow> proper ct)"
| "raw (E_uexp op r t) \<longleftrightarrow> t = None \<and> op \<in> uexp_ops \<and> raw r"
| "raw (E_size op ts t) \<longleftrightarrow> t = None \<and> op \<in> {LEX_TK_SZOF, LEX_TK_ALOF} \<and> (case ts of None \<Rightarrow> False | Some st \<Rightarrow> proper st)"
| "raw (E_fexp l as n t) \<longleftrightarrow> t = None \<and> n = 0 \<and> raw l \<and> (case as of None \<Rightarrow> True | Some a \<Rightarrow> raw a)"
| "raw (E_xexp op l t) \<longleftrightarrow> t = None \<and> op \<in> {LEX_TK_INCR, LEX_TK_DECR} \<and> raw l"
| "raw (E_aexp b off t) \<longleftrightarrow> t = None \<and> raw b \<and> raw off"
| "raw (E_texp c x y t) \<longleftrightarrow> t = None \<and> raw c \<and> raw x \<and> raw y"
| "raw (E_name _ _ t) \<longleftrightarrow> t = None"
| "raw (E_nmbr _ t) \<longleftrightarrow> t = None"
| "raw (E_strl _ t) \<longleftrightarrow> t = None"
| "raw E_null \<longleftrightarrow> False"
| "raw E_void \<longleftrightarrow> False"

lemma raw_null [simp]: "raw e \<Longrightarrow> e \<noteq> E_null"
  by auto

text \<open>Every object that may be found has a complete type.\<close>

definition obj_ok :: "scope_obj \<Rightarrow> bool" where
  "obj_ok ob \<longleftrightarrow> is_dupl ob \<or> (case name_type ob of Inr t \<Rightarrow> proper t | Inl _ \<Rightarrow> False)"

definition scopes_ok :: "scopes \<Rightarrow> bool" where
  "scopes_ok sc \<longleftrightarrow> list_all (list_all obj_ok) sc"

definition types_ok :: "tenv \<Rightarrow> bool" where
  "types_ok env \<longleftrightarrow> list_all (\<lambda>(n, t). proper t) (st_entries (te_types env))"

lemma bsearch_range: "u \<le> length xs \<Longrightarrow> bsearch s xs l u = Some i \<Longrightarrow> i < length xs"
proof (induction s xs l u rule: bsearch.induct)
  case (1 s xs l u)
  then show ?case
    by (subst (asm) (2) bsearch.simps) (auto simp: Let_def split: if_split_asm)
qed

lemma found_ok:
  "scopes_ok sc \<Longrightarrow> scope_find_object sc s = Some ob \<Longrightarrow> obj_ok ob \<and> \<not> is_dupl ob"
proof (induction sc s rule: scope_find_object.induct)
  case (2 objs outer name)
  show ?case
  proof (cases "bsearch name (map so_name objs) 0 (length objs)")
    case None
    then show ?thesis using 2 by (simp add: scopes_ok_def)
  next
    case (Some i)
    then have "i < length objs" using bsearch_range [of "length objs" "map so_name objs"] by simp
    moreover have "list_all obj_ok objs" using "2.prems"(1) by (simp add: scopes_ok_def)
    ultimately have "obj_ok (objs ! i)" by (simp add: list_all_length)
    moreover have "scope_find_object outer name = Some ob \<Longrightarrow> is_dupl (objs ! i) \<Longrightarrow> obj_ok ob \<and> \<not> is_dupl ob"
      using "2.IH"(2) [OF Some] "2.prems"(1) by (cases "objs ! i") (simp_all add: scopes_ok_def)
    ultimately show ?thesis
      using "2.prems"(2) Some by (auto simp: is_dupl_def split: scope_obj.splits if_split_asm)
  qed
qed simp

lemma found_type:
  assumes "scopes_ok sc" and "scope_find_object sc s = Some ob"
  obtains t where "name_type ob = Inr t" and "proper t"
  using found_ok [OF assms] by (auto simp: obj_ok_def split: sum.splits)

lemma symtab_ok:
  "types_ok env \<Longrightarrow> type_symtab_find (te_types env) s = Some t \<Longrightarrow> proper t"
  by (auto simp: types_ok_def type_symtab_find_def list_all_iff find_Some_iff in_set_conv_nth dest!: bspec)

subsection \<open>Types of expressions are complete\<close>

lemma proper_with_count: "proper (with_count n t) = proper t"
proof (cases t)
  case (Ty_fptr l ps r)
  then show ?thesis by (cases r) (simp_all add: with_count_def)
qed (simp_all add: with_count_def)

lemma integral_prims [simp]: "type_is_integral TYPE_U8" "type_is_integral TYPE_USIZE"
  by (simp_all add: type_is_integral_def)

lemma proper_prims [simp]: "proper (prim TYPE_U8)" "proper (prim TYPE_USIZE)" "proper (Ty_prim TYPE_VOID l)"
  by (simp_all add: type_is_integral_def)

lemma quantifies_prims:
  "quantifies (prim TYPE_U8) q \<Longrightarrow> proper q" "quantifies (prim TYPE_USIZE) q \<Longrightarrow> proper q"
  by (erule quantifies_proper; simp only: proper_prims)+

lemma proper_literals: "proper (nmbr_type v)" "proper strl_type"
  by (simp_all add: nmbr_type_def sized_prim_def strl_type_def type_is_integral_def)

lemma proper_fptr: "proper (Ty_fptr l ps r) \<longleftrightarrow> proper_members ps \<and> (case r of None \<Rightarrow> True | Some t \<Rightarrow> proper t)"
  by (cases r) auto

lemma proper_member:
  "proper_members ms \<Longrightarrow> find_member field ms = Some (i, t) \<Longrightarrow> proper t"
  by (induction ms arbitrary: i) (auto split: if_split_asm)

lemma proper_members_of: "members_of t = Inr ms \<Longrightarrow> proper t \<Longrightarrow> proper_members ms"
  by (cases t) (auto simp: members_of_def)

lemma type_succ_integral:
  "type_is_integral t \<Longrightarrow> t \<noteq> TYPE_ENUM \<Longrightarrow> type_is_unsigned t \<Longrightarrow>
     type_is_integral (type_succ t) \<and> type_succ t \<noteq> TYPE_ENUM"
proof -
  have "\<forall>t \<in> set type_ts. type_is_integral t \<longrightarrow> t \<noteq> TYPE_ENUM \<longrightarrow> type_is_unsigned t \<longrightarrow>
      type_is_integral (type_succ t) \<and> type_succ t \<noteq> TYPE_ENUM" by code_simp
  then have "type_is_integral t \<longrightarrow> t \<noteq> TYPE_ENUM \<longrightarrow> type_is_unsigned t \<longrightarrow>
      type_is_integral (type_succ t) \<and> type_succ t \<noteq> TYPE_ENUM" for t
    using type_t_all [of "\<lambda>t. type_is_integral t \<longrightarrow> t \<noteq> TYPE_ENUM \<longrightarrow> type_is_unsigned t \<longrightarrow>
      type_is_integral (type_succ t) \<and> type_succ t \<noteq> TYPE_ENUM"] by blast
  then show "type_is_integral t \<Longrightarrow> t \<noteq> TYPE_ENUM \<Longrightarrow> type_is_unsigned t \<Longrightarrow>
      type_is_integral (type_succ t) \<and> type_succ t \<noteq> TYPE_ENUM" by blast
qed

lemma proper_adapt:
  assumes "proper t" and "uexp_guard op r t = Inr ()"
  shows "proper (uexp_adapt op t)"
proof (cases t)
  case (Ty_prim k l)
  have "type_is_integral k \<Longrightarrow> type_is_unsigned k \<Longrightarrow> k \<noteq> TYPE_ENUM \<Longrightarrow> proper (Ty_prim (type_succ k) l)"
    using type_succ_integral [of k] by simp
  moreover have "op = LEX_TK_MINS \<Longrightarrow> type_is_integral k \<and> k \<noteq> TYPE_ENUM"
    using assms(2) Ty_prim by (auto simp: uexp_guard_def need_Inr)
  ultimately show ?thesis using assms(1) Ty_prim by (auto simp: uexp_adapt_def)
qed (use assms(1) in \<open>auto simp: uexp_adapt_def\<close>)

lemma types_proper:
  assumes ok: "scopes_ok sc" "types_ok env"
  shows "has_type env sc e q \<Longrightarrow> raw e \<Longrightarrow> proper q"
    and "has_args env sc ps a \<Longrightarrow> has_args env sc ps a"
    and "assignable env sc e \<Longrightarrow> assignable env sc e"
proof (induction rule: has_type_has_args_assignable.inducts)
  case (T_name s ob t q x)
  then show ?case using found_type [OF ok(1)] quantifies_proper by (metis sum.inject(2))
next
  case (T_enum a l vs t n v b q x y z w ref)
  then show ?case using symtab_ok [OF ok(2)] quantifies_proper proper_with_count by blast
next
  case (T_minus e t q)
  then have "uexp_guard LEX_TK_MINS e t = Inr ()" by (simp add: uexp_guard_def need_def)
  then show ?case using T_minus by (metis proper_adapt quantifies_proper raw.simps(3))
next
  case (T_call e l ps ret args q)
  then show ?case by (auto simp: proper_fptr dest!: quantifies_proper split: option.splits)
next
  case (T_call_none e l ret q)
  then show ?case by (auto simp: proper_fptr dest!: quantifies_proper split: option.splits)
next
  case (T_deref e t q)
  then show ?case
    by (auto dest!: quantifies_proper simp: pointee_def uexp_adapt_def split: qtype.splits)
next
  case (T_run e t q)
  then show ?case
    by (auto dest!: quantifies_proper simp: pointee_def uexp_adapt_def split: qtype.splits)
next
  case (T_member e t ms field i m q x y ref)
  then show ?case using proper_members_of proper_member quantifies_proper by (metis raw.simps(1))
next
  case (T_arrow e l s ms field i m q x y ref)
  then show ?case using proper_members_of proper_member quantifies_proper by (metis proper.simps(2) raw.simps(1))
next
  case (T_index a ta i ti q)
  then show ?case using proper_with_count quantifies_proper by (metis raw.simps(7))
qed (auto dest: quantifies_proper quantifies_prims simp: proper_literals intro: has_type_has_args_assignable.intros)

subsection \<open>Expressions are checked cleanly\<close>

lemma clean_lvalue:
  assumes ok: "scopes_ok sc"
  shows "raw e \<Longrightarrow> check_expr env sc e k = (Inr e', j) \<Longrightarrow> clean (expr_is_lvalue e')"
proof (induction e arbitrary: k e' j rule: expr_is_lvalue.induct)
  case (1 op a b ref t)
  then obtain a' i ref' b' q where "check_expr env sc a k = (Inr a', i) \<or> op = LEX_TK_SCOP" "e' = E_bexp op a' b' ref' (Some q)"
    by (auto simp: chk_simps finish_type_def split: if_split_asm)
  then show ?case using 1 by (auto simp: typed_def)
next
  case (2 op a c t)
  then show ?case by (auto simp: chk_simps finish_type_def typed_def split: option.splits)
next
  case (3 op r t)
  then obtain r' i i' q where "check_expr env sc r i = (Inr r', i')" "e' = E_uexp op r' (Some q)"
    by (auto simp: chk_simps finish_type_def)
  moreover from this have "type_of_expr r' \<noteq> None"
    using check_expr_sound(1) by (fastforce simp: sound_def)
  ultimately show ?case by (auto simp: typed_def)
next
  case (7 a off t)
  then obtain a' i off' q where "check_expr env sc a k = (Inr a', i)" "e' = E_aexp a' off' (Some q)"
    by (auto simp: chk_simps finish_type_def)
  then show ?case using 7 by (auto simp: typed_def)
next
  case (9 s x t)
  then obtain ob q where "scope_find_object sc s = Some ob" "e' = E_name s (Some ob) (Some q)"
    by (auto simp: chk_simps finish_type_def split: option.splits)
  moreover from this(1) have "\<not> is_dupl ob" using found_ok [OF ok] by blast
  ultimately show ?case by (cases ob) (auto simp: typed_def obj_modifiable_def)
qed (auto simp: chk_simps finish_type_def typed_def split: option.splits qtype.splits)

lemma clean_untyped: "c \<Longrightarrow> clean_c m \<Longrightarrow> clean_c (untyped c m)"
  by (simp add: untyped_def)

lemma clean_find_label: "raw l \<Longrightarrow> raw r \<Longrightarrow> clean (find_label u l r)"
  by (auto simp: find_label_def split: expr.splits option.splits scope_obj.splits)

lemma clean_label_ref: "raw r \<Longrightarrow> clean (label_ref u t r)"
  by (auto simp: label_ref_def clean_find_label split: expr.splits intro!: clean_bind_r)

lemma clean_member: "raw r \<Longrightarrow> clean (member_source op t r)"
  by (auto simp: member_source_def members_of_def split: expr.splits qtype.splits option.splits intro!: clean_bind_r)

lemma count_scoped_raw:
  "raw e \<Longrightarrow> clean (count_scoped e) \<and> (\<forall>n. count_scoped e = Inr n \<longrightarrow> n \<ge> 1 \<and> (n = 1 \<longrightarrow> (\<exists>s x t. e = E_name s x t)))"
proof (induction e rule: count_scoped.induct)
  case (1 op l r ref t)
  then show ?case by (cases l) (auto simp: bind_simps intro!: clean_bind_r)
qed auto

lemma clean_scoped_name:
  assumes "raw (E_bexp LEX_TK_SCOP l r ref t)"
  shows "clean (scoped_name env (E_bexp LEX_TK_SCOP l r ref t))"
proof -
  have "clean (count_scoped (E_bexp LEX_TK_SCOP l r ref t))" using count_scoped_raw [OF assms] by blast
  moreover have "\<exists>s x y. r = E_name s x y"
    if n: "count_scoped (E_bexp LEX_TK_SCOP l r ref t) = Inr n" "n \<le> 2" for n
  proof -
    have "raw r" using assms by simp
    moreover obtain m where "count_scoped r = Inr m" "m \<le> 1"
      using n assms by (auto simp: bind_simps split: expr.splits if_split_asm)
    ultimately show ?thesis using count_scoped_raw [of r] by force
  qed
  ultimately show ?thesis
    unfolding scoped_name_def
    by (intro clean_bind_r)
      (auto simp: need_Inr bind_simps split: expr.splits option.splits qtype.splits intro!: clean_bind_r)
qed

lemma clean_bexp_source:
  assumes "op \<in> bexp_ops" "op \<notin> {LEX_TK_SCOP, LEX_TK_ATSI, LEX_TK_MEMB, LEX_TK_AROW}" and "clean (expr_is_lvalue l)"
  shows "clean (bexp_source op l t u)"
  using assms unfolding bexp_ops_def
  by (elim insertE) (simp_all add: bexp_source_def clean_bind_r)

lemma clean_uexp_guard:
  assumes "op \<in> uexp_ops" and "clean (expr_is_lvalue r)"
  shows "clean (uexp_guard op r t)"
  using assms unfolding uexp_ops_def
  by (elim insertE) (simp_all add: uexp_guard_def Let_def clean_bind_r)

lemma clean_xexp_guard:
  assumes "op \<in> {LEX_TK_INCR, LEX_TK_DECR}" and "clean (expr_is_lvalue l)"
  shows "clean (xexp_guard op l t)"
  using assms by (auto simp: xexp_guard_def Let_def intro!: clean_bind_r)

lemma clean_the_type:
  assumes "check_expr env sc e k = (Inr e', j)"
  shows "clean (the_type e')"
  using check_expr_sound(1) [OF assms] by (auto simp: sound_def the_type_def)

lemma checked_type:
  assumes ok: "scopes_ok sc" "types_ok env" and "raw e" and "check_expr env sc e k = (Inr e', j)"
    and "type_of_expr e' = Some t"
  shows "proper t"
  using check_expr_sound(1) [OF assms(4)] types_proper(1) [OF ok] assms(3,5) by (auto simp: sound_def)

lemma clean_typed_bind:
  assumes ok: "scopes_ok sc" "types_ok env" and e: "raw e" "check_expr env sc e k = (Inr e', j)"
    and f: "\<And>t. type_of_expr e' = Some t \<Longrightarrow> proper t \<Longrightarrow> clean_c (f t)"
  shows "clean_c (bind_c (lift_c (the_type e')) f)"
proof (rule clean_bind_c)
  show "clean_c (lift_c (the_type e'))" using clean_the_type [OF e(2)] by simp
  fix t k j' assume "lift_c (the_type e') k = (Inr t, j')"
  then have "type_of_expr e' = Some t" by (simp add: chk_simps)
  then show "clean_c (f t)" using f checked_type [OF ok e] by blast
qed

lemma clean_make_count: "proper t \<Longrightarrow> clean_c (bind_c (make_type ok (Copy t)) (\<lambda>c. finish_type ok mk (with_count 1 c)))"
proof (rule clean_bind_c [OF clean_make])
  fix c k j assume t: "proper t" and "make_type ok (Copy t) k = (Inr c, j)"
  then have "with_count 1 c = strip (with_count 1 t)" using make_type_Inr by (fastforce simp: strip_with_count)
  moreover have "proper (with_count 1 t)" using t by (simp only: proper_with_count)
  ultimately show "clean_c (finish_type ok mk (with_count 1 c))" by (simp only: clean_finish)
qed

lemma clean_c_eq: "clean_c n \<Longrightarrow> (\<And>k. m k = n k) \<Longrightarrow> clean_c m"
  by (simp add: clean_c_def)

lemma proper_source: "bexp_source op l t u = Inr src \<Longrightarrow> proper t \<Longrightarrow> proper u \<Longrightarrow> proper (src_type src)"
  unfolding bexp_source_def
  by (auto simp: bind_r_Inr_iff simp del: proper.simps simp add: proper_prims split: if_split_asm)

lemma proper_member_source:
  assumes "member_source op t r = Inr (i, m)" and "proper t"
  shows "proper m"
proof -
  obtain field x y where "r = E_name field x y"
    using assms(1) by (auto simp: member_source_def bind_simps split: expr.splits)
  then obtain ms where "find_member field ms = Some (i, m)"
    and "members_of t = Inr ms \<or> (\<exists>l s. t = Ty_ptr l s \<and> members_of s = Inr ms)"
    using assms(1)
    by (auto simp: member_source_def bind_simps chk_simps split: option.splits if_split_asm qtype.splits)
  moreover have "proper_members ms"
    using calculation(2) assms(2) proper_members_of by auto
  ultimately show ?thesis using proper_member by blast
qed

lemma proper_scoped_name: "types_ok env \<Longrightarrow> scoped_name env e = Inr t \<Longrightarrow> proper t"
  unfolding scoped_name_def
  by (auto simp: bind_simps dest: symtab_ok split: expr.splits option.splits qtype.splits simp del: proper.simps)

lemma clean_check_bexp:
  assumes ok: "scopes_ok sc" "types_ok env" and e: "raw (E_bexp op l r ref t)"
    and l: "clean_c (check_expr env sc l)" and r: "clean_c (check_expr env sc r)"
  shows "clean_c (check_expr env sc (E_bexp op l r ref t))"
proof -
  have rl: "raw l" and rr: "raw r" and t: "t = None" using e by simp_all
  consider (scop) "op = LEX_TK_SCOP" | (label) "op = LEX_TK_ATSI" | (member) "op \<in> {LEX_TK_MEMB, LEX_TK_AROW}"
    | (other) "op \<noteq> LEX_TK_SCOP" "op \<noteq> LEX_TK_ATSI" "op \<notin> {LEX_TK_MEMB, LEX_TK_AROW}" by blast
  then show ?thesis
  proof cases
    case scop
    have "clean_c (bind_c (lift_c (scoped_name env (E_bexp op l r ref t))) (\<lambda>t.
       bind_c (make_type (te_mem env) (Copy t)) (\<lambda>c. finish_type (te_mem env) (E_bexp op l r ref) (with_count 1 c))))"
      using e clean_scoped_name unfolding scop
      by (intro clean_bind_c clean_make_count) (auto simp: chk_simps dest: proper_scoped_name [OF ok(2)])
    then show ?thesis by (rule clean_c_eq) (simp add: scop t untyped_def)
  next
    case label
    then show ?thesis
      using e by (intro clean_c_eq [OF _ check_expr.simps(1)]) (auto intro!: clean_untyped clean_bind_c [OF l] clean_typed_bind [OF ok] clean_bind_c [of "lift_c _"]
          clean_make_finish clean_label_ref intro: clean_the_type)
  next
    case member
    have mp: "proper m" if "check_expr env sc l k = (Inr x, j)" "type_of_expr x = Some lt" "member_source op lt r = Inr (i, m)"
      for k x j lt i m
      using proper_member_source [OF that(3)] checked_type [OF ok rl that(1, 2)] by blast
    show ?thesis
      using e member by (intro clean_c_eq [OF _ check_expr.simps(1)]) (auto simp: chk_simps intro!: clean_untyped clean_bind_c [OF l] clean_typed_bind [OF ok]
          clean_bind_c [of "lift_c _"] clean_make_finish clean_member intro: mp clean_the_type)
  next
    case other
    have "clean_c (bind_c (both_c (check_expr env sc l) (check_expr env sc r)) (\<lambda>(l, r).
       bind_c (lift_c (the_type l)) (\<lambda>lt. bind_c (lift_c (the_type r)) (\<lambda>rt.
       bind_c (lift_c (bexp_source op l lt rt)) (\<lambda>src.
       bind_c (make_type (te_mem env) src) (finish_type (te_mem env) (E_bexp op l r ref)))))))"
    proof (rule clean_bind_c [OF clean_both_c [OF l r]])
      fix x k j assume "both_c (check_expr env sc l) (check_expr env sc r) k = (Inr x, j)"
      then obtain l' r' i where x: "x = (l', r')" "check_expr env sc l k = (Inr l', i)" "check_expr env sc r i = (Inr r', j)"
        by (cases x) (auto simp: both_c_Inr)
      have "clean (expr_is_lvalue l')" by (rule clean_lvalue [OF ok(1) rl x(2)])
      then show "clean_c (case x of (l, r) \<Rightarrow>
         bind_c (lift_c (the_type l)) (\<lambda>lt. bind_c (lift_c (the_type r)) (\<lambda>rt.
         bind_c (lift_c (bexp_source op l lt rt)) (\<lambda>src.
         bind_c (make_type (te_mem env) src) (finish_type (te_mem env) (E_bexp op l r ref))))))"
        using e other unfolding x(1)
        by (auto simp: chk_simps intro!: clean_typed_bind [OF ok rl x(2)] clean_typed_bind [OF ok rr x(3)]
            clean_bind_c [of "lift_c _"] clean_make_finish clean_bexp_source proper_source)
    qed
    then show ?thesis by (rule clean_c_eq) (simp add: other [simplified] t untyped_def)
  qed
qed

lemma clean_check_call:
  assumes ok: "scopes_ok sc" "types_ok env" and e: "raw (E_fexp l as n t)"
    and l: "clean_c (check_expr env sc l)"
    and a: "\<And>a ps. as = Some a \<Longrightarrow> clean_c (check_args env sc ps a)"
  shows "clean_c (check_expr env sc (E_fexp l as n t))"
proof (rule clean_c_eq [OF _ check_expr.simps(5)], intro clean_untyped clean_bind_c [OF l])
  fix l' k j assume l': "check_expr env sc l k = (Inr l', j)"
  have rl: "raw l" using e by simp
  show "clean_c (bind_c (lift_c (the_type l')) (\<lambda>lt. case lt of
      Ty_fptr ly ps ret \<Rightarrow>
        bind_c (lift_c (need (scalar lt))) (\<lambda>_.
        bind_c (case as of
                  None \<Rightarrow> lift_c (bind_r (need (ps = [])) (\<lambda>_. Inr None))
                | Some a \<Rightarrow> bind_c (check_args env sc ps a) (\<lambda>a. ret_c (Some a))) (\<lambda>args.
        bind_c (alloc_c (te_mem env)) (\<lambda>_.
        bind_c (case ret of None \<Rightarrow> ret_c (Ty_prim TYPE_VOID (lay 0)) | Some rt \<Rightarrow> copy_c (te_mem env) rt)
          (finish_type (te_mem env) (E_fexp l' args (length ps))))))
    | _ \<Rightarrow> lift_c (Inl TYPE_INVALID)))"
  proof (rule clean_typed_bind [OF ok rl l'])
    fix lt assume "type_of_expr l' = Some lt" and p: "proper lt"
    have fin: "clean_c (bind_c (case ret of None \<Rightarrow> ret_c (Ty_prim TYPE_VOID (lay 0)) | Some rt \<Rightarrow> copy_c (te_mem env) rt)
        (finish_type (te_mem env) mk))" if "case ret of None \<Rightarrow> True | Some r \<Rightarrow> proper r" for ret mk
    proof (cases ret)
      case None
      have "clean_c (finish_type (te_mem env) mk (strip (Ty_prim TYPE_VOID (lay 0))))" by (rule clean_finish) simp
      then show ?thesis using None by (intro clean_bind_c) (auto simp: ret_c_Inr)
    next
      case (Some r)
      then show ?thesis using that by (intro clean_bind_c) (auto dest!: copy_c_Inr intro: clean_finish)
    qed
    show "clean_c (case lt of
      Ty_fptr ly ps ret \<Rightarrow>
        bind_c (lift_c (need (scalar lt))) (\<lambda>_.
        bind_c (case as of
                  None \<Rightarrow> lift_c (bind_r (need (ps = [])) (\<lambda>_. Inr None))
                | Some a \<Rightarrow> bind_c (check_args env sc ps a) (\<lambda>a. ret_c (Some a))) (\<lambda>args.
        bind_c (alloc_c (te_mem env)) (\<lambda>_.
        bind_c (case ret of None \<Rightarrow> ret_c (Ty_prim TYPE_VOID (lay 0)) | Some rt \<Rightarrow> copy_c (te_mem env) rt)
          (finish_type (te_mem env) (E_fexp l' args (length ps))))))
    | _ \<Rightarrow> lift_c (Inl TYPE_INVALID))"
    proof (cases lt)
      case (Ty_fptr ly ps ret)
      have args: "clean_c (case as of
                  None \<Rightarrow> lift_c (bind_r (need (ps = [])) (\<lambda>_. Inr None))
                | Some a \<Rightarrow> bind_c (check_args env sc ps a) (\<lambda>a. ret_c (Some a)))"
        by (cases as) (auto intro!: clean_bind_r clean_bind_c a)
      then show ?thesis
        using Ty_fptr p
        by (auto simp: proper_fptr intro!: clean_bind_c [of "lift_c _"] clean_bind_c [of "alloc_c _"] clean_bind_c [OF args] fin)
    qed simp_all
  qed
qed (use e in simp)

lemma clean_args_single:
  assumes "clean_c (check_expr env sc a)" and "\<not> (\<exists>x y r u. a = E_bexp LEX_TK_COMA x y r u)"
  shows "clean_c (check_args env sc ps a)"
proof (cases ps)
  case Nil
  show ?thesis by (rule clean_c_eq [OF _ check_args.simps]) (simp add: Nil)
next
  case (Cons p ps')
  obtain n t where p: "p = (n, t)" by fastforce
  have "clean_c (bind_c (check_expr env sc a) (\<lambda>x. bind_c (lift_c (the_type x)) (\<lambda>xt.
      bind_c (lift_c (need (type_equals xt t \<and> ps' = []))) (\<lambda>_. ret_c x))))"
    by (intro clean_bind_c [OF assms(1)] clean_bind_c [of "lift_c _"]) (auto intro: clean_the_type)
  then show ?thesis
    by (rule clean_c_eq) (use assms(2) Cons p in \<open>cases a; simp add: check_args.simps del: check_expr.simps\<close>)
qed

lemma clean_args_more:
  assumes x: "clean_c (check_expr env sc x)" and rest: "\<And>ps. clean_c (check_args env sc ps rest)"
  shows "clean_c (check_args env sc ps (E_bexp LEX_TK_COMA x rest r u))"
proof (cases ps)
  case Nil
  show ?thesis by (rule clean_c_eq [OF _ check_args.simps]) (simp add: Nil)
next
  case (Cons p ps')
  obtain n t where p: "p = (n, t)" by fastforce
  have "clean_c (bind_c (check_expr env sc x) (\<lambda>x. bind_c (lift_c (the_type x)) (\<lambda>xt.
      bind_c (lift_c (need (type_equals xt t))) (\<lambda>_.
      if rest = E_null then lift_c (bind_r (need (ps' = [])) (\<lambda>_. Inr (E_bexp LEX_TK_COMA x rest r u)))
      else bind_c (check_args env sc ps' rest) (\<lambda>rest. ret_c (E_bexp LEX_TK_COMA x rest r u))))))"
    by (intro clean_bind_c [OF x] clean_bind_c [of "lift_c _"])
      (auto intro: clean_the_type intro!: clean_bind_r clean_bind_c [OF rest])
  then show ?thesis by (rule clean_c_eq) (simp add: Cons p check_args.simps [of env sc "(n, t) # ps'"] del: check_expr.simps)
qed

lemma clean_check_uexp:
  assumes ok: "scopes_ok sc" "types_ok env" and e: "raw (E_uexp op r t)" and r: "clean_c (check_expr env sc r)"
  shows "clean_c (check_expr env sc (E_uexp op r t))"
proof (rule clean_c_eq [OF _ check_expr.simps(3)], intro clean_untyped clean_bind_c [of "alloc_c _"] clean_bind_c [OF r])
  fix r' k j assume r': "check_expr env sc r k = (Inr r', j)"
  have rr: "raw r" and op: "op \<in> uexp_ops" using e by simp_all
  have lv: "clean (expr_is_lvalue r')" by (rule clean_lvalue [OF ok(1) rr r'])
  show "clean_c (bind_c (lift_c (the_type r')) (\<lambda>rt. bind_c (copy_c (te_mem env) rt) (\<lambda>c.
     bind_c (lift_c (uexp_guard op r' rt)) (\<lambda>_.
     bind_c (if op \<in> {LEX_TK_TILD, LEX_TK_AMPS} then alloc_c (te_mem env) else ret_c ()) (\<lambda>_.
     finish_type (te_mem env) (E_uexp op r') (uexp_adapt op c))))))"
  proof (rule clean_typed_bind [OF ok rr r'])
    fix rt assume "proper rt"
    then have fin: "clean_c (finish_type (te_mem env) (E_uexp op r') (uexp_adapt op (strip rt)))"
      if "uexp_guard op r' rt = Inr ()"
      using clean_finish [OF proper_adapt [OF _ that]] by (simp add: strip_adapt)
    show "clean_c (bind_c (copy_c (te_mem env) rt) (\<lambda>c. bind_c (lift_c (uexp_guard op r' rt)) (\<lambda>_.
     bind_c (if op \<in> {LEX_TK_TILD, LEX_TK_AMPS} then alloc_c (te_mem env) else ret_c ()) (\<lambda>_.
     finish_type (te_mem env) (E_uexp op r') (uexp_adapt op c)))))"
      by (intro clean_bind_c [of "copy_c _ _"] clean_bind_c [of "lift_c _"] clean_bind_c [of "if _ then _ else _"])
        (auto simp: chk_simps clean_uexp_guard [OF op lv] dest!: copy_c_Inr intro: fin)
  qed
qed (use e in simp_all)

lemma clean_check_expr:
  assumes ok: "scopes_ok sc" "types_ok env"
  shows "raw e \<Longrightarrow> clean_c (check_expr env sc e) \<and> (\<forall>ps. clean_c (check_args env sc ps e))"
proof (induction e rule: raw.induct)
  case (1 op l r ref t)
  then have l: "clean_c (check_expr env sc l)" and r: "clean_c (check_expr env sc r)"
    and a: "clean_c (check_args env sc ps r)" for ps by auto
  have e: "clean_c (check_expr env sc (E_bexp op l r ref t))" by (rule clean_check_bexp [OF ok "1.prems" l r])
  moreover have "clean_c (check_args env sc ps (E_bexp op l r ref t))" for ps
  proof (cases "op = LEX_TK_COMA")
    case True
    then show ?thesis using clean_args_more [OF l a] by simp
  qed (rule clean_args_single [OF e], simp)
  ultimately show ?case by blast
next
  case (2 op l c t)
  then have l: "clean_c (check_expr env sc l)" by auto
  obtain ct where ct: "c = Some ct" "proper ct" using "2.prems" by (auto split: option.splits)
  have "clean_c (check_expr env sc (E_cast op l c t))"
    using "2.prems" ct by (intro clean_c_eq [OF _ check_expr.simps(2)] clean_untyped clean_bind_c [OF l] clean_bind_c [of "lift_c _"])
      (auto intro: clean_the_type intro!: clean_bind_c [of "lift_c _"] clean_make_finish)
  then show ?case using clean_args_single by blast
next
  case (3 op r t)
  then have "clean_c (check_expr env sc (E_uexp op r t))" by (intro clean_check_uexp ok) auto
  then show ?case using clean_args_single by blast
next
  case (4 op ts t)
  have "clean_c (check_expr env sc (E_size op ts t))"
    using "4.prems" by (intro clean_c_eq [OF _ check_expr.simps(4)] clean_untyped clean_make_finish) simp_all
  then show ?case using clean_args_single by blast
next
  case (5 l as n t)
  then have "clean_c (check_expr env sc (E_fexp l as n t))" by (intro clean_check_call ok) auto
  then show ?case using clean_args_single by blast
next
  case (6 op l t)
  then have l: "clean_c (check_expr env sc l)" and rl: "raw l" by auto
  have "clean_c (check_expr env sc (E_xexp op l t))"
    using "6.prems"
    by (intro clean_c_eq [OF _ check_expr.simps(6)] clean_untyped clean_bind_c [OF l] clean_typed_bind [OF ok rl] clean_bind_c [of "make_type _ _"] clean_make clean_bind_c [of "lift_c _"])
      (auto dest!: make_type_Inr intro!: clean_finish clean_xexp_guard clean_lvalue [OF ok(1) rl])
  then show ?case using clean_args_single by blast
next
  case (7 b off t)
  then have b: "clean_c (check_expr env sc b)" "raw b" and off: "clean_c (check_expr env sc off)" "raw off" by auto
  have "clean_c (bind_c (both_c (check_expr env sc b) (check_expr env sc off)) (\<lambda>(b, off).
     bind_c (lift_c (the_type b)) (\<lambda>bt. bind_c (lift_c (the_type off)) (\<lambda>ot.
     bind_c (lift_c (need (\<not> scalar bt \<and> type_is_integral (ty_t ot) \<and> \<not> type_is_signed (ty_t ot)))) (\<lambda>_.
     bind_c (make_type (te_mem env) (Copy bt)) (\<lambda>c. finish_type (te_mem env) (E_aexp b off) (with_count 1 c)))))))"
    by (rule clean_bind_c [OF clean_both_c [OF b(1) off(1)]], clarsimp simp: both_c_Inr,
        rule clean_typed_bind [OF ok b(2)], assumption, rule clean_typed_bind [OF ok off(2)], assumption)
      (auto intro!: clean_bind_c [of "lift_c _"] clean_make_count)
  then have "clean_c (check_expr env sc (E_aexp b off t))"
    using "7.prems" by (intro clean_c_eq [OF _ check_expr.simps(7)] clean_untyped) simp_all
  then show ?case using clean_args_single by blast
next
  case (8 c x y t)
  then have c: "clean_c (check_expr env sc c)" "raw c" and x: "clean_c (check_expr env sc x)" "raw x"
    and y: "clean_c (check_expr env sc y)" "raw y" by auto
  have "clean_c (bind_c (both_c (check_expr env sc c) (both_c (check_expr env sc x) (check_expr env sc y))) (\<lambda>(c, x, y).
     bind_c (lift_c (the_type c)) (\<lambda>ct. bind_c (lift_c (the_type x)) (\<lambda>xt. bind_c (lift_c (the_type y)) (\<lambda>yt.
     bind_c (lift_c (need ((integral_or_ptr (ty_t ct) \<or> type_is_quaint (ty_t ct)) \<and> type_equals xt yt))) (\<lambda>_.
     bind_c (make_type (te_mem env) (Copy xt)) (finish_type (te_mem env) (E_texp c x y))))))))"
    by (rule clean_bind_c [OF clean_both_c [OF c(1) clean_both_c [OF x(1) y(1)]]], clarsimp simp: both_c_Inr,
        rule clean_typed_bind [OF ok c(2)], assumption, rule clean_typed_bind [OF ok x(2)], assumption,
        rule clean_typed_bind [OF ok y(2)], assumption)
      (auto intro!: clean_bind_c [of "lift_c _"] clean_make_finish)
  then have "clean_c (check_expr env sc (E_texp c x y t))"
    using "8.prems" by (intro clean_c_eq [OF _ check_expr.simps(8)] clean_untyped) simp_all
  then show ?case using clean_args_single by blast
next
  case (9 s ob t)
  have "clean_c (check_expr env sc (E_name s ob t))"
  proof (rule clean_c_eq [OF _ check_expr.simps(9)], rule clean_untyped)
    show "t = None" using "9.prems" by simp
    show "clean_c (case scope_find_object sc s of None \<Rightarrow> lift_c (Inl TYPE_INVALID)
       | Some found \<Rightarrow> bind_c (alloc_c (te_mem env)) (\<lambda>_. bind_c (lift_c (name_type found)) (\<lambda>nt.
         bind_c (copy_c (te_mem env) nt) (finish_type (te_mem env) (E_name s (Some found))))))"
    proof (cases "scope_find_object sc s")
      case (Some found)
      then obtain nt where "name_type found = Inr nt" "proper nt" using found_type [OF ok(1)] by blast
      then show ?thesis
        using Some by (auto simp: chk_simps dest!: copy_c_Inr intro!: clean_bind_c [of "alloc_c _"]
            clean_bind_c [of "lift_c _"] clean_bind_c [of "copy_c _ _"] clean_finish)
    qed simp
  qed
  then show ?case using clean_args_single by blast
next
  case (10 v t)
  have "clean_c (check_expr env sc (E_nmbr v t))"
    using "10.prems" by (intro clean_c_eq [OF _ check_expr.simps(10)] clean_untyped) simp_all
  then show ?case using clean_args_single by blast
next
  case (11 v t)
  have "clean_c (check_expr env sc (E_strl v t))"
    using "11.prems" by (intro clean_c_eq [OF _ check_expr.simps(11)] clean_untyped) simp_all
  then show ?case using clean_args_single by blast
qed simp_all

subsection \<open>Statements are checked cleanly\<close>

definition decl_raw :: "decl \<Rightarrow> bool" where
  "decl_raw d \<longleftrightarrow> proper (d_type d) \<and> unquantified (d_type d)"

fun is_blok :: "stmt \<Rightarrow> bool" where
  "is_blok (S_blok _ _ _) \<longleftrightarrow> True"
| "is_blok _ \<longleftrightarrow> False"

text \<open>Complete statements before their scopes are built.\<close>

fun stmt_raw :: "stmt \<Rightarrow> bool"
  and block_raw :: "stmt list \<Rightarrow> bool"
  and elifs_raw :: "(expr \<times> stmt) list \<Rightarrow> bool"
where
  "stmt_raw S_skip \<longleftrightarrow> True"
| "stmt_raw (S_decl d init) \<longleftrightarrow> decl_raw d \<and> pred_option raw init"
| "stmt_raw (S_func _ _ _) \<longleftrightarrow> False"
| "stmt_raw (S_blok _ _ ss) \<longleftrightarrow> block_raw ss"
| "stmt_raw (S_whil e _ ss) \<longleftrightarrow> raw e \<and> block_raw ss"
| "stmt_raw (S_dowh e _ ss) \<longleftrightarrow> raw e \<and> block_raw ss"
| "stmt_raw (S_cond e s es els) \<longleftrightarrow> raw e \<and> is_blok s \<and> stmt_raw s \<and> elifs_raw es \<and>
     (case els of None \<Rightarrow> True | Some t \<Rightarrow> is_blok t \<and> stmt_raw t)"
| "stmt_raw (S_retn e) \<longleftrightarrow> pred_option raw e"
| "stmt_raw (S_wait q wfor wunt _ _ _ _) \<longleftrightarrow> raw q \<and> pred_option raw wfor \<and> pred_option raw wunt"
| "stmt_raw (S_wlab _ fn i) \<longleftrightarrow> fn = 0 \<and> i = 0"
| "stmt_raw (S_expr e) \<longleftrightarrow> raw e"
| "block_raw [] \<longleftrightarrow> True"
| "block_raw (s # ss) \<longleftrightarrow> stmt_raw s \<and> block_raw ss"
| "elifs_raw [] \<longleftrightarrow> True"
| "elifs_raw (e # es) \<longleftrightarrow> raw (fst e) \<and> is_blok (snd e) \<and> stmt_raw (snd e) \<and> elifs_raw es"

definition label_ok :: "func \<Rightarrow> lex_symbol \<Rightarrow> bool" where
  "label_ok f n \<longleftrightarrow> f_addr f \<noteq> 0 \<and> (case scope_find_wlab f n of None \<Rightarrow> False | Some i \<Rightarrow> snd (f_wlabs f ! i) \<noteq> 0)"

lemma sealed_ok:
  assumes "list_all obj_ok objs" and "\<forall>x \<in> set objs. \<not> is_dupl x"
  shows "list_all obj_ok (sealed objs)"
proof -
  have "obj_ok (marked objs x)" if "x \<in> set objs" for x
    using assms(1) that by (simp add: marked_def list_all_iff) (simp add: obj_ok_def)
  then show ?thesis by (simp add: sealed_def seal_scope_objs [OF assms(2)] list_all_iff)
qed

lemma block_objs_ok: "block_raw ss \<Longrightarrow> list_all obj_ok (block_objs ss)"
proof (induction ss)
  case (Cons s ss)
  then have "list_all obj_ok (case s of S_decl d _ \<Rightarrow> map (\<lambda>n. SCOPE_OBJ_AVAR n d) (d_names d) | _ \<Rightarrow> [])"
    by (cases s) (auto simp: obj_ok_def name_type_def decl_raw_def list_all_iff)
  then show ?case using Cons by simp
qed simp

lemma block_scope_ok: "block_raw ss \<Longrightarrow> list_all obj_ok (sealed (block_objs ss))"
  using block_objs_ok block_objs_fresh by (blast intro: sealed_ok)

lemma clean_checked:
  assumes ok: "scopes_ok sc" "types_ok env" and e: "raw e"
  shows "clean_c (bind_c (check_expr env sc e) (\<lambda>e. bind_c (lift_c (the_type e)) (\<lambda>t.
    bind_c (lift_c (need (p t))) (\<lambda>_. ret_c (g e)))))"
proof (rule clean_bind_c)
  show "clean_c (check_expr env sc e)" using clean_check_expr [OF ok e] by blast
  fix e' k j assume "check_expr env sc e k = (Inr e', j)"
  then show "clean_c (bind_c (lift_c (the_type e')) (\<lambda>t. bind_c (lift_c (need (p t))) (\<lambda>_. ret_c (g e'))))"
    by (intro clean_typed_bind [OF ok e]) (simp_all add: clean_bind_c)
qed

lemma clean_decl:
  assumes ok: "scopes_ok sc" "types_ok env" and d: "decl_raw d" "pred_option raw init"
  shows "clean_c (check_decl env sc d init)"
  unfolding check_decl_def
proof (rule clean_bind_c [OF clean_both_c])
  show "clean_c (case init of None \<Rightarrow> ret_c None | Some e \<Rightarrow> bind_c (check_expr env sc e) (\<lambda>e.
      bind_c (lift_c (the_type e)) (\<lambda>t. bind_c (lift_c (need (type_equals (d_type d) t))) (\<lambda>_. ret_c (Some e)))))"
    using d(2) by (cases init) (simp_all add: clean_checked [OF ok])
  show "clean_c (quantify_c (te_mem env) (d_type d))"
    using d(1) by (simp add: decl_raw_def clean_quantify)
qed (simp split: prod.split)

lemma clean_retn:
  assumes ok: "scopes_ok sc" "types_ok env" and "pred_option raw e"
  shows "clean_c (check_retn env sc f e)"
  using assms(3) unfolding check_retn_def
  by (cases e; cases "f_rettype f") (simp_all add: clean_checked [OF ok])

lemma clean_wait:
  assumes ok: "scopes_ok sc" "types_ok env" and raw: "raw q" "pred_option raw wfor" "pred_option raw wunt"
  shows "clean_c (check_wait env sc q wfor wunt nb units fn i)"
  unfolding check_wait_def
proof (rule clean_bind_c [OF clean_both_c])
  show "clean_c (bind_c (check_expr env sc q) (\<lambda>q. bind_c (lift_c (the_type q)) (\<lambda>t.
      bind_c (lift_c (need (ty_t t = TYPE_QUAINT))) (\<lambda>_. ret_c q))))"
    by (rule clean_checked [OF ok raw(1)])
  have label: "clean_c (bind_c (lift_c (find_label u l r)) (\<lambda>(f, i). ret_c (None, Some f, i)))"
    if "raw l" "raw r" for u l r
    by (rule clean_bind_c) (simp_all add: clean_find_label [OF that] split: prod.split)
  show "clean_c (case wfor of
          Some e \<Rightarrow> bind_c (check_expr env sc e) (\<lambda>e. bind_c (lift_c (the_type e)) (\<lambda>t.
            bind_c (lift_c (need (scalar t \<and> type_is_integral (ty_t t) \<and> \<not> type_is_signed (ty_t t)))) (\<lambda>_.
            ret_c (Some e, fn, i))))
        | None \<Rightarrow> (case wunt of
               None \<Rightarrow> ret_c (None, fn, i)
             | Some (E_bexp op l r ref t) \<Rightarrow>
                 if op = LEX_TK_SCOP then
                   bind_c (lift_c (find_label (te_unit env) l r)) (\<lambda>(f, i). ret_c (None, Some f, i))
                 else lift_c (Inl TYPE_INVALID)
             | Some _ \<Rightarrow> lift_c (Inl TYPE_INVALID)))"
  proof (cases wfor)
    case None
    then show ?thesis using raw(3) label by (auto split: option.split expr.split)
  next
    case (Some e)
    then show ?thesis using raw(2) by (simp add: clean_checked [OF ok])
  qed
qed (simp split: prod.split)

lemma clean_block:
  assumes "is_blok s" and "clean_c (check_stmt env sc f (scoped s))"
  shows "clean_c (check_block env sc f (scoped s))"
  using assms by (cases s) (auto simp: clean_c_def)

lemma blok_labels: "is_blok s \<Longrightarrow> block_labels [s] = labels s"
  by (cases s) simp_all

lemma clean_check_stmt:
  assumes types: "types_ok env"
  shows "stmt_raw s \<Longrightarrow> scopes_ok sc \<Longrightarrow> list_all (label_ok f) (block_labels [s]) \<Longrightarrow>
      clean_c (check_stmt env sc f (scoped s))"
    and "block_raw ss \<Longrightarrow> scopes_ok sc \<Longrightarrow> list_all (label_ok f) (block_labels ss) \<Longrightarrow>
      clean_c (check_stmts env sc f (map scoped ss))"
    and "elifs_raw es \<Longrightarrow> scopes_ok sc \<Longrightarrow> list_all (label_ok f) (elif_labels es) \<Longrightarrow>
      clean_c (check_elifs env sc f (map (map_prod id scoped) es))"
proof (induction s and ss and es arbitrary: sc and sc and sc rule: stmt_raw_block_raw_elifs_raw.induct)
  case 1
  show ?case by (rule clean_c_eq [of "ret_c S_skip"]) simp_all
next
  case (2 d init)
  then have "clean_c (check_decl env sc d init)" by (intro clean_decl types) simp_all
  then show ?case by (rule clean_c_eq) simp
next
  case (4 noin bsc ss)
  then have "scopes_ok (sealed (block_objs ss) # sc)" using block_scope_ok by (simp add: scopes_ok_def)
  then have "clean_c (check_stmts env (sealed (block_objs ss) # sc) f (map scoped ss))" using 4 by simp
  then have "clean_c (bind_c (check_stmts env (sealed (block_objs ss) # sc) f (map scoped ss))
      (\<lambda>ss'. ret_c (S_blok noin (sealed (block_objs ss)) ss')))"
    by (simp add: clean_bind_c)
  then show ?case by (rule clean_c_eq) simp
next
  case (5 e bsc ss)
  then have "scopes_ok (sealed (block_objs ss) # sc)" using block_scope_ok by (simp add: scopes_ok_def)
  then have "clean_c (check_stmts env (sealed (block_objs ss) # sc) f (map scoped ss))" using 5 by simp
  moreover have "clean_c (check_expr env sc e)" using clean_check_expr [OF _ types] 5 by simp
  ultimately have "clean_c (bind_c (both_c (check_expr env sc e) (check_stmts env (sealed (block_objs ss) # sc) f (map scoped ss)))
      (\<lambda>(e, b). ret_c (S_whil e (sealed (block_objs ss)) b)))"
    by (intro clean_bind_c [OF clean_both_c]) (auto split: prod.split)
  then show ?case by (rule clean_c_eq) simp
next
  case (6 e bsc ss)
  then have "scopes_ok (sealed (block_objs ss) # sc)" using block_scope_ok by (simp add: scopes_ok_def)
  then have "clean_c (check_stmts env (sealed (block_objs ss) # sc) f (map scoped ss))" using 6 by simp
  moreover have "clean_c (check_expr env sc e)" using clean_check_expr [OF _ types] 6 by simp
  ultimately have "clean_c (bind_c (both_c (check_stmts env (sealed (block_objs ss) # sc) f (map scoped ss)) (check_expr env sc e))
      (\<lambda>(b, e). ret_c (S_dowh e (sealed (block_objs ss)) b)))"
    by (intro clean_bind_c [OF clean_both_c]) (auto split: prod.split)
  then show ?case by (rule clean_c_eq) simp
next
  case (7 e s es els)
  have e: "clean_c (check_expr env sc e)" using clean_check_expr [OF _ types] 7 by simp
  have s: "clean_c (check_block env sc f (scoped s))"
    using "7.prems" blok_labels [of s] by (intro clean_block "7.IH"(1)) simp_all
  have es: "clean_c (check_elifs env sc f (map (map_prod id scoped) es))" using 7 by (simp add: id_def)
  have els: "clean_c (case map_option scoped els of None \<Rightarrow> ret_c None
      | Some t \<Rightarrow> bind_c (check_block env sc f t) (\<lambda>t. ret_c (Some t)))"
  proof (cases els)
    case (Some t)
    then have "clean_c (check_block env sc f (scoped t))"
      using "7.prems" Some blok_labels [of t] by (intro clean_block "7.IH"(3) [OF Some]) simp_all
    then show ?thesis using Some by (simp add: clean_bind_c)
  qed simp
  from e s es els have "clean_c (bind_c (both_c (check_expr env sc e) (both_c (check_block env sc f (scoped s))
      (both_c (check_elifs env sc f (map (map_prod id scoped) es))
        (case map_option scoped els of None \<Rightarrow> ret_c None
         | Some t \<Rightarrow> bind_c (check_block env sc f t) (\<lambda>t. ret_c (Some t))))))
      (\<lambda>(e, s, elifs, els). ret_c (S_cond e s elifs els)))"
    by (intro clean_bind_c [OF clean_both_c [OF _ clean_both_c [OF _ clean_both_c]]]) (simp_all split: prod.split)
  then show ?case by (rule clean_c_eq) simp
next
  case (8 e)
  then have "clean_c (check_retn env sc f e)" by (intro clean_retn types) simp_all
  then show ?case by (rule clean_c_eq) simp
next
  case (9 q wfor wunt nb units fn i)
  then have "clean_c (check_wait env sc q wfor wunt nb units fn i)" by (intro clean_wait types) simp_all
  then show ?case by (rule clean_c_eq) simp
next
  case (10 n fn i)
  then have "clean (identify_wlab f n fn i)" by (auto simp: identify_wlab_def label_ok_def split: option.splits)
  then have "clean_c (lift_c (identify_wlab f n fn i))" by simp
  then show ?case by (rule clean_c_eq) simp
next
  case (11 e)
  then have "clean_c (bind_c (check_expr env sc e) (\<lambda>e. ret_c (S_expr e)))"
    using clean_check_expr [OF _ types] by (simp add: clean_bind_c)
  then show ?case by (rule clean_c_eq) simp
next
  case 12
  show ?case by (rule clean_c_eq [of "ret_c []"]) simp_all
next
  case (13 s ss)
  then have "clean_c (check_stmt env sc f (scoped s))" "clean_c (check_stmts env sc f (map scoped ss))" by simp_all
  then have "clean_c (bind_c (both_c (check_stmt env sc f (scoped s)) (check_stmts env sc f (map scoped ss)))
      (\<lambda>(s, ss). ret_c (s # ss)))"
    by (rule clean_bind_c [OF clean_both_c]) (simp split: prod.split)
  then show ?case by (rule clean_c_eq) simp
next
  case 14
  show ?case by (rule clean_c_eq [of "ret_c []"]) simp_all
next
  case (15 x es)
  obtain e s where x: "x = (e, s)" by fastforce
  have e: "clean_c (check_expr env sc e)" using clean_check_expr [OF _ types] 15 x by simp
  have s: "clean_c (check_block env sc f (scoped s))"
    using "15.prems" x blok_labels [of s] "15.IH"(1) [of sc] by (intro clean_block) simp_all
  have es: "clean_c (check_elifs env sc f (map (map_prod id scoped) es))" using 15 by (simp add: id_def)
  from e s es have "clean_c (bind_c (both_c (check_expr env sc e) (both_c (check_block env sc f (scoped s))
      (check_elifs env sc f (map (map_prod id scoped) es)))) (\<lambda>(e, s, es). ret_c ((e, s) # es)))"
    by (intro clean_bind_c [OF clean_both_c [OF _ clean_both_c]]) (simp_all split: prod.split)
  then show ?case unfolding x by (rule clean_c_eq) (simp add: id_def)
qed simp_all

subsection \<open>The unit\<close>

fun unit_raw :: "stmt \<Rightarrow> bool" where
  "unit_raw (S_decl d init) \<longleftrightarrow> decl_raw d \<and> pred_option raw init"
| "unit_raw (S_func f _ body) \<longleftrightarrow> list_all (\<lambda>p. proper (snd p) \<and> unquantified (snd p)) (f_params f) \<and>
     pred_option proper (f_rettype f) \<and> block_raw body \<and> f_addr f \<noteq> 0 \<and> length (block_labels body) < 2 ^ 64 - 1"
| "unit_raw _ \<longleftrightarrow> True"

lemma linked_labels:
  assumes "f_addr f \<noteq> 0" and "length (block_labels body) < 2 ^ 64 - 1"
  shows "list_all (label_ok (linked f body)) (block_labels body)"
proof -
  have "label_ok (linked f body) n" if n: "n \<in> set (block_labels body)" for n
  proof -
    have len: "length (f_wlabs (linked f body)) = length (block_labels body)"
      by (simp add: linked_def) (metis identify_wlabs_names length_map qsort_length)
    obtain i where i: "scope_find_wlab (linked f body) n = Some i" "i < length (f_wlabs (linked f body))"
      using labels_numbered [OF assms(2), where f = f and name = n] n len by (auto split: option.splits)
    then have "f_wlabs (linked f body) ! i \<in> set (f_wlabs (linked f body))" by simp
    then have "snd (f_wlabs (linked f body) ! i) \<noteq> 0"
      using labels_numbered [OF assms(2), where f = f and name = n] by (metis (mono_tags, lifting) case_prod_beta)
    then show ?thesis using i(1) assms(1) by (simp add: label_ok_def linked_def)
  qed
  then show ?thesis by (simp add: list_all_iff)
qed

lemma proper_params: "list_all (\<lambda>p. proper (snd p) \<and> q p) ps \<Longrightarrow> proper_members ps"
  by (induction ps) auto

lemma builtins_ok: "list_all obj_ok add_builtins"
  by code_simp

lemma unit_scope_ok:
  assumes "list_all unit_raw ss"
  shows "list_all obj_ok (sealed (add_builtins @ unit_objs ss))"
proof (rule sealed_ok)
  have "list_all obj_ok (case s of S_decl d _ \<Rightarrow> map (\<lambda>n. SCOPE_OBJ_GVAR n d) (d_names d)
     | S_func f _ body \<Rightarrow> [SCOPE_OBJ_FUNC (f_name f) (linked f body)] | _ \<Rightarrow> [])" if "unit_raw s" for s
    using that by (cases s) (auto simp: obj_ok_def name_type_def decl_raw_def list_all_iff proper_fptr linked_def
        option.pred_set split: option.split intro: proper_params [where q = "\<lambda>_. True"])
  then have "list_all obj_ok (unit_objs ss)" using assms unfolding unit_objs_def by (induction ss) simp_all
  then show "list_all obj_ok (add_builtins @ unit_objs ss)" using builtins_ok by simp
qed (use unit_objs_fresh add_builtins_fresh in auto)

lemma clean_each: "(\<And>x. x \<in> set xs \<Longrightarrow> clean_c (f x)) \<Longrightarrow> clean_c (each_c f xs)"
proof (induction xs)
  case (Cons x xs)
  then have "clean_c (f x)" "clean_c (each_c f xs)" by simp_all
  then have "clean_c (bind_c (both_c (f x) (each_c f xs)) (\<lambda>(y, ys). ret_c (y # ys)))"
    by (rule clean_bind_c [OF clean_both_c]) (simp split: prod.split)
  then show ?case by simp
qed simp

lemma clean_check_unit_stmt:
  assumes types: "types_ok env" and unit: "list_all obj_ok (te_unit env)" and s: "unit_raw s"
  shows "clean_c (check_unit_stmt env (scoped_unit s))"
proof (cases s)
  case (S_decl d init)
  have "scopes_ok [te_unit env]" using unit by (simp add: scopes_ok_def)
  then show ?thesis using s S_decl by (simp add: check_unit_stmt_def clean_decl [OF _ types])
next
  case (S_func f sc body)
  have ps: "list_all (\<lambda>p. proper (snd p) \<and> unquantified (snd p)) (f_params f)" and body: "block_raw body"
    using s S_func by simp_all
  have "list_all obj_ok (sealed (func_objs f body))"
  proof (rule sealed_ok)
    have "list_all obj_ok (block_objs body)" using body by (rule block_objs_ok)
    then show "list_all obj_ok (func_objs f body)"
      using ps by (auto simp: func_objs_def obj_ok_def name_type_def list_all_iff)
  qed (use block_objs_fresh in \<open>auto simp: func_objs_def is_dupl_def\<close>)
  then have sc: "scopes_ok [sealed (func_objs f body), te_unit env]" using unit by (simp add: scopes_ok_def)
  have "clean_c (each_c (check_param env) (f_params (linked f body)))"
    using ps unfolding linked_simps check_param_def
    by (intro clean_each clean_bind_c clean_quantify) (auto simp: list_all_iff)
  moreover have "clean_c (check_stmts env [sealed (func_objs f body), te_unit env] (linked f body) (map scoped body))"
    using s S_func by (intro clean_check_stmt(2) types sc linked_labels body) simp_all
  ultimately have "clean_c (check_func env (linked f body) (sealed (func_objs f body)) (map scoped body))"
    unfolding check_func_def by (rule clean_bind_c [OF clean_both_c]) (simp split: prod.split)
  then show ?thesis using S_func by (simp add: check_unit_stmt_def)
qed (simp_all add: check_unit_stmt_def)

lemma checker_ends:
  assumes "scope_build mem_ok ss = (err, ss', objs)" and "err \<noteq> SCOPE_NOMEM"
    and "list_all unit_raw ss" and "types_ok env" and "te_unit env = objs"
  shows "case type_check_ast env ss' of Inl e \<Rightarrow> e = TYPE_INVALID | Inr _ \<Rightarrow> True"
proof -
  have built: "ss' = map scoped_unit ss" "objs = sealed (add_builtins @ unit_objs ss)"
    using scope_build_due [where mem_ok = mem_ok and ss = ss] assms(1,2) by (auto simp: due_def status_def split: if_split_asm)
  have "list_all obj_ok (te_unit env)" using unit_scope_ok [OF assms(3)] assms(5) built(2) by simp
  then have "clean_c (each_c (check_unit_stmt env) ss')"
    unfolding built(1) using assms(3,4) by (intro clean_each) (auto simp: list_all_iff intro: clean_check_unit_stmt)
  then show ?thesis by (auto simp: clean_c_def clean_def type_check_ast_def split: sum.split)
qed

text \<open>
  C4. The phases together. On a unit without nulls whose types are complete, after
  \<^verbatim>\<open>scope_build\<close> has had its memory (whether or not it found names declared twice), the type
  checker ends with the checked unit or with \<^verbatim>\<open>TYPE_INVALID\<close>: it never fails an assertion
  (a duplicate found by a look-up, a label not found or not numbered, an expression with a
  type already, an operator without a case) and never reads through a null pointer.
\<close>

theorem type_check_never_aborts:
  assumes "scope_build mem_ok ss = (err, ss', objs)" and "err \<noteq> SCOPE_NOMEM"
    and "list_all unit_raw ss" and "types_ok env" and "te_unit env = objs"
  shows "case type_check_ast env ss' of Inl e \<Rightarrow> e = TYPE_INVALID | Inr _ \<Rightarrow> True"
  by (rule checker_ends [OF assms])

theorem type_check_never_aborts_witness:
  "case type_check_ast (demo_env\<lparr>te_unit := snd (snd (scope_build (\<lambda>_. True) demo_unit))\<rparr>) (fst (snd (scope_build (\<lambda>_. True) demo_unit))) of
     Inl e \<Rightarrow> e = TYPE_INVALID | Inr _ \<Rightarrow> True"
proof -
  have "list_all unit_raw demo_unit" by (simp add: demo_unit_def demo_decl_def decl_raw_def type_is_integral_def)
  moreover have "fst (scope_build (\<lambda>_. True) demo_unit) \<noteq> SCOPE_NOMEM" by code_simp
  ultimately show ?thesis
    by (intro type_check_never_aborts [of "\<lambda>_. True" demo_unit "fst (scope_build (\<lambda>_. True) demo_unit)"])
      (simp_all add: demo_env_def types_ok_def)
qed

end
