(* ===== verification/Ast_Laws.thy ===== *)
theory Ast_Laws
  imports Ast_Build Ast_Shape Type_Safe
begin

text \<open>
  What \<^verbatim>\<open>ast_build\<close> gives for the tree of an accepted program: its errors, and that a tree built
  without error is complete, so that the phases after it do not abort.
\<close>

subsection \<open>Numbers\<close>

definition digit_val :: "char \<Rightarrow> nat" where
  "digit_val c = of_char c - 48"

definition decimal :: "string \<Rightarrow> nat" where
  "decimal ds = foldl (\<lambda>n c. 10 * n + digit_val c) 0 ds"

definition is_digit :: "char \<Rightarrow> bool" where
  "is_digit c \<longleftrightarrow> 48 \<le> (of_char c :: nat) \<and> (of_char c :: nat) \<le> 57"

lemma digit_word: "is_digit c \<Longrightarrow> word_of_int (of_char c - of_char (CHR ''0'')) = (of_nat (digit_val c) :: u64)"
proof -
  assume "is_digit c"
  then have "(of_char c :: int) - of_char (CHR ''0'') = int (digit_val c)"
    by (simp add: digit_val_def is_digit_def of_nat_diff of_nat_of_char)
  then show ?thesis by (metis of_int_of_nat_eq)
qed

lemma decimal_snoc: "decimal (ds @ [c]) = 10 * decimal ds + digit_val c"
  by (simp add: decimal_def)

lemma nmbr_loop_decimal:
  "list_all is_digit ds \<Longrightarrow> nmbr_loop (rev ds) m result = result + m * of_nat (decimal ds)"
proof (induction ds arbitrary: m result rule: rev_induct)
  case Nil
  show ?case by (simp add: decimal_def)
next
  case (snoc c ds)
  then show ?case by (simp only: list_all_append list.pred_inject rev_append rev.simps append.simps nmbr_loop.simps digit_word decimal_snoc)
      (simp add: algebra_simps)
qed

text \<open>
  C38. A number is read as its decimal value; what does not fit 64 bits is cut off without an
  error, so a literal or an array size of \<open>2 ^ 64 + 1\<close> is 1.
\<close>

theorem numbers_read:
  assumes "list_all is_digit ds"
  shows "unat (nmbr_to_uint ds) = decimal ds mod 2 ^ 64"
  using nmbr_loop_decimal [OF assms, of 1 0] by (simp add: nmbr_to_uint_def unat_of_nat)

theorem numbers_read_witness:
  "unat (nmbr_to_uint ''1024'') = 1024 \<and> unat (nmbr_to_uint ''18446744073709551617'') = 1"
proof
  show "unat (nmbr_to_uint ''1024'') = 1024"
    using numbers_read [of "''1024''"] by (simp add: is_digit_def decimal_def digit_val_def)
  show "unat (nmbr_to_uint ''18446744073709551617'') = 1"
    using numbers_read [of "''18446744073709551617''"] by (simp add: is_digit_def decimal_def digit_val_def)
qed

subsection \<open>Outcomes\<close>

text \<open>The errors a step may have; \<open>bad\<close> says whether a failing assertion is one of them.\<close>

definition fine :: "benv \<Rightarrow> bool \<Rightarrow> ast_error \<Rightarrow> bool" where
  "fine env bad e \<longleftrightarrow> e = AST_INVALID \<or> (e = AST_NOMEM \<and> (\<exists>k. be_malloc env k = 0)) \<or> (e = Ast_abort \<and> bad)"

text \<open>A complete type that may be an object's, and a table of such types.\<close>

definition obj_type :: "qtype \<Rightarrow> bool" where
  "obj_type t \<longleftrightarrow> proper t \<and> unquantified t \<and> ty_t t \<noteq> TYPE_VOID"

definition tab_ok :: "symtab \<Rightarrow> bool" where
  "tab_ok tab \<longleftrightarrow> list_all (\<lambda>(n, t). obj_type t) (st_entries tab)"

definition kept_state :: "bstate \<Rightarrow> bstate \<Rightarrow> bool" where
  "kept_state s s' \<longleftrightarrow> tab_ok (bs_types s') \<and> bs_ctx s' = bs_ctx s"

definition ok_b :: "benv \<Rightarrow> bool \<Rightarrow> 'a bld \<Rightarrow> ('a \<Rightarrow> bool) \<Rightarrow> bool" where
  "ok_b env bad m P \<longleftrightarrow> (\<forall>s. tab_ok (bs_types s) \<longrightarrow>
     (case m s of (r, s') \<Rightarrow> kept_state s s' \<and> (case r of Inl e \<Rightarrow> fine env bad e | Inr x \<Rightarrow> P x)))"

lemma fine_simps [simp]: "fine env bad AST_INVALID" "\<not> fine env bad AST_OK" "\<not> fine env bad Ast_undefined"
  "fine env bad Ast_abort \<longleftrightarrow> bad"
  by (simp_all add: fine_def)

lemma fine_aggr: "fine env bad e \<Longrightarrow> fine env bad e' \<or> e' = AST_OK \<Longrightarrow> fine env bad (aggr_err e e')"
  by (cases e; cases e') (auto simp: aggr_err_def fine_def)

lemma aggr_err_ok [simp]: "aggr_err AST_OK e = e"
  by (simp add: aggr_err_def)

lemma ok_ret [intro]: "P x \<Longrightarrow> ok_b env bad (ret_b x) P"
  by (simp add: ok_b_def ret_b_def kept_state_def)

lemma ok_fail [intro]: "fine env bad e \<Longrightarrow> ok_b env bad (fail_b e) P"
  by (simp add: ok_b_def fail_b_def kept_state_def)

lemma ok_bind:
  assumes "ok_b env bad m P" and "\<And>x. P x \<Longrightarrow> ok_b env bad (f x) Q"
  shows "ok_b env bad (bind_b m f) Q"
  unfolding ok_b_def
proof (intro allI impI)
  fix s :: bstate assume s: "tab_ok (bs_types s)"
  obtain r s' where m: "m s = (r, s')" by fastforce
  have k: "kept_state s s'" and r: "case r of Inl e \<Rightarrow> fine env bad e | Inr x \<Rightarrow> P x"
    using assms(1) s m unfolding ok_b_def by (metis (mono_tags, lifting) case_prod_conv)+
  show "case bind_b m f s of (r, s') \<Rightarrow> kept_state s s' \<and> (case r of Inl e \<Rightarrow> fine env bad e | Inr x \<Rightarrow> Q x)"
  proof (cases r)
    case (Inl e)
    then show ?thesis using m k r by (simp add: bind_b_def)
  next
    case (Inr x)
    then have f: "ok_b env bad (f x) Q" and s': "tab_ok (bs_types s')"
      using assms(2) r k by (simp_all add: kept_state_def)
    obtain r' s'' where fx: "f x s' = (r', s'')" by fastforce
    have "kept_state s' s''" "case r' of Inl e \<Rightarrow> fine env bad e | Inr x \<Rightarrow> Q x"
      using f s' fx unfolding ok_b_def by (metis (mono_tags, lifting) case_prod_conv)+
    then show ?thesis using m fx k Inr by (simp add: bind_b_def kept_state_def)
  qed
qed

lemma ok_mono: "ok_b env bad m P \<Longrightarrow> (\<And>x. P x \<Longrightarrow> Q x) \<Longrightarrow> ok_b env bad m Q"
  unfolding ok_b_def by (fastforce split: prod.splits sum.splits)

lemma fine_mono: "fine env False e \<Longrightarrow> fine env bad e"
  by (auto simp: fine_def)

lemma ok_bad: "ok_b env False m P \<Longrightarrow> ok_b env bad m P"
  unfolding ok_b_def by (fastforce split: prod.splits sum.splits intro: fine_mono)

lemma ok_need: "(c \<Longrightarrow> P ()) \<Longrightarrow> ok_b env bad (need_b c) P"
  by (auto simp: need_b_def)

lemma ok_malloc: "(\<And>p. p \<noteq> 0 \<Longrightarrow> P p) \<Longrightarrow> ok_b env bad (malloc_b env) P"
  by (auto simp: ok_b_def malloc_b_def Let_def kept_state_def fine_def)

text \<open>The forms in which steps are sequenced.\<close>

lemma ok_malloc_then: "(\<And>p. p \<noteq> 0 \<Longrightarrow> ok_b env bad (f p) Q) \<Longrightarrow> ok_b env bad (bind_b (malloc_b env) f) Q"
  by (rule ok_bind [OF ok_malloc [where P = "\<lambda>p. p \<noteq> 0"]])

lemma ok_need_then: "(c \<Longrightarrow> ok_b env bad (f ()) Q) \<Longrightarrow> ok_b env bad (bind_b (need_b c) f) Q"
  by (rule ok_bind [OF ok_need [where P = "\<lambda>_. c"]]) auto

lemma ok_copy:
  assumes "obj_type t"
  shows "ok_b env bad (copy_b env t) obj_type"
proof -
  have "obj_type c" if "type_copy (mem_of env) t k = Some (c, j)" for c k j
    using type_copy_strip(1) [OF that] type_copy_Some(1) [OF that] assms by (simp add: obj_type_def proper_strip unquantified_strip)
  moreover have "\<exists>k. be_malloc env k = 0" if "type_copy (mem_of env) t k = None" for k
  proof (rule ccontr)
    assume "\<nexists>k. be_malloc env k = 0"
    then have "mem_of env = (\<lambda>_. True)" by auto
    then show False using that type_copy_all(1) [of t k] by simp
  qed
  ultimately show ?thesis
    by (auto simp: ok_b_def copy_b_def kept_state_def fine_def split: option.splits)
qed

lemma obj_type_count: "obj_type (map_lay (\<lambda>l. l\<lparr>lay_count := n\<rparr>) t) = obj_type t"
proof -
  have "proper (map_lay (\<lambda>l. l\<lparr>lay_count := n\<rparr>) t) = proper t"
    using proper_with_count by (simp add: with_count_def)
  moreover have "unquantified (map_lay (\<lambda>l. l\<lparr>lay_count := n\<rparr>) t) = unquantified t" by (cases t) auto
  moreover have "ty_t (map_lay (\<lambda>l. l\<lparr>lay_count := n\<rparr>) t) = ty_t t" by (cases t) auto
  ultimately show ?thesis by (simp add: obj_type_def)
qed

lemma ok_resolve: "ok_b env bad (resolve_type env n t) obj_type"
  unfolding ok_b_def
proof (intro allI impI)
  fix s :: bstate assume s: "tab_ok (bs_types s)"
  show "case resolve_type env n t s of (r, s') \<Rightarrow> kept_state s s' \<and> (case r of Inl e \<Rightarrow> fine env bad e | Inr x \<Rightarrow> obj_type x)"
  proof (cases "type_symtab_find (bs_types s) (tok_sym env t)")
    case None
    then show ?thesis using s by (simp add: resolve_type_def kept_state_def)
  next
    case (Some ty)
    then have "obj_type ty" using s
      by (auto simp: tab_ok_def type_symtab_find_def list_all_iff find_Some_iff in_set_conv_nth dest!: bspec)
    then have "ok_b env bad (bind_b (copy_b env ty) (\<lambda>c. ret_b (map_lay (\<lambda>l. l\<lparr>lay_count := n\<rparr>) c))) obj_type"
      by (intro ok_bind [OF ok_copy] ok_ret) (simp_all add: obj_type_count)
    then show ?thesis using s Some by (simp add: resolve_type_def ok_b_def)
  qed
qed

subsection \<open>Type specifiers\<close>

declare validate_typespec.simps [simp del] validate_name_type_pairs.simps [simp del] pair_list.simps [simp del]
  name_type_pair.simps [simp del]

definition pairs_ok :: "(lex_symbol \<times> qtype) list \<Rightarrow> bool" where
  "pairs_ok ps \<longleftrightarrow> ps \<noteq> [] \<and> list_all (\<lambda>p. obj_type (snd p)) ps"

lemma proper_pairs: "list_all (\<lambda>p. obj_type (snd p)) ps \<Longrightarrow>
    proper_members ps \<and> unquantified_members ps \<and> list_all (\<lambda>m. ty_t (snd m) \<noteq> TYPE_VOID) ps"
  by (induction ps) (auto simp: obj_type_def)

lemma type_match_kinds:
  "type_match w \<in> {TYPE_PTR, TYPE_FPTR, TYPE_QUAINT, TYPE_STRUCT, TYPE_UNION, TYPE_ENUM, TYPE_VOID, TYPE_VPTR} \<or>
     (type_is_integral (type_match w) \<and> type_match w \<noteq> TYPE_ENUM)"
proof -
  have "\<forall>t \<in> set type_ts. t \<in> {TYPE_PTR, TYPE_FPTR, TYPE_QUAINT, TYPE_STRUCT, TYPE_UNION, TYPE_ENUM, TYPE_VOID, TYPE_VPTR} \<or>
     (type_is_integral t \<and> t \<noteq> TYPE_ENUM)" by code_simp
  then show ?thesis using type_t_all [of "\<lambda>t. t \<in> {TYPE_PTR, TYPE_FPTR, TYPE_QUAINT, TYPE_STRUCT, TYPE_UNION,
    TYPE_ENUM, TYPE_VOID, TYPE_VPTR} \<or> (type_is_integral t \<and> t \<noteq> TYPE_ENUM)"] by blast
qed

lemma ok_plain: "ok_b env bad (plain_type env t n) obj_type"
proof -
  let ?k = "type_match (text_of (be_input env) t)"
  consider "?k \<in> {TYPE_PTR, TYPE_FPTR, TYPE_QUAINT, TYPE_STRUCT, TYPE_UNION, TYPE_ENUM}" | "?k = TYPE_VOID"
    | "?k \<notin> {TYPE_PTR, TYPE_FPTR, TYPE_QUAINT, TYPE_STRUCT, TYPE_UNION, TYPE_ENUM}" "?k \<noteq> TYPE_VOID"
    by blast
  then show ?thesis
  proof cases
    case 1
    then have "plain_type env t n = fail_b AST_INVALID" by (simp only: plain_type_def Let_def if_True)
    then show ?thesis by (simp add: ok_fail)
  next
    case 2
    then have "plain_type env t n = resolve_type env n t" by (simp add: plain_type_def Let_def)
    then show ?thesis by (simp add: ok_resolve)
  next
    case 3
    then have "plain_type env t n = ret_b (Ty_prim ?k (lay n))" by (simp only: plain_type_def Let_def if_False)
    moreover have "obj_type (Ty_prim ?k (lay n))"
      using 3 type_match_kinds [of "text_of (be_input env) t"] by (auto simp: obj_type_def)
    ultimately show ?thesis by (simp add: ok_ret)
  qed
qed

lemma obj_type_ptr [simp]: "obj_type (Ty_ptr (lay n) t) \<longleftrightarrow> proper t"
  "obj_type (Ty_quaint (lay n) t) \<longleftrightarrow> proper t"
  "obj_type (Ty_fptr (lay n) ps r) \<longleftrightarrow> proper_members ps \<and> (case r of None \<Rightarrow> True | Some t \<Rightarrow> proper t)"
  "obj_type (Ty_struct (lay n) ps []) \<longleftrightarrow> proper (Ty_struct (lay n) ps []) \<and> unquantified_members ps"
  "obj_type (Ty_union (lay n) ps []) \<longleftrightarrow> proper (Ty_union (lay n) ps []) \<and> unquantified_members ps"
  by (auto simp: obj_type_def proper_fptr)

lemma obj_type_proper: "obj_type t \<Longrightarrow> proper t"
  by (simp add: obj_type_def)

lemma ok_bind_ret: "ok_b env bad m P \<Longrightarrow> (\<And>x. P x \<Longrightarrow> Q (g x)) \<Longrightarrow> ok_b env bad (bind_b m (\<lambda>x. ret_b (g x))) Q"
  by (rule ok_bind [where P = P]) auto

lemma ok_ptr:
  assumes "\<And>r. x = Some r \<Longrightarrow> ok_b env bad (validate_typespec env r) obj_type"
  shows "ok_b env bad (case x of None \<Rightarrow> fail_b AST_INVALID
    | Some r \<Rightarrow> bind_b (malloc_b env) (\<lambda>_. bind_b (validate_typespec env r) (\<lambda>s. ret_b (Ty_ptr (lay n) s)))) obj_type"
    and "ok_b env bad (bind_b (malloc_b env) (\<lambda>_. case x of
         None \<Rightarrow> ret_b (Ty_quaint (lay n) (Ty_prim TYPE_VOID (lay 0)))
       | Some r \<Rightarrow> bind_b (validate_typespec env r) (\<lambda>s. ret_b (Ty_quaint (lay n) s)))) obj_type"
  using assms by (auto split: option.split intro!: ok_malloc_then ok_bind_ret [where P = obj_type] intro: obj_type_proper)

lemma ok_fptr:
  assumes "\<And>r. x = Some r \<Longrightarrow> ok_b env bad (validate_name_type_pairs env r) pairs_ok"
  shows "ok_b env bad (case x of None \<Rightarrow> ret_b (Ty_fptr (lay n) [] None)
    | Some r \<Rightarrow> bind_b (validate_name_type_pairs env r) (\<lambda>ps. ret_b (Ty_fptr (lay n) ps None))) obj_type"
  using assms by (auto split: option.split intro!: ok_bind_ret [where P = pairs_ok] simp: pairs_ok_def proper_pairs)

lemma ok_struct:
  assumes "\<And>r. x = Some r \<Longrightarrow> ok_b env bad (validate_name_type_pairs env r) pairs_ok"
  shows "ok_b env bad (case x of None \<Rightarrow> fail_b AST_INVALID
    | Some r \<Rightarrow> bind_b (validate_name_type_pairs env r) (\<lambda>ms.
        ret_b (if c then Ty_struct (lay n) ms [] else Ty_union (lay n) ms []))) obj_type"
  using assms by (auto split: option.split intro!: ok_bind_ret [where P = pairs_ok] simp: pairs_ok_def proper_pairs)

definition specs_ok :: "benv \<Rightarrow> parse_node \<Rightarrow> bool" where
  "specs_ok env n \<longleftrightarrow> (\<forall>bad. ok_b env bad (validate_typespec env n) obj_type \<and>
     ok_b env bad (validate_name_type_pairs env n) pairs_ok \<and>
     ok_b env bad (pair_list env n) pairs_ok \<and> ok_b env bad (name_type_pair env n) (\<lambda>p. obj_type (snd p)))"

lemma ok_pair:
  assumes "expr_node n" and "\<And>l op r. view n = V_bexp l op r \<Longrightarrow> ok_b env bad (validate_typespec env r) obj_type"
  shows "ok_b env bad (name_type_pair env n) (\<lambda>p. obj_type (snd p))"
proof (cases "view n")
  case (V_bexp l op r)
  have t: "ok_b env bad (validate_typespec env r) obj_type" by (rule assms(2) [OF V_bexp])
  show ?thesis
    by (auto simp: name_type_pair.simps [of env n] V_bexp split: option.split
        intro!: ok_need_then ok_malloc_then ok_bind [OF t])
qed (use expr_view [OF assms(1)] in \<open>auto simp: name_type_pair.simps [of env n] good_view_def\<close>)

lemma ok_pair_list:
  assumes "expr_node n" and p: "\<And>n. expr_node n \<Longrightarrow> n = m \<or> size n < size m \<Longrightarrow> ok_b env bad (name_type_pair env n) (\<lambda>p. obj_type (snd p))"
    and "\<And>l op r. view m = V_bexp l op r \<Longrightarrow> ok_b env bad (pair_list env r) pairs_ok" and m: "n = m"
  shows "ok_b env bad (pair_list env m) pairs_ok"
proof -
  have one: "ok_b env bad (bind_b (name_type_pair env m) (\<lambda>p. ret_b [p])) pairs_ok"
    using assms(1) by (intro ok_bind_ret [OF p]) (auto simp: m pairs_ok_def)
  show ?thesis
  proof (cases "\<exists>l r. view m = V_bexp l LEX_TK_COMA r")
    case True
    then obtain l r where v: "view m = V_bexp l LEX_TK_COMA r" by blast
    then have "expr_node l" "size l < size m" using expr_view [OF assms(1)] view_size(5) m by (auto simp: good_view_def)
    then have "ok_b env bad (bind_b (name_type_pair env l) (\<lambda>p. bind_b (pair_list env r) (\<lambda>ps. ret_b (p # ps)))) pairs_ok"
      using assms(3) [OF v] by (intro ok_bind [OF p] ok_bind_ret [where P = pairs_ok]) (auto simp: pairs_ok_def)
    then show ?thesis using v by (simp add: pair_list.simps [of env m])
  qed (use one in \<open>auto simp: pair_list.simps [of env m] split: expr_shape.split\<close>)
qed

lemma ok_typespec_step:
  assumes v: "good_view (view n)" and IH: "\<And>m. expr_node m \<Longrightarrow> size m < size n \<Longrightarrow> specs_ok env m"
  shows "ok_b env bad (validate_typespec env n) obj_type"
proof (cases "view n")
  case (V_atom t)
  then show ?thesis using ok_plain by (auto simp: validate_typespec.simps [of env n])
next
  case (V_aexp b off)
  then show ?thesis using ok_plain by (auto simp: validate_typespec.simps [of env n] split: option.split)
next
  case (V_fexp l r)
  then have "r = Some x \<Longrightarrow> specs_ok env x" for x
    using v IH [of x] view_size(2) [of n l x] by (simp add: good_view_def)
  then have sub: "r = Some x \<Longrightarrow> ok_b env bad (validate_typespec env x) obj_type"
    "r = Some x \<Longrightarrow> ok_b env bad (validate_name_type_pairs env x) pairs_ok" for x
    by (simp_all add: specs_ok_def)
  show ?thesis
  proof (cases "type_head env l")
    case None
    then have "validate_typespec env n = fail_b AST_INVALID"
      by (subst validate_typespec.simps) (simp only: V_fexp expr_shape.case option.case)
    then show ?thesis by (simp add: ok_fail)
  next
    case (Some h)
    obtain name count where h: "h = (name, count)" by fastforce
    show ?thesis
      by (subst validate_typespec.simps, simp only: V_fexp expr_shape.case Some h option.case prod.case Let_def split: if_split)
        (intro conjI impI ok_ptr ok_fptr ok_struct ok_fail sub fine_simps; assumption)
  qed
next
  case (V_bexp l op r)
  then have l: "good_view (view l)" "size l < size n" and r: "specs_ok env r"
    using v IH [of r] view_size(5) [of n l op r] expr_view [of l] by (auto simp: good_view_def)
  have "view l = V_fexp fl (Some x) \<Longrightarrow> specs_ok env x" for fl x
    using l IH [of x] view_size(2) [of l fl x] by (auto simp: good_view_def)
  note spec = this
  have f: "ok_b env bad (case fr of None \<Rightarrow> ret_b [] | Some fr \<Rightarrow> validate_name_type_pairs env fr)
      (\<lambda>ps. list_all (\<lambda>p. obj_type (snd p)) ps)" if fr: "view l = V_fexp fl fr" for fl fr
  proof (cases fr)
    case None
    then show ?thesis by (simp add: ok_ret)
  next
    case (Some x)
    then have "ok_b env bad (validate_name_type_pairs env x) pairs_ok" using spec fr by (simp add: specs_ok_def)
    then show ?thesis unfolding Some option.case by (rule ok_mono) (simp add: pairs_ok_def)
  qed
  have t: "ok_b env bad (validate_typespec env r) obj_type" using r by (simp add: specs_ok_def)
  have "ok_b env bad (bind_b (case fr of None \<Rightarrow> ret_b [] | Some fr \<Rightarrow> validate_name_type_pairs env fr) (\<lambda>ps.
      bind_b (malloc_b env) (\<lambda>_. bind_b (validate_typespec env r) (\<lambda>rt. ret_b (Ty_fptr (lay k) ps (Some rt)))))) obj_type"
    if "view l = V_fexp fl fr" for fl fr k
    by (rule ok_bind [OF f [OF that]]) (auto intro!: ok_malloc_then ok_bind_ret [OF t] simp: proper_pairs obj_type_proper)
  then show ?thesis
    using l(1) by (subst validate_typespec.simps, simp only: V_bexp expr_shape.case, intro ok_need_then, cases "view l")
      (auto simp: good_view_def intro!: ok_need_then split: option.split [where option = "type_head _ _"])
qed (use v in \<open>simp_all add: validate_typespec.simps [of env n] good_view_def ok_fail\<close>)

lemma ok_typespecs: "expr_node n \<Longrightarrow> specs_ok env n"
proof (induction "size n" arbitrary: n rule: less_induct)
  case less
  have v: "good_view (view n)" by (rule expr_view [OF less.prems])
  have sub: "view n = V_bexp l op r \<Longrightarrow> specs_ok env r" for l op r
    using v less.hyps [of r] view_size(5) [of n l op r] by (simp add: good_view_def)
  have p: "ok_b env bad (name_type_pair env m) (\<lambda>p. obj_type (snd p))" if "expr_node m" "m = n \<or> size m < size n" for m bad
  proof (rule ok_pair [OF that(1)])
    fix l op r assume m: "view m = V_bexp l op r"
    then show "ok_b env bad (validate_typespec env r) obj_type"
      using less.hyps [of r] that view_size(5) [OF m] expr_view [OF that(1)] by (auto simp: good_view_def specs_ok_def)
  qed
  have l: "ok_b env bad (pair_list env n) pairs_ok" for bad
    by (rule ok_pair_list [OF less.prems p]) (use sub in \<open>auto simp: specs_ok_def\<close>)
  have "ok_b env bad (validate_name_type_pairs env n) pairs_ok" for bad
    unfolding validate_name_type_pairs.simps [of env n] by (rule ok_bind [OF l]) (auto intro!: ok_need_then)
  then show ?case
    using p [OF less.prems] l ok_typespec_step [OF v] less.hyps unfolding specs_ok_def by blast
qed

lemma ok_new_type: "expr_node n \<Longrightarrow> ok_b env bad (new_type env n) obj_type"
  using ok_typespecs [of n env] by (auto simp: new_type_def specs_ok_def intro!: ok_malloc_then)

lemma ok_pairs: "expr_node n \<Longrightarrow> ok_b env bad (validate_name_type_pairs env n) pairs_ok"
  using ok_typespecs [of n env] by (auto simp: specs_ok_def)

subsection \<open>Enumerations\<close>

lemma bind_b_Inr: "bind_b m f s = (Inr y, s') \<longleftrightarrow> (\<exists>x s1. m s = (Inr x, s1) \<and> f x s1 = (Inr y, s'))"
  by (auto simp: bind_b_def split: prod.splits sum.splits)

lemma chk_b_simps: "ret_b x s = (Inr y, s') \<longleftrightarrow> x = y \<and> s = s'" "fail_b e s \<noteq> (Inr y, s')"
  by (auto simp: ret_b_def fail_b_def)

lemma ok_both: "ok_b env bad m P \<Longrightarrow> (\<And>s x s'. m s = (Inr x, s') \<Longrightarrow> Q x) \<Longrightarrow> ok_b env bad m (\<lambda>x. P x \<and> Q x)"
  unfolding ok_b_def by (fastforce split: prod.splits sum.splits)

text \<open>The specifier is a name, perhaps of an array, that is not built in: it may stand for an enum.\<close>

definition named_type :: "benv \<Rightarrow> parse_node \<Rightarrow> bool" where
  "named_type env n \<longleftrightarrow> (case type_head env n of
     Some (t, _) \<Rightarrow> type_match (text_of (be_input env) t) = TYPE_VOID
   | None \<Rightarrow> False)"

lemma plain_type_enum:
  "plain_type env t k s = (Inr ty, s') \<Longrightarrow> ty_t ty = TYPE_ENUM \<Longrightarrow> type_match (text_of (be_input env) t) = TYPE_VOID"
  by (auto simp: plain_type_def Let_def chk_b_simps split: if_splits)

lemma typespec_enum:
  assumes "validate_typespec env n s = (Inr ty, s')" and "ty_t ty = TYPE_ENUM"
  shows "named_type env n"
proof (cases "view n")
  case (V_atom t)
  then show ?thesis using assms
    by (auto simp: validate_typespec.simps [of env n] named_type_def type_head_def expr_is_name_def chk_b_simps
        dest!: plain_type_enum split: if_splits)
next
  case (V_aexp b off)
  then show ?thesis using assms
    by (auto simp: validate_typespec.simps [of env n] named_type_def type_head_def chk_b_simps
        dest!: plain_type_enum split: option.splits)
next
  case (V_fexp l r)
  show ?thesis using assms
    by (subst (asm) validate_typespec.simps, simp only: V_fexp expr_shape.case)
      (auto simp: Let_def chk_b_simps bind_b_Inr split: option.splits if_splits)
next
  case (V_bexp l op r)
  show ?thesis using assms
    by (subst (asm) validate_typespec.simps, simp only: V_bexp expr_shape.case)
      (auto simp: Let_def chk_b_simps bind_b_Inr split: option.splits if_splits expr_shape.splits)
qed (use assms in \<open>simp_all add: validate_typespec.simps [of env n] chk_b_simps\<close>)

lemma boundary_kinds:
  "type_is_integral t \<Longrightarrow> type_is_unsigned t \<Longrightarrow> t \<noteq> TYPE_ENUM \<Longrightarrow> enum_boundary_from_type t \<noteq> None"
proof -
  have "\<forall>t \<in> set type_ts. type_is_integral t \<longrightarrow> type_is_unsigned t \<longrightarrow> t \<noteq> TYPE_ENUM \<longrightarrow> enum_boundary_from_type t \<noteq> None"
    by code_simp
  then have "type_is_integral t \<longrightarrow> type_is_unsigned t \<longrightarrow> t \<noteq> TYPE_ENUM \<longrightarrow> enum_boundary_from_type t \<noteq> None" for t
    using type_t_all [of "\<lambda>t. type_is_integral t \<longrightarrow> type_is_unsigned t \<longrightarrow> t \<noteq> TYPE_ENUM \<longrightarrow> enum_boundary_from_type t \<noteq> None"]
    by blast
  then show "type_is_integral t \<Longrightarrow> type_is_unsigned t \<Longrightarrow> t \<noteq> TYPE_ENUM \<Longrightarrow> enum_boundary_from_type t \<noteq> None" by blast
qed

lemma boundary_sized: "enum_boundary_from_type t = Some b \<Longrightarrow> t \<noteq> TYPE_VOID \<and> desc_size t \<noteq> 0"
proof -
  have "\<forall>t \<in> set type_ts. enum_boundary_from_type t \<noteq> None \<longrightarrow> t \<noteq> TYPE_VOID \<and> desc_size t \<noteq> 0" by code_simp
  then have "enum_boundary_from_type t \<noteq> None \<longrightarrow> t \<noteq> TYPE_VOID \<and> desc_size t \<noteq> 0" for t
    using type_t_all [of "\<lambda>t. enum_boundary_from_type t \<noteq> None \<longrightarrow> t \<noteq> TYPE_VOID \<and> desc_size t \<noteq> 0"] by blast
  then show "enum_boundary_from_type t = Some b \<Longrightarrow> t \<noteq> TYPE_VOID \<and> desc_size t \<noteq> 0" by blast
qed

lemma maxval_sized: "enum_type_from_maxval v \<noteq> TYPE_VOID \<and> desc_size (enum_type_from_maxval v) \<noteq> 0"
proof -
  have "enum_boundary_from_type (enum_type_from_maxval v) \<noteq> None"
    by (simp add: enum_type_from_maxval_def enum_boundary_from_type_def)
  then show ?thesis using boundary_sized by blast
qed

lemma obj_type_enum [simp]: "obj_type (Ty_enum (lay n) vs t) \<longleftrightarrow> t \<noteq> TYPE_VOID \<and> desc_size t \<noteq> 0"
  by (auto simp: obj_type_def)

lemma ok_enum_of:
  assumes "\<And>t. given = Some t \<Longrightarrow> enum_boundary_from_type t \<noteq> None \<or> bad"
  shows "ok_b env bad (enum_of ns given) obj_type"
proof (cases given)
  case None
  then show ?thesis using maxval_sized by (auto simp: enum_of_def Let_def intro!: ok_ret)
next
  case (Some t)
  then show ?thesis using assms boundary_sized
    by (auto simp: enum_of_def Let_def split: option.split intro!: ok_need_then ok_ret ok_fail)
qed

lemma ok_enum_value: "ok_b env bad (enum_value env n) (\<lambda>_. True)"
  by (auto simp: enum_value_def split: option.split intro!: ok_malloc_then)

declare enum_names.simps [simp del]

lemma ok_enum_names: "ok_b env bad (enum_names env n) (\<lambda>_. True)"
proof (induction env n rule: enum_names.induct)
  case (1 env n)
  have one: "ok_b env bad (bind_b (enum_value env n) (\<lambda>x. ret_b [x])) (\<lambda>_. True)"
    by (intro ok_bind [OF ok_enum_value]) auto
  show ?case
  proof (cases "\<exists>l r. view n = V_bexp l LEX_TK_COMA r")
    case True
    then obtain l r where v: "view n = V_bexp l LEX_TK_COMA r" by blast
    have "ok_b env bad (bind_b (enum_value env l) (\<lambda>x. bind_b (enum_names env r) (\<lambda>xs. ret_b (x # xs)))) (\<lambda>_. True)"
      using 1 [OF v] by (intro ok_bind [OF ok_enum_value] ok_bind_ret [where P = "\<lambda>_. True"]) auto
    then show ?thesis using v by (simp add: enum_names.simps [of env n])
  qed (use one in \<open>auto simp: enum_names.simps [of env n] split: expr_shape.split\<close>)
qed

lemma ok_enum_body:
  assumes "expr_node e" and "\<And>t. given = Some t \<Longrightarrow> enum_boundary_from_type t \<noteq> None \<or> bad"
  shows "ok_b env bad (enum_body env e given) obj_type"
proof (cases "view e")
  case (V_fexp l r)
  have "ok_b env bad (bind_b (enum_names env v) (\<lambda>ns. bind_b (need_b (names_differ ns)) (\<lambda>_. enum_of ns given))) obj_type" for v
    by (intro ok_bind [OF ok_enum_names] ok_need_then ok_enum_of assms(2))
  then show ?thesis using V_fexp by (cases r) (auto simp: enum_body_def)
qed (use expr_view [OF assms(1)] in \<open>auto simp: enum_body_def good_view_def\<close>)

text \<open>The width of an enum is given by a name that may be another enum.\<close>

definition named_width :: "benv \<Rightarrow> parse_node \<Rightarrow> bool" where
  "named_width env n \<longleftrightarrow> (case view n of V_bexp l op r \<Rightarrow> typespec_appears_enum env n \<and> named_type env r | _ \<Rightarrow> False)"

lemma ok_typespec_enum:
  assumes "expr_node n" and "typespec_appears_enum env n" and "named_width env n \<longrightarrow> bad"
  shows "ok_b env bad (validate_typespec_enum env n) obj_type"
proof (cases "\<exists>l op r. view n = V_bexp l op r")
  case True
  then obtain l op r where v: "view n = V_bexp l op r" by blast
  have l: "expr_node l" and r: "expr_node r" using expr_view [OF assms(1)] v by (auto simp: good_view_def)
  have bad: "named_type env r \<longrightarrow> bad" using assms v by (auto simp: named_width_def)
  have new: "new_type env r s = (Inr t, s') \<Longrightarrow> ty_t t = TYPE_ENUM \<longrightarrow> named_type env r" for s t s'
    by (auto simp: new_type_def bind_b_Inr dest: typespec_enum)
  have t: "ok_b env bad (new_type env r) (\<lambda>t. obj_type t \<and> (ty_t t = TYPE_ENUM \<longrightarrow> named_type env r))"
    by (rule ok_both [OF ok_new_type [OF r] new])
  have "ok_b env bad (bind_b (new_type env r) (\<lambda>t.
      bind_b (need_b (type_is_integral (ty_t t) \<and> type_is_unsigned (ty_t t))) (\<lambda>_. enum_body env l (Some (ty_t t))))) obj_type"
  proof (rule ok_bind [OF t], rule ok_need_then, rule ok_enum_body [OF l])
    fix t u
    assume "obj_type t \<and> (ty_t t = TYPE_ENUM \<longrightarrow> named_type env r)"
      and "type_is_integral (ty_t t) \<and> type_is_unsigned (ty_t t)" and "Some (ty_t t) = Some u"
    then show "enum_boundary_from_type u \<noteq> None \<or> bad" using bad boundary_kinds by blast
  qed
  then show ?thesis using v by (simp add: validate_typespec_enum_def)
next
  case False
  then have "validate_typespec_enum env n = enum_body env n None"
    by (auto simp: validate_typespec_enum_def split: expr_shape.split)
  then show ?thesis using ok_enum_body [OF assms(1), of None] by simp
qed

subsection \<open>Expressions\<close>

definition ok_s :: "benv \<Rightarrow> bool \<Rightarrow> 'a built \<Rightarrow> ('a \<Rightarrow> bool) \<Rightarrow> bool" where
  "ok_s env bad m Q \<longleftrightarrow> (\<forall>s. tab_ok (bs_types s) \<longrightarrow>
     (case m s of (err, x, s') \<Rightarrow> kept_state s s' \<and> (if err = AST_OK then Q x else fine env bad err)))"

lemma ok_sD:
  assumes "ok_s env bad m Q" and "tab_ok (bs_types s)" and "m s = (err, x, s')"
  shows "kept_state s s'" and "err = AST_OK \<Longrightarrow> Q x" and "err \<noteq> AST_OK \<Longrightarrow> fine env bad err"
    and "tab_ok (bs_types s')" and "bs_ctx s' = bs_ctx s"
proof -
  have "case m s of (err, x, s') \<Rightarrow> kept_state s s' \<and> (if err = AST_OK then Q x else fine env bad err)"
    by (rule assms(1) [unfolded ok_s_def, rule_format, OF assms(2)])
  then show "kept_state s s'" and "err = AST_OK \<Longrightarrow> Q x" and "err \<noteq> AST_OK \<Longrightarrow> fine env bad err"
    and "tab_ok (bs_types s')" and "bs_ctx s' = bs_ctx s"
    unfolding assms(3) by (simp_all add: kept_state_def split: if_split_asm)
qed

lemma ok_sI:
  assumes "\<And>s err x s'. tab_ok (bs_types s) \<Longrightarrow> m s = (err, x, s') \<Longrightarrow>
      kept_state s s' \<and> (if err = AST_OK then Q x else fine env bad err)"
  shows "ok_s env bad m Q"
  unfolding ok_s_def
proof (intro allI impI)
  fix s :: bstate assume s: "tab_ok (bs_types s)"
  obtain err x s' where "m s = (err, x, s')" by (metis prod_cases3)
  then show "case m s of (err, x, s') \<Rightarrow> kept_state s s' \<and> (if err = AST_OK then Q x else fine env bad err)"
    using assms [OF s] by simp
qed

lemma ok_bD:
  assumes "ok_b env bad m P" and "tab_ok (bs_types s)" and "m s = (r, s')"
  shows "kept_state s s'" and "r = Inl e \<Longrightarrow> fine env bad e" and "r = Inr x \<Longrightarrow> P x"
proof -
  have "case m s of (r, s') \<Rightarrow> kept_state s s' \<and> (case r of Inl e \<Rightarrow> fine env bad e | Inr x \<Rightarrow> P x)"
    by (rule assms(1) [unfolded ok_b_def, rule_format, OF assms(2)])
  then show "kept_state s s'" and "r = Inl e \<Longrightarrow> fine env bad e" and "r = Inr x \<Longrightarrow> P x"
    unfolding assms(3) by auto
qed

lemma ok_done: "Q x \<Longrightarrow> ok_s env bad (done_b x) Q"
  by (rule ok_sI) (auto simp: done_b_def kept_state_def)

lemma ok_stop: "fine env bad e \<Longrightarrow> ok_s env bad (\<lambda>s. (e, x, s)) Q"
  by (rule ok_sI) (auto simp: kept_state_def)

lemma kept_trans: "kept_state s s' \<Longrightarrow> kept_state s' s'' \<Longrightarrow> kept_state s s''"
  by (simp add: kept_state_def)

lemma kept_tab: "kept_state s s' \<Longrightarrow> tab_ok (bs_types s')"
  by (simp add: kept_state_def)

lemma fine_not_ok: "fine env bad e \<Longrightarrow> e \<noteq> AST_OK"
  by auto

lemma ok_node:
  assumes "ok_s env bad m Q"
  shows "ok_s env bad (with_node env x m) Q"
proof (rule ok_sI)
  fix s :: bstate and err y s' assume s: "tab_ok (bs_types s)" and r: "with_node env x m s = (err, y, s')"
  obtain p s1 where p: "malloc_b env s = (p, s1)" by fastforce
  note a = ok_bD [OF ok_malloc [where P = "\<lambda>_. True"] s p, simplified]
  show "kept_state s s' \<and> (if err = AST_OK then Q y else fine env bad err)"
  proof (cases p)
    case (Inl e)
    then show ?thesis using r p a(1,2) fine_not_ok by (auto simp: with_node_def)
  next
    case (Inr q)
    then have "m s1 = (err, y, s')" using r p by (simp add: with_node_def)
    from ok_sD [OF assms kept_tab [OF a(1)] this] show ?thesis using kept_trans [OF a(1)] by simp
  qed
qed

lemma ok_then:
  assumes m: "ok_s env bad m P" and k: "\<And>x. P x \<Longrightarrow> ok_s env bad (k x) Q"
  shows "ok_s env bad (then_child m p k) Q"
proof (rule ok_sI)
  fix s :: bstate and err y s' assume s: "tab_ok (bs_types s)" and r: "then_child m p k s = (err, y, s')"
  obtain e x s1 where x: "m s = (e, x, s1)" by (metis prod_cases3)
  note a = ok_sD [OF m s x]
  show "kept_state s s' \<and> (if err = AST_OK then Q y else fine env bad err)"
  proof (cases "e = AST_OK")
    case True
    then have "k x s1 = (err, y, s')" using r x by (simp add: then_child_def)
    from ok_sD [OF k [OF a(2) [OF True]] a(4) this] show ?thesis using kept_trans [OF a(1)] by simp
  next
    case False
    then show ?thesis using r x a by (auto simp: then_child_def)
  qed
qed

lemma ok_child_type:
  assumes "expr_node n"
  shows "ok_s env bad (child_type env n) (\<lambda>t. case t of None \<Rightarrow> False | Some t \<Rightarrow> proper t)"
proof (rule ok_sI)
  fix s :: bstate and err t s' assume s: "tab_ok (bs_types s)" and r: "child_type env n s = (err, t, s')"
  obtain x s1 where x: "new_type env n s = (x, s1)" by fastforce
  note a = ok_bD [OF ok_new_type [OF assms] s x]
  show "kept_state s s' \<and> (if err = AST_OK then case t of None \<Rightarrow> False | Some t \<Rightarrow> proper t else fine env bad err)"
    using r x a fine_not_ok by (cases x) (auto simp: child_type_def obj_type_proper)
qed

lemma binary_ops_split: "set binary_ops = insert LEX_TK_CAST (insert LEX_TK_COLN bexp_ops)"
  by (auto simp: binary_ops_def bexp_ops_def)

lemma unary_ops_split: "set unary_ops = insert LEX_TK_SZOF (insert LEX_TK_ALOF uexp_ops)"
  by (auto simp: unary_ops_def uexp_ops_def)

lemma raw_nullable: "raw e \<Longrightarrow> nullable e = Some e"
  by (auto simp: nullable_def)

declare validate_expr.simps [simp del]

lemma ok_expr: "expr_node n \<Longrightarrow> ok_s env bad (validate_expr env n) raw"
proof (induction "size n" arbitrary: n rule: less_induct)
  case less
  have v: "good_view (view n)" by (rule expr_view [OF less.prems])
  note sub = less.hyps [OF _ _]
  show ?case
  proof (cases "view n")
    case (V_atom t)
    then show ?thesis using v
      by (auto simp: validate_expr.simps [of env n] good_view_def intro!: ok_node ok_done)
  next
    case (V_pexp e)
    then show ?thesis using v sub [of e] view_size(3) [OF V_pexp] by (simp add: validate_expr.simps [of env n] good_view_def)
  next
    case (V_wexp e op)
    then show ?thesis by (simp add: validate_expr.simps [of env n] ok_stop)
  next
    case (V_fexp l r)
    have l: "ok_s env bad (validate_expr env l) raw" using v V_fexp sub [of l] view_size(1) [OF V_fexp] by (simp add: good_view_def)
    have "ok_s env bad (validate_expr env x) raw" if "r = Some x" for x
      using v V_fexp that sub [of x] view_size(2) [of n l x] by (simp add: good_view_def)
    then show ?thesis
      by (cases r) (auto simp: validate_expr.simps [of env n] V_fexp raw_nullable intro!: ok_node ok_then [OF l] ok_done ok_then [where P = raw])
  next
    case (V_bexp l op r)
    have l: "ok_s env bad (validate_expr env l) raw" and r: "ok_s env bad (validate_expr env r) raw" and n: "expr_node r"
      using v V_bexp sub [of l] sub [of r] view_size(5) [OF V_bexp] by (simp_all add: good_view_def)
    have op: "op = LEX_TK_CAST \<or> op = LEX_TK_COLN \<or> op \<in> bexp_ops"
      using v V_bexp by (simp add: good_view_def binary_ops_split)
    show ?thesis
    proof (cases "op = LEX_TK_CAST \<or> op = LEX_TK_COLN")
      case True
      then show ?thesis
        by (simp only: validate_expr.simps [of env n] V_bexp expr_shape.case if_True)
          (intro ok_node ok_then [OF l] ok_then [OF ok_child_type [OF n]] ok_done, simp)
    next
      case False
      then have "op \<in> bexp_ops" using op by blast
      with False show ?thesis
        by (simp only: validate_expr.simps [of env n] V_bexp expr_shape.case if_False)
          (intro ok_node ok_then [OF l] ok_then [OF r] ok_done, simp)
    qed
  next
    case (V_uexp op r)
    have r: "ok_s env bad (validate_expr env r) raw" and n: "expr_node r"
      using v V_uexp sub [of r] view_size(6) [OF V_uexp] by (simp_all add: good_view_def)
    have op: "op = LEX_TK_SZOF \<or> op = LEX_TK_ALOF \<or> op \<in> uexp_ops"
      using v V_uexp by (simp add: good_view_def unary_ops_split)
    show ?thesis
    proof (cases "op = LEX_TK_SZOF \<or> op = LEX_TK_ALOF")
      case True
      then show ?thesis
        by (simp only: validate_expr.simps [of env n] V_uexp expr_shape.case if_True)
          (intro ok_node ok_then [OF ok_child_type [OF n]] ok_done, simp)
    next
      case False
      then have "op \<in> uexp_ops" using op by blast
      with False show ?thesis
        by (simp only: validate_expr.simps [of env n] V_uexp expr_shape.case if_False)
          (intro ok_node ok_then [OF r] ok_done, simp)
    qed
  next
    case (V_xexp l op)
    have "ok_s env bad (validate_expr env l) raw" using v V_xexp sub [of l] view_size(7) [OF V_xexp] by (simp add: good_view_def)
    then show ?thesis using v V_xexp
      by (auto simp: validate_expr.simps [of env n] good_view_def intro!: ok_node ok_then [where P = raw] ok_done)
  next
    case (V_aexp b off)
    have "ok_s env bad (validate_expr env b) raw" "ok_s env bad (validate_expr env off) raw"
      using v V_aexp sub [of b] sub [of off] view_size(9) [OF V_aexp] by (simp_all add: good_view_def)
    then show ?thesis using V_aexp
      by (auto simp: validate_expr.simps [of env n] intro!: ok_node ok_then [where P = raw] ok_done)
  next
    case (V_texp c x y)
    have "ok_s env bad (validate_expr env c) raw" "ok_s env bad (validate_expr env x) raw" "ok_s env bad (validate_expr env y) raw"
      using v V_texp sub [of c] sub [of x] sub [of y] view_size(4) [OF V_texp] by (simp_all add: good_view_def)
    then show ?thesis using V_texp
      by (auto simp: validate_expr.simps [of env n] intro!: ok_node ok_then [where P = raw] ok_done)
  qed (use v in \<open>simp add: good_view_def\<close>)
qed

subsection \<open>Simple statements\<close>

lemma ok_expr_b: "expr_node n \<Longrightarrow> ok_b env bad (expr_b env n) raw"
  unfolding ok_b_def
proof (intro allI impI)
  fix s :: bstate assume n: "expr_node n" and s: "tab_ok (bs_types s)"
  obtain err e s' where e: "validate_expr env n s = (err, e, s')" by (metis prod_cases3)
  show "case expr_b env n s of (r, s') \<Rightarrow> kept_state s s' \<and> (case r of Inl e \<Rightarrow> fine env bad e | Inr x \<Rightarrow> raw x)"
    using ok_sD [OF ok_expr [OF n] s e] by (simp add: expr_b_def e)
qed

lemma ok_stmt_b:
  assumes "ok_b env bad m P"
  shows "ok_s env bad (stmt_b m) P"
proof (rule ok_sI)
  fix s :: bstate and err x s' assume s: "tab_ok (bs_types s)" and r: "stmt_b m s = (err, x, s')"
  obtain y s1 where y: "m s = (y, s1)" by fastforce
  show "kept_state s s' \<and> (if err = AST_OK then P x else fine env bad err)"
    using ok_bD [OF assms s y] r y fine_not_ok by (cases y) (auto simp: stmt_b_def)
qed

lemma ok_wlab: "ok_b env bad (validate_wlab env e) stmt_raw"
  by (auto simp: validate_wlab_def split: option.split intro!: ok_malloc_then)

lemma ok_useu: "ok_b env bad (validate_useu env e) (\<lambda>x. x = S_skip)"
  unfolding validate_useu_def Let_def by (intro ok_need_then ok_malloc_then ok_ret refl)

lemma ok_retn:
  assumes "\<And>x. e = Some x \<Longrightarrow> expr_node x"
  shows "ok_b env bad (validate_retn env e) stmt_raw"
proof (cases e)
  case None
  then show ?thesis by (auto simp: validate_retn_def intro!: ok_malloc_then)
next
  case (Some x)
  then show ?thesis using ok_expr_b [OF assms] by (auto simp: validate_retn_def intro!: ok_malloc_then ok_bind_ret [where P = raw])
qed

lemma ok_wait:
  assumes "expr_node q" and how: "\<And>k x. how = Some (k, x) \<Longrightarrow> expr_node x"
  shows "ok_b env bad (validate_wait env q how nb) stmt_raw"
proof -
  have rest: "ok_b env bad (case how of None \<Rightarrow> ret_b (S_wait q' None None nb False None 0)
     | Some (k, e) \<Rightarrow>
         if k = LEX_TK_WFOR then
           let (units, e) = (case view e of V_wexp l op \<Rightarrow> (op = LEX_TK_WSEC, l) | _ \<Rightarrow> (False, e)) in
           bind_b (expr_b env e) (\<lambda>e. ret_b (S_wait q' (Some e) None nb units None 0))
         else bind_b (expr_b env e) (\<lambda>e. ret_b (S_wait q' None (Some e) nb False None 0))) stmt_raw" if q: "raw q'" for q'
  proof (cases how)
    case None
    then show ?thesis using q by auto
  next
    case (Some h)
    obtain k x where h: "h = (k, x)" by fastforce
    have x: "expr_node x" using how Some h by simp
    obtain u y where y: "(case view x of V_wexp l op \<Rightarrow> (op = LEX_TK_WSEC, l) | _ \<Rightarrow> (False, x)) = (u, y)" by fastforce
    then have "expr_node y" using expr_view [OF x] x by (auto simp: good_view_def split: expr_shape.splits)
    then have "ok_b env bad (bind_b (expr_b env y) (\<lambda>e. ret_b (S_wait q' (Some e) None nb u None 0))) stmt_raw"
      using q by (intro ok_bind_ret [OF ok_expr_b]) auto
    moreover have "ok_b env bad (bind_b (expr_b env x) (\<lambda>e. ret_b (S_wait q' None (Some e) nb False None 0))) stmt_raw"
      using q by (intro ok_bind_ret [OF ok_expr_b] x) auto
    ultimately show ?thesis using Some h y by simp
  qed
  show ?thesis unfolding validate_wait_def by (intro ok_malloc_then ok_bind [OF ok_expr_b [OF assms(1)]] rest)
qed

lemma ok_insert:
  assumes "obj_type t"
  shows "ok_b env bad (insert_type env n t) (\<lambda>_. True)"
  unfolding ok_b_def
proof (intro allI impI)
  fix s :: bstate assume s: "tab_ok (bs_types s)"
  let ?k = "bs_requests s"
  obtain r tab where i: "type_symtab_insert (\<lambda>_. mem_of env ?k) n t (bs_types s) = (r, tab)" by fastforce
  have tab: "tab_ok tab" using s i assms
    by (auto simp: type_symtab_insert_def Let_def type_symtab_clear_def tab_ok_def split: if_split_asm)
  have "r \<in> {-1, 0, 1}" "r = -1 \<longrightarrow> be_malloc env ?k = 0"
    using i by (auto simp: type_symtab_insert_def Let_def split: if_split_asm)
  then have "r = 0 \<or> r = 1 \<or> (r = -1 \<and> fine env bad AST_NOMEM)" by (auto simp: fine_def)
  then show "case insert_type env n t s of (r, s') \<Rightarrow> kept_state s s' \<and> (case r of Inl e \<Rightarrow> fine env bad e | Inr x \<Rightarrow> True)"
    using tab by (auto simp: insert_type_def i Let_def kept_state_def)
qed

text \<open>A type statement whose enum has a width that may be another enum.\<close>

definition enum_of_enum :: "benv \<Rightarrow> parse_node \<Rightarrow> bool" where
  "enum_of_enum env n \<longleftrightarrow>
     (case sview n of
        SV_type _ e \<Rightarrow> (case view e of V_bexp l op r \<Rightarrow> named_width env r | _ \<Rightarrow> False)
      | _ \<Rightarrow> False)"

lemma ok_type:
  assumes "expr_node e" and bad: "\<And>l op r. view e = V_bexp l op r \<Longrightarrow> named_width env r \<Longrightarrow> bad"
  shows "ok_b env bad (validate_type env e) (\<lambda>x. x = S_skip)"
proof (cases "view e")
  case (V_bexp l op r)
  have r: "expr_node r" using expr_view [OF assms(1)] V_bexp by (simp add: good_view_def)
  have "ok_b env bad ((if typespec_appears_enum env r then validate_typespec_enum else validate_typespec) env r) obj_type"
    using ok_typespec_enum [OF r] ok_typespecs [OF r, of env] bad [OF V_bexp] by (auto simp: specs_ok_def)
  then show ?thesis
    unfolding validate_type_def V_bexp expr_shape.case
    by (auto split: option.split intro!: ok_need_then ok_malloc_then ok_bind [where P = obj_type] ok_bind [OF ok_insert])
qed (use expr_view [OF assms(1)] in \<open>auto simp: validate_type_def good_view_def\<close>)

subsection \<open>Declarations and functions\<close>

text \<open>Complete statements of a unit; \<open>unit_raw\<close> also bounds the number of labels.\<close>

fun unit_whole :: "stmt \<Rightarrow> bool" where
  "unit_whole (S_decl d init) \<longleftrightarrow> decl_raw d \<and> pred_option raw init"
| "unit_whole (S_func f _ body) \<longleftrightarrow> list_all (\<lambda>p. proper (snd p) \<and> unquantified (snd p)) (f_params f) \<and>
     pred_option proper (f_rettype f) \<and> block_raw body \<and> f_addr f \<noteq> 0"
| "unit_whole _ \<longleftrightarrow> True"

lemma decl_quals:
  "set qs \<subseteq> {LEX_TK_CONS, LEX_TK_EXPO, LEX_TK_STAT} \<Longrightarrow> count_decl_qualifiers ctx qs q = Inl e \<Longrightarrow> e = AST_INVALID"
  by (induction ctx qs q rule: count_decl_qualifiers.induct) (auto split: if_split_asm)

lemma func_quals:
  "set qs \<subseteq> {LEX_TK_CONS, LEX_TK_EXPO, LEX_TK_STAT} \<Longrightarrow> func_qualifiers qs b = Inl e \<Longrightarrow> e = AST_INVALID"
  by (induction qs b rule: func_qualifiers.induct) (auto split: if_split_asm)

lemma decl_item_nodes:
  assumes "expr_node e" and "decl_item e = Some (t, op, r, i)"
  shows "expr_node r" and "i = Some x \<Longrightarrow> expr_node x"
proof -
  obtain l o' r' where v: "view e = V_bexp l o' r'" using assms(2) by (auto simp: decl_item_def split: expr_shape.splits)
  have n: "expr_node l" "expr_node r'" using expr_view [OF assms(1)] v by (auto simp: good_view_def)
  have "good_view (view l)" by (rule expr_view [OF n(1)])
  then have "expr_node r \<and> (\<forall>x. i = Some x \<longrightarrow> expr_node x)"
    using assms(2) v n by (auto simp: decl_item_def good_view_def split: expr_shape.splits if_split_asm)
  then show "expr_node r" and "i = Some x \<Longrightarrow> expr_node x" by auto
qed

definition decl_found :: "(lex_symbol list \<times> qtype \<times> parse_node option) option \<Rightarrow> bool" where
  "decl_found d \<longleftrightarrow> (case d of None \<Rightarrow> True | Some (ns, ty, i) \<Rightarrow> obj_type ty \<and> (\<forall>x. i = Some x \<longrightarrow> expr_node x))"

declare decl_loop.simps [simp del]

lemma ok_decl_loop: "expr_node e \<Longrightarrow> ok_b env bad (decl_loop env e) decl_found"
proof (induction "size e" arbitrary: e rule: less_induct)
  case less
  show ?case
  proof (cases "decl_item e")
    case None
    then show ?thesis by (auto simp: decl_loop.simps [of env e] decl_found_def)
  next
    case (Some d)
    obtain t op r i where d: "d = (t, op, r, i)" by (metis prod_cases4)
    note n = decl_item_nodes [OF less.prems Some [unfolded d]]
    have "op = LEX_TK_COMA \<Longrightarrow> ok_b env bad (decl_loop env r) decl_found"
      using less.hyps [of r] decl_item_size [of e t r i] Some d n(1) by simp
    then have "op = LEX_TK_COMA \<Longrightarrow>
        ok_b env bad (bind_b (decl_loop env r) (\<lambda>d. ret_b (map_option (\<lambda>(ns, ty, i). (tok_sym env t # ns, ty, i)) d))) decl_found"
      by (intro ok_bind_ret [where P = decl_found]) (auto simp: decl_found_def split: option.splits)
    moreover have "ok_b env bad (bind_b (new_type env r) (\<lambda>ty. ret_b (Some ([tok_sym env t], ty, i)))) decl_found"
      using n(2) by (intro ok_bind_ret [OF ok_new_type [OF n(1)]]) (auto simp: decl_found_def)
    moreover have "ok_b env bad (ret_b None) decl_found" by (auto simp: decl_found_def)
    ultimately show ?thesis
      by (auto simp: decl_loop.simps [of env e] Some d intro!: ok_malloc_then)
  qed
qed

lemma ok_decl:
  assumes "decl_found (Some d)"
  shows "ok_b env bad (validate_decl env q d) (\<lambda>x. stmt_raw x \<and> unit_whole x)"
proof -
  obtain ns ty i where d: "d = (ns, ty, i)" by (metis prod_cases3)
  obtain c x st where q: "q = (c, x, st)" by (metis prod_cases3)
  have ty: "obj_type ty" and i: "i = Some x \<Longrightarrow> expr_node x" for x using assms d by (auto simp: decl_found_def)
  have "ok_b env bad (case i of None \<Rightarrow> ret_b None | Some e \<Rightarrow> bind_b (expr_b env e) (\<lambda>e. ret_b (Some e))) (pred_option raw)"
  proof (cases i)
    case (Some e)
    then show ?thesis using i by (auto intro!: ok_bind_ret [OF ok_expr_b])
  qed auto
  then show ?thesis using ty
    by (auto simp: validate_decl_def d q decl_raw_def obj_type_def intro!: ok_need_then ok_malloc_then
        ok_bind_ret [where P = "pred_option raw"])
qed

lemma ok_decl_or_expr:
  assumes "expr_node e" and qs: "set qs \<subseteq> {LEX_TK_CONS, LEX_TK_EXPO, LEX_TK_STAT}"
  shows "ok_s env bad (validate_decl_or_expr env ctx qs e) (\<lambda>x. stmt_raw x \<and> unit_whole x)"
proof (rule ok_sI)
  fix s :: bstate and err x s'
  assume s: "tab_ok (bs_types s)" and r: "validate_decl_or_expr env ctx qs e s = (err, x, s')"
  show "kept_state s s' \<and> (if err = AST_OK then stmt_raw x \<and> unit_whole x else fine env bad err)"
  proof (cases "count_decl_qualifiers ctx qs (False, False, False)")
    case (Inl e)
    then show ?thesis using r s decl_quals [OF qs Inl] by (simp add: validate_decl_or_expr_def kept_state_def)
  next
    case (Inr q)
    obtain d s1 where d: "decl_loop env e s = (d, s1)" by fastforce
    note a = ok_bD [OF ok_decl_loop [OF assms(1)] s d]
    show ?thesis
    proof (cases d)
      case (Inl e)
      then show ?thesis using r Inr d a fine_not_ok by (auto simp: validate_decl_or_expr_def)
    next
      case (Inr d')
      show ?thesis
      proof (cases d')
        case None
        obtain err' y s2 where y: "validate_expr env e s1 = (err', y, s2)" by (metis prod_cases3)
        note b = ok_sD [OF ok_expr [OF assms(1)] kept_tab [OF a(1)] y]
        show ?thesis
        proof (cases "qs = []")
          case True
          then have "(err, x, s') = (err', if y = E_null then S_skip else S_expr y, s2)"
            using r \<open>count_decl_qualifiers ctx qs _ = Inr q\<close> d Inr None y
            by (simp add: validate_decl_or_expr_def)
          then show ?thesis using b kept_trans [OF a(1) b(1)] by auto
        next
          case False
          then have "(err, x, s') = (AST_INVALID, S_skip, s1)"
            using r \<open>count_decl_qualifiers ctx qs _ = Inr q\<close> d Inr None by (simp add: validate_decl_or_expr_def)
          then show ?thesis using a(1) by simp
        qed
      next
        case (Some d'')
        then have "stmt_b (validate_decl env q d'') s1 = (err, x, s')"
          using r \<open>count_decl_qualifiers ctx qs _ = Inr q\<close> d Inr by (simp add: validate_decl_or_expr_def)
        from ok_sD [OF ok_stmt_b [OF ok_decl] kept_tab [OF a(1)] this] show ?thesis
          using a(3) [OF Inr] Some kept_trans [OF a(1)] by simp
      qed
    qed
  qed
qed

definition sig_ok :: "lex_symbol \<times> (lex_symbol \<times> qtype) list \<times> qtype option \<Rightarrow> bool" where
  "sig_ok g \<longleftrightarrow> (case g of (n, ps, rt) \<Rightarrow> list_all (\<lambda>p. obj_type (snd p)) ps \<and> pred_option proper rt)"

lemma ok_func_head:
  assumes "expr_node e"
  shows "ok_b env bad (func_head env e) (\<lambda>(n, ps). list_all (\<lambda>p. obj_type (snd p)) ps)"
proof (cases "view e")
  case (V_fexp l r)
  have "ok_b env bad (func_params env r) (list_all (\<lambda>p. obj_type (snd p)))"
  proof (cases r)
    case (Some x)
    then have "expr_node x" using expr_view [OF assms] V_fexp by (simp add: good_view_def)
    from ok_mono [OF ok_pairs [OF this]] show ?thesis by (simp add: func_params_def Some pairs_ok_def)
  qed (auto simp: func_params_def)
  then show ?thesis
    by (auto simp: func_head_def V_fexp split: option.split intro!: ok_bind_ret [where P = "list_all (\<lambda>p. obj_type (snd p))"])
qed (use expr_view [OF assms] in \<open>auto simp: func_head_def good_view_def\<close>)

lemma ok_signature:
  assumes "expr_node e"
  shows "ok_b env bad (func_signature env e) sig_ok"
proof (cases "\<exists>l op r. view e = V_bexp l op r")
  case True
  then obtain l op r where v: "view e = V_bexp l op r" by blast
  then have n: "expr_node l" "expr_node r" using expr_view [OF assms] by (simp_all add: good_view_def)
  have "ok_b env bad (bind_b (func_head env l) (\<lambda>(name, ps). bind_b (new_type env r) (\<lambda>rt. ret_b (name, ps, Some rt)))) sig_ok"
    by (rule ok_bind [OF ok_func_head [OF n(1)]])
      (auto intro!: ok_bind_ret [OF ok_new_type [OF n(2)]] simp: sig_ok_def obj_type_proper)
  then show ?thesis by (auto simp: func_signature_def v intro!: ok_need_then)
next
  case False
  have "ok_b env bad (bind_b (func_head env e) (\<lambda>(name, ps). ret_b (name, ps, None))) sig_ok"
    by (rule ok_bind [OF ok_func_head [OF assms]]) (auto simp: sig_ok_def)
  then show ?thesis using False by (auto simp: func_signature_def split: expr_shape.split)
qed

end
