(* ===== verification/Ast_Safe.thy ===== *)
theory Ast_Safe
  imports Ast_Laws
begin

text \<open>
  Building the statements: the contexts they are in, what \<^verbatim>\<open>ast_build\<close> gives for the tree of an
  accepted program, and that the phases after it do not abort on what it built without error.
\<close>

subsection \<open>Statements\<close>

text \<open>The same of a step that is taken in the contexts \<open>cs\<close>.\<close>

definition ok_at :: "benv \<Rightarrow> bool \<Rightarrow> ctx list \<Rightarrow> 'a built \<Rightarrow> ('a \<Rightarrow> bool) \<Rightarrow> bool" where
  "ok_at env bad cs m Q \<longleftrightarrow> (\<forall>s. tab_ok (bs_types s) \<longrightarrow> bs_ctx s = cs \<longrightarrow>
     (case m s of (err, x, s') \<Rightarrow> kept_state s s' \<and> (if err = AST_OK then Q x else fine env bad err)))"

lemma ok_atI:
  assumes "\<And>s err x s'. tab_ok (bs_types s) \<Longrightarrow> bs_ctx s = cs \<Longrightarrow> m s = (err, x, s') \<Longrightarrow>
    kept_state s s' \<and> (if err = AST_OK then Q x else fine env bad err)"
  shows "ok_at env bad cs m Q"
  unfolding ok_at_def
proof (intro allI impI)
  fix s :: bstate assume s: "tab_ok (bs_types s)" "bs_ctx s = cs"
  obtain err x s' where "m s = (err, x, s')" by (metis prod_cases3)
  then show "case m s of (err, x, s') \<Rightarrow> kept_state s s' \<and> (if err = AST_OK then Q x else fine env bad err)"
    using assms [OF s] by simp
qed

lemma ok_atD:
  assumes "ok_at env bad cs m Q" and "tab_ok (bs_types s)" and "bs_ctx s = cs" and "m s = (err, x, s')"
  shows "kept_state s s'" and "err = AST_OK \<Longrightarrow> Q x" and "err \<noteq> AST_OK \<Longrightarrow> fine env bad err"
    and "tab_ok (bs_types s')" and "bs_ctx s' = cs"
proof -
  have "case m s of (err, x, s') \<Rightarrow> kept_state s s' \<and> (if err = AST_OK then Q x else fine env bad err)"
    by (rule assms(1) [unfolded ok_at_def, rule_format, OF assms(2,3)])
  then show "kept_state s s'" and "err = AST_OK \<Longrightarrow> Q x" and "err \<noteq> AST_OK \<Longrightarrow> fine env bad err"
    and "tab_ok (bs_types s')" and "bs_ctx s' = cs"
    using assms(3) unfolding assms(4) by (auto simp: kept_state_def)
qed

lemma ok_s_at: "ok_s env bad m Q \<Longrightarrow> ok_at env bad cs m Q"
  by (rule ok_atI) (simp add: ok_sD(1-3))

lemma ok_at_mono:
  assumes "ok_at env bad cs m Q" and "\<And>x. Q x \<Longrightarrow> R x"
  shows "ok_at env bad cs m R"
proof (rule ok_atI)
  fix s :: bstate and err x s' assume s: "tab_ok (bs_types s)" "bs_ctx s = cs" and r: "m s = (err, x, s')"
  show "kept_state s s' \<and> (if err = AST_OK then R x else fine env bad err)"
    using ok_atD(1-3) [OF assms(1) s r] assms(2) by simp
qed

lemma ok_at_node:
  assumes "ok_at env bad cs m Q"
  shows "ok_at env bad cs (with_node env x m) Q"
proof (rule ok_atI)
  fix s :: bstate and err y s' assume s: "tab_ok (bs_types s)" "bs_ctx s = cs" and r: "with_node env x m s = (err, y, s')"
  obtain p s1 where p: "malloc_b env s = (p, s1)" by fastforce
  note a = ok_bD [OF ok_malloc [where P = "\<lambda>_. True"] s(1) p, simplified]
  show "kept_state s s' \<and> (if err = AST_OK then Q y else fine env bad err)"
  proof (cases p)
    case (Inl e)
    then show ?thesis using r p a(1,2) fine_not_ok by (auto simp: with_node_def)
  next
    case (Inr q)
    then have m: "m s1 = (err, y, s')" using r p by (simp add: with_node_def)
    have "bs_ctx s1 = cs" using a(1) s(2) by (simp add: kept_state_def)
    from ok_atD(1-3) [OF assms kept_tab [OF a(1)] this m] show ?thesis using kept_trans [OF a(1)] by simp
  qed
qed

lemma ok_at_both:
  assumes "ok_at env bad cs m P" and "ok_at env bad cs n Q"
  shows "ok_at env bad cs (both_b m n) (\<lambda>(x, y). P x \<and> Q y)"
proof (rule ok_atI)
  fix s :: bstate and err z s' assume s: "tab_ok (bs_types s)" "bs_ctx s = cs" and r: "both_b m n s = (err, z, s')"
  obtain e1 x s1 where x: "m s = (e1, x, s1)" by (metis prod_cases3)
  note a = ok_atD [OF assms(1) s x]
  obtain e2 y s2 where y: "n s1 = (e2, y, s2)" by (metis prod_cases3)
  note b = ok_atD [OF assms(2) a(4,5) y]
  have z: "err = aggr_err e1 e2" "z = (x, y)" "s' = s2" using r x y by (simp_all add: both_b_def)
  show "kept_state s s' \<and> (if err = AST_OK then case z of (x, y) \<Rightarrow> P x \<and> Q y else fine env bad err)"
  proof (cases "e1 = AST_OK")
    case True
    then show ?thesis using a b z kept_trans by auto
  next
    case False
    then have "fine env bad err" using fine_aggr [OF a(3)] b(3) z(1) by blast
    then show ?thesis using fine_not_ok z(3) kept_trans [OF a(1) b(1)] by auto
  qed
qed

lemma ok_map:
  assumes "ok_at env bad cs m P" and "\<And>x. P x \<Longrightarrow> Q (f x)"
  shows "ok_at env bad cs (map_b f m) Q"
proof (rule ok_atI)
  fix s :: bstate and err y s' assume s: "tab_ok (bs_types s)" "bs_ctx s = cs" and r: "map_b f m s = (err, y, s')"
  obtain e x s1 where x: "m s = (e, x, s1)" by (metis prod_cases3)
  show "kept_state s s' \<and> (if err = AST_OK then Q y else fine env bad err)"
    using ok_atD [OF assms(1) s x] assms(2) r x by (auto simp: map_b_def)
qed

lemma ok_reject: "fine env bad e \<Longrightarrow> ok_at env bad cs (reject_b e) Q"
  unfolding reject_b_def by (rule ok_s_at [OF ok_stop])

lemma ok_at_done: "Q x \<Longrightarrow> ok_at env bad cs (done_b x) Q"
  by (rule ok_s_at [OF ok_done])

lemma ok_in_context:
  assumes "ok_at env bad (c # cs) m Q" and "length cs < 3"
  shows "ok_at env bad cs (in_context c x m) Q"
proof (rule ok_atI)
  fix s :: bstate and err y s' assume s: "tab_ok (bs_types s)" "bs_ctx s = cs" and r: "in_context c x m s = (err, y, s')"
  obtain e z s1 where z: "m (s\<lparr>bs_ctx := c # bs_ctx s\<rparr>) = (e, z, s1)" by (metis prod_cases3)
  have "tab_ok (bs_types (s\<lparr>bs_ctx := c # bs_ctx s\<rparr>))" "bs_ctx (s\<lparr>bs_ctx := c # bs_ctx s\<rparr>) = c # cs" using s by simp_all
  note a = ok_atD [OF assms(1) this z]
  show "kept_state s s' \<and> (if err = AST_OK then Q y else fine env bad err)"
    using r z a assms(2) s by (auto simp: in_context_def kept_state_def)
qed

definition inner_ctx :: "ctx list set" where
  "inner_ctx = {[CTX_FUNC, CTX_UNIT], [CTX_BLOCK, CTX_FUNC, CTX_UNIT]}"

lemma ok_in_block:
  assumes "\<And>cs. cs \<in> inner_ctx \<Longrightarrow> ok_at env bad cs m Q" and "cs \<in> inner_ctx"
  shows "ok_at env bad cs (in_block_ctx (hd cs) m) Q"
proof (cases "cs = [CTX_FUNC, CTX_UNIT]")
  case True
  have "ok_at env bad (CTX_BLOCK # cs) m Q" using assms(1) True by (simp add: inner_ctx_def)
  from ok_in_context [OF this] show ?thesis using True by (simp add: in_block_ctx_def)
next
  case False
  then show ?thesis using assms by (auto simp: in_block_ctx_def inner_ctx_def)
qed


declare validate_stmt.simps [simp del]

definition inner_ok :: "benv \<Rightarrow> parse_node \<Rightarrow> bool" where
  "inner_ok env n \<longleftrightarrow> (\<forall>bad. \<forall>cs \<in> inner_ctx. ok_at env bad cs (validate_stmt env n) stmt_raw)"

lemma ok_stmts:
  "\<forall>n \<in> set ns. inner_ok env n \<Longrightarrow> cs \<in> inner_ctx \<Longrightarrow> ok_at env bad cs (validate_stmts env ns) block_raw"
proof (induction ns)
  case (Cons n ns)
  have "ok_at env bad cs (validate_stmt env n) stmt_raw" using Cons.prems by (simp add: inner_ok_def)
  then show ?case using Cons by (auto intro!: ok_map ok_at_both)
qed (simp add: ok_at_done)

lemma ok_block_node:
  "\<forall>n \<in> set ns. inner_ok env n \<Longrightarrow> cs \<in> inner_ctx \<Longrightarrow>
     ok_at env bad cs (block_node env noin ns) (\<lambda>s. is_blok s \<and> stmt_raw s)"
  by (auto intro!: ok_at_node ok_map [OF ok_stmts])

lemma ok_elifs:
  assumes "\<forall>(e, ns) \<in> set es. expr_node e \<and> (\<forall>n \<in> set ns. inner_ok env n)" and "cs \<in> inner_ctx"
  shows "ok_at env bad cs (validate_elifs env es) elifs_raw"
  using assms(1)
proof (induction es)
  case (Cons x es)
  obtain e ns where x: "x = (e, ns)" by fastforce
  have e: "ok_at env bad cs (validate_expr env e) raw" and b: "ok_at env bad cs (block_node env False ns) (\<lambda>s. is_blok s \<and> stmt_raw s)"
    using Cons.prems x assms(2) by (auto simp del: block_node.simps intro: ok_s_at [OF ok_expr] ok_block_node)
  show ?case unfolding x validate_elifs.simps
    by (rule ok_map [OF ok_at_both [OF e ok_at_both [OF b Cons.IH]]]) (use Cons.prems in auto)
qed (simp add: ok_at_done)

lemma ok_cond:
  assumes "expr_node e" and "\<forall>n \<in> set ss. inner_ok env n"
    and "\<forall>(e, ns) \<in> set bs. expr_node e \<and> (\<forall>n \<in> set ns. inner_ok env n)"
    and "\<And>ts. els = Some ts \<Longrightarrow> \<forall>n \<in> set ts. inner_ok env n" and "cs \<in> inner_ctx"
  shows "ok_at env bad cs (with_node env S_skip (
               map_b (\<lambda>(e, b, elifs, els). S_cond e b elifs els)
                 (both_b (validate_expr env e) (both_b (block_node env False ss) (both_b (validate_elifs env bs)
                   (case els of None \<Rightarrow> done_b None | Some ss \<Rightarrow> map_b Some (block_node env False ss))))))) stmt_raw"
proof -
  have "ok_at env bad cs (case els of None \<Rightarrow> done_b None | Some ss \<Rightarrow> map_b Some (block_node env False ss))
      (\<lambda>r. case r of None \<Rightarrow> True | Some t \<Rightarrow> is_blok t \<and> stmt_raw t)"
    using assms(4,5) by (cases els) (auto simp del: block_node.simps intro: ok_at_done ok_map [OF ok_block_node])
  from ok_at_both [OF ok_s_at [OF ok_expr [OF assms(1)]] ok_at_both [OF ok_block_node [OF assms(2,5)]
      ok_at_both [OF ok_elifs [OF assms(3,5)] this]]]
  show ?thesis by (intro ok_at_node) (rule ok_map, assumption, auto)
qed

lemma size_elem: "x \<in> set xs \<Longrightarrow> size_list f xs < n \<Longrightarrow> f x < n"
  by (induction xs) auto

lemma ok_step:
  assumes "ok_at env bad cs m Q" and "\<And>s. bs_ctx s = cs \<Longrightarrow> validate_stmt env n s = m s"
  shows "ok_at env bad cs (validate_stmt env n) Q"
proof (rule ok_atI)
  fix s :: bstate and err x s'
  assume s: "tab_ok (bs_types s)" "bs_ctx s = cs" and r: "validate_stmt env n s = (err, x, s')"
  have "m s = (err, x, s')" using assms(2) [OF s(2)] r by simp
  from ok_atD(1-3) [OF assms(1) s this] show "kept_state s s' \<and> (if err = AST_OK then Q x else fine env bad err)" by simp
qed

lemma ok_loop:
  assumes "expr_node e" and "\<forall>n \<in> set ss. inner_ok env n" and "cs \<in> inner_ctx"
  shows "ok_at env bad cs (with_node env S_skip (
      map_b (\<lambda>(e, ss). S_whil e [] ss) (both_b (validate_expr env e) (validate_stmts env ss)))) stmt_raw"
    and "ok_at env bad cs (with_node env S_skip (
      map_b (\<lambda>(ss, e). S_dowh e [] ss) (both_b (validate_stmts env ss) (validate_expr env e)))) stmt_raw"
  subgoal by (intro ok_at_node ok_map [OF ok_at_both [OF ok_s_at [OF ok_expr [OF assms(1)]] ok_stmts [OF assms(2,3)]]]) auto
  subgoal by (intro ok_at_node ok_map [OF ok_at_both [OF ok_stmts [OF assms(2,3)] ok_s_at [OF ok_expr [OF assms(1)]]]]) auto
  done

lemma ok_inner: "stmt_node n \<Longrightarrow> inner_ok env n"
proof (induction "size n" arbitrary: n rule: less_induct)
  case less
  have v: "good_sview (sview n)" by (rule stmt_view [OF less.prems])
  have sub: "\<forall>m \<in> set ss. inner_ok env m" if "size_list size ss < size n" "stmt_nodes ss" for ss
    using that by (auto intro: less.hyps size_elem [of _ _ size])
  have "ok_at env bad cs (validate_stmt env n) stmt_raw" if cs: "cs \<in> inner_ctx" for bad cs
  proof -
    obtain c ds where c: "cs = c # ds" "c \<noteq> CTX_UNIT" using cs by (auto simp: inner_ctx_def)
    note eqs = validate_stmt.simps [of env n] c
    show ?thesis
    proof (cases "sview n")
      case (SV_useu e)
      show ?thesis by (rule ok_step [OF ok_reject [of _ _ AST_INVALID]]) (simp_all add: eqs SV_useu)
    next
      case (SV_type b e)
      show ?thesis by (rule ok_step [OF ok_reject [of _ _ AST_INVALID]]) (simp_all add: eqs SV_type)
    next
      case (SV_wait q how nb)
      then have "expr_node q" "\<And>k x. how = Some (k, x) \<Longrightarrow> expr_node x" using v by (auto simp: good_sview_def)
      from ok_s_at [OF ok_stmt_b [OF ok_wait [OF this]]] show ?thesis
        by (rule ok_step) (simp_all add: eqs SV_wait)
    next
      case (SV_retn e)
      then have "\<And>x. e = Some x \<Longrightarrow> expr_node x" using v by (simp add: good_sview_def)
      from ok_s_at [OF ok_stmt_b [OF ok_retn [OF this]]] show ?thesis by (rule ok_step) (simp_all add: eqs SV_retn)
    next
      case (SV_wlab e)
      show ?thesis by (rule ok_step [OF ok_s_at [OF ok_stmt_b [OF ok_wlab]]]) (simp add: eqs SV_wlab)
    next
      case (SV_blok b ss)
      have "\<forall>m \<in> set ss. inner_ok env m" using sub sview_inner(1) [OF SV_blok] v SV_blok by (simp add: good_sview_def)
      then have "ok_at env bad cs (in_block_ctx (hd cs) (block_node env b ss)) (\<lambda>s. is_blok s \<and> stmt_raw s)"
        by (intro ok_in_block cs ok_block_node)
      then have "ok_at env bad cs (in_block_ctx c (block_node env b ss)) stmt_raw" using c(1) by (auto intro: ok_at_mono)
      then show ?thesis by (rule ok_step) (simp add: eqs SV_blok)
    next
      case (SV_expr qs e)
      then have "expr_node e" "set qs \<subseteq> {LEX_TK_CONS, LEX_TK_EXPO, LEX_TK_STAT}" using v by (simp_all add: good_sview_def)
      from ok_s_at [OF ok_decl_or_expr [OF this]] have "ok_at env bad cs (validate_decl_or_expr env c qs e) stmt_raw"
        by (rule ok_at_mono) simp
      then show ?thesis by (rule ok_step) (simp add: eqs SV_expr)
    next
      case (SV_func qs e ss)
      show ?thesis by (rule ok_step [OF ok_reject [of _ _ AST_INVALID]]) (simp_all add: eqs SV_func)
    next
      case (SV_cond e ss bs els)
      note z = sview_inner(5) [OF SV_cond]
      have g: "expr_node e" "stmt_nodes ss" "\<forall>(x, ts) \<in> set bs. expr_node x \<and> stmt_nodes ts" "\<And>ts. els = Some ts \<Longrightarrow> stmt_nodes ts"
        using v SV_cond by (simp_all add: good_sview_def)
      have "\<forall>m \<in> set ss. inner_ok env m" and "\<And>ts. els = Some ts \<Longrightarrow> \<forall>m \<in> set ts. inner_ok env m"
        using sub z g by auto
      moreover have "\<forall>(x, ts) \<in> set bs. expr_node x \<and> (\<forall>m \<in> set ts. inner_ok env m)"
        using sub z g(3) size_elem [of _ bs "\<lambda>(e, ss). size_list size ss" "size n"] by fastforce
      ultimately have "ok_at env bad cs (in_block_ctx (hd cs) (with_node env S_skip (
               map_b (\<lambda>(e, b, elifs, els). S_cond e b elifs els)
                 (both_b (validate_expr env e) (both_b (block_node env False ss) (both_b (validate_elifs env bs)
                   (case els of None \<Rightarrow> done_b None | Some ss \<Rightarrow> map_b Some (block_node env False ss)))))))) stmt_raw"
        using g(1) by (intro ok_in_block cs ok_cond)
      then show ?thesis by (rule ok_step) (simp add: eqs SV_cond)
    next
      case (SV_whil e ss)
      then have g: "expr_node e" "\<forall>m \<in> set ss. inner_ok env m" using v sub sview_inner(3) [OF SV_whil] by (simp_all add: good_sview_def)
      show ?thesis by (rule ok_step [OF ok_in_block [OF ok_loop(1) [OF g] cs]]) (simp_all add: eqs SV_whil)
    next
      case (SV_dowh ss e)
      then have g: "expr_node e" "\<forall>m \<in> set ss. inner_ok env m" using v sub sview_inner(4) [OF SV_dowh] by (simp_all add: good_sview_def)
      show ?thesis by (rule ok_step [OF ok_in_block [OF ok_loop(2) [OF g] cs]]) (simp_all add: eqs SV_dowh)
    qed (use v in \<open>simp add: good_sview_def\<close>)
  qed
  then show ?case by (simp add: inner_ok_def)
qed

subsection \<open>The unit\<close>

lemma ok_func:
  assumes "ok_at env bad cs body block_raw" and "expr_node e" and qs: "set qs \<subseteq> {LEX_TK_CONS, LEX_TK_EXPO, LEX_TK_STAT}"
  shows "ok_at env bad cs (func_node env qs e body) unit_whole"
proof (cases "func_qualifiers qs False")
  case (Inl x)
  then have "x = AST_INVALID" by (rule func_quals [OF qs])
  then show ?thesis by (simp add: func_node_def Inl ok_reject)
next
  case (Inr expo)
  show ?thesis
  proof (rule ok_atI)
    fix s :: bstate and err x s'
    assume s: "tab_ok (bs_types s)" "bs_ctx s = cs" and r: "func_node env qs e body s = (err, x, s')"
    obtain p s1 where p: "malloc_b env s = (p, s1)" by fastforce
    note a = ok_bD [OF ok_malloc [where P = "\<lambda>p. p \<noteq> 0"] s(1) p, simplified]
    show "kept_state s s' \<and> (if err = AST_OK then unit_whole x else fine env bad err)"
    proof (cases p)
      case (Inl y)
      then show ?thesis using r p a(1,2) fine_not_ok by (auto simp: func_node_def Inr)
    next
      case addr: (Inr addr)
      obtain g s2 where g: "func_signature env e s1 = (g, s2)" by fastforce
      note b = ok_bD [OF ok_signature [OF assms(2)] kept_tab [OF a(1)] g]
      show ?thesis
      proof (cases g)
        case (Inl y)
        then show ?thesis using r p addr g a(1) b(1,2) fine_not_ok kept_trans [OF a(1)]
          by (auto simp: func_node_def Inr)
      next
        case sig: (Inr h)
        obtain n ps rt where h: "h = (n, ps, rt)" by (metis prod_cases3)
        obtain e' ss s3 where ss: "body s2 = (e', ss, s3)" by (metis prod_cases3)
        have "bs_ctx s2 = cs" using a(1) b(1) s(2) by (simp add: kept_state_def)
        note c = ok_atD [OF assms(1) kept_tab [OF b(1)] this ss]
        have ps: "sig_ok (n, ps, rt)" using b(3) [OF sig] h by simp
        have x: "err = e'" "s' = s3" "x = S_func \<lparr>f_addr = addr, f_expo = expo, f_name = n, f_params = ps, f_rettype = rt, f_wlabs = []\<rparr> [] ss"
          using r p addr g sig h ss by (simp_all add: func_node_def Inr map_b_def)
        have "kept_state s s'" using kept_trans [OF a(1) kept_trans [OF b(1) c(1)]] x(2) by simp
        moreover have "unit_whole x" if "err = AST_OK"
          using that ps c(2) a(3) [OF addr] unfolding x by (auto simp: sig_ok_def obj_type_def list_all_iff)
        ultimately show ?thesis using c(3) x(1) by simp
      qed
    qed
  qed
qed

lemma ok_unit_stmt:
  assumes "stmt_node n" and "enum_of_enum env n \<Longrightarrow> bad"
  shows "ok_at env bad [CTX_UNIT] (validate_stmt env n) unit_whole"
proof -
  have v: "good_sview (sview n)" by (rule stmt_view [OF assms(1)])
  note eqs = validate_stmt.simps [of env n]
  show ?thesis
  proof (cases "sview n")
    case (SV_useu e)
    have "ok_at env bad [CTX_UNIT] (stmt_b (validate_useu env e)) unit_whole"
      by (rule ok_at_mono [OF ok_s_at [OF ok_stmt_b [OF ok_useu]]]) simp
    then show ?thesis by (rule ok_step) (simp add: eqs SV_useu)
  next
    case (SV_type b e)
    then have "expr_node e" using v by (simp add: good_sview_def)
    then have "ok_b env bad (validate_type env e) (\<lambda>x. x = S_skip)"
      using assms(2) SV_type by (intro ok_type) (simp_all add: enum_of_enum_def)
    from ok_s_at [OF ok_stmt_b [OF this]] have "ok_at env bad [CTX_UNIT] (stmt_b (validate_type env e)) unit_whole"
      by (rule ok_at_mono) simp
    then show ?thesis by (rule ok_step) (simp add: eqs SV_type)
  next
    case (SV_wait q how nb)
    show ?thesis by (rule ok_step [OF ok_reject [of _ _ AST_INVALID]]) (simp_all add: eqs SV_wait)
  next
    case (SV_retn e)
    show ?thesis by (rule ok_step [OF ok_reject [of _ _ AST_INVALID]]) (simp_all add: eqs SV_retn)
  next
    case (SV_wlab e)
    show ?thesis by (rule ok_step [OF ok_reject [of _ _ AST_INVALID]]) (simp_all add: eqs SV_wlab)
  next
    case (SV_blok b ss)
    show ?thesis by (rule ok_step [OF ok_reject [of _ _ AST_INVALID]]) (simp_all add: eqs SV_blok in_block_ctx_def)
  next
    case (SV_expr qs e)
    then have "expr_node e" "set qs \<subseteq> {LEX_TK_CONS, LEX_TK_EXPO, LEX_TK_STAT}" using v by (simp_all add: good_sview_def)
    from ok_s_at [OF ok_decl_or_expr [OF this]] have "ok_at env bad [CTX_UNIT] (validate_decl_or_expr env CTX_UNIT qs e) unit_whole"
      by (rule ok_at_mono) simp
    then show ?thesis by (rule ok_step) (simp add: eqs SV_expr)
  next
    case (SV_func qs e ss)
    then have e: "expr_node e" and qs: "set qs \<subseteq> {LEX_TK_CONS, LEX_TK_EXPO, LEX_TK_STAT}" and ss: "stmt_nodes ss"
      using v by (simp_all add: good_sview_def)
    have "ok_at env bad [CTX_FUNC, CTX_UNIT] (validate_stmts env ss) block_raw"
      using ss by (intro ok_stmts) (simp_all add: ok_inner inner_ctx_def)
    from ok_in_context [OF ok_func [OF this e qs], of S_skip]
    have "ok_at env bad [CTX_UNIT] (in_context CTX_FUNC S_skip (func_node env qs e (validate_stmts env ss))) unit_whole" by simp
    then show ?thesis by (rule ok_step) (simp add: eqs SV_func)
  next
    case (SV_cond e ss bs els)
    show ?thesis by (rule ok_step [OF ok_reject [of _ _ AST_INVALID]]) (simp_all add: eqs SV_cond in_block_ctx_def)
  next
    case (SV_whil e ss)
    show ?thesis by (rule ok_step [OF ok_reject [of _ _ AST_INVALID]]) (simp_all add: eqs SV_whil in_block_ctx_def)
  next
    case (SV_dowh ss e)
    show ?thesis by (rule ok_step [OF ok_reject [of _ _ AST_INVALID]]) (simp_all add: eqs SV_dowh in_block_ctx_def)
  qed (use v in \<open>simp add: good_sview_def\<close>)
qed

lemma ok_unit:
  assumes "stmt_nodes ns" and "\<exists>n \<in> set ns. enum_of_enum env n \<Longrightarrow> bad"
  shows "ok_at env bad [CTX_UNIT] (validate_stmts env ns) (list_all unit_whole)"
  using assms
proof (induction ns)
  case (Cons n ns)
  have n: "ok_at env bad [CTX_UNIT] (validate_stmt env n) unit_whole" using Cons.prems by (intro ok_unit_stmt) auto
  have "ok_at env bad [CTX_UNIT] (validate_stmts env ns) (list_all unit_whole)" using Cons by simp
  then show ?case unfolding validate_stmts.simps by (intro ok_map [OF ok_at_both [OF n]]) auto
qed (simp add: ok_at_done)

lemma ok_ast_build:
  assumes "derives (Node PARSE_NT_Unit cs)" and "\<exists>n \<in> set cs. enum_of_enum env n \<Longrightarrow> bad"
  shows "ok_at env bad [] (ast_build env (Node PARSE_NT_Unit cs)) (list_all unit_whole)"
proof -
  obtain a ns b where cs: "cs = Leaf a # ns @ [Leaf b]" and ns: "stmt_nodes ns" by (rule unit_stmts [OF assms(1)])
  obtain c ds where c: "ns @ [Leaf b] = c # ds" by (cases "ns @ [Leaf b]") auto
  have butlast: "butlast (c # ds) = ns" using c by (metis butlast_snoc)
  have "ok_at env bad [CTX_UNIT] (validate_stmts env ns) (list_all unit_whole)"
    using assms(2) by (intro ok_unit ns) (simp add: cs)
  then have m: "ok_at env bad [] (in_context CTX_UNIT [] (validate_stmts env ns)) (list_all unit_whole)"
    by (rule ok_in_context) simp
  have "ok_at env bad [] (\<lambda>s. if bs_ctx s \<noteq> [] then (Ast_abort, [], s)
            else case in_context CTX_UNIT [] (validate_stmts env ns) s of
                   (err, ss, s) \<Rightarrow> (if bs_ctx s \<noteq> [] then Ast_abort else err, ss, s)) (list_all unit_whole)"
  proof (rule ok_atI)
    fix s :: bstate and err x s'
    assume s: "tab_ok (bs_types s)" "bs_ctx s = []" and r: "(if bs_ctx s \<noteq> [] then (Ast_abort, [], s)
            else case in_context CTX_UNIT [] (validate_stmts env ns) s of
                   (err, ss, s) \<Rightarrow> (if bs_ctx s \<noteq> [] then Ast_abort else err, ss, s)) = (err, x, s')"
    obtain e y s1 where y: "in_context CTX_UNIT [] (validate_stmts env ns) s = (e, y, s1)" by (metis prod_cases3)
    show "kept_state s s' \<and> (if err = AST_OK then list_all unit_whole x else fine env bad err)"
      using ok_atD [OF m s y] r s(2) y by auto
  qed
  from ok_at_node [OF this [folded butlast], of "[]"] show ?thesis
    by (rule back_subst [of "\<lambda>f. ok_at env bad [] f (list_all unit_whole)"])
      (rule ext, simp add: ast_build_def cs c del: butlast.simps)
qed

text \<open>
  C15. For the tree of an accepted program \<^verbatim>\<open>ast_build\<close> never reads a node at a child that is
  not there, and fails an assertion only for an enum whose width is another enum. Otherwise it
  reports lack of memory, when there was none, or an invalid program, or the tree it gives
  is complete: no pointer to an expression, a type or a name is null, every object has a
  type that is not void, and blocks are where blocks are expected. The table of types
  holds complete types and the stack of contexts is empty again.
\<close>

theorem ast_build_outcome:
  assumes "parse mem_ok tokens = Inr (Node nt cs)" and "tab_ok (bs_types s)" and "bs_ctx s = []"
    and "ast_build env (Node nt cs) s = (err, ss, s')"
  shows "((err = AST_OK \<and> list_all unit_whole ss) \<or> err = AST_INVALID \<or>
      (err = AST_NOMEM \<and> (\<exists>k. be_malloc env k = 0)) \<or>
      (err = Ast_abort \<and> (\<exists>n \<in> set cs. enum_of_enum env n))) \<and>
    tab_ok (bs_types s') \<and> bs_ctx s' = []"
proof -
  have d: "derives (Node PARSE_NT_Unit cs)" and nt: "nt = PARSE_NT_Unit" using accepted_derives [OF assms(1)] by auto
  have "ok_at env (\<exists>n \<in> set cs. enum_of_enum env n) [] (ast_build env (Node PARSE_NT_Unit cs)) (list_all unit_whole)"
    by (rule ok_ast_build [OF d])
  note a = ok_atD [OF this assms(2,3) assms(4) [unfolded nt]]
  show ?thesis using a(2-5) by (cases "err = AST_OK") (auto simp: fine_def)
qed

definition tok_at :: "lex_tk \<Rightarrow> nat \<Rightarrow> nat \<Rightarrow> lex_token" where
  "tok_at k b e = \<lparr>tok_tk = k, tok_beg = b, tok_end = e\<rparr>"

text \<open>The program \<open>u:u8;\<close> and its tokens.\<close>

definition small_toks :: "lex_token list" where
  "small_toks = [tok_at LEX_TK_FBEG 0 0, tok_at LEX_TK_NAME 0 1, tok_at LEX_TK_COLN 1 2, tok_at LEX_TK_NAME 2 4,
     tok_at LEX_TK_SCOL 4 5, tok_at LEX_TK_FEND 0 0]"

definition small_env :: "(nat \<Rightarrow> u64) \<Rightarrow> benv" where
  "small_env m = \<lparr>be_input = ''u:u8;'', be_malloc = m\<rparr>"

definition ast_start :: bstate where
  "ast_start = \<lparr>bs_requests = 0, bs_types = \<lparr>st_entries = [], st_allocated = 0\<rparr>, bs_ctx = []\<rparr>"

lemma tab_start [simp]: "tab_ok (bs_types ast_start)" "bs_ctx ast_start = []"
  by (simp_all add: ast_start_def tab_ok_def)

theorem ast_build_outcome_witness:
  "\<exists>cs s'. parse (\<lambda>_. True) small_toks = Inr (Node PARSE_NT_Unit cs) \<and>
     ast_build (small_env (\<lambda>_. 1)) (Node PARSE_NT_Unit cs) ast_start =
       (AST_OK, [S_decl \<lparr>d_cons = False, d_expo = False, d_stat = False,
          d_names = [\<lparr>sym_beg = 0, sym_text = ''u''\<rparr>], d_type = Ty_prim TYPE_U8 (lay 1)\<rparr> None], s') \<and>
     tab_ok (bs_types s') \<and> bs_ctx s' = []"
proof -
  let ?d = "S_decl \<lparr>d_cons = False, d_expo = False, d_stat = False,
          d_names = [\<lparr>sym_beg = 0, sym_text = ''u''\<rparr>], d_type = Ty_prim TYPE_U8 (lay 1)\<rparr> None"
  have r: "case parse (\<lambda>_. True) small_toks of
      Inr (Node nt cs) \<Rightarrow>
        (case ast_build (small_env (\<lambda>_. 1)) (Node nt cs) ast_start of (err, ss, s') \<Rightarrow> err = AST_OK \<and> ss = [?d])
    | _ \<Rightarrow> False" by code_simp
  then obtain nt cs where p: "parse (\<lambda>_. True) small_toks = Inr (Node nt cs)" by (auto split: sum.splits parse_node.splits)
  then have "nt = PARSE_NT_Unit" using accepted_derives by fastforce
  moreover obtain s' where b: "ast_build (small_env (\<lambda>_. 1)) (Node nt cs) ast_start = (AST_OK, [?d], s')"
    using r p by (auto split: prod.splits)
  ultimately show ?thesis using p ast_build_outcome [OF p tab_start b] by blast
qed

subsection \<open>Named types and enumerations\<close>

text \<open>
  C39. A type named in a type specifier is the type of the table with the number of elements
  of the use: the number that the \<open>type\<close> statement gave is lost, so after \<open>type T : u8[3];\<close> an
  object of type \<open>T\<close> is one byte. The types inside keep their numbers of elements.
\<close>

theorem alias_count_from_use:
  assumes "type_head env n = Some (tk, cnt)" and "type_match (text_of (be_input env) tk) = TYPE_VOID"
    and "type_symtab_find (bs_types s) (tok_sym env tk) = Some t" and "\<forall>k. be_malloc env k \<noteq> 0"
  shows "\<exists>s'. validate_typespec env n s = (Inr (with_count cnt (strip t)), s')"
proof -
  have m: "mem_of env = (\<lambda>_. True)" using assms(4) by auto
  have "validate_typespec env n = plain_type env tk cnt"
    using assms(1) by (auto simp: validate_typespec.simps [of env n] type_head_def expr_is_name_def split: expr_shape.splits if_split_asm)
  also have "\<dots> = resolve_type env cnt tk" by (simp add: plain_type_def assms(2))
  finally show ?thesis using type_copy_all [of t "bs_requests s"]
    by (auto simp: resolve_type_def assms(3) bind_b_def copy_b_def m ret_b_def with_count_def)
qed

theorem alias_count_from_use_witness:
  "\<exists>s'. validate_typespec \<lparr>be_input = ''T'', be_malloc = (\<lambda>_. 1)\<rparr>
       (Node PARSE_NT_Expr [Node PARSE_NT_Atom [Leaf (tok_at LEX_TK_NAME 0 1)]])
       (ast_start\<lparr>bs_types := \<lparr>st_entries = [(sym ''T'', Ty_prim TYPE_U8 (lay 3))], st_allocated = 8\<rparr>\<rparr>) =
     (Inr (Ty_prim TYPE_U8 (lay 1)), s')"
proof -
  let ?env = "\<lparr>be_input = ''T'', be_malloc = (\<lambda>_. 1)\<rparr>"
  let ?n = "Node PARSE_NT_Expr [Node PARSE_NT_Atom [Leaf (tok_at LEX_TK_NAME 0 1)]]"
  let ?s = "ast_start\<lparr>bs_types := \<lparr>st_entries = [(sym ''T'', Ty_prim TYPE_U8 (lay 3))], st_allocated = 8\<rparr>\<rparr>"
  have h: "type_head ?env ?n = Some (tok_at LEX_TK_NAME 0 1, 1)" by code_simp
  have "type_match (text_of (be_input ?env) (tok_at LEX_TK_NAME 0 1)) = TYPE_VOID" by code_simp
  moreover have "type_symtab_find (bs_types ?s) (tok_sym ?env (tok_at LEX_TK_NAME 0 1)) = Some (Ty_prim TYPE_U8 (lay 3))"
    by code_simp
  ultimately have "\<exists>s'. validate_typespec ?env ?n ?s = (Inr (with_count 1 (strip (Ty_prim TYPE_U8 (lay 3)))), s')"
    by (intro alias_count_from_use [OF h]) simp_all
  then show ?thesis by (simp add: with_count_def)
qed

lemma boundary_size:
  "enum_boundary_from_type u = Some b \<Longrightarrow> desc_size u \<in> {1, 2, 4, 8} \<and> unat b = 2 ^ (8 * unat (desc_size u)) - 1"
  by (auto simp: enum_boundary_from_type_def desc_size_def typedescs_def split: if_split_asm)

lemma maxval_bound:
  "case enum_boundary_from_type (enum_type_from_maxval v) of None \<Rightarrow> False | Some b \<Rightarrow> v \<le> b"
proof -
  have "unat v < 2 ^ 64" using unsigned_less [of v] by simp
  then have "v \<le> 0xFFFFFFFFFFFFFFFF" by (simp add: word_le_nat_alt)
  then show ?thesis by (simp add: enum_type_from_maxval_def enum_boundary_from_type_def)
qed

text \<open>
  C30. The values of an enum are 0, 1, 2 and so on in the order of their names, and all of them
  fit the type that holds them; when the program gives no type it is the smallest of \<open>u8\<close>,
  \<open>u16\<close>, \<open>u32\<close> and \<open>u64\<close> that does.
\<close>

theorem enum_values_fit:
  assumes "enum_of ns given s = (Inr t, s')" and "ns \<noteq> []" and "length ns \<le> 2 ^ 64"
  shows "\<exists>vs u. t = Ty_enum (lay 1) vs u \<and> map fst vs = ns \<and> map (unat \<circ> snd) vs = [0..<length ns] \<and>
     (given = None \<or> given = Some u) \<and> length ns \<le> 2 ^ (8 * unat (desc_size u)) \<and>
     (\<forall>v \<in> {TYPE_U8, TYPE_U16, TYPE_U32, TYPE_U64}. given = None \<and> length ns \<le> 2 ^ (8 * unat (desc_size v)) \<longrightarrow>
        desc_size u \<le> desc_size v)"
proof -
  let ?vs = "zip ns (map of_nat [0..<length ns]) :: (lex_symbol \<times> u64) list"
  define m :: u64 where "m = of_nat (length ns - 1)"
  have len: "length ns - 1 < 2 ^ 64" using assms(2,3) by (cases ns) auto
  have m: "unat m = length ns - 1" unfolding m_def using len by (simp add: unat_of_nat take_bit_eq_mod)
  have ns: "0 < length ns" using assms(2) by simp
  have fst: "map fst ?vs = ns" and snd: "map snd ?vs = map of_nat [0..<length ns]" by simp_all
  have "map (unat \<circ> snd) ?vs = map unat (map snd ?vs)" by (simp only: map_map)
  also have "\<dots> = [0..<length ns]" unfolding snd map_map
    using assms(3) by (intro map_idI) (simp add: unat_of_nat)
  finally have vs: "map fst ?vs = ns" "map (unat \<circ> snd) ?vs = [0..<length ns]" using fst by simp_all
  have fit: "length ns \<le> 2 ^ (8 * unat (desc_size u))" if "enum_boundary_from_type u = Some b" "m \<le> b" for u b
  proof -
    have "length ns - 1 \<le> 2 ^ (8 * unat (desc_size u)) - 1"
      using boundary_size [OF that(1)] that(2) m by (simp add: word_le_nat_alt)
    then show ?thesis by (simp add: le_diff_conv)
  qed
  have least: "desc_size (enum_type_from_maxval m) \<le> desc_size v"
    if "v \<in> {TYPE_U8, TYPE_U16, TYPE_U32, TYPE_U64}" "length ns \<le> 2 ^ (8 * unat (desc_size v))" for v
  proof -
    have "unat m < 2 ^ (8 * unat (desc_size v))" using that(2) ns unfolding m by linarith
    then show ?thesis using that(1)
      by (auto simp: enum_type_from_maxval_def desc_size_def typedescs_def word_le_nat_alt)
  qed
  show ?thesis
  proof (cases given)
    case None
    then have t: "t = Ty_enum (lay 1) ?vs (enum_type_from_maxval m)" using assms(1) by (simp add: enum_of_def ret_b_def m_def)
    obtain b where b: "enum_boundary_from_type (enum_type_from_maxval m) = Some b" "m \<le> b"
      using maxval_bound [of m] by (auto split: option.splits)
    show ?thesis using t vs fit [OF b] least None by blast
  next
    case (Some u)
    obtain b where b: "enum_boundary_from_type u = Some b" "m \<le> b" and t: "t = Ty_enum (lay 1) ?vs u"
      using assms(1) Some by (auto simp: enum_of_def ret_b_def m_def bind_b_def need_b_def fail_b_def split: option.splits if_split_asm)
    show ?thesis using t vs fit [OF b] Some by blast
  qed
qed

theorem enum_values_fit_witness:
  "\<exists>vs u. fst (enum_of [sym ''A'', sym ''B''] None ast_start) = Inr (Ty_enum (lay 1) vs u) \<and>
     map (unat \<circ> snd) vs = [0, 1] \<and> desc_size u \<le> desc_size TYPE_U8"
proof -
  let ?ns = "[sym ''A'', sym ''B'']"
  obtain t s' where e: "enum_of ?ns None ast_start = (Inr t, s')"
    by (simp add: enum_of_def ret_b_def)
  from enum_values_fit [OF e] show ?thesis by (auto simp: e desc_size_def typedescs_def upt_rec)
qed

end
