(* ===== verification/Front.thy ===== *)
theory Front
  imports Ast_Safe
begin

text \<open>
  The order of the phases in \<^verbatim>\<open>main\<close> up to the type checker, and what stops the compiler itself.
\<close>

subsection \<open>The phases\<close>

text \<open>What the allocator gives in each phase.\<close>

record fenv =
  fe_lex :: "nat \<Rightarrow> bool"
  fe_parse :: "nat \<Rightarrow> bool"
  fe_ast :: "nat \<Rightarrow> u64"
  fe_scope :: "nat \<Rightarrow> bool"
  fe_type :: "nat \<Rightarrow> bool"

text \<open>The unit passed on to the code generator, an error reported, or an assertion or null pointer.\<close>

datatype front = Passed "stmt list" | Failed | Crashed

definition check_phase :: "fenv \<Rightarrow> ast_error \<Rightarrow> stmt list \<Rightarrow> bstate \<Rightarrow> front" where
  "check_phase env ast_err ss s =
     (if ast_err \<in> {Ast_abort, Ast_undefined} then Crashed
      else if ast_err = AST_NOMEM then Failed
      else (case scope_build (fe_scope env) ss of
          (scope_err, ss, objs) \<Rightarrow>
            if scope_err = SCOPE_NOMEM then Failed
            else (case type_check_ast \<lparr>te_mem = fe_type env, te_types = bs_types s, te_unit = objs\<rparr> ss of
                Inl e \<Rightarrow> if e \<in> {Type_abort, Type_undefined} then Crashed else Failed
              | Inr ss \<Rightarrow> if ast_err \<noteq> AST_OK \<or> scope_err \<noteq> SCOPE_OK then Failed else Passed ss)))"

definition after_lex :: "fenv \<Rightarrow> string \<Rightarrow> lex_token list \<Rightarrow> front" where
  "after_lex env input tokens =
     (case parse (fe_parse env) tokens of
        Inl e \<Rightarrow> if e = Parse_overrun then Crashed else Failed
      | Inr tree \<Rightarrow>
          (case ast_build \<lparr>be_input = input, be_malloc = fe_ast env\<rparr> tree ast_start of
             (err, ss, s) \<Rightarrow> check_phase env err ss s))"

definition front_end :: "fenv \<Rightarrow> string \<Rightarrow> front" where
  "front_end env input =
     (if input = [] then Failed
      else (case lex (fe_lex env) input of
          LEX_OK tokens \<Rightarrow> after_lex env input tokens
        | Lex_abort \<Rightarrow> Crashed
        | _ \<Rightarrow> Failed))"

abbreviation all_memory :: fenv where
  "all_memory \<equiv> \<lparr>fe_lex = (\<lambda>_. True), fe_parse = (\<lambda>_. True), fe_ast = (\<lambda>k. of_nat (Suc k)),
     fe_scope = (\<lambda>_. True), fe_type = (\<lambda>_. True)\<rparr>"

text \<open>A function with more labels than there are numbers for them.\<close>

definition many_labels :: "stmt list \<Rightarrow> bool" where
  "many_labels ss \<longleftrightarrow> list_ex (\<lambda>s. case s of S_func f sc body \<Rightarrow> 2 ^ 64 - 1 \<le> length (block_labels body) | _ \<Rightarrow> False) ss"

lemma unit_whole_raw: "list_all unit_whole ss \<Longrightarrow> \<not> many_labels ss \<Longrightarrow> list_all unit_raw ss"
proof (induction ss)
  case (Cons s ss)
  then show ?case by (cases s) (auto simp: many_labels_def)
qed simp

lemma tab_types: "tab_ok (te_types env) \<Longrightarrow> types_ok env"
  by (auto simp: tab_ok_def types_ok_def obj_type_def list_all_iff)

lemma check_phase_crash:
  assumes "check_phase env err ss s = Crashed" and "list_all unit_whole ss" and "tab_ok (bs_types s)" and "err = AST_OK"
  shows "many_labels ss"
proof (rule ccontr)
  assume "\<not> many_labels ss"
  then have raw: "list_all unit_raw ss" using unit_whole_raw assms(2) by blast
  obtain e ss' objs where b: "scope_build (fe_scope env) ss = (e, ss', objs)" by (metis prod_cases3)
  let ?env = "\<lparr>te_mem = fe_type env, te_types = bs_types s, te_unit = objs\<rparr>"
  have "e \<noteq> SCOPE_NOMEM" using assms(1,4) b by (auto simp: check_phase_def)
  from checker_ends [OF b this raw, of ?env] have "case type_check_ast ?env ss' of Inl e \<Rightarrow> e = TYPE_INVALID | Inr _ \<Rightarrow> True"
    using tab_types assms(3) by simp
  then show False using assms(1,4) b \<open>e \<noteq> SCOPE_NOMEM\<close>
    by (auto simp: check_phase_def split: sum.splits if_split_asm)
qed

subsection \<open>What stops the compiler\<close>

text \<open>
  C9. The phases together, whatever the text and the allocator: when the compiler fails an
  assertion or follows a null pointer before it generates code, the text was accepted by
  the parser, and either \<^verbatim>\<open>ast_build\<close> had rejected the program, but the type checker was run on
  the unfinished tree; or an enum had the width of another enum; or a function has
  \<open>2 ^ 64 - 1\<close> labels.
\<close>

theorem front_end_crash_causes:
  "case front_end env input of
     Crashed \<Rightarrow> \<exists>tokens cs err ss s. lex (fe_lex env) input = LEX_OK tokens \<and>
       parse (fe_parse env) tokens = Inr (Node PARSE_NT_Unit cs) \<and>
       ast_build \<lparr>be_input = input, be_malloc = fe_ast env\<rparr> (Node PARSE_NT_Unit cs) ast_start = (err, ss, s) \<and>
       (err = AST_INVALID \<or> (err = AST_OK \<and> many_labels ss) \<or>
        (err = Ast_abort \<and> (\<exists>n \<in> set cs. enum_of_enum \<lparr>be_input = input, be_malloc = fe_ast env\<rparr> n)))
   | _ \<Rightarrow> True"
proof (cases "front_end env input = Crashed")
  case crash: True
  let ?env = "\<lparr>be_input = input, be_malloc = fe_ast env\<rparr>"
  obtain tokens where toks: "lex (fe_lex env) input = LEX_OK tokens" and r: "after_lex env input tokens = Crashed"
    using crash lex_never_aborts by (auto simp: front_end_def split: lex_result.splits if_split_asm)
  have "parse (fe_parse env) tokens \<noteq> Inl Parse_overrun" using parse_in_bounds [OF toks] by simp
  then obtain t where t: "parse (fe_parse env) tokens = Inr t"
    using r by (auto simp: after_lex_def split: sum.splits if_split_asm)
  then obtain cs where cs: "t = Node PARSE_NT_Unit cs" and d: "derives (Node PARSE_NT_Unit cs)"
    using accepted_derives [OF t] by auto
  obtain err ss s where b: "ast_build ?env (Node PARSE_NT_Unit cs) ast_start = (err, ss, s)" by (metis prod_cases3)
  have c: "check_phase env err ss s = Crashed" using r t cs b by (simp add: after_lex_def)
  note a = ok_atD [OF ok_ast_build [OF d] tab_start b, of "\<exists>n \<in> set cs. enum_of_enum ?env n", simplified]
  have "err = AST_INVALID \<or> (err = AST_OK \<and> many_labels ss) \<or> (err = Ast_abort \<and> (\<exists>n \<in> set cs. enum_of_enum ?env n))"
  proof (cases "err = AST_OK")
    case True
    then show ?thesis using check_phase_crash [OF c] a by simp
  next
    case False
    then have "fine ?env (\<exists>n \<in> set cs. enum_of_enum ?env n) err" using a by simp
    moreover have "err \<noteq> AST_NOMEM" using c by (auto simp: check_phase_def)
    ultimately show ?thesis by (auto simp: fine_def)
  qed
  then show ?thesis using crash toks t cs b by (auto split: front.splits)
qed (auto split: front.splits)

text \<open>
  Both kinds of crash happen, on the texts \<open>f{(5sec)::f;}\<close> and
  \<open>type A:enum(X);type B:enum(Y):A;\<close> with all the memory.
\<close>

theorem front_end_crashes:
  "front_end all_memory ''f{(5sec)::f;}'' = Crashed \<and>
   front_end all_memory ''type A:enum(X);type B:enum(Y):A;'' = Crashed"
proof
  show "front_end all_memory ''f{(5sec)::f;}'' = Crashed" by code_simp
  show "front_end all_memory ''type A:enum(X);type B:enum(Y):A;'' = Crashed" by code_simp
qed

text \<open>
  C21. What reaches the code generator has passed every phase: the text is the tokens' texts
  joined, the tree is a derivation of the grammar over them, the syntax tree was built without
  error and is complete, no name is declared twice in the unit's scope, and the type checker
  accepted what \<^verbatim>\<open>scope_build\<close> made of it.
\<close>

theorem front_end_accepts:
  assumes "front_end env input = Passed us"
  shows "\<exists>tokens cs ss s ss' objs. lex (fe_lex env) input = LEX_OK tokens \<and> concat (map (text_of input) tokens) = input \<and>
     parse (fe_parse env) tokens = Inr (Node PARSE_NT_Unit cs) \<and> derives (Node PARSE_NT_Unit cs) \<and>
     ast_build \<lparr>be_input = input, be_malloc = fe_ast env\<rparr> (Node PARSE_NT_Unit cs) ast_start = (AST_OK, ss, s) \<and>
     list_all unit_whole ss \<and> scope_build (fe_scope env) ss = (SCOPE_OK, ss', objs) \<and>
     type_check_ast \<lparr>te_mem = fe_type env, te_types = bs_types s, te_unit = objs\<rparr> ss' = Inr us"
proof -
  let ?env = "\<lparr>be_input = input, be_malloc = fe_ast env\<rparr>"
  obtain tokens where toks: "lex (fe_lex env) input = LEX_OK tokens" and r: "after_lex env input tokens = Passed us"
    using assms by (auto simp: front_end_def split: lex_result.splits if_split_asm)
  obtain mid where "tokens = \<lparr>tok_tk = LEX_TK_FBEG, tok_beg = 0, tok_end = 0\<rparr> # mid @
      [\<lparr>tok_tk = LEX_TK_FEND, tok_beg = 0, tok_end = 0\<rparr>]" "tiled input 0 mid"
    using lex_ok_tiled [OF toks] by blast
  then have "concat (map (text_of input) tokens) = input" using tiled_concat [of input 0 mid] by (simp add: text_of_def)
  moreover obtain t where t: "parse (fe_parse env) tokens = Inr t"
    using r by (auto simp: after_lex_def split: sum.splits if_split_asm)
  then obtain cs where cs: "t = Node PARSE_NT_Unit cs" and d: "derives (Node PARSE_NT_Unit cs)"
    using accepted_derives [OF t] by auto
  obtain err ss s where b: "ast_build ?env (Node PARSE_NT_Unit cs) ast_start = (err, ss, s)" by (metis prod_cases3)
  have c: "check_phase env err ss s = Passed us" using r t cs b by (simp add: after_lex_def)
  obtain e ss' objs where sc: "scope_build (fe_scope env) ss = (e, ss', objs)" by (metis prod_cases3)
  have ok: "err = AST_OK" "e = SCOPE_OK"
    "type_check_ast \<lparr>te_mem = fe_type env, te_types = bs_types s, te_unit = objs\<rparr> ss' = Inr us"
    using c sc by (auto simp: check_phase_def split: sum.splits if_split_asm)
  moreover have "list_all unit_whole ss"
    using ok_atD(2) [OF ok_ast_build [OF d] tab_start b, of True] ok(1) by simp
  ultimately show ?thesis using toks t cs d b sc by blast
qed

theorem front_end_accepts_witness:
  "\<exists>tokens us. lex (\<lambda>_. True) ''u:u8;'' = LEX_OK tokens \<and> concat (map (text_of ''u:u8;'') tokens) = ''u:u8;'' \<and>
     front_end all_memory ''u:u8;'' = Passed us"
proof -
  have "case front_end all_memory ''u:u8;'' of Passed us \<Rightarrow> True | _ \<Rightarrow> False" by code_simp
  then obtain us where us: "front_end all_memory ''u:u8;'' = Passed us" by (auto split: front.splits)
  from front_end_accepts [OF us] us show ?thesis by auto
qed

end
