(* ===== verification/Insn.thy ===== *)
theory Insn
  imports Prelude "HOL-Library.Code_Target_Numeral"
begin

text \<open>
  The instruction set of the virtual machine (\<^verbatim>\<open>src/codegen.h\<close>). The tagged union of
  \<^verbatim>\<open>struct codegen_insn\<close> is a datatype whose constructors carry the union member that
  goes with the opcode; \<^verbatim>\<open>CODEGEN_OP_COUNT\<close> stands for any byte that is no opcode.
\<close>

datatype codegen_opd =
    CODEGEN_OPD_IMM | CODEGEN_OPD_TEMP | CODEGEN_OPD_AUTO | CODEGEN_OPD_GLOB

text \<open>
  An operand. For an immediate the two words are its value and its size
  (\<^verbatim>\<open>imm\<close>, \<^verbatim>\<open>immsize\<close>), for the others the offset and the size: the C union.
\<close>

record opd =
  opd_kind :: codegen_opd
  signd :: bool
  indirect :: bool
  off :: u64
  opd_bytes :: u64

datatype arith_op = OP_ADD | OP_SUB | OP_MUL | OP_DIV | OP_MOD | OP_LSH | OP_RSH | OP_AND | OP_XOR | OP_OR

datatype cmp_op = OP_LT | OP_GT | OP_LTE | OP_GTE

record wait_args =
  w_quaint :: opd
  w_timeout :: opd
  w_func :: u64
  w_wlab_id :: u64
  w_noblock :: bool
  w_units :: bool
  w_has_timeout :: bool

datatype (plugins only: code) insn =
    CODEGEN_OP_NOP
  | CODEGEN_OP_MOV opd opd
  | CODEGEN_OP_CAST opd opd
  | CODEGEN_OP_ARITH arith_op opd opd opd
  | CODEGEN_OP_EQU opd opd opd
  | CODEGEN_OP_NEQ opd opd opd
  | CODEGEN_OP_CMP cmp_op opd opd opd
  | CODEGEN_OP_NOT opd opd
  | CODEGEN_OP_NEG opd opd
  | CODEGEN_OP_BNEG opd opd
  | CODEGEN_OP_OZ opd opd
  | CODEGEN_OP_INC opd
  | CODEGEN_OP_DEC opd
  | CODEGEN_OP_INCP opd opd
  | CODEGEN_OP_DECP opd opd
  | CODEGEN_OP_JZ opd u64
  | CODEGEN_OP_JNZ opd u64
  | CODEGEN_OP_JMP u64
  | CODEGEN_OP_PUSHR opd opd
  | CODEGEN_OP_PUSH opd
  | CODEGEN_OP_CALL opd opd
  | CODEGEN_OP_CALLV opd opd opd
  | CODEGEN_OP_INCSP opd opd
  | CODEGEN_OP_RET opd
  | CODEGEN_OP_RETV opd opd
  | CODEGEN_OP_REF opd opd
  | CODEGEN_OP_DRF opd opd
  | CODEGEN_OP_RTE opd
  | CODEGEN_OP_RTEV opd opd
  | CODEGEN_OP_QAT opd opd u64 u64
  | CODEGEN_OP_WAIT wait_args
  | CODEGEN_OP_WLAB u64 u64
  | CODEGEN_OP_GETSP opd
  | CODEGEN_OP_QNT opd opd opd
  | CODEGEN_OP_QNTV opd opd
  | CODEGEN_OP_NOINT
  | CODEGEN_OP_INT
  | CODEGEN_OP_BFUN
  | CODEGEN_OP_COUNT

record codegen_obj =
  data_size :: nat
  strings :: "u8 list"
  insns :: "insn list"

text \<open>The built-in functions are numbered; a call to one jumps to its number.\<close>

definition SCOPE_BFUN_ID_NULL :: u64 where "SCOPE_BFUN_ID_NULL = 0"
definition SCOPE_BFUN_ID_MONOTIME :: u64 where "SCOPE_BFUN_ID_MONOTIME = 1"
definition SCOPE_BFUN_ID_MALLOC :: u64 where "SCOPE_BFUN_ID_MALLOC = 2"
definition SCOPE_BFUN_ID_CALLOC :: u64 where "SCOPE_BFUN_ID_CALLOC = 3"
definition SCOPE_BFUN_ID_REALLOC :: u64 where "SCOPE_BFUN_ID_REALLOC = 4"
definition SCOPE_BFUN_ID_FREE :: u64 where "SCOPE_BFUN_ID_FREE = 5"
definition SCOPE_BFUN_ID_PS :: u64 where "SCOPE_BFUN_ID_PS = 6"
definition SCOPE_BFUN_ID_PU8 :: u64 where "SCOPE_BFUN_ID_PU8 = 7"
definition SCOPE_BFUN_ID_PI8 :: u64 where "SCOPE_BFUN_ID_PI8 = 8"
definition SCOPE_BFUN_ID_PU16 :: u64 where "SCOPE_BFUN_ID_PU16 = 9"
definition SCOPE_BFUN_ID_PI16 :: u64 where "SCOPE_BFUN_ID_PI16 = 10"
definition SCOPE_BFUN_ID_PU32 :: u64 where "SCOPE_BFUN_ID_PU32 = 11"
definition SCOPE_BFUN_ID_PI32 :: u64 where "SCOPE_BFUN_ID_PI32 = 12"
definition SCOPE_BFUN_ID_PU64 :: u64 where "SCOPE_BFUN_ID_PU64 = 13"
definition SCOPE_BFUN_ID_PI64 :: u64 where "SCOPE_BFUN_ID_PI64 = 14"
definition SCOPE_BFUN_ID_PNL :: u64 where "SCOPE_BFUN_ID_PNL = 15"
definition SCOPE_BFUN_ID_EXIT :: u64 where "SCOPE_BFUN_ID_EXIT = 16"
definition SCOPE_BFUN_ID_COUNT :: u64 where "SCOPE_BFUN_ID_COUNT = 17"

lemmas bfun_ids = SCOPE_BFUN_ID_NULL_def SCOPE_BFUN_ID_MONOTIME_def SCOPE_BFUN_ID_MALLOC_def
  SCOPE_BFUN_ID_CALLOC_def SCOPE_BFUN_ID_REALLOC_def SCOPE_BFUN_ID_FREE_def SCOPE_BFUN_ID_PS_def
  SCOPE_BFUN_ID_PU8_def SCOPE_BFUN_ID_PI8_def SCOPE_BFUN_ID_PU16_def SCOPE_BFUN_ID_PI16_def
  SCOPE_BFUN_ID_PU32_def SCOPE_BFUN_ID_PI32_def SCOPE_BFUN_ID_PU64_def SCOPE_BFUN_ID_PI64_def
  SCOPE_BFUN_ID_PNL_def SCOPE_BFUN_ID_EXIT_def SCOPE_BFUN_ID_COUNT_def

subsection \<open>Little-endian bytes\<close>

fun le_bytes :: "nat \<Rightarrow> nat \<Rightarrow> u8 list" where
  "le_bytes 0 x = []"
| "le_bytes (Suc n) x = word_of_nat (x mod 256) # le_bytes n (x div 256)"

fun le_val :: "u8 list \<Rightarrow> nat" where
  "le_val [] = 0"
| "le_val (b # bs) = unat b + 256 * le_val bs"

lemma length_le_bytes [simp]: "length (le_bytes n x) = n"
  by (induction n arbitrary: x) auto

lemma le_val_bytes [simp]: "le_val (le_bytes n x) = x mod 256 ^ n"
  by (induction n arbitrary: x) (simp_all add: unat_of_nat mod_mult2_eq)

lemma le_val_less: "le_val bs < 256 ^ length bs"
proof (induction bs)
  case (Cons b bs)
  have "unat b < 256" using unsigned_less [of b, where 'a = nat] by simp
  with Cons show ?case by simp
qed simp

lemma le_bytes_val [simp]: "le_bytes (length bs) (le_val bs) = bs"
proof (induction bs)
  case (Cons b bs)
  have "unat b < 256" using unsigned_less [of b, where 'a = nat] by simp
  then show ?case using Cons by simp
qed simp

text \<open>The number that \<open>size\<close> bytes hold when they are read as a signed or unsigned integer.\<close>

definition wrap :: "bool \<Rightarrow> nat \<Rightarrow> int \<Rightarrow> int" where
  "wrap sg sz x =
     (let u = x mod 256 ^ sz in if sg \<and> 2 * u \<ge> 256 ^ sz then u - 256 ^ sz else u)"

definition int_val :: "bool \<Rightarrow> u8 list \<Rightarrow> int" where
  "int_val sg bs = wrap sg (length bs) (int (le_val bs))"

definition int_bytes :: "nat \<Rightarrow> int \<Rightarrow> u8 list" where
  "int_bytes sz x = le_bytes sz (nat (x mod 256 ^ sz))"

lemma length_int_bytes [simp]: "length (int_bytes sz x) = sz"
  by (simp add: int_bytes_def)

lemma wrap_mod [simp]: "wrap sg sz x mod 256 ^ sz = x mod 256 ^ sz"
  by (simp add: wrap_def Let_def)

lemma int_bytes_wrap [simp]: "int_bytes sz (wrap sg sz x) = int_bytes sz x"
  by (simp add: int_bytes_def)

lemma int_val_bytes [simp]: "int_val sg (int_bytes sz x) = wrap sg sz x"
  by (simp add: int_val_def int_bytes_def wrap_def Let_def)

lemma int_bytes_val [simp]: "length bs = sz \<Longrightarrow> int_bytes sz (int_val sg bs) = bs"
  using le_val_less [of bs] le_bytes_val [of bs]
  by (auto simp: int_val_def int_bytes_def nat_mod_as_int)

lemma wrap_range:
  "0 < sz \<Longrightarrow> wrap sg sz x \<in> (if sg then {- (256 ^ sz div 2) ..< 256 ^ sz div 2} else {0 ..< 256 ^ sz})"
proof -
  assume "0 < sz"
  then obtain k where k: "sz = Suc k" by (cases sz) auto
  define M where "M = (256 :: int) ^ k"
  define u where "u = x mod (256 * M)"
  have pow: "(256 :: int) ^ sz = 256 * M" by (simp add: M_def k)
  have "0 < M" by (simp add: M_def)
  then have "0 \<le> u" "u < 256 * M" by (simp_all add: u_def)
  with \<open>0 < M\<close> show ?thesis by (auto simp: wrap_def Let_def pow u_def [symmetric])
qed

lemma wrap_id:
  assumes "x \<in> (if sg then {- (256 ^ sz div 2) ..< 256 ^ sz div 2} else {0 ..< 256 ^ sz})" and "0 < sz"
  shows "wrap sg sz x = x"
proof -
  obtain k where k: "sz = Suc k" using assms(2) by (cases sz) auto
  show ?thesis
  proof (cases "0 \<le> x")
    case True
    then show ?thesis using assms(1) k by (auto simp: wrap_def Let_def split: if_splits)
  next
    case False
    then have "x mod 256 ^ sz = x + 256 ^ sz"
      using assms(1) k
      by (intro int_mod_pos_eq [where q = "-1", symmetric, THEN sym]) (auto split: if_splits)
    then show ?thesis using False assms(1) k by (auto simp: wrap_def Let_def split: if_splits)
  qed
qed

end
