(* ===== verification/Htab.thy ===== *)
theory Htab
  imports Prelude
begin

text \<open>
  The open-addressing hash table of \<^verbatim>\<open>src/htab.c\<close>: a fixed array of slots,
  a slot with key 0 being free, linear probing from \<open>key % count\<close> to the end of the
  array and then from its start. The table is write-once: there is no deletion, and a key
  is inserted at most once. The code generator keys it by the addresses of AST nodes and
  symbols. A failed \<^verbatim>\<open>assert\<close> and \<^verbatim>\<open>abort()\<close> are error values.
\<close>

datatype htab_error = Zero_key | Duplicate_key | Htab_abort

record 'd htab =
  count :: nat
  items :: "(u64 \<times> 'd option) list"

definition htab_hash :: "u64 \<Rightarrow> nat \<Rightarrow> nat" where
  "htab_hash key n = unat key mod (if n = 0 then 1 else n)"

text \<open>\<open>mem_ok\<close> is the outcome of \<^verbatim>\<open>calloc\<close>; \<open>None\<close> is \<^verbatim>\<open>HTAB_NOMEM\<close>.\<close>

definition htab_create :: "bool \<Rightarrow> nat \<Rightarrow> 'd htab option" where
  "htab_create mem_ok n =
     (if mem_ok then Some \<lparr>count = n, items = replicate n (0, None)\<rparr> else None)"

text \<open>The data pointers handed to the destructor, in order.\<close>

definition htab_destroy :: "'d htab option \<Rightarrow> bool \<Rightarrow> 'd option list" where
  "htab_destroy h has_dtor =
     (case h of None \<Rightarrow> [] | Some t \<Rightarrow> if has_dtor then map snd (items t) else [])"

text \<open>One scan of the insertion over a run of slots: the first free slot, if any.\<close>

fun insert_scan :: "(u64 \<times> 'd option) list \<Rightarrow> u64 \<Rightarrow> nat list \<Rightarrow> htab_error + nat option" where
  "insert_scan its key [] = Inr None"
| "insert_scan its key (idx # idxs) =
     (if fst (its ! idx) = key then Inl Duplicate_key
      else if fst (its ! idx) = 0 then Inr (Some idx)
      else insert_scan its key idxs)"

definition htab_insert :: "'d htab \<Rightarrow> u64 \<Rightarrow> 'd option \<Rightarrow> htab_error + 'd htab" where
  "htab_insert h key d =
     (if key = 0 then Inl Zero_key
      else let pos = htab_hash key (count h) in
        bind_r (insert_scan (items h) key [pos..<count h]) (\<lambda>found.
        bind_r (case found of Some idx \<Rightarrow> Inr (Some idx)
                | None \<Rightarrow> insert_scan (items h) key [0..<pos]) (\<lambda>found'.
        case found' of None \<Rightarrow> Inl Htab_abort
        | Some idx \<Rightarrow> Inr (h\<lparr>items := (items h)[idx := (key, d)]\<rparr>))))"

fun get_scan :: "(u64 \<times> 'd option) list \<Rightarrow> u64 \<Rightarrow> nat list \<Rightarrow> nat option" where
  "get_scan its key [] = None"
| "get_scan its key (idx # idxs) =
     (if fst (its ! idx) = key then Some idx else get_scan its key idxs)"

definition htab_get :: "'d htab \<Rightarrow> u64 \<Rightarrow> htab_error + 'd option" where
  "htab_get h key =
     (if key = 0 then Inl Zero_key
      else let pos = htab_hash key (count h) in
        case get_scan (items h) key [pos..<count h] of
          Some idx \<Rightarrow> Inr (snd (items h ! idx))
        | None \<Rightarrow>
            (case get_scan (items h) key [0..<pos] of
               Some idx \<Rightarrow> Inr (snd (items h ! idx))
             | None \<Rightarrow> Inl Htab_abort))"

subsection \<open>Invariant and abstraction\<close>

text \<open>
  The abstract value of a table is the map from its keys to their data. Used keys are
  pairwise distinct, which is all the lookup needs, since it scans every slot.
\<close>

definition used :: "'d htab \<Rightarrow> (u64 \<times> 'd option) list" where
  "used h = filter (\<lambda>it. fst it \<noteq> 0) (items h)"

definition htab_abs :: "'d htab \<Rightarrow> u64 \<Rightarrow> 'd option option" where
  "htab_abs h = map_of (used h)"

definition htab_invar :: "'d htab \<Rightarrow> bool" where
  "htab_invar h \<longleftrightarrow> length (items h) = count h \<and> distinct (map fst (used h))"

definition htab_free :: "'d htab \<Rightarrow> nat" where
  "htab_free h = length (filter (\<lambda>it. fst it = 0) (items h))"

lemma dom_htab_abs: "dom (htab_abs h) = fst ` set (items h) - {0}"
  by (auto simp: htab_abs_def used_def dom_map_of_conv_image_fst)

lemma htab_hash_less: "0 < n \<Longrightarrow> htab_hash key n < n"
  by (simp add: htab_hash_def)

text \<open>Together the two scans visit every slot, and only slots.\<close>

lemma probe_set:
  assumes "pos \<le> n"
  shows "set ([pos..<n] @ [0..<pos]) = {..<n}"
  using assms by auto

lemma hash_le: "htab_hash key n \<le> n"
  by (cases "n = 0") (simp_all add: htab_hash_def less_imp_le)

lemma insert_scan_append:
  "insert_scan its key (xs @ ys) =
     bind_r (insert_scan its key xs)
       (\<lambda>r. case r of Some i \<Rightarrow> Inr (Some i) | None \<Rightarrow> insert_scan its key ys)"
  by (induction xs) auto

lemma get_scan_append:
  "get_scan its key (xs @ ys) =
     (case get_scan its key xs of Some i \<Rightarrow> Some i | None \<Rightarrow> get_scan its key ys)"
  by (induction xs) auto

lemma insert_scan_fresh:
  assumes "\<forall>i \<in> set idxs. fst (its ! i) \<noteq> key"
  shows "case insert_scan its key idxs of
           Inl e \<Rightarrow> False
         | Inr None \<Rightarrow> \<forall>i \<in> set idxs. fst (its ! i) \<noteq> 0
         | Inr (Some i) \<Rightarrow> i \<in> set idxs \<and> fst (its ! i) = 0"
  using assms by (induction idxs) (auto split: sum.splits option.splits)

lemma get_scan_Some: "get_scan its key idxs = Some i \<Longrightarrow> i \<in> set idxs \<and> fst (its ! i) = key"
  by (induction idxs) (auto split: if_splits)

lemma get_scan_None:
  "get_scan its key idxs = None \<longleftrightarrow> (\<forall>i \<in> set idxs. fst (its ! i) \<noteq> key)"
  by (induction idxs) auto

text \<open>The insertion and the lookup as one scan over the whole probe sequence.\<close>

definition probe :: "u64 \<Rightarrow> nat \<Rightarrow> nat list" where
  "probe key n = [htab_hash key n..<n] @ [0..<htab_hash key n]"

lemma set_probe: "set (probe key n) = {..<n}"
  unfolding probe_def by (rule probe_set) (rule hash_le)

lemma htab_insert_probe:
  "htab_insert h key d =
     (if key = 0 then Inl Zero_key
      else bind_r (insert_scan (items h) key (probe key (count h))) (\<lambda>r.
        case r of None \<Rightarrow> Inl Htab_abort
        | Some idx \<Rightarrow> Inr (h\<lparr>items := (items h)[idx := (key, d)]\<rparr>)))"
  by (simp add: htab_insert_def probe_def insert_scan_append bind_r_assoc Let_def)

lemma htab_get_probe:
  "htab_get h key =
     (if key = 0 then Inl Zero_key
      else case get_scan (items h) key (probe key (count h)) of
        None \<Rightarrow> Inl Htab_abort | Some idx \<Rightarrow> Inr (snd (items h ! idx)))"
  by (simp add: htab_get_def probe_def get_scan_append Let_def split: option.splits)

text \<open>Filling a free slot adds one entry to the used ones and takes one free slot.\<close>

lemma fill_slot:
  fixes its :: "(u64 \<times> 'd option) list"
  assumes "i < length its" and "fst (its ! i) = 0" and "key \<noteq> 0"
  shows "\<exists>xs ys. filter (\<lambda>it. fst it \<noteq> 0) its = xs @ ys \<and>
      filter (\<lambda>it. fst it \<noteq> 0) (its[i := (key, d)]) = xs @ (key, d) # ys"
    and "Suc (length (filter (\<lambda>it. fst it = 0) (its[i := (key, d)]))) =
      length (filter (\<lambda>it. fst it = 0) its)"
proof -
  let ?P = "\<lambda>it::u64 \<times> 'd option. fst it \<noteq> 0" and ?Q = "\<lambda>it::u64 \<times> 'd option. fst it = 0"
  have its: "its = take i its @ its ! i # drop (Suc i) its"
    and upd: "its[i := (key, d)] = take i its @ (key, d) # drop (Suc i) its"
    using assms(1) by (simp_all add: list_update_split list_nth_split)
  have "filter ?P its = filter ?P (take i its) @ filter ?P (drop (Suc i) its)"
    by (subst its) (use assms in simp)
  moreover have "filter ?P (its[i := (key, d)]) =
      filter ?P (take i its) @ (key, d) # filter ?P (drop (Suc i) its)"
    by (subst upd) (use assms in simp)
  ultimately show "\<exists>xs ys. filter ?P its = xs @ ys \<and>
      filter ?P (its[i := (key, d)]) = xs @ (key, d) # ys" by blast
  have "length (filter ?Q its) =
      Suc (length (filter ?Q (take i its)) + length (filter ?Q (drop (Suc i) its)))"
    by (subst its) (use assms in simp)
  moreover have "length (filter ?Q (its[i := (key, d)])) =
      length (filter ?Q (take i its)) + length (filter ?Q (drop (Suc i) its))"
    by (subst upd) (use assms in simp)
  ultimately show "Suc (length (filter ?Q (its[i := (key, d)]))) = length (filter ?Q its)"
    by simp
qed

lemma map_of_insert_middle:
  "key \<notin> fst ` set xs \<Longrightarrow> map_of (xs @ (key, d) # ys) = (map_of (xs @ ys))(key \<mapsto> d)"
  by (induction xs) auto

lemma slot_in_items:
  "length (items h) = count h \<Longrightarrow> i < count h \<Longrightarrow> items h ! i \<in> set (items h)"
  by simp

lemma htab_insert_ok:
  assumes inv: "htab_invar h" and key: "key \<noteq> 0" and fresh: "htab_abs h key = None"
    and room: "0 < htab_free h"
  shows "\<exists>h'. htab_insert h key d = Inr h' \<and> htab_invar h' \<and>
    htab_abs h' = (htab_abs h)(key \<mapsto> d) \<and> Suc (htab_free h') = htab_free h"
proof -
  have len: "length (items h) = count h" and dist: "distinct (map fst (used h))"
    using inv by (auto simp: htab_invar_def)
  have nokey: "fst (items h ! i) \<noteq> key" if "i < count h" for i
  proof
    assume "fst (items h ! i) = key"
    then have "key \<in> dom (htab_abs h)"
      using slot_in_items [OF len that] key unfolding dom_htab_abs by blast
    with fresh show False by auto
  qed
  have "\<exists>it \<in> set (items h). fst it = 0"
    using room by (auto simp: htab_free_def filter_empty_conv)
  then obtain j where j: "j < count h" "fst (items h ! j) = 0"
    using len by (metis in_set_conv_nth)
  obtain i where scan: "insert_scan (items h) key (probe key (count h)) = Inr (Some i)"
    and i: "i < count h" "fst (items h ! i) = 0"
    using insert_scan_fresh [of "probe key (count h)" "items h" key] nokey j
    by (auto simp: set_probe split: sum.splits option.splits)
  let ?h' = "h\<lparr>items := (items h)[i := (key, d)]\<rparr>"
  obtain xs ys where before: "used h = xs @ ys" and after: "used ?h' = xs @ (key, d) # ys"
    using fill_slot(1) [of i "items h" key d] i key len by (auto simp: used_def)
  have notin: "key \<notin> fst ` set (used h)"
    using fresh by (simp add: htab_abs_def map_of_eq_None_iff)
  have "htab_abs ?h' = (htab_abs h)(key \<mapsto> d)"
    using notin map_of_insert_middle [of key xs d ys]
    by (simp add: htab_abs_def before after image_Un)
  moreover have "htab_invar ?h'"
    using len dist notin before after by (auto simp: htab_invar_def)
  moreover have "Suc (htab_free ?h') = htab_free h"
    using fill_slot(2) [of i "items h" key d] i key len by (simp add: htab_free_def)
  ultimately show ?thesis
    using key scan by (simp add: htab_insert_probe)
qed

lemma htab_get_ok:
  assumes inv: "htab_invar h" and abs: "htab_abs h key = Some d"
  shows "htab_get h key = Inr d"
proof -
  have len: "length (items h) = count h" and dist: "distinct (map fst (used h))"
    using inv by (auto simp: htab_invar_def)
  have mem: "(key, d) \<in> set (used h)"
    using abs by (auto simp: htab_abs_def dest: map_of_SomeD)
  then have key: "key \<noteq> 0" and "(key, d) \<in> set (items h)"
    by (auto simp: used_def)
  then obtain j where "j < count h" "items h ! j = (key, d)"
    using len by (metis in_set_conv_nth)
  then have "get_scan (items h) key (probe key (count h)) \<noteq> None"
    unfolding get_scan_None set_probe by (metis fst_conv lessThan_iff)
  then obtain i where scan: "get_scan (items h) key (probe key (count h)) = Some i"
    by auto
  then have i: "i < count h" "fst (items h ! i) = key"
    by (auto dest!: get_scan_Some simp: set_probe)
  then have "(key, snd (items h ! i)) \<in> set (used h)"
    using slot_in_items [OF len i(1)] key by (cases "items h ! i") (auto simp: used_def)
  then have "snd (items h ! i) = d"
    using mem dist by (meson eq_key_imp_eq_value)
  then show ?thesis using key scan by (simp add: htab_get_probe)
qed

lemma htab_get_missing:
  assumes "length (items h) = count h" and "key \<noteq> 0" and "htab_abs h key = None"
  shows "htab_get h key = Inl Htab_abort"
proof -
  have "get_scan (items h) key (probe key (count h)) = None"
    using assms dom_htab_abs [of h]
    by (auto simp: get_scan_None set_probe) (metis (mono_tags) DiffI domIff image_eqI
        nth_mem singletonD)
  then show ?thesis using assms by (simp add: htab_get_probe)
qed

lemma htab_insert_duplicate:
  assumes inv: "htab_invar h" and abs: "htab_abs h key \<noteq> None" and full: "htab_free h = 0"
  shows "htab_insert h key d = Inl Duplicate_key"
proof -
  have len: "length (items h) = count h" using inv by (simp add: htab_invar_def)
  have key: "key \<noteq> 0" and mem: "key \<in> fst ` set (items h)"
    using abs dom_htab_abs [of h] by auto
  have nz: "\<forall>i < count h. fst (items h ! i) \<noteq> 0"
    using full len by (auto simp: htab_free_def filter_empty_conv)
  have scan: "insert_scan (items h) key idxs = Inl Duplicate_key"
    if "set idxs \<subseteq> {..<count h}" "\<exists>i \<in> set idxs. fst (items h ! i) = key" for idxs
    using that nz by (induction idxs) auto
  have "\<exists>i < count h. fst (items h ! i) = key"
    using mem len by (metis imageE in_set_conv_nth)
  then have "insert_scan (items h) key (probe key (count h)) = Inl Duplicate_key"
    by (intro scan) (auto simp: set_probe)
  then show ?thesis using key by (simp add: htab_insert_probe)
qed

lemma htab_create_ok:
  assumes "htab_create True n = Some (h :: 'd htab)"
  shows "htab_invar h" and "htab_abs h = Map.empty" and "htab_free h = n"
proof -
  have h: "h = \<lparr>count = n, items = replicate n (0, None)\<rparr>"
    using assms by (simp add: htab_create_def)
  have u: "used h = []" by (simp add: h used_def filter_empty_conv)
  show "htab_invar h" using u by (simp add: htab_invar_def) (simp add: h)
  show "htab_abs h = Map.empty" using u by (simp add: htab_abs_def)
  show "htab_free h = n" by (simp add: h htab_free_def)
qed

subsection \<open>The interface the code generator relies on\<close>

text \<open>
  A write-once table of a fixed number of entries: what an insertion of a fresh non-null
  key does while there is room, and what a lookup returns. The client fills the table from
  a list of distinct keys and then reads every one of them back.
\<close>

locale pointer_table =
  fixes ins :: "'t \<Rightarrow> u64 \<Rightarrow> 'v \<Rightarrow> 'e + 't"
    and get :: "'t \<Rightarrow> u64 \<Rightarrow> 'e + 'v"
    and abs :: "'t \<Rightarrow> u64 \<Rightarrow> 'v option"
    and invar :: "'t \<Rightarrow> bool"
    and room :: "'t \<Rightarrow> nat"
  assumes ins_ok: "invar t \<Longrightarrow> k \<noteq> 0 \<Longrightarrow> abs t k = None \<Longrightarrow> 0 < room t \<Longrightarrow>
      \<exists>t'. ins t k v = Inr t' \<and> invar t' \<and> abs t' = (abs t)(k \<mapsto> v) \<and> Suc (room t') = room t"
    and get_ok: "invar t \<Longrightarrow> abs t k = Some v \<Longrightarrow> get t k = Inr v"
begin

primrec ins_all :: "'t \<Rightarrow> (u64 \<times> 'v) list \<Rightarrow> 'e + 't" where
  "ins_all t [] = Inr t"
| "ins_all t (kv # kvs) = bind_r (ins t (fst kv) (snd kv)) (\<lambda>t'. ins_all t' kvs)"

lemma ins_all_ok:
  assumes "invar t" and "distinct (map fst kvs)" and "0 \<notin> fst ` set kvs"
    and "\<forall>k \<in> fst ` set kvs. abs t k = None" and "length kvs \<le> room t"
  shows "\<exists>t'. ins_all t kvs = Inr t' \<and> invar t' \<and> abs t' = abs t ++ map_of kvs \<and>
    room t' = room t - length kvs"
  using assms
proof (induction kvs arbitrary: t)
  case Nil
  then show ?case by simp
next
  case (Cons kv kvs)
  obtain t1 where t1: "ins t (fst kv) (snd kv) = Inr t1" "invar t1"
      "abs t1 = (abs t)(fst kv \<mapsto> snd kv)" "Suc (room t1) = room t"
    using ins_ok [of t "fst kv" "snd kv"] Cons.prems by auto
  have "\<forall>k \<in> fst ` set kvs. abs t1 k = None"
    using Cons.prems(2,4) t1(3) by (metis distinct.simps(2) fun_upd_other image_set insert_iff
        list.simps(9) list.set(2))
  then have "\<exists>t'. ins_all t1 kvs = Inr t' \<and> invar t' \<and> abs t' = abs t1 ++ map_of kvs \<and>
      room t' = room t1 - length kvs"
    using Cons.prems(2,3,5) t1(2,4) by (intro Cons.IH) auto
  then obtain t' where t': "ins_all t1 kvs = Inr t'" "invar t'"
      "abs t' = abs t1 ++ map_of kvs" "room t' = room t1 - length kvs"
    by blast
  have "fst kv \<notin> dom (map_of kvs)"
    using Cons.prems(2) by (simp add: dom_map_of_conv_image_fst)
  then have eq: "abs t1 ++ map_of kvs = abs t ++ map_of (kv # kvs)"
    using t1(3) by (cases kv) (auto simp: fun_eq_iff map_add_def split: option.splits)
  show ?case
  proof (intro exI conjI)
    show "ins_all t (kv # kvs) = Inr t'" by (simp add: t1(1) t'(1))
    show "invar t'" by (rule t'(2))
    show "abs t' = abs t ++ map_of (kv # kvs)" using t'(3) eq by (rule trans)
    show "room t' = room t - length (kv # kvs)" using t1(4) t'(4) by simp
  qed
qed

lemma fill_and_read:
  assumes "invar t" and "abs t = Map.empty" and "distinct (map fst kvs)"
    and "0 \<notin> fst ` set kvs" and "length kvs \<le> room t"
  shows "\<exists>t'. ins_all t kvs = Inr t' \<and> (\<forall>(k, v) \<in> set kvs. get t' k = Inr v)"
proof -
  obtain t' where t': "ins_all t kvs = Inr t'" "invar t'" "abs t' = map_of kvs"
    using ins_all_ok [of t kvs] assms by auto
  have "get t' k = Inr v" if "(k, v) \<in> set kvs" for k v
    using t' assms(3) that by (intro get_ok) simp_all
  then show ?thesis using t' by auto
qed

end

interpretation htab_table: pointer_table htab_insert htab_get htab_abs htab_invar htab_free
  by unfold_locales (auto intro: htab_insert_ok htab_get_ok)

primrec htab_insert_all :: "'d htab \<Rightarrow> (u64 \<times> 'd option) list \<Rightarrow> htab_error + 'd htab" where
  "htab_insert_all h [] = Inr h"
| "htab_insert_all h (kv # kvs) =
     bind_r (htab_insert h (fst kv) (snd kv)) (\<lambda>h'. htab_insert_all h' kvs)"

lemma htab_insert_all_eq: "htab_table.ins_all h kvs = htab_insert_all h kvs"
  by (induction kvs arbitrary: h) simp_all

text \<open>
  C35. A table created for \<open>n\<close> entries takes any list of at most \<open>n\<close> entries with
  distinct non-null keys, whatever slots they hash to, and afterwards every one of the keys
  is looked up to exactly the data it was inserted with.
\<close>

theorem htab_fill_and_read:
  assumes "htab_create True n = Some (h :: 'd htab)" and "distinct (map fst kvs)"
    and "0 \<notin> fst ` set kvs" and "length kvs \<le> n"
  shows "\<exists>h'. htab_insert_all h kvs = Inr h' \<and> (\<forall>(k, d) \<in> set kvs. htab_get h' k = Inr d)"
  using htab_table.fill_and_read [of h kvs] htab_create_ok [OF assms(1)] assms(2-4)
  by (simp add: htab_insert_all_eq)

theorem htab_fill_and_read_witness:
  "\<exists>h'. htab_insert_all \<lparr>count = 2, items = replicate 2 (0, None)\<rparr> [(3, Some CHR ''x''), (5, Some CHR ''y'')]
      = Inr h' \<and> htab_get h' 3 = Inr (Some CHR ''x'') \<and> htab_get h' 5 = Inr (Some CHR ''y'')"
  using htab_fill_and_read [of 2 "\<lparr>count = 2, items = replicate 2 (0, None)\<rparr>"
      "[(3, Some CHR ''x''), (5, Some CHR ''y'')]"]
  by (simp add: htab_create_def)

end
