(* ===== verification/Codegen.thy ===== *)
theory Codegen
  imports Ast Insn Htab
begin

text \<open>
  The code generator for expressions (\<^verbatim>\<open>src/codegen.c\<close>): its state and one definition per
  \<^verbatim>\<open>gen_...\<close> function, from checked trees to instructions.

  Parameters are the outcome of the k-th request for memory, and the addresses of the name
  tokens, which are the keys of the tables of offsets. An operand that a function leaves
  unset is \<open>None\<close>. An error ends the run: out of memory, a failed assertion, or a null
  pointer, an unset operand or a division by zero in the compiler.
\<close>

subsection \<open>State\<close>

datatype gen_error = CODEGEN_NOMEM | Gen_abort | Gen_undefined

record ofs =
  ofs_off :: u64
  ofs_size :: u64

record func_tag =
  ft_frame_size :: u64
  ft_args_size :: u64
  ft_layout :: "ofs htab"

record genv =
  ge_mem :: "nat \<Rightarrow> bool"
  ge_key :: "nat \<Rightarrow> u64"
  ge_data_size :: u64
  ge_globals :: "ofs htab"
  ge_funcs :: "func_tag htab"
  ge_tag :: "func_tag option"

text \<open>
  \<open>gs_room\<close> is \<^verbatim>\<open>insn_size\<close>, \<open>gs_strings_room\<close> is \<^verbatim>\<open>strings_mem_size\<close>, and the length of \<open>gs_insns\<close>
  is \<^verbatim>\<open>ip\<close>. \<open>gs_strl_sized\<close> says that the size of what the static type of string literals
  points to has been computed, and \<open>gs_locs\<close> has the members \<^verbatim>\<open>loc\<close> of the functions.
\<close>

record gstate =
  gs_requests :: nat
  gs_insns :: "insn list"
  gs_room :: nat
  gs_strings :: "u8 list"
  gs_strings_room :: nat
  gs_temp_off :: u64
  gs_temp_peak :: u64
  gs_strl_sized :: bool
  gs_locs :: "(u64 \<times> u64) list"

type_synonym 'a gen = "gstate \<Rightarrow> gen_error + 'a \<times> gstate"

definition ret_g :: "'a \<Rightarrow> 'a gen" where
  "ret_g x = (\<lambda>s. Inr (x, s))"

definition fail_g :: "gen_error \<Rightarrow> 'a gen" where
  "fail_g e = (\<lambda>s. Inl e)"

definition bind_g :: "'a gen \<Rightarrow> ('a \<Rightarrow> 'b gen) \<Rightarrow> 'b gen" where
  "bind_g m f = (\<lambda>s. bind_r (m s) (\<lambda>(x, s). f x s))"

lemma bind_g_cong [fundef_cong]:
  "m = m' \<Longrightarrow> (\<And>x. f x = f' x) \<Longrightarrow> bind_g m f = bind_g m' f'"
  by (metis ext)

definition get_g :: "(gstate \<Rightarrow> 'a) \<Rightarrow> 'a gen" where
  "get_g f = (\<lambda>s. Inr (f s, s))"

definition set_g :: "(gstate \<Rightarrow> gstate) \<Rightarrow> unit gen" where
  "set_g f = (\<lambda>s. Inr ((), f s))"

definition need_g :: "gen_error \<Rightarrow> bool \<Rightarrow> unit gen" where
  "need_g e c = (if c then ret_g () else fail_g e)"

text \<open>A value that must be there, else a null pointer or an unset operand is read.\<close>

definition the_g :: "'a option \<Rightarrow> 'a gen" where
  "the_g x = (case x of Some y \<Rightarrow> ret_g y | None \<Rightarrow> fail_g Gen_undefined)"

definition request_g :: "genv \<Rightarrow> unit gen" where
  "request_g env = (\<lambda>s. let k = gs_requests s in
     if ge_mem env k then Inr ((), s\<lparr>gs_requests := Suc k\<rparr>) else Inl CODEGEN_NOMEM)"

definition htab_g :: "htab_error + 'a option \<Rightarrow> 'a gen" where
  "htab_g r = (case r of Inl _ \<Rightarrow> fail_g Gen_abort | Inr x \<Rightarrow> the_g x)"

subsection \<open>Types\<close>

abbreviation bytes_of :: "qtype \<Rightarrow> u64" where
  "bytes_of t \<equiv> ty_count t * ty_size t"

definition signed_type :: "qtype \<Rightarrow> bool" where
  "signed_type t \<longleftrightarrow> type_is_integral (ty_t t) \<and> type_is_signed (ty_t t)"

definition quantify_g :: "genv \<Rightarrow> qtype \<Rightarrow> qtype gen" where
  "quantify_g env t = (\<lambda>s.
     case type_quantify (ge_mem env) t (gs_requests s) of
       Inr (t, k) \<Rightarrow> Inr (t, s\<lparr>gs_requests := k\<rparr>)
     | Inl TYPE_NOMEM \<Rightarrow> Inl CODEGEN_NOMEM
     | Inl Type_undefined \<Rightarrow> Inl Gen_undefined
     | Inl _ \<Rightarrow> Inl Gen_abort)"

text \<open>
  What a pointer points to, sized in place. The type of a string literal is one static
  object, so for a literal the second time fails the assertion that it has no size.
\<close>

definition pointed_g :: "genv \<Rightarrow> expr \<Rightarrow> qtype \<Rightarrow> qtype gen" where
  "pointed_g env e t =
     (case t of
        Ty_ptr _ s \<Rightarrow>
          (case e of
             E_strl _ _ \<Rightarrow>
               bind_g (get_g gs_strl_sized) (\<lambda>again.
               bind_g (need_g Gen_abort (\<not> again)) (\<lambda>_.
               bind_g (set_g (\<lambda>s. s\<lparr>gs_strl_sized := True\<rparr>)) (\<lambda>_. quantify_g env s)))
           | _ \<Rightarrow> quantify_g env s)
      | _ \<Rightarrow> fail_g Gen_undefined)"

text \<open>The size of one step of a pointer, 1 for what is no pointer.\<close>

definition step_g :: "genv \<Rightarrow> expr \<Rightarrow> u64 gen" where
  "step_g env e =
     bind_g (the_g (type_of_expr e)) (\<lambda>t.
     if ty_t t = TYPE_PTR then bind_g (pointed_g env e t) (\<lambda>s. ret_g (bytes_of s)) else ret_g 1)"

subsection \<open>Operands\<close>

type_synonym result = "opd option"

definition opd_imm :: "bool \<Rightarrow> u64 \<Rightarrow> u64 \<Rightarrow> opd" where
  "opd_imm sg v n = \<lparr>opd_kind = CODEGEN_OPD_IMM, signd = sg, indirect = False, off = v, opd_bytes = n\<rparr>"

definition opd_auto :: "bool \<Rightarrow> u64 \<Rightarrow> u64 \<Rightarrow> opd" where
  "opd_auto sg a n = \<lparr>opd_kind = CODEGEN_OPD_AUTO, signd = sg, indirect = False, off = a, opd_bytes = n\<rparr>"

definition opd_glob :: "bool \<Rightarrow> u64 \<Rightarrow> u64 \<Rightarrow> opd" where
  "opd_glob sg a n = \<lparr>opd_kind = CODEGEN_OPD_GLOB, signd = sg, indirect = False, off = a, opd_bytes = n\<rparr>"

definition opd_temp :: "bool \<Rightarrow> u64 \<Rightarrow> opd gen" where
  "opd_temp sg n = (\<lambda>s.
     let a = (if n \<le> 8 then n else 8) in
     if a = 0 then Inl Gen_undefined
     else
       let beg = align_up (gs_temp_off s) a; fin = beg + n in
       Inr (\<lparr>opd_kind = CODEGEN_OPD_TEMP, signd = sg, indirect = False, off = beg, opd_bytes = n\<rparr>,
         s\<lparr>gs_temp_off := fin, gs_temp_peak := (if fin > gs_temp_peak s then fin else gs_temp_peak s)\<rparr>))"

definition SET_DIRECT :: "opd \<Rightarrow> opd" where
  "SET_DIRECT x = x\<lparr>indirect := False, signd := False, opd_bytes := 8\<rparr>"

definition SET_INDIRECT :: "opd \<Rightarrow> bool \<Rightarrow> u64 \<Rightarrow> opd" where
  "SET_INDIRECT x sg n = x\<lparr>indirect := True, signd := sg, opd_bytes := n\<rparr>"

definition temp_for :: "qtype \<Rightarrow> opd gen" where
  "temp_for t = opd_temp (signed_type t) (bytes_of t)"

subsection \<open>Instructions\<close>

definition insn_at :: "genv \<Rightarrow> unit gen" where
  "insn_at env = (\<lambda>s.
     let n = length (gs_insns s) in
     if n < gs_room s then Inr ((), s)
     else bind_r (request_g env s) (\<lambda>(_, s).
       Inr ((), s\<lparr>gs_room := (if n = 0 then 8 else n * 2)\<rparr>)))"

definition emit :: "genv \<Rightarrow> insn \<Rightarrow> unit gen" where
  "emit env i = bind_g (insn_at env) (\<lambda>_. set_g (\<lambda>s. s\<lparr>gs_insns := gs_insns s @ [i]\<rparr>))"

definition here :: "nat gen" where
  "here = get_g (\<lambda>s. length (gs_insns s))"

text \<open>Filling in the target of a jump, the return address of a call, the room for temporaries.\<close>

definition with_loc :: "u64 \<Rightarrow> insn \<Rightarrow> insn" where
  "with_loc l i =
     (case i of
        CODEGEN_OP_JZ c _ \<Rightarrow> CODEGEN_OP_JZ c l
      | CODEGEN_OP_JNZ c _ \<Rightarrow> CODEGEN_OP_JNZ c l
      | CODEGEN_OP_JMP _ \<Rightarrow> CODEGEN_OP_JMP l
      | CODEGEN_OP_PUSHR v b \<Rightarrow> CODEGEN_OP_PUSHR (v\<lparr>off := l\<rparr>) b
      | CODEGEN_OP_INCSP a t \<Rightarrow> CODEGEN_OP_INCSP a (t\<lparr>off := l\<rparr>)
      | _ \<Rightarrow> i)"

definition patch :: "nat \<Rightarrow> u64 \<Rightarrow> unit gen" where
  "patch at l = set_g (\<lambda>s. s\<lparr>gs_insns := (gs_insns s)[at := with_loc l (gs_insns s ! at)]\<rparr>)"

definition patch_here :: "nat \<Rightarrow> unit gen" where
  "patch_here at = bind_g here (\<lambda>n. patch at (word_of_nat n))"

text \<open>The string and its terminating zero; where it begins in the data.\<close>

definition push_string :: "genv \<Rightarrow> u8 list \<Rightarrow> unit gen" where
  "push_string env str = (\<lambda>s.
     let least = length (gs_strings s) + length str + 1;
         add = (\<lambda>s. s\<lparr>gs_strings := gs_strings s @ str @ [0]\<rparr>) in
     if least > gs_strings_room s
     then bind_r (request_g env s) (\<lambda>(_, s). Inr ((), add (s\<lparr>gs_strings_room := least * 2\<rparr>)))
     else Inr ((), add s))"

subsection \<open>Binary expressions\<close>

text \<open>
  The generators of the parts of an expression are arguments, applied to whether an lvalue
  is needed; \<open>value_g\<close> is a part whose operand is used.
\<close>

type_synonym gpart = "bool \<Rightarrow> result gen"

definition value_g :: "gpart \<Rightarrow> bool \<Rightarrow> opd gen" where
  "value_g p lv = bind_g (p lv) the_g"

definition gen_bexp_assn :: "genv \<Rightarrow> gpart \<Rightarrow> gpart \<Rightarrow> result gen" where
  "gen_bexp_assn env l r =
     bind_g (value_g l True) (\<lambda>dst. bind_g (value_g r False) (\<lambda>src.
     bind_g (emit env (CODEGEN_OP_MOV dst src)) (\<lambda>_. ret_g (Some dst))))"

definition asmu_op :: "lex_tk \<Rightarrow> arith_op option" where
  "asmu_op tk =
     map_of [(LEX_TK_ASMU, OP_MUL), (LEX_TK_ASDI, OP_DIV), (LEX_TK_ASMO, OP_MOD), (LEX_TK_ASLS, OP_LSH),
       (LEX_TK_ASRS, OP_RSH), (LEX_TK_ASAN, OP_AND), (LEX_TK_ASXO, OP_XOR), (LEX_TK_ASOR, OP_OR)] tk"

definition gen_bexp_asmu :: "genv \<Rightarrow> lex_tk \<Rightarrow> gpart \<Rightarrow> gpart \<Rightarrow> result gen" where
  "gen_bexp_asmu env tk l r =
     (case asmu_op tk of
        None \<Rightarrow> fail_g Gen_abort
      | Some aop \<Rightarrow>
          bind_g (value_g l True) (\<lambda>res1. bind_g (value_g r False) (\<lambda>res2.
          bind_g (emit env (CODEGEN_OP_ARITH aop res1 res1 res2)) (\<lambda>_. ret_g (Some res1)))))"

text \<open>
  A name that is not among the values gives 0. The code takes the first token of any right
  side; in a tree that the type checker accepts it is a name, the only case kept here.
\<close>

definition gen_bexp_scop :: "expr \<Rightarrow> qtype \<Rightarrow> result gen" where
  "gen_bexp_scop r t =
     (case t of
        Ty_enum _ vs _ \<Rightarrow>
          (case r of
             E_name s _ _ \<Rightarrow>
               let v = (case find (\<lambda>(n, v). lex_symbols_equal n s) vs of Some (n, v) \<Rightarrow> v | None \<Rightarrow> 0)
               in ret_g (Some (opd_imm False v (bytes_of t)))
           | _ \<Rightarrow> fail_g Gen_undefined)
      | _ \<Rightarrow> fail_g Gen_abort)"

definition wlab_ref :: "bexp_ref \<Rightarrow> (u64 \<times> u64) gen" where
  "wlab_ref ref =
     (case ref of
        Wlab_ref Wf_end _ \<Rightarrow> ret_g (1, 0)
      | Wlab_ref (Wf_func f) i \<Rightarrow>
          if i < length (f_wlabs f) then ret_g (f_addr f, snd (f_wlabs f ! i)) else fail_g Gen_undefined
      | _ \<Rightarrow> ret_g (0, 0))"

definition gen_bexp_atsi :: "genv \<Rightarrow> gpart \<Rightarrow> bexp_ref \<Rightarrow> qtype \<Rightarrow> result gen" where
  "gen_bexp_atsi env l ref t =
     bind_g (value_g l False) (\<lambda>res.
     bind_g (wlab_ref ref) (\<lambda>(f, i).
     bind_g (temp_for t) (\<lambda>dst.
     bind_g (emit env (CODEGEN_OP_QAT dst res f i)) (\<lambda>_. ret_g (Some dst)))))"

text \<open>The type of a member and its offset.\<close>

definition member_g :: "qtype \<Rightarrow> bexp_ref \<Rightarrow> (qtype \<times> u64) gen" where
  "member_g t ref =
     (let i = (case ref of Member_idx i \<Rightarrow> i | _ \<Rightarrow> 0) in
      case t of
        Ty_struct _ ms os \<Rightarrow> if i < length ms \<and> i < length os then ret_g (snd (ms ! i), os ! i) else fail_g Gen_undefined
      | Ty_union _ ms os \<Rightarrow> if i < length ms \<and> i < length os then ret_g (snd (ms ! i), os ! i) else fail_g Gen_undefined
      | _ \<Rightarrow> fail_g Gen_undefined)"

definition gen_bexp_memb :: "genv \<Rightarrow> expr \<Rightarrow> gpart \<Rightarrow> bexp_ref \<Rightarrow> bool \<Rightarrow> result gen" where
  "gen_bexp_memb env le l ref lv =
     bind_g (value_g l lv) (\<lambda>res.
     bind_g (the_g (type_of_expr le)) (\<lambda>lt.
     bind_g (member_g lt ref) (\<lambda>(mt, offset).
     let sg = signed_type mt; n = bytes_of mt in
     if \<not> indirect res then ret_g (Some (res\<lparr>off := off res + offset, signd := sg, opd_bytes := n\<rparr>))
     else
       bind_g (opd_temp False 8) (\<lambda>dst_drf.
       bind_g (emit env (CODEGEN_OP_DRF dst_drf (SET_DIRECT res))) (\<lambda>_.
       bind_g (opd_temp False 8) (\<lambda>dst.
       bind_g (emit env (CODEGEN_OP_ARITH OP_ADD dst dst_drf (opd_imm False offset 8))) (\<lambda>_.
       ret_g (Some (SET_INDIRECT dst sg n)))))))))"

definition gen_bexp_arow :: "genv \<Rightarrow> expr \<Rightarrow> gpart \<Rightarrow> bexp_ref \<Rightarrow> result gen" where
  "gen_bexp_arow env le l ref =
     bind_g (value_g l False) (\<lambda>res.
     bind_g (if indirect res
             then bind_g (opd_temp False 8) (\<lambda>dst.
                  bind_g (emit env (CODEGEN_OP_DRF dst (SET_DIRECT res))) (\<lambda>_. ret_g dst))
             else ret_g res) (\<lambda>res.
     bind_g (the_g (type_of_expr le)) (\<lambda>lt.
     bind_g (pointed_g env le lt) (\<lambda>st.
     bind_g (member_g st ref) (\<lambda>(mt, offset).
     bind_g (opd_temp False 8) (\<lambda>dst.
     bind_g (emit env (CODEGEN_OP_ARITH OP_ADD dst res (opd_imm False offset 8))) (\<lambda>_.
     ret_g (Some (SET_INDIRECT dst (signed_type mt) (bytes_of mt))))))))))"

definition bin_insn :: "lex_tk \<Rightarrow> (opd \<Rightarrow> opd \<Rightarrow> opd \<Rightarrow> insn) option" where
  "bin_insn tk =
     map_of [(LEX_TK_EQUL, CODEGEN_OP_EQU), (LEX_TK_NEQL, CODEGEN_OP_NEQ), (LEX_TK_LTHN, CODEGEN_OP_CMP OP_LT),
       (LEX_TK_GTHN, CODEGEN_OP_CMP OP_GT), (LEX_TK_LTEQ, CODEGEN_OP_CMP OP_LTE), (LEX_TK_GTEQ, CODEGEN_OP_CMP OP_GTE),
       (LEX_TK_MULT, CODEGEN_OP_ARITH OP_MUL), (LEX_TK_DIVI, CODEGEN_OP_ARITH OP_DIV), (LEX_TK_MODU, CODEGEN_OP_ARITH OP_MOD),
       (LEX_TK_LSHF, CODEGEN_OP_ARITH OP_LSH), (LEX_TK_RSHF, CODEGEN_OP_ARITH OP_RSH), (LEX_TK_AMPS, CODEGEN_OP_ARITH OP_AND),
       (LEX_TK_CARE, CODEGEN_OP_ARITH OP_XOR), (LEX_TK_PIPE, CODEGEN_OP_ARITH OP_OR)] tk"

definition gen_bexp_equl :: "genv \<Rightarrow> lex_tk \<Rightarrow> gpart \<Rightarrow> gpart \<Rightarrow> qtype \<Rightarrow> result gen" where
  "gen_bexp_equl env tk l r t =
     (case bin_insn tk of
        None \<Rightarrow> fail_g Gen_abort
      | Some mk \<Rightarrow>
          bind_g (value_g l False) (\<lambda>res1. bind_g (value_g r False) (\<lambda>res2.
          bind_g (temp_for t) (\<lambda>dst.
          bind_g (emit env (mk dst res1 res2)) (\<lambda>_. ret_g (Some dst))))))"

definition gen_bexp_conj :: "genv \<Rightarrow> gpart \<Rightarrow> gpart \<Rightarrow> qtype \<Rightarrow> result gen" where
  "gen_bexp_conj env l r t =
     bind_g (value_g l False) (\<lambda>res1.
     bind_g (temp_for t) (\<lambda>dst.
     bind_g (emit env (CODEGEN_OP_OZ dst res1)) (\<lambda>_.
     bind_g here (\<lambda>jz_ip.
     bind_g (emit env (CODEGEN_OP_JZ res1 0)) (\<lambda>_.
     bind_g (value_g r False) (\<lambda>res2.
     bind_g (emit env (CODEGEN_OP_OZ dst res2)) (\<lambda>_.
     bind_g (emit env (CODEGEN_OP_ARITH OP_AND dst (opd_imm (signd dst) 1 (opd_bytes dst)) dst)) (\<lambda>_.
     bind_g (patch_here jz_ip) (\<lambda>_. ret_g (Some dst))))))))))"

definition gen_bexp_disj :: "genv \<Rightarrow> gpart \<Rightarrow> gpart \<Rightarrow> qtype \<Rightarrow> result gen" where
  "gen_bexp_disj env l r t =
     bind_g (value_g l False) (\<lambda>res1.
     bind_g (temp_for t) (\<lambda>dst.
     bind_g (emit env (CODEGEN_OP_OZ dst res1)) (\<lambda>_.
     bind_g here (\<lambda>jnz_ip.
     bind_g (emit env (CODEGEN_OP_JNZ res1 0)) (\<lambda>_.
     bind_g (value_g r False) (\<lambda>res2.
     bind_g (emit env (CODEGEN_OP_OZ dst res2)) (\<lambda>_.
     bind_g (emit env (CODEGEN_OP_ARITH OP_OR dst (opd_imm (signd dst) 0 (opd_bytes dst)) dst)) (\<lambda>_.
     bind_g (patch_here jnz_ip) (\<lambda>_. ret_g (Some dst))))))))))"

definition gen_bexp_plus :: "genv \<Rightarrow> lex_tk \<Rightarrow> expr \<Rightarrow> gpart \<Rightarrow> gpart \<Rightarrow> qtype \<Rightarrow> result gen" where
  "gen_bexp_plus env tk le l r t =
     (let assign = (tk = LEX_TK_ASPL \<or> tk = LEX_TK_ASMI) in
      bind_g (value_g l assign) (\<lambda>res1. bind_g (value_g r False) (\<lambda>res2.
      bind_g (step_g env le) (\<lambda>multiplier.
      bind_g (if multiplier \<noteq> 1
              then bind_g (opd_temp False 8) (\<lambda>dst.
                   bind_g (emit env (CODEGEN_OP_ARITH OP_MUL dst res2 (opd_imm False multiplier 8))) (\<lambda>_. ret_g dst))
              else ret_g res2) (\<lambda>res2.
      bind_g (opd_temp (signd res1) (bytes_of t)) (\<lambda>dst.
      let aop = (if tk = LEX_TK_PLUS \<or> tk = LEX_TK_ASPL then OP_ADD else OP_SUB);
          res = (if assign then res1 else dst) in
      bind_g (emit env (CODEGEN_OP_ARITH aop res res1 res2)) (\<lambda>_. ret_g (Some res))))))))"

definition gen_bexp_coma :: "gpart \<Rightarrow> gpart \<Rightarrow> result gen" where
  "gen_bexp_coma l r =
     bind_g (get_g gs_temp_off) (\<lambda>saved.
     bind_g (l False) (\<lambda>_.
     bind_g (set_g (\<lambda>s. s\<lparr>gs_temp_off := saved\<rparr>)) (\<lambda>_. r False)))"

definition gen_bexp_cast :: "genv \<Rightarrow> gpart \<Rightarrow> qtype option \<Rightarrow> result gen" where
  "gen_bexp_cast env l cast =
     bind_g (the_g cast) (\<lambda>ct.
     bind_g (quantify_g env ct) (\<lambda>ct.
     bind_g (value_g l False) (\<lambda>res.
     bind_g (temp_for ct) (\<lambda>dst.
     bind_g (emit env (CODEGEN_OP_CAST dst res)) (\<lambda>_. ret_g (Some dst))))))"

subsection \<open>Unary expressions, calls, indexing\<close>

definition gen_uexp_mins :: "genv \<Rightarrow> lex_tk \<Rightarrow> gpart \<Rightarrow> qtype \<Rightarrow> result gen" where
  "gen_uexp_mins env tk r t =
     (case map_of [(LEX_TK_MINS, CODEGEN_OP_NEG), (LEX_TK_EXCL, CODEGEN_OP_NOT), (LEX_TK_CARE, CODEGEN_OP_BNEG)] tk of
        None \<Rightarrow> fail_g Gen_abort
      | Some mk \<Rightarrow>
          bind_g (value_g r False) (\<lambda>res.
          bind_g (temp_for t) (\<lambda>dst.
          bind_g (emit env (mk dst res)) (\<lambda>_. ret_g (Some dst)))))"

text \<open>A quaint of a call, whose arguments \<open>args\<close> pushes, and a quaint of a value.\<close>

definition gen_tild_call :: "genv \<Rightarrow> unit gen \<Rightarrow> gpart \<Rightarrow> qtype \<Rightarrow> result gen" where
  "gen_tild_call env args l t =
     bind_g (opd_temp False (bytes_of t)) (\<lambda>dst.
     bind_g (opd_temp False 8) (\<lambda>ssp.
     bind_g (emit env (CODEGEN_OP_GETSP ssp)) (\<lambda>_.
     bind_g args (\<lambda>_.
     bind_g (value_g l False) (\<lambda>lhs_res.
     bind_g (emit env (CODEGEN_OP_QNT dst lhs_res ssp)) (\<lambda>_. ret_g (Some dst)))))))"

definition gen_tild_value :: "genv \<Rightarrow> gpart \<Rightarrow> qtype \<Rightarrow> result gen" where
  "gen_tild_value env r t =
     bind_g (opd_temp False (bytes_of t)) (\<lambda>dst.
     bind_g (value_g r False) (\<lambda>res.
     bind_g (emit env (CODEGEN_OP_QNTV dst res)) (\<lambda>_. ret_g (Some dst))))"

definition gen_uexp_mult :: "genv \<Rightarrow> expr \<Rightarrow> gpart \<Rightarrow> qtype \<Rightarrow> bool \<Rightarrow> result gen" where
  "gen_uexp_mult env re r t lv =
     bind_g (value_g r False) (\<lambda>res.
     bind_g (the_g (type_of_expr re)) (\<lambda>rt.
     let is_ptr = (ty_t rt = TYPE_PTR) in
     if is_ptr \<and> lv then ret_g (Some (SET_INDIRECT res (signed_type t) (bytes_of t)))
     else if is_ptr then
       bind_g (temp_for t) (\<lambda>dst. bind_g (emit env (CODEGEN_OP_DRF dst res)) (\<lambda>_. ret_g (Some dst)))
     else if bytes_of t \<noteq> 0 then
       bind_g (temp_for t) (\<lambda>dst. bind_g (emit env (CODEGEN_OP_RTEV dst res)) (\<lambda>_. ret_g (Some dst)))
     else bind_g (emit env (CODEGEN_OP_RTE res)) (\<lambda>_. ret_g None)))"

definition gen_uexp_amps :: "genv \<Rightarrow> gpart \<Rightarrow> qtype \<Rightarrow> result gen" where
  "gen_uexp_amps env r t =
     bind_g (value_g r False) (\<lambda>res.
     bind_g (opd_temp False (bytes_of t)) (\<lambda>dst.
     bind_g (emit env (CODEGEN_OP_REF dst res)) (\<lambda>_. ret_g (Some dst))))"

definition gen_uexp_incr :: "genv \<Rightarrow> lex_tk \<Rightarrow> expr \<Rightarrow> gpart \<Rightarrow> qtype \<Rightarrow> result gen" where
  "gen_uexp_incr env tk re r t =
     bind_g (value_g r True) (\<lambda>res.
     bind_g (step_g env re) (\<lambda>step.
     bind_g (if step = 1 then emit env (if tk = LEX_TK_INCR then CODEGEN_OP_INC res else CODEGEN_OP_DEC res)
             else emit env (CODEGEN_OP_ARITH (if tk = LEX_TK_INCR then OP_ADD else OP_SUB) res res
                    (opd_imm (signed_type t) step (bytes_of t)))) (\<lambda>_. ret_g (Some res))))"

definition gen_uexp_szof :: "genv \<Rightarrow> lex_tk \<Rightarrow> qtype option \<Rightarrow> result gen" where
  "gen_uexp_szof env tk ts =
     bind_g (the_g ts) (\<lambda>ts.
     bind_g (quantify_g env ts) (\<lambda>ts.
     ret_g (Some (opd_imm False (if tk = LEX_TK_SZOF then bytes_of ts else ty_alignment ts) 8))))"

definition gen_fexp :: "genv \<Rightarrow> unit gen \<Rightarrow> gpart \<Rightarrow> qtype \<Rightarrow> result gen" where
  "gen_fexp env args l t =
     bind_g (opd_temp False 8) (\<lambda>ssp.
     bind_g here (\<lambda>pushr_ip.
     bind_g (emit env (CODEGEN_OP_PUSHR (opd_imm False 0 8) ssp)) (\<lambda>_.
     bind_g args (\<lambda>_.
     bind_g (value_g l False) (\<lambda>lhs_res.
     bind_g (patch_here pushr_ip) (\<lambda>_.
     if bytes_of t \<noteq> 0 then
       bind_g (temp_for t) (\<lambda>val.
       bind_g (emit env (CODEGEN_OP_CALLV val lhs_res ssp)) (\<lambda>_. ret_g (Some val)))
     else bind_g (emit env (CODEGEN_OP_CALL lhs_res ssp)) (\<lambda>_. ret_g None)))))))"

definition gen_xexp_incr :: "genv \<Rightarrow> lex_tk \<Rightarrow> expr \<Rightarrow> gpart \<Rightarrow> qtype \<Rightarrow> result gen" where
  "gen_xexp_incr env tk le l t =
     bind_g (value_g l True) (\<lambda>res.
     bind_g (step_g env le) (\<lambda>step.
     bind_g (temp_for t) (\<lambda>dst.
     bind_g (if step = 1 then emit env (if tk = LEX_TK_INCR then CODEGEN_OP_INCP dst res else CODEGEN_OP_DECP dst res)
             else bind_g (emit env (CODEGEN_OP_MOV dst res)) (\<lambda>_.
                  emit env (CODEGEN_OP_ARITH (if tk = LEX_TK_INCR then OP_ADD else OP_SUB) res res
                    (opd_imm (signed_type t) step (bytes_of t))))) (\<lambda>_. ret_g (Some dst)))))"

definition gen_aexp :: "genv \<Rightarrow> expr \<Rightarrow> gpart \<Rightarrow> gpart \<Rightarrow> qtype \<Rightarrow> bool \<Rightarrow> result gen" where
  "gen_aexp env offe b idx t lv =
     bind_g (value_g b lv) (\<lambda>res_base.
     bind_g (value_g idx False) (\<lambda>res_off.
     bind_g (the_g (type_of_expr offe)) (\<lambda>ot.
     let off_size = ty_size ot; elem_size = bytes_of t in
     bind_g (opd_temp False 8) (\<lambda>idx_scaled.
     bind_g (if elem_size = 1 then
               if off_size = 8 then ret_g res_off
               else bind_g (emit env (CODEGEN_OP_CAST idx_scaled res_off)) (\<lambda>_. ret_g idx_scaled)
             else
               bind_g (if off_size \<noteq> 8 then emit env (CODEGEN_OP_CAST idx_scaled res_off) else ret_g ()) (\<lambda>_.
               bind_g (emit env (CODEGEN_OP_ARITH OP_MUL idx_scaled
                    (if off_size \<noteq> 8 then idx_scaled else res_off) (opd_imm False elem_size 8))) (\<lambda>_.
               ret_g idx_scaled))) (\<lambda>idx_scaled.
     if indirect res_base then
       bind_g (opd_temp False 8) (\<lambda>dst.
       bind_g (emit env (CODEGEN_OP_ARITH OP_ADD dst (SET_DIRECT res_base) idx_scaled)) (\<lambda>_.
       ret_g (Some (SET_INDIRECT dst (signed_type t) elem_size))))
     else
       bind_g (opd_temp False 8) (\<lambda>ref_dst.
       bind_g (emit env (CODEGEN_OP_REF ref_dst res_base)) (\<lambda>_.
       bind_g (opd_temp False 8) (\<lambda>arr_dst.
       bind_g (emit env (CODEGEN_OP_ARITH OP_ADD arr_dst ref_dst idx_scaled)) (\<lambda>_.
       ret_g (Some (SET_INDIRECT arr_dst (signed_type t) elem_size)))))))))))"

definition gen_texp :: "genv \<Rightarrow> gpart \<Rightarrow> gpart \<Rightarrow> gpart \<Rightarrow> qtype \<Rightarrow> result gen" where
  "gen_texp env c x y t =
     bind_g (value_g c False) (\<lambda>cond_res.
     bind_g (temp_for t) (\<lambda>res.
     bind_g here (\<lambda>jz_ip.
     bind_g (emit env (CODEGEN_OP_JZ cond_res 0)) (\<lambda>_.
     bind_g (get_g gs_temp_off) (\<lambda>saved.
     bind_g (value_g x False) (\<lambda>tval_res.
     bind_g (emit env (CODEGEN_OP_MOV res tval_res)) (\<lambda>_.
     bind_g here (\<lambda>jmp_ip.
     bind_g (emit env (CODEGEN_OP_JMP 0)) (\<lambda>_.
     bind_g (patch_here jz_ip) (\<lambda>_.
     bind_g (set_g (\<lambda>s. s\<lparr>gs_temp_off := saved\<rparr>)) (\<lambda>_.
     bind_g (value_g y False) (\<lambda>fval_res.
     bind_g (emit env (CODEGEN_OP_MOV res fval_res)) (\<lambda>_.
     bind_g (patch_here jmp_ip) (\<lambda>_. ret_g (Some res)))))))))))))))"

subsection \<open>Names and literals\<close>

definition const_values :: "u64 list" where
  "const_values = [0, 1, 0]"

definition frame_ofs :: "genv \<Rightarrow> lex_symbol \<Rightarrow> ofs gen" where
  "frame_ofs env n = bind_g (the_g (ge_tag env)) (\<lambda>tag. htab_g (htab_get (ft_layout tag) (ge_key env (sym_beg n))))"

text \<open>The address of a function stands for its place in the code until it is linked; its size is 0.\<close>

definition gen_name :: "genv \<Rightarrow> scope_obj \<Rightarrow> qtype \<Rightarrow> result gen" where
  "gen_name env ob t =
     (let sg = signed_type t in
      case ob of
        SCOPE_OBJ_GVAR n _ \<Rightarrow>
          bind_g (htab_g (htab_get (ge_globals env) (ge_key env (sym_beg n)))) (\<lambda>x.
          ret_g (Some (opd_glob sg (ofs_off x) (ofs_size x))))
      | SCOPE_OBJ_AVAR n _ \<Rightarrow> bind_g (frame_ofs env n) (\<lambda>x. ret_g (Some (opd_auto sg (ofs_off x) (ofs_size x))))
      | SCOPE_OBJ_PARM n _ \<Rightarrow> bind_g (frame_ofs env n) (\<lambda>x. ret_g (Some (opd_auto sg (ofs_off x) (ofs_size x))))
      | SCOPE_OBJ_BCON _ i \<Rightarrow>
          if i < length const_values then ret_g (Some (opd_imm sg (const_values ! i) (bytes_of t))) else fail_g Gen_abort
      | SCOPE_OBJ_BFUN _ i \<Rightarrow>
          if word_of_nat i < SCOPE_BFUN_ID_COUNT then ret_g (Some (opd_imm False (word_of_nat i) 8)) else fail_g Gen_abort
      | SCOPE_OBJ_FUNC _ f \<Rightarrow> ret_g (Some (opd_imm False (f_addr f) 0))
      | SCOPE_OBJ_DUPL _ \<Rightarrow> fail_g Gen_abort)"

definition gen_nmbr :: "u64 \<Rightarrow> qtype \<Rightarrow> result gen" where
  "gen_nmbr v t = ret_g (Some (opd_imm (signed_type t) v (ty_size t)))"

definition gen_strl :: "genv \<Rightarrow> string \<Rightarrow> result gen" where
  "gen_strl env str =
     bind_g (get_g (\<lambda>s. ge_data_size env + word_of_nat (length (gs_strings s)))) (\<lambda>str_beg.
     bind_g (push_string env (map (\<lambda>c. word_of_nat (of_char c)) str)) (\<lambda>_.
     bind_g (opd_temp False 8) (\<lambda>dst.
     bind_g (emit env (CODEGEN_OP_REF dst (opd_glob False str_beg 1))) (\<lambda>_. ret_g (Some dst)))))"

subsection \<open>Expressions\<close>

definition typed_g :: "qtype option \<Rightarrow> (qtype \<Rightarrow> 'a gen) \<Rightarrow> 'a gen" where
  "typed_g t f = bind_g (the_g t) f"

text \<open>\<open>gen_args\<close> is the loop over the arguments of a call, which are pushed in order.\<close>

fun gen_expr :: "genv \<Rightarrow> expr \<Rightarrow> bool \<Rightarrow> result gen"
  and gen_args :: "genv \<Rightarrow> expr \<Rightarrow> unit gen"
where
  "gen_expr env (E_bexp op l r ref t) lv =
     (if op = LEX_TK_ASSN then gen_bexp_assn env (gen_expr env l) (gen_expr env r)
      else if op \<in> {LEX_TK_ASPL, LEX_TK_ASMI, LEX_TK_PLUS, LEX_TK_MINS}
      then typed_g t (gen_bexp_plus env op l (gen_expr env l) (gen_expr env r))
      else if op \<in> {LEX_TK_ASMU, LEX_TK_ASDI, LEX_TK_ASMO, LEX_TK_ASLS, LEX_TK_ASRS, LEX_TK_ASAN, LEX_TK_ASXO, LEX_TK_ASOR}
      then gen_bexp_asmu env op (gen_expr env l) (gen_expr env r)
      else if op = LEX_TK_SCOP then typed_g t (gen_bexp_scop r)
      else if op = LEX_TK_ATSI then typed_g t (gen_bexp_atsi env (gen_expr env l) ref)
      else if op = LEX_TK_MEMB then gen_bexp_memb env l (gen_expr env l) ref lv
      else if op = LEX_TK_AROW then gen_bexp_arow env l (gen_expr env l) ref
      else if op = LEX_TK_CONJ then typed_g t (gen_bexp_conj env (gen_expr env l) (gen_expr env r))
      else if op = LEX_TK_DISJ then typed_g t (gen_bexp_disj env (gen_expr env l) (gen_expr env r))
      else if op = LEX_TK_COMA then gen_bexp_coma (gen_expr env l) (gen_expr env r)
      else typed_g t (gen_bexp_equl env op (gen_expr env l) (gen_expr env r)))"
| "gen_expr env (E_cast op l cast t) lv = gen_bexp_cast env (gen_expr env l) cast"
| "gen_expr env (E_uexp op r t) lv =
     (if op = LEX_TK_PLUS then gen_expr env r False
      else if op \<in> {LEX_TK_MINS, LEX_TK_EXCL, LEX_TK_CARE} then typed_g t (gen_uexp_mins env op (gen_expr env r))
      else if op = LEX_TK_TILD then
        (case r of
           E_fexp l args _ _ \<Rightarrow>
             typed_g t (gen_tild_call env (case args of None \<Rightarrow> ret_g () | Some a \<Rightarrow> gen_args env a) (gen_expr env l))
         | _ \<Rightarrow> typed_g t (gen_tild_value env (gen_expr env r)))
      else if op = LEX_TK_MULT then typed_g t (\<lambda>t. gen_uexp_mult env r (gen_expr env r) t lv)
      else if op = LEX_TK_AMPS then typed_g t (gen_uexp_amps env (gen_expr env r))
      else if op \<in> {LEX_TK_INCR, LEX_TK_DECR} then typed_g t (gen_uexp_incr env op r (gen_expr env r))
      else fail_g Gen_abort)"
| "gen_expr env (E_size op ts t) lv = gen_uexp_szof env op ts"
| "gen_expr env (E_fexp l args _ t) lv =
     typed_g t (gen_fexp env (case args of None \<Rightarrow> ret_g () | Some a \<Rightarrow> gen_args env a) (gen_expr env l))"
| "gen_expr env (E_xexp op l t) lv =
     (if op \<in> {LEX_TK_INCR, LEX_TK_DECR} then typed_g t (gen_xexp_incr env op l (gen_expr env l)) else fail_g Gen_abort)"
| "gen_expr env (E_aexp b i t) lv = typed_g t (\<lambda>t. gen_aexp env i (gen_expr env b) (gen_expr env i) t lv)"
| "gen_expr env (E_texp c x y t) lv = typed_g t (gen_texp env (gen_expr env c) (gen_expr env x) (gen_expr env y))"
| "gen_expr env (E_name _ ob t) lv = bind_g (need_g Gen_abort (ob \<noteq> None)) (\<lambda>_. typed_g t (\<lambda>t. bind_g (the_g ob) (\<lambda>ob. gen_name env ob t)))"
| "gen_expr env (E_nmbr v t) lv = typed_g t (gen_nmbr v)"
| "gen_expr env (E_strl str _) lv = gen_strl env str"
| "gen_expr env E_null lv = fail_g Gen_abort"
| "gen_expr env E_void lv = fail_g Gen_abort"
| "gen_args env (E_bexp op x rest ref t) =
     (if op = LEX_TK_COMA then
        bind_g (value_g (gen_expr env x) False) (\<lambda>r. bind_g (emit env (CODEGEN_OP_PUSH r)) (\<lambda>_.
        if rest = E_null then ret_g () else gen_args env rest))
      else bind_g (value_g (gen_expr env (E_bexp op x rest ref t)) False) (\<lambda>r. emit env (CODEGEN_OP_PUSH r)))"
| "gen_args env a = bind_g (value_g (gen_expr env a) False) (\<lambda>r. emit env (CODEGEN_OP_PUSH r))"

end
