(* ===== verification/Codegen_Unit.thy ===== *)
theory Codegen_Unit
  imports Codegen
begin

text \<open>
  The code generator for statements, functions and the unit (\<^verbatim>\<open>src/codegen.c\<close>): the layout of
  frames and of global data, the code of every function, and linking, which the C code does
  while it prints the instructions.
\<close>

subsection \<open>Statements\<close>

definition gen_decl_auto :: "genv \<Rightarrow> decl \<Rightarrow> expr option \<Rightarrow> unit gen" where
  "gen_decl_auto env d init =
     (case init of
        None \<Rightarrow> ret_g ()
      | Some e \<Rightarrow>
          bind_g (value_g (gen_expr env e) False) (\<lambda>res.
          foldr (\<lambda>n k. bind_g (frame_ofs env n) (\<lambda>x.
              bind_g (emit env (CODEGEN_OP_MOV (opd_auto (signed_type (d_type d)) (ofs_off x) (ofs_size x)) res)) (\<lambda>_. k)))
            (d_names d) (ret_g ())))"

definition gen_retn :: "genv \<Rightarrow> expr option \<Rightarrow> unit gen" where
  "gen_retn env e =
     bind_g (the_g (ge_tag env)) (\<lambda>tag.
     let sz = opd_imm False (ft_frame_size tag + 16) 8 in
     case e of
       None \<Rightarrow> emit env (CODEGEN_OP_RET sz)
     | Some e \<Rightarrow> bind_g (value_g (gen_expr env e) False) (\<lambda>val. emit env (CODEGEN_OP_RETV val sz)))"

text \<open>The expression behind \<open>until\<close> is not generated: the checker has made it a label.\<close>

definition gen_wait :: "genv \<Rightarrow> expr \<Rightarrow> expr option \<Rightarrow> bool \<Rightarrow> bool \<Rightarrow> func option \<Rightarrow> nat \<Rightarrow> unit gen" where
  "gen_wait env q wfor noblock units fn i =
     bind_g (value_g (gen_expr env q) False) (\<lambda>res_quaint.
     bind_g (case wfor of None \<Rightarrow> ret_g (opd_imm False 0 1) | Some e \<Rightarrow> value_g (gen_expr env e) False) (\<lambda>res_timeout.
     bind_g (case fn of
               None \<Rightarrow> ret_g (0, 0)
             | Some f \<Rightarrow> if i < length (f_wlabs f) then ret_g (f_addr f, snd (f_wlabs f ! i)) else fail_g Gen_undefined)
       (\<lambda>(f, wlab_id).
     emit env (CODEGEN_OP_WAIT \<lparr>w_quaint = res_quaint, w_timeout = res_timeout, w_func = f, w_wlab_id = wlab_id,
       w_noblock = noblock, w_units = units, w_has_timeout = (wfor \<noteq> None)\<rparr>))))"

definition gen_wlab :: "genv \<Rightarrow> u64 \<Rightarrow> u64 \<Rightarrow> unit gen" where
  "gen_wlab env f i =
     bind_g (need_g Gen_abort (f \<noteq> 0 \<and> i \<noteq> 0)) (\<lambda>_. emit env (CODEGEN_OP_WLAB f i))"

definition drop_temps :: "unit gen" where
  "drop_temps = set_g (\<lambda>s. s\<lparr>gs_temp_off := 0\<rparr>)"

text \<open>
  A condition with its jump over the branch, and what follows: \<open>rest\<close> is the code after the
  branch, and the jump at the branch's end goes behind all of it.
\<close>

definition gen_branch :: "genv \<Rightarrow> expr \<Rightarrow> unit gen \<Rightarrow> unit gen \<Rightarrow> unit gen" where
  "gen_branch env e blok rest =
     bind_g (value_g (gen_expr env e) False) (\<lambda>res.
     bind_g here (\<lambda>jz_ip.
     bind_g (emit env (CODEGEN_OP_JZ res 0)) (\<lambda>_.
     bind_g drop_temps (\<lambda>_.
     bind_g blok (\<lambda>_.
     bind_g here (\<lambda>end_ip.
     bind_g (emit env (CODEGEN_OP_JMP 0)) (\<lambda>_.
     bind_g (patch_here jz_ip) (\<lambda>_.
     bind_g rest (\<lambda>_. patch_here end_ip)))))))))"

definition gen_whil :: "genv \<Rightarrow> expr \<Rightarrow> unit gen \<Rightarrow> unit gen" where
  "gen_whil env e body =
     bind_g here (\<lambda>jmp_ip.
     bind_g (value_g (gen_expr env e) False) (\<lambda>res.
     bind_g here (\<lambda>jz_ip.
     bind_g (emit env (CODEGEN_OP_JZ res 0)) (\<lambda>_.
     bind_g drop_temps (\<lambda>_.
     bind_g body (\<lambda>_.
     bind_g (emit env (CODEGEN_OP_JMP (word_of_nat jmp_ip))) (\<lambda>_. patch_here jz_ip)))))))"

definition gen_dowh :: "genv \<Rightarrow> expr \<Rightarrow> unit gen \<Rightarrow> unit gen" where
  "gen_dowh env e body =
     bind_g here (\<lambda>jnz_ip.
     bind_g body (\<lambda>_.
     bind_g (value_g (gen_expr env e) False) (\<lambda>res. emit env (CODEGEN_OP_JNZ res (word_of_nat jnz_ip)))))"

text \<open>
  \<open>gen_cond\<close> generates the branches, \<open>gen_blok\<close> takes blocks only. After every statement the
  room of the temporaries is free again.
\<close>

fun gen_stmt :: "genv \<Rightarrow> stmt \<Rightarrow> unit gen"
  and gen_stmts :: "genv \<Rightarrow> stmt list \<Rightarrow> unit gen"
  and gen_blok :: "genv \<Rightarrow> stmt \<Rightarrow> unit gen"
  and gen_elifs :: "genv \<Rightarrow> (expr \<times> stmt) list \<Rightarrow> unit gen \<Rightarrow> unit gen"
where
  "gen_stmt env (S_decl d init) = bind_g (gen_decl_auto env d init) (\<lambda>_. drop_temps)"
| "gen_stmt env (S_blok noint sc ss) = bind_g (gen_blok env (S_blok noint sc ss)) (\<lambda>_. drop_temps)"
| "gen_stmt env (S_cond e s es els) =
     bind_g (gen_branch env e (gen_blok env s)
       (gen_elifs env es (case els of None \<Rightarrow> ret_g () | Some t \<Rightarrow> gen_blok env t))) (\<lambda>_. drop_temps)"
| "gen_stmt env (S_whil e sc ss) = bind_g (gen_whil env e (gen_stmts env ss)) (\<lambda>_. drop_temps)"
| "gen_stmt env (S_dowh e sc ss) = bind_g (gen_dowh env e (gen_stmts env ss)) (\<lambda>_. drop_temps)"
| "gen_stmt env (S_retn e) = bind_g (gen_retn env e) (\<lambda>_. drop_temps)"
| "gen_stmt env (S_wait q wfor wunt noblock units fn i) =
     bind_g (gen_wait env q wfor noblock units fn i) (\<lambda>_. drop_temps)"
| "gen_stmt env (S_wlab _ f i) = bind_g (gen_wlab env f i) (\<lambda>_. drop_temps)"
| "gen_stmt env (S_expr e) =
     bind_g (gen_expr env e False) (\<lambda>_. bind_g (emit env CODEGEN_OP_NOP) (\<lambda>_. drop_temps))"
| "gen_stmt env (S_func _ _ _) = fail_g Gen_abort"
| "gen_stmt env S_skip = fail_g Gen_abort"
| "gen_stmts env [] = ret_g ()"
| "gen_stmts env (s # ss) = bind_g (gen_stmt env s) (\<lambda>_. gen_stmts env ss)"
| "gen_blok env (S_blok noint sc ss) =
     bind_g (if noint then emit env CODEGEN_OP_NOINT else ret_g ()) (\<lambda>_.
     bind_g (gen_stmts env ss) (\<lambda>_.
     if noint then emit env CODEGEN_OP_INT else ret_g ()))"
| "gen_blok env _ = fail_g Gen_abort"
| "gen_elifs env [] els = els"
| "gen_elifs env ((e, s) # es) els = gen_branch env e (gen_blok env s) (gen_elifs env es els)"

definition gen_func :: "genv \<Rightarrow> func \<Rightarrow> stmt list \<Rightarrow> unit gen" where
  "gen_func env f ss =
     bind_g (htab_g (htab_get (ge_funcs env) (f_addr f))) (\<lambda>tag.
     let env = env\<lparr>ge_tag := Some tag\<rparr> in
     bind_g here (\<lambda>incsp_ip.
     bind_g (set_g (\<lambda>s. s\<lparr>gs_locs := (f_addr f, word_of_nat incsp_ip) # gs_locs s\<rparr>)) (\<lambda>_.
     bind_g (emit env (CODEGEN_OP_INCSP (opd_imm False (ft_frame_size tag - ft_args_size tag) 8) (opd_imm False 0 8))) (\<lambda>_.
     bind_g (set_g (\<lambda>s. s\<lparr>gs_temp_peak := 0\<rparr>)) (\<lambda>_.
     bind_g (gen_stmts env ss) (\<lambda>_.
     bind_g (get_g gs_temp_peak) (\<lambda>peak.
     bind_g (patch incsp_ip peak) (\<lambda>_.
     emit env (CODEGEN_OP_RET (opd_imm False (ft_frame_size tag + 16) 8))))))))))"

subsection \<open>The layout of frames and data\<close>

text \<open>Declarations in a block, in the blocks inside it too.\<close>

fun count_block_decls :: "stmt \<Rightarrow> nat"
  and count_stmts_decls :: "stmt list \<Rightarrow> nat"
  and count_elifs_decls :: "(expr \<times> stmt) list \<Rightarrow> nat"
where
  "count_block_decls (S_blok _ _ ss) = count_stmts_decls ss"
| "count_block_decls (S_whil _ _ ss) = count_stmts_decls ss"
| "count_block_decls (S_dowh _ _ ss) = count_stmts_decls ss"
| "count_block_decls (S_decl d _) = length (d_names d)"
| "count_block_decls (S_cond _ s es els) =
     count_block_decls s + count_elifs_decls es + (case els of None \<Rightarrow> 0 | Some t \<Rightarrow> count_block_decls t)"
| "count_block_decls _ = 0"
| "count_stmts_decls [] = 0"
| "count_stmts_decls (s # ss) = count_block_decls s + count_stmts_decls ss"
| "count_elifs_decls [] = 0"
| "count_elifs_decls (e # es) = count_block_decls (snd e) + count_elifs_decls es"

text \<open>A frame while it is laid out: its size so far and the offsets.\<close>

type_synonym frame = "u64 \<times> ofs htab"

definition insert_ofs :: "genv \<Rightarrow> lex_symbol \<Rightarrow> u64 \<Rightarrow> u64 \<Rightarrow> ofs htab \<Rightarrow> frame gen" where
  "insert_ofs env n at sz tab =
     (case htab_insert tab (ge_key env (sym_beg n)) (Some \<lparr>ofs_off = at, ofs_size = sz\<rparr>) of
        Inl _ \<Rightarrow> fail_g Gen_abort
      | Inr tab \<Rightarrow> ret_g (at + sz, tab))"

fun place_params :: "genv \<Rightarrow> (lex_symbol \<times> qtype) list \<Rightarrow> frame \<Rightarrow> frame gen" where
  "place_params env [] fr = ret_g fr"
| "place_params env ((n, t) # ps) fr =
     bind_g (request_g env) (\<lambda>_.
     bind_g (insert_ofs env n (fst fr) (bytes_of t) (snd fr)) (\<lambda>(at, tab).
     place_params env ps (align_up at 8, tab)))"

fun place_names :: "genv \<Rightarrow> qtype \<Rightarrow> lex_symbol list \<Rightarrow> frame \<Rightarrow> frame gen" where
  "place_names env t [] fr = ret_g fr"
| "place_names env t (n # ns) fr =
     bind_g (request_g env) (\<lambda>_.
     bind_g (need_g Gen_undefined (ty_alignment t \<noteq> 0)) (\<lambda>_.
     bind_g (insert_ofs env n (align_up (fst fr) (ty_alignment t)) (bytes_of t) (snd fr)) (place_names env t ns)))"

text \<open>
  \<open>create_frame_layout\<close> is the function of that name on one statement of a block,
  \<open>frame_stmts\<close> its loop.
\<close>

fun create_frame_layout :: "genv \<Rightarrow> stmt \<Rightarrow> frame \<Rightarrow> frame gen"
  and frame_stmts :: "genv \<Rightarrow> stmt list \<Rightarrow> frame \<Rightarrow> frame gen"
  and frame_elifs :: "genv \<Rightarrow> (expr \<times> stmt) list \<Rightarrow> frame \<Rightarrow> frame gen"
where
  "create_frame_layout env (S_decl d _) fr = place_names env (d_type d) (d_names d) fr"
| "create_frame_layout env (S_blok _ _ ss) fr = frame_stmts env ss fr"
| "create_frame_layout env (S_whil _ _ ss) fr = frame_stmts env ss fr"
| "create_frame_layout env (S_dowh _ _ ss) fr = frame_stmts env ss fr"
| "create_frame_layout env (S_cond _ s es els) fr =
     bind_g (create_frame_layout env s fr) (\<lambda>fr.
     bind_g (frame_elifs env es fr) (\<lambda>fr.
     case els of None \<Rightarrow> ret_g fr | Some t \<Rightarrow> create_frame_layout env t fr))"
| "create_frame_layout env S_skip fr = fail_g Gen_abort"
| "create_frame_layout env _ fr = ret_g fr"
| "frame_stmts env [] fr = ret_g fr"
| "frame_stmts env (s # ss) fr = bind_g (create_frame_layout env s fr) (frame_stmts env ss)"
| "frame_elifs env [] fr = ret_g fr"
| "frame_elifs env (e # es) fr = bind_g (create_frame_layout env (snd e) fr) (frame_elifs env es)"

definition func_layout :: "genv \<Rightarrow> func \<Rightarrow> stmt list \<Rightarrow> ofs htab \<Rightarrow> func_tag gen" where
  "func_layout env f ss tab =
     bind_g (place_params env (f_params f) (0, tab)) (\<lambda>(args_size, tab).
     bind_g (frame_stmts env ss (args_size, tab)) (\<lambda>(frame_size, tab).
     ret_g \<lparr>ft_frame_size = align_up frame_size 8, ft_args_size = args_size, ft_layout = tab\<rparr>))"

text \<open>
  The tables of the unit. When memory runs out they are destroyed, and the destructor of
  the functions' tags follows the pointer of every slot, the null pointers of free ones too.
\<close>

definition fresh_htab :: "genv \<Rightarrow> nat \<Rightarrow> 'd htab gen" where
  "fresh_htab env n = bind_g (request_g env) (\<lambda>_. the_g (htab_create True n))"

definition destroy_g :: "func_tag htab \<Rightarrow> 'a gen \<Rightarrow> 'a gen" where
  "destroy_g tab m = (\<lambda>s. case m s of
     Inl CODEGEN_NOMEM \<Rightarrow> Inl (if None \<in> set (htab_destroy (Some tab) True) then Gen_undefined else CODEGEN_NOMEM)
   | r \<Rightarrow> r)"

type_synonym tables = "u64 \<times> ofs htab \<times> func_tag htab"

definition unit_func :: "genv \<Rightarrow> func \<Rightarrow> stmt list \<Rightarrow> func_tag htab \<Rightarrow> func_tag htab gen" where
  "unit_func env f ss funcs =
     bind_g (destroy_g funcs (bind_g (request_g env) (\<lambda>_.
       fresh_htab env (length (f_params f) + count_stmts_decls ss)))) (\<lambda>tab.
     case htab_insert funcs (f_addr f) (Some \<lparr>ft_frame_size = 0, ft_args_size = 0, ft_layout = tab\<rparr>) of
       Inl _ \<Rightarrow> fail_g Gen_abort
     | Inr funcs' \<Rightarrow>
         bind_g (destroy_g funcs' (func_layout env f ss tab)) (\<lambda>tag.
         case htab_insert funcs (f_addr f) (Some tag) of Inl _ \<Rightarrow> fail_g Gen_abort | Inr funcs \<Rightarrow> ret_g funcs))"

fun unit_layouts :: "genv \<Rightarrow> stmt list \<Rightarrow> tables \<Rightarrow> tables gen" where
  "unit_layouts env [] tabs = ret_g tabs"
| "unit_layouts env (s # ss) (data_offset, globals, funcs) =
     (case s of
        S_skip \<Rightarrow> unit_layouts env ss (data_offset, globals, funcs)
      | S_decl d _ \<Rightarrow>
          bind_g (destroy_g funcs (place_names env (d_type d) (d_names d) (data_offset, globals))) (\<lambda>(data_offset, globals).
          unit_layouts env ss (data_offset, globals, funcs))
      | S_func f _ body \<Rightarrow>
          bind_g (unit_func env f body funcs) (\<lambda>funcs. unit_layouts env ss (data_offset, globals, funcs))
      | _ \<Rightarrow> fail_g Gen_abort)"

definition count_top_decls_and_funcs :: "stmt list \<Rightarrow> nat \<times> nat" where
  "count_top_decls_and_funcs ss =
     (sum_list (map (\<lambda>s. case s of S_decl d _ \<Rightarrow> length (d_names d) | _ \<Rightarrow> 0) ss),
      length (filter (\<lambda>s. case s of S_func _ _ _ \<Rightarrow> True | _ \<Rightarrow> False) ss))"

definition create_global_and_frame_layouts :: "genv \<Rightarrow> stmt list \<Rightarrow> tables gen" where
  "create_global_and_frame_layouts env ss =
     (let (decl_count, func_count) = count_top_decls_and_funcs ss in
      bind_g (fresh_htab env decl_count) (\<lambda>globals.
      bind_g (fresh_htab env func_count) (\<lambda>funcs.
      unit_layouts env ss (0, globals, funcs))))"

subsection \<open>Linking\<close>

text \<open>An immediate of size 0 is the address of a function.\<close>

definition link_opd :: "func_tag htab \<Rightarrow> (u64 \<times> u64) list \<Rightarrow> opd \<Rightarrow> gen_error + opd" where
  "link_opd funcs locs x =
     (if opd_kind x = CODEGEN_OPD_IMM \<and> opd_bytes x = 0 then
        (case htab_get funcs (off x) of
           Inl _ \<Rightarrow> Inl Gen_abort
         | Inr None \<Rightarrow> Inl Gen_undefined
         | Inr (Some _) \<Rightarrow>
             (case map_of locs (off x) of
                None \<Rightarrow> Inl Gen_undefined
              | Some l \<Rightarrow> Inr (x\<lparr>off := l, opd_bytes := 8\<rparr>)))
      else Inr x)"

definition link1 :: "(opd \<Rightarrow> 'e + opd) \<Rightarrow> (opd \<Rightarrow> insn) \<Rightarrow> opd \<Rightarrow> 'e + insn" where
  "link1 f mk x = bind_r (f x) (\<lambda>x. Inr (mk x))"

definition link2 :: "(opd \<Rightarrow> 'e + opd) \<Rightarrow> (opd \<Rightarrow> opd \<Rightarrow> insn) \<Rightarrow> opd \<Rightarrow> opd \<Rightarrow> 'e + insn" where
  "link2 f mk x y = bind_r (f x) (\<lambda>x. link1 f (mk x) y)"

definition link3 :: "(opd \<Rightarrow> 'e + opd) \<Rightarrow> (opd \<Rightarrow> opd \<Rightarrow> opd \<Rightarrow> insn) \<Rightarrow> opd \<Rightarrow> opd \<Rightarrow> opd \<Rightarrow> 'e + insn" where
  "link3 f mk x y z = bind_r (f x) (\<lambda>x. link2 f (mk x) y z)"

fun link_insn :: "(opd \<Rightarrow> 'e + opd) \<Rightarrow> insn \<Rightarrow> 'e + insn" where
  "link_insn f (CODEGEN_OP_ARITH aop x y z) = link3 f (CODEGEN_OP_ARITH aop) x y z"
| "link_insn f (CODEGEN_OP_EQU x y z) = link3 f CODEGEN_OP_EQU x y z"
| "link_insn f (CODEGEN_OP_NEQ x y z) = link3 f CODEGEN_OP_NEQ x y z"
| "link_insn f (CODEGEN_OP_CMP cop x y z) = link3 f (CODEGEN_OP_CMP cop) x y z"
| "link_insn f (CODEGEN_OP_DRF x y) = link2 f CODEGEN_OP_DRF x y"
| "link_insn f (CODEGEN_OP_RTEV x y) = link2 f CODEGEN_OP_RTEV x y"
| "link_insn f (CODEGEN_OP_MOV x y) = link2 f CODEGEN_OP_MOV x y"
| "link_insn f (CODEGEN_OP_CAST x y) = link2 f CODEGEN_OP_CAST x y"
| "link_insn f (CODEGEN_OP_REF x y) = link2 f CODEGEN_OP_REF x y"
| "link_insn f (CODEGEN_OP_NOT x y) = link2 f CODEGEN_OP_NOT x y"
| "link_insn f (CODEGEN_OP_NEG x y) = link2 f CODEGEN_OP_NEG x y"
| "link_insn f (CODEGEN_OP_BNEG x y) = link2 f CODEGEN_OP_BNEG x y"
| "link_insn f (CODEGEN_OP_OZ x y) = link2 f CODEGEN_OP_OZ x y"
| "link_insn f (CODEGEN_OP_INCP x y) = link2 f CODEGEN_OP_INCP x y"
| "link_insn f (CODEGEN_OP_DECP x y) = link2 f CODEGEN_OP_DECP x y"
| "link_insn f (CODEGEN_OP_RTE x) = link1 f CODEGEN_OP_RTE x"
| "link_insn f (CODEGEN_OP_INC x) = link1 f CODEGEN_OP_INC x"
| "link_insn f (CODEGEN_OP_DEC x) = link1 f CODEGEN_OP_DEC x"
| "link_insn f (CODEGEN_OP_GETSP x) = link1 f CODEGEN_OP_GETSP x"
| "link_insn f (CODEGEN_OP_QAT x y g i) = link2 f (\<lambda>x y. CODEGEN_OP_QAT x y g i) x y"
| "link_insn f (CODEGEN_OP_QNTV x y) = link2 f CODEGEN_OP_QNTV x y"
| "link_insn f (CODEGEN_OP_QNT x y z) = link3 f CODEGEN_OP_QNT x y z"
| "link_insn f (CODEGEN_OP_WAIT w) =
     link2 f (\<lambda>x y. CODEGEN_OP_WAIT (w\<lparr>w_quaint := x, w_timeout := y\<rparr>)) (w_quaint w) (w_timeout w)"
| "link_insn f (CODEGEN_OP_JZ x l) = link1 f (\<lambda>x. CODEGEN_OP_JZ x l) x"
| "link_insn f (CODEGEN_OP_JNZ x l) = link1 f (\<lambda>x. CODEGEN_OP_JNZ x l) x"
| "link_insn f (CODEGEN_OP_PUSHR x y) = link2 f CODEGEN_OP_PUSHR x y"
| "link_insn f (CODEGEN_OP_PUSH x) = link1 f CODEGEN_OP_PUSH x"
| "link_insn f (CODEGEN_OP_CALL x y) = link2 f CODEGEN_OP_CALL x y"
| "link_insn f (CODEGEN_OP_CALLV x y z) = link3 f CODEGEN_OP_CALLV x y z"
| "link_insn f (CODEGEN_OP_INCSP x y) = link2 f CODEGEN_OP_INCSP x y"
| "link_insn f (CODEGEN_OP_RET x) = link1 f CODEGEN_OP_RET x"
| "link_insn f (CODEGEN_OP_RETV x y) = link2 f CODEGEN_OP_RETV x y"
| "link_insn f i = Inr i"

fun print_insns :: "(opd \<Rightarrow> 'e + opd) \<Rightarrow> insn list \<Rightarrow> 'e + insn list" where
  "print_insns f [] = Inr []"
| "print_insns f (i # is) = bind_r (link_insn f i) (\<lambda>i. bind_r (print_insns f is) (\<lambda>is. Inr (i # is)))"

subsection \<open>The object\<close>

fun gen_unit :: "genv \<Rightarrow> stmt list \<Rightarrow> unit gen" where
  "gen_unit env [] = ret_g ()"
| "gen_unit env (s # ss) =
     bind_g (case s of S_func f _ body \<Rightarrow> gen_func env f body | _ \<Rightarrow> ret_g ()) (\<lambda>_. gen_unit env ss)"

definition gen_start :: gstate where
  "gen_start = \<lparr>gs_requests = 0, gs_insns = [], gs_room = 0, gs_strings = [], gs_strings_room = 0, gs_temp_off = 0,
     gs_temp_peak = 0, gs_strl_sized = False, gs_locs = []\<rparr>"

fun repeat_g :: "nat \<Rightarrow> unit gen \<Rightarrow> unit gen" where
  "repeat_g 0 m = ret_g ()"
| "repeat_g (Suc n) m = bind_g m (\<lambda>_. repeat_g n m)"

definition gen_env :: "(nat \<Rightarrow> bool) \<Rightarrow> (nat \<Rightarrow> u64) \<Rightarrow> tables \<Rightarrow> genv" where
  "gen_env mem_ok key = (\<lambda>(data_offset, globals, funcs).
     \<lparr>ge_mem = mem_ok, ge_key = key, ge_data_size = data_offset, ge_globals = globals, ge_funcs = funcs, ge_tag = None\<rparr>)"

text \<open>The tables do not exist at first.\<close>

definition no_tables :: tables where
  "no_tables = (0, \<lparr>count = 0, items = []\<rparr>, \<lparr>count = 0, items = []\<rparr>)"

definition codegen_obj_create :: "(nat \<Rightarrow> bool) \<Rightarrow> (nat \<Rightarrow> u64) \<Rightarrow> stmt list \<Rightarrow> gen_error + codegen_obj" where
  "codegen_obj_create mem_ok key ss =
     (let env = gen_env mem_ok key no_tables in
      bind_r (bind_g (repeat_g (unat SCOPE_BFUN_ID_COUNT) (emit env CODEGEN_OP_BFUN)) (\<lambda>_.
              bind_g (create_global_and_frame_layouts env ss) (\<lambda>tabs.
              bind_g (gen_unit (gen_env mem_ok key tabs) ss) (\<lambda>_. ret_g tabs))) gen_start) (\<lambda>((data_offset, globals, funcs), s).
      bind_r (print_insns (link_opd funcs (gs_locs s)) (gs_insns s)) (\<lambda>is.
      Inr \<lparr>data_size = unat data_offset, strings = gs_strings s, insns = is\<rparr>)))"

end
