(* ===== verification/Codegen_Laws.thy ===== *)
theory Codegen_Laws
  imports Codegen_Unit
begin

text \<open>
  What holds of generated code. The first part is about jumps: code is only appended, the
  jumps of a piece of code stay inside it, and only the first instruction of a function is
  an \<^verbatim>\<open>INCSP\<close>, so no jump leaves its function.
\<close>

subsection \<open>Code that keeps to itself\<close>

fun target :: "insn \<Rightarrow> u64 option" where
  "target (CODEGEN_OP_JZ c l) = Some l"
| "target (CODEGEN_OP_JNZ c l) = Some l"
| "target (CODEGEN_OP_JMP l) = Some l"
| "target i = None"

fun is_entry :: "insn \<Rightarrow> bool" where
  "is_entry (CODEGEN_OP_INCSP a t) = True"
| "is_entry i = False"

text \<open>The target of an instruction lies between two places of the code.\<close>

definition aims :: "nat \<Rightarrow> nat \<Rightarrow> insn \<Rightarrow> bool" where
  "aims lo hi i \<longleftrightarrow> (\<forall>l. target i = Some l \<longrightarrow> (\<exists>k. l = word_of_nat k \<and> lo \<le> k \<and> k \<le> hi))"

text \<open>
  From \<open>b\<close> on, no function begins and all jumps go to \<open>b\<close> or behind, but those at \<open>P\<close>, which
  wait for their targets.
\<close>

definition within :: "nat \<Rightarrow> nat set \<Rightarrow> insn list \<Rightarrow> bool" where
  "within b P is \<longleftrightarrow> b \<le> length is \<and>
     (\<forall>i. b \<le> i \<and> i < length is \<longrightarrow> \<not> is_entry (is ! i) \<and> (i \<notin> P \<longrightarrow> aims b (length is) (is ! i)))"

definition leads :: "nat \<Rightarrow> nat set \<Rightarrow> 'a gen \<Rightarrow> nat set \<Rightarrow> bool" where
  "leads b P m Q \<longleftrightarrow> (\<forall>s x s'. within b P (gs_insns s) \<and> m s = Inr (x, s') \<longrightarrow>
     within b Q (gs_insns s') \<and> take b (gs_insns s') = take b (gs_insns s))"

definition closes :: "'a gen \<Rightarrow> bool" where
  "closes m \<longleftrightarrow> (\<forall>b P. leads b P m P)"

definition quiet :: "'a gen \<Rightarrow> bool" where
  "quiet m \<longleftrightarrow> (\<forall>s x s'. m s = Inr (x, s') \<longrightarrow> gs_insns s' = gs_insns s)"

named_theorems gen_rules

lemma aims_mono: "aims lo hi i \<Longrightarrow> hi \<le> hi' \<Longrightarrow> lo' \<le> lo \<Longrightarrow> aims lo' hi' i"
  unfolding aims_def by (meson le_trans)

lemma within_snoc:
  assumes "within b P is" and "\<not> is_entry i" and "aims b (Suc (length is)) i \<or> length is \<in> P"
  shows "within b P (is @ [i])"
  using assms aims_mono [of b "length is" _ "Suc (length is)" b]
  unfolding within_def by (auto simp: nth_append less_Suc_eq)

lemma leadsI:
  assumes "\<And>s x s'. within b P (gs_insns s) \<Longrightarrow> m s = Inr (x, s') \<Longrightarrow>
     within b Q (gs_insns s') \<and> take b (gs_insns s') = take b (gs_insns s)"
  shows "leads b P m Q"
  using assms unfolding leads_def by blast

lemma leads_bind:
  assumes "leads b P m Q" and "\<And>x. leads b Q (f x) R"
  shows "leads b P (bind_g m f) R"
proof (rule leadsI)
  fix s :: gstate and x s'
  assume w: "within b P (gs_insns s)" and "bind_g m f s = Inr (x, s')"
  then obtain y s1 where 1: "m s = Inr (y, s1)" and 2: "f y s1 = Inr (x, s')"
    by (auto simp: bind_g_def bind_r_Inr_iff)
  from assms(1) w 1 have "within b Q (gs_insns s1) \<and> take b (gs_insns s1) = take b (gs_insns s)"
    unfolding leads_def by blast
  moreover from this assms(2) [of y] 2 have "within b R (gs_insns s') \<and> take b (gs_insns s') = take b (gs_insns s1)"
    unfolding leads_def by blast
  ultimately show "within b R (gs_insns s') \<and> take b (gs_insns s') = take b (gs_insns s)" by simp
qed

lemma closesD: "closes m \<Longrightarrow> leads b P m P"
  unfolding closes_def by blast

lemma closes_leads: "closes m \<Longrightarrow> (\<And>x. leads b P (f x) Q) \<Longrightarrow> leads b P (bind_g m f) Q"
  by (rule leads_bind [OF closesD])

lemma closes_bind [gen_rules]: "closes m \<Longrightarrow> (\<And>x. closes (f x)) \<Longrightarrow> closes (bind_g m f)"
  unfolding closes_def by (blast intro: leads_bind)

lemma quiet_closes: "quiet m \<Longrightarrow> closes m"
  unfolding quiet_def closes_def leads_def by auto

lemma quiet_bind: "quiet m \<Longrightarrow> (\<And>x. quiet (f x)) \<Longrightarrow> quiet (bind_g m f)"
  unfolding quiet_def by (auto simp: bind_g_def bind_r_Inr_iff)

lemma quiet_basic [intro!, simp]:
  "quiet (ret_g v)" "quiet (fail_g e)" "quiet (get_g h)" "quiet (need_g e c)" "quiet (the_g o')"
  "quiet (htab_g r)" "quiet (request_g env)" "quiet (quantify_g env t)" "quiet (opd_temp sg n)"
  "quiet (temp_for t)" "quiet here" "quiet (insn_at env)" "quiet (push_string env str)"
  "quiet drop_temps"
  unfolding quiet_def temp_for_def
  by (auto simp: ret_g_def fail_g_def get_g_def need_g_def the_g_def htab_g_def request_g_def quantify_g_def
      opd_temp_def here_def insn_at_def push_string_def drop_temps_def set_g_def bind_r_Inr_iff Let_def
      split: if_splits option.splits sum.splits prod.splits type_error.splits)

lemma quiet_more [intro!, simp]:
  "quiet (pointed_g env e t)" "quiet (step_g env e)" "quiet (wlab_ref ref)" "quiet (member_g t ref)"
  "quiet (frame_ofs env n)" "quiet (set_g (\<lambda>s. s\<lparr>gs_temp_off := a\<rparr>))" "quiet (set_g (\<lambda>s. s\<lparr>gs_temp_peak := a\<rparr>))"
  "quiet (set_g (\<lambda>s. s\<lparr>gs_locs := h s\<rparr>))" "quiet (set_g (\<lambda>s. s\<lparr>gs_strl_sized := True\<rparr>))"
proof -
  show set: "quiet (set_g (\<lambda>s. s\<lparr>gs_temp_off := a\<rparr>))" "quiet (set_g (\<lambda>s. s\<lparr>gs_temp_peak := a\<rparr>))"
    "quiet (set_g (\<lambda>s. s\<lparr>gs_locs := h s\<rparr>))" "quiet (set_g (\<lambda>s. s\<lparr>gs_strl_sized := True\<rparr>))"
    by (auto simp: quiet_def set_g_def)
  show pt: "quiet (pointed_g env e t)" for e t
    unfolding pointed_g_def by (auto intro!: quiet_bind set split: qtype.splits expr.splits)
  show "quiet (step_g env e)" unfolding step_g_def by (auto intro!: quiet_bind pt)
  show "quiet (wlab_ref ref)" unfolding wlab_ref_def by (auto split: bexp_ref.splits wfunc.splits)
  show "quiet (member_g t ref)" unfolding member_g_def by (auto simp: Let_def split: qtype.splits)
  show "quiet (frame_ofs env n)" unfolding frame_ofs_def by (auto intro!: quiet_bind)
qed

lemmas closes_quiet [gen_rules] = quiet_basic [THEN quiet_closes] quiet_more [THEN quiet_closes]

lemma emit_Inr:
  assumes "emit env i s = Inr (x, s')"
  shows "gs_insns s' = gs_insns s @ [i]"
  using assms by (auto simp: emit_def bind_g_def bind_r_Inr_iff set_g_def insn_at_def request_g_def Let_def split: if_splits)

lemma leads_emit:
  assumes "\<not> is_entry i" and "\<And>n. b \<le> n \<Longrightarrow> aims b (Suc n) i"
  shows "leads b P (emit env i) P"
proof (rule leadsI)
  fix s :: gstate and x s'
  assume w: "within b P (gs_insns s)" and e: "emit env i s = Inr (x, s')"
  then have "b \<le> length (gs_insns s)" unfolding within_def by simp
  then show "within b P (gs_insns s') \<and> take b (gs_insns s') = take b (gs_insns s)"
    using within_snoc [OF w assms(1)] assms(2) by (simp add: emit_Inr [OF e])
qed

lemma closes_emit [gen_rules]: "target i = None \<Longrightarrow> \<not> is_entry i \<Longrightarrow> closes (emit env i)"
  unfolding closes_def by (auto intro: leads_emit simp: aims_def)


text \<open>A jump to be filled in later, and filling it in.\<close>

lemma leads_jump:
  assumes "\<not> is_entry i" and "\<And>at. b \<le> at \<Longrightarrow> leads b (insert at P) (f at) Q"
  shows "leads b P (bind_g here (\<lambda>at. bind_g (emit env i) (\<lambda>_. f at))) Q"
proof (rule leadsI)
  fix s :: gstate and x s'
  let ?at = "length (gs_insns s)"
  assume w: "within b P (gs_insns s)" and "bind_g here (\<lambda>at. bind_g (emit env i) (\<lambda>_. f at)) s = Inr (x, s')"
  then obtain y s1 where e: "emit env i s = Inr (y, s1)" and f: "f ?at s1 = Inr (x, s')"
    by (auto simp: bind_g_def here_def get_g_def bind_r_Inr_iff)
  have b: "b \<le> ?at" using w unfolding within_def by simp
  have "within b (insert ?at P) (gs_insns s)" using w unfolding within_def by auto
  from within_snoc [OF this assms(1)] have "within b (insert ?at P) (gs_insns s1)"
    by (simp add: emit_Inr [OF e])
  moreover have "take b (gs_insns s1) = take b (gs_insns s)" using b by (simp add: emit_Inr [OF e])
  moreover have "leads b (insert ?at P) (f ?at) Q" by (rule assms(2) [OF b])
  ultimately show "within b Q (gs_insns s') \<and> take b (gs_insns s') = take b (gs_insns s)"
    using f unfolding leads_def by metis
qed

lemma entry_with_loc [simp]: "is_entry (with_loc l i) = is_entry i"
  by (cases i) (simp_all add: with_loc_def)

lemma target_with_loc [simp]: "target (with_loc l i) = map_option (\<lambda>_. l) (target i)"
  by (cases i) (simp_all add: with_loc_def)

lemma within_patch:
  assumes "within b P is" and "b \<le> at"
  shows "within b (P - {at}) (is[at := with_loc (word_of_nat (length is)) (is ! at)])"
proof -
  have "aims b (length is) (with_loc (word_of_nat (length is)) i)" for i
    using assms(1) unfolding aims_def within_def by auto
  then have "\<not> is_entry (is' ! i) \<and> (i \<notin> P - {at} \<longrightarrow> aims b (length is) (is' ! i))"
    if "is' = is[at := with_loc (word_of_nat (length is)) (is ! at)]" and "b \<le> i" and "i < length is" for i is'
    using assms(1) that unfolding within_def by (cases "i = at") auto
  then show ?thesis using assms(1) unfolding within_def by simp
qed

lemma leads_patch_end:
  assumes "b \<le> at" and "P - {at} \<subseteq> Q"
  shows "leads b P (patch_here at) Q"
proof (rule leadsI)
  fix s :: gstate and x s'
  assume w: "within b P (gs_insns s)" and "patch_here at s = Inr (x, s')"
  then have s': "gs_insns s' = (gs_insns s)[at := with_loc (word_of_nat (length (gs_insns s))) (gs_insns s ! at)]"
    by (auto simp: patch_here_def bind_g_def here_def get_g_def bind_r_Inr_iff patch_def set_g_def)
  have "within b Q (gs_insns s')" using within_patch [OF w assms(1)] assms(2) unfolding s' within_def by auto
  then show "within b Q (gs_insns s') \<and> take b (gs_insns s') = take b (gs_insns s)"
    using assms(1) by (simp add: s')
qed

lemma leads_patch:
  assumes "b \<le> at" and "leads b (P - {at}) f Q"
  shows "leads b P (bind_g (patch_here at) (\<lambda>_. f)) Q"
  by (rule leads_bind [OF leads_patch_end [OF assms(1) order_refl] assms(2)])

lemma leads_mono: "leads b P m Q \<Longrightarrow> Q \<subseteq> Q' \<Longrightarrow> leads b P m Q'"
  unfolding leads_def within_def by blast

text \<open>A piece of code closes when this is shown with \<open>b\<close> at its beginning.\<close>

lemma within_start: "within (length is) {} is"
  unfolding within_def by auto

lemma within_compose:
  assumes "within b P is" and "length is \<le> length js" and "take (length is) js = is"
    and "within (length is) {} js"
  shows "within b P js"
proof -
  have w: "b \<le> length is" "\<And>i. b \<le> i \<Longrightarrow> i < length is \<Longrightarrow> \<not> is_entry (is ! i) \<and> (i \<notin> P \<longrightarrow> aims b (length is) (is ! i))"
    using assms(1) unfolding within_def by auto
  have old: "js ! i = is ! i" if "i < length is" for i
    using arg_cong [OF assms(3), of "\<lambda>xs. xs ! i"] that by simp
  have "\<not> is_entry (js ! i) \<and> (i \<notin> P \<longrightarrow> aims b (length js) (js ! i))" if "b \<le> i" and "i < length js" for i
  proof (cases "i < length is")
    case True
    then show ?thesis using w(2) [OF that(1) True] old [OF True] aims_mono [OF _ assms(2) order_refl] by auto
  next
    case False
    then have "\<not> is_entry (js ! i) \<and> aims (length is) (length js) (js ! i)"
      using assms(4) that(2) unfolding within_def by auto
    then show ?thesis using aims_mono [OF _ order_refl w(1)] by auto
  qed
  then show ?thesis using w(1) assms(2) unfolding within_def by auto
qed

lemma closesI_at:
  assumes "\<And>s x s'. m s = Inr (x, s') \<Longrightarrow>
     within (length (gs_insns s)) {} (gs_insns s') \<and> take (length (gs_insns s)) (gs_insns s') = gs_insns s"
  shows "closes m"
  unfolding closes_def
proof (intro allI leadsI)
  fix b P and s :: gstate and x s'
  let ?n = "length (gs_insns s)"
  assume w: "within b P (gs_insns s)" and "m s = Inr (x, s')"
  then have 1: "within ?n {} (gs_insns s')" and 2: "take ?n (gs_insns s') = gs_insns s"
    using assms by auto
  have "?n \<le> length (gs_insns s')" using 1 unfolding within_def by simp
  moreover have "b \<le> ?n" using w unfolding within_def by simp
  ultimately show "within b P (gs_insns s') \<and> take b (gs_insns s') = take b (gs_insns s)"
    using within_compose [OF w _ 2 1] 2 by (metis min.absorb1 take_take)
qed

lemma closesI: "(\<And>b. leads b {} m {}) \<Longrightarrow> closes m"
  using within_start by (intro closesI_at) (force simp: leads_def)

text \<open>A loop jumps back to where it begins.\<close>

lemma closes_here:
  assumes "\<And>b. leads b {} (f b) {}"
  shows "closes (bind_g here f)"
proof (rule closesI_at)
  fix s :: gstate and x s'
  let ?n = "length (gs_insns s)"
  assume "bind_g here f s = Inr (x, s')"
  then have "f ?n s = Inr (x, s')" by (auto simp: bind_g_def here_def get_g_def bind_r_Inr_iff)
  with assms [of ?n] show "within ?n {} (gs_insns s') \<and> take ?n (gs_insns s') = gs_insns s"
    using within_start [of "gs_insns s"] unfolding leads_def by fastforce
qed

lemma leads_done: "closes m \<Longrightarrow> P \<subseteq> Q \<Longrightarrow> leads b P m Q"
  by (rule leads_mono [OF closesD])

lemma leads_if: "(c \<Longrightarrow> leads b P m Q) \<Longrightarrow> (\<not> c \<Longrightarrow> leads b P n Q) \<Longrightarrow> leads b P (if c then m else n) Q"
  by simp

lemmas leads_steps = leads_if leads_jump leads_patch leads_patch_end closes_leads leads_done

subsection \<open>Expressions\<close>

lemma closes_if [gen_rules]: "(c \<Longrightarrow> closes m) \<Longrightarrow> (\<not> c \<Longrightarrow> closes n) \<Longrightarrow> closes (if c then m else n)"
  by simp

lemma closes_option [gen_rules]:
  "closes m \<Longrightarrow> (\<And>x. v = Some x \<Longrightarrow> closes (f x)) \<Longrightarrow> closes (case v of None \<Rightarrow> m | Some x \<Rightarrow> f x)"
  by (cases v) auto

lemma closes_prod [gen_rules]: "(\<And>x y. p = (x, y) \<Longrightarrow> closes (f x y)) \<Longrightarrow> closes (case p of (x, y) \<Rightarrow> f x y)"
  by (cases p) auto

lemma closes_Let [gen_rules]: "(\<And>x. closes (f x)) \<Longrightarrow> closes (let x = v in f x)"
  by simp

lemma closes_value [gen_rules]: "closes (p lv) \<Longrightarrow> closes (value_g p lv)"
  unfolding value_g_def by (intro gen_rules)

lemma closes_typed [gen_rules]: "(\<And>t. closes (f t)) \<Longrightarrow> closes (typed_g t f)"
  unfolding typed_g_def by (intro gen_rules)

lemma leads_value: "(\<And>lv. closes (p lv)) \<Longrightarrow> (\<And>x. leads b P (f x) Q) \<Longrightarrow> leads b P (bind_g (value_g p lv) f) Q"
  by (rule closes_leads [OF closes_value])

lemma bin_insn_plain: "bin_insn tk = Some mk \<Longrightarrow> target (mk x y z) = None \<and> \<not> is_entry (mk x y z)"
  by (auto simp: bin_insn_def split: if_splits)

lemma un_insn_plain:
  "map_of [(LEX_TK_MINS, CODEGEN_OP_NEG), (LEX_TK_EXCL, CODEGEN_OP_NOT), (LEX_TK_CARE, CODEGEN_OP_BNEG)] tk = Some mk
    \<Longrightarrow> target (mk x y) = None \<and> \<not> is_entry (mk x y)"
  by (auto split: if_splits)

lemma closes_binary [gen_rules]:
  assumes l: "\<And>lv. closes (l lv)" and r: "\<And>lv. closes (r lv)"
  shows "closes (gen_bexp_assn env l r)" "closes (gen_bexp_asmu env tk l r)" "closes (gen_bexp_equl env tk l r t)"
    "closes (gen_bexp_plus env tk le l r t)" "closes (gen_bexp_coma l r)"
  unfolding gen_bexp_assn_def gen_bexp_asmu_def gen_bexp_equl_def gen_bexp_plus_def gen_bexp_coma_def
  by (intro gen_rules l r | simp add: bin_insn_plain)+

lemma closes_member [gen_rules]:
  assumes l: "\<And>lv. closes (l lv)"
  shows "closes (gen_bexp_atsi env l ref t)" "closes (gen_bexp_memb env le l ref lv)" "closes (gen_bexp_arow env le l ref)"
    "closes (gen_bexp_cast env l cast)"
  unfolding gen_bexp_atsi_def gen_bexp_memb_def gen_bexp_arow_def gen_bexp_cast_def
  by (intro gen_rules l | simp)+

lemma closes_szof [gen_rules]: "closes (gen_uexp_szof env tk ts)"
  unfolding gen_uexp_szof_def by (intro gen_rules)

lemma closes_scop [gen_rules]: "closes (gen_bexp_scop r t)"
  unfolding gen_bexp_scop_def by (cases t; cases r) (simp_all add: gen_rules Let_def)

lemma closes_unary [gen_rules]:
  assumes r: "\<And>lv. closes (r lv)"
  shows "closes (gen_uexp_mins env tk r t)" "closes (gen_tild_value env r t)" "closes (gen_uexp_mult env re r t lv)"
    "closes (gen_uexp_amps env r t)" "closes (gen_uexp_incr env tk re r t)" 
    "closes (gen_xexp_incr env tk re r t)"
  unfolding gen_uexp_mins_def gen_tild_value_def gen_uexp_mult_def gen_uexp_amps_def gen_uexp_incr_def
    gen_xexp_incr_def
  by (intro gen_rules r | simp add: un_insn_plain del: map_of.simps)+

lemma closes_calls [gen_rules]:
  assumes "closes args" and l: "\<And>lv. closes (l lv)"
  shows "closes (gen_tild_call env args l t)"
  unfolding gen_tild_call_def by (intro gen_rules l assms(1) | simp)+

lemma closes_aexp [gen_rules]:
  assumes p: "\<And>lv. closes (p lv)" and i: "\<And>lv. closes (i lv)"
  shows "closes (gen_aexp env offe p i t lv)"
  unfolding gen_aexp_def by (intro gen_rules p i | simp)+

lemma closes_atoms [gen_rules]:
  "closes (gen_name env ob t)" "closes (gen_nmbr v t)" "closes (gen_strl env str)"
proof -
  show "closes (gen_name env ob t)" unfolding gen_name_def
    by (cases ob) (auto simp: Let_def intro!: gen_rules)
  show "closes (gen_nmbr v t)" "closes (gen_strl env str)" unfolding gen_nmbr_def gen_strl_def
    by (intro gen_rules | simp)+
qed

text \<open>The expressions with jumps.\<close>

lemma closes_jumps [gen_rules]:
  assumes l: "\<And>lv. closes (l lv)" and r: "\<And>lv. closes (r lv)"
  shows "closes (gen_bexp_conj env l r t)" "closes (gen_bexp_disj env l r t)"
  unfolding gen_bexp_conj_def gen_bexp_disj_def
  by (rule closesI, (rule leads_steps; (intro gen_rules l r)?; (auto; fail)?)+)+

lemma closes_call [gen_rules]:
  assumes "closes args" and l: "\<And>lv. closes (l lv)"
  shows "closes (gen_fexp env args l t)"
  unfolding gen_fexp_def
  by (rule closesI, (rule leads_steps; (intro gen_rules l assms(1))?; (auto; fail)?)+)

lemma closes_texp [gen_rules]:
  assumes p: "\<And>lv. closes (p lv)" and x: "\<And>lv. closes (x lv)" and y: "\<And>lv. closes (y lv)"
  shows "closes (gen_texp env p x y t)"
  unfolding gen_texp_def
  by (rule closesI, (rule leads_steps; (intro gen_rules p x y)?; (auto; fail)?)+)

lemma closes_push [gen_rules]: "(\<And>lv. closes (p lv)) \<Longrightarrow> closes (bind_g (value_g p False) (\<lambda>r. emit env (CODEGEN_OP_PUSH r)))"
  by (intro gen_rules) simp_all

lemma closes_tild [gen_rules]:
  "(\<And>l args q t. r = E_fexp l args q t \<Longrightarrow> closes (f l args q t)) \<Longrightarrow>
   ((\<And>l args q t. r \<noteq> E_fexp l args q t) \<Longrightarrow> closes y) \<Longrightarrow>
   closes (case r of E_fexp l args q t \<Rightarrow> f l args q t | _ \<Rightarrow> y)"
  by (cases r) auto

lemma closes_expr: "closes (gen_expr env e lv)" "closes (gen_args env e)"
proof (induction env e lv and env e rule: gen_expr_gen_args.induct)
  case (1 env op l r ref t lv)
  show ?case unfolding gen_expr.simps by (intro gen_rules) (rule 1; assumption)+
next
  case (3 env op r t lv)
  show ?case unfolding gen_expr.simps
  proof (intro gen_rules, (rule 3; assumption)+)
    fix t' lv
    assume op: "op \<noteq> LEX_TK_PLUS" "op \<notin> {LEX_TK_MINS, LEX_TK_EXCL, LEX_TK_CARE}" "op = LEX_TK_TILD"
      and "\<And>l args q t. r \<noteq> E_fexp l args q t"
    then show "closes (gen_expr env r lv)" by (cases r) (rule 3; assumption | blast)+
  qed (rule 3; assumption)+
next
  case (14 env op x rest ref t)
  show ?case unfolding gen_args.simps
    by (intro gen_rules) (rule 14; assumption | simp del: gen_expr.simps)+
qed (auto intro!: gen_rules simp del: if_split)

subsection \<open>Statements\<close>

lemma closes_decl [gen_rules]: "closes (gen_decl_auto env d init)"
proof -
  have "closes (foldr (\<lambda>n k. bind_g (frame_ofs env n) (\<lambda>x.
      bind_g (emit env (CODEGEN_OP_MOV (opd_auto sg (ofs_off x) (ofs_size x)) res)) (\<lambda>_. k))) ns (ret_g ()))" for sg res ns
    by (induction ns) (simp_all add: gen_rules)
  then show ?thesis unfolding gen_decl_auto_def by (intro gen_rules closes_expr)
qed

lemma closes_leaves [gen_rules]:
  "closes (gen_retn env e)" "closes (gen_wait env q wfor noblock units fn i)" "closes (gen_wlab env f n)"
  unfolding gen_retn_def gen_wait_def gen_wlab_def by (intro gen_rules closes_expr | simp)+

lemma closes_branch [gen_rules]:
  assumes "closes blok" and "closes rest"
  shows "closes (gen_branch env e blok rest)"
  unfolding gen_branch_def
  by (rule closesI, (rule leads_steps; (intro gen_rules closes_expr assms)?; (auto; fail)?)+)

lemma leads_back: "leads b P (emit env (CODEGEN_OP_JMP (word_of_nat b))) P"
  "leads b P (emit env (CODEGEN_OP_JNZ c (word_of_nat b))) P"
  by (rule leads_emit; auto simp: aims_def)+

lemma closes_loops [gen_rules]:
  assumes "closes body"
  shows "closes (gen_whil env e body)" "closes (gen_dowh env e body)"
  unfolding gen_whil_def gen_dowh_def
  by (rule closes_here, (rule leads_back leads_bind [OF leads_back(1)] leads_steps; (intro gen_rules closes_expr assms)?; (auto; fail)?)+)+

lemma closes_stmt:
  "closes (gen_stmt env s)" "closes (gen_stmts env ss)" "closes (gen_blok env s)"
  "closes els \<Longrightarrow> closes (gen_elifs env es els)"
proof (induction env s and env ss and env s and env es els
    rule: gen_stmt_gen_stmts_gen_blok_gen_elifs.induct)
  case (2 env noint sc ss)
  then show ?case unfolding gen_stmt.simps by (intro gen_rules)
qed (auto intro!: gen_rules closes_expr simp del: if_split)

subsection \<open>Functions\<close>

text \<open>Every jump stays in the code and passes no entry.\<close>

definition contained :: "insn list \<Rightarrow> bool" where
  "contained is \<longleftrightarrow> (\<forall>i l. i < length is \<longrightarrow> target (is ! i) = Some l \<longrightarrow>
     (\<exists>k. l = word_of_nat k \<and> k < length is \<and> (\<forall>j. min i k \<le> j \<and> j \<le> max i k \<longrightarrow> \<not> is_entry (is ! j))))"

lemma contained_function:
  assumes old: "contained is" and e: "target e = None" and r: "target r = None" "\<not> is_entry r"
    and body: "within (Suc (length is)) {} (is @ e # body)"
  shows "contained (is @ e # body @ [r])"
  unfolding contained_def
proof (intro allI impI)
  fix i l
  let ?all = "is @ e # body @ [r]" and ?n = "length is"
  assume i: "i < length ?all" and l: "target (?all ! i) = Some l"
  have inner: "\<not> is_entry (?all ! j)" if "?n < j" "j < length ?all" for j
  proof (cases "j < length (is @ e # body)")
    case True
    then have "\<not> is_entry ((is @ e # body) ! j)" using body that unfolding within_def by auto
    then show ?thesis using nth_append [of "is @ e # body" "[r]" j] True by simp
  next
    case False
    then have "j = length (is @ e # body)" using that by simp
    then have "?all ! j = r" using nth_append_length [of "is @ e # body" r "[]"] by simp
    then show ?thesis using r by simp
  qed
  show "\<exists>k. l = word_of_nat k \<and> k < length ?all \<and> (\<forall>j. min i k \<le> j \<and> j \<le> max i k \<longrightarrow> \<not> is_entry (?all ! j))"
  proof (cases "i < ?n")
    case True
    then have "target (is ! i) = Some l" using l by (simp add: nth_append)
    from old [unfolded contained_def, rule_format, OF True this]
    obtain k where k: "l = word_of_nat k" "k < ?n" "\<forall>j. min i k \<le> j \<and> j \<le> max i k \<longrightarrow> \<not> is_entry (is ! j)"
      by blast
    have "j < ?n" if "j \<le> max i k" for j using that True k(2) by simp
    then have "\<not> is_entry (?all ! j)" if "min i k \<le> j \<and> j \<le> max i k" for j
      using k(3) that by (simp add: nth_append)
    then show ?thesis using k by (intro exI [of _ k]) simp
  next
    case False
    have "i \<noteq> ?n" using l e by (auto simp: nth_append)
    moreover have "i \<noteq> length (is @ e # body)"
      using l r nth_append_length [of "is @ e # body" r "[]"] by auto
    ultimately have i': "?n < i" "i < length (is @ e # body)" using False i by auto
    then have "aims (Suc ?n) (length (is @ e # body)) ((is @ e # body) ! i)" using body unfolding within_def by auto
    moreover have "(is @ e # body) ! i = ?all ! i" using nth_append [of "is @ e # body" "[r]" i] i'(2) by simp
    ultimately obtain k where k: "l = word_of_nat k" "Suc ?n \<le> k" "k \<le> length (is @ e # body)"
      using l unfolding aims_def by auto
    then show ?thesis using inner i' by (intro exI [of _ k]) auto
  qed
qed


lemma gen_func_code:
  assumes "gen_func env f ss s = Inr (x, s')"
  obtains e body r where "gs_insns s' = gs_insns s @ e # body @ [r]" "target e = None" "target r = None"
    "\<not> is_entry r" "within (Suc (length (gs_insns s))) {} (gs_insns s @ e # body)"
proof -
  let ?b = "Suc (length (gs_insns s))"
  obtain env' s1 s2 y p i r where body: "gen_stmts env' ss s1 = Inr (y, s2)"
    and s1: "gs_insns s1 = gs_insns s @ [i]"
    and i: "target i = None" and r: "target r = None" "\<not> is_entry r"
    and s': "gs_insns s' = (gs_insns s2)[length (gs_insns s) := with_loc p (gs_insns s2 ! length (gs_insns s))] @ [r]"
  proof -
    obtain tag sa where "htab_g (htab_get (ge_funcs env) (f_addr f)) s = Inr (tag, sa)" and
      rest: "bind_g here (\<lambda>incsp_ip.
       bind_g (set_g (\<lambda>s. s\<lparr>gs_locs := (f_addr f, word_of_nat incsp_ip) # gs_locs s\<rparr>)) (\<lambda>_.
       bind_g (emit (env\<lparr>ge_tag := Some tag\<rparr>) (CODEGEN_OP_INCSP (opd_imm False (ft_frame_size tag - ft_args_size tag) 8) (opd_imm False 0 8))) (\<lambda>_.
       bind_g (set_g (\<lambda>s. s\<lparr>gs_temp_peak := 0\<rparr>)) (\<lambda>_.
       bind_g (gen_stmts (env\<lparr>ge_tag := Some tag\<rparr>) ss) (\<lambda>_.
       bind_g (get_g gs_temp_peak) (\<lambda>peak.
       bind_g (patch incsp_ip peak) (\<lambda>_.
       emit (env\<lparr>ge_tag := Some tag\<rparr>) (CODEGEN_OP_RET (opd_imm False (ft_frame_size tag + 16) 8))))))))) sa = Inr (x, s')"
      using assms by (auto simp: gen_func_def bind_g_def bind_r_Inr_iff Let_def)
    have "gs_insns sa = gs_insns s"
      using \<open>htab_g _ s = _\<close> quiet_basic(6) [of "htab_get (ge_funcs env) (f_addr f)"] unfolding quiet_def by blast
    with rest show thesis
      by (auto simp: bind_g_def bind_r_Inr_iff here_def get_g_def set_g_def patch_def dest!: emit_Inr intro!: that)
  qed
  have "leads ?b {} (gen_stmts env' ss) {}" by (rule closesD [OF closes_stmt(2)])
  then have w: "within ?b {} (gs_insns s2)" and t: "take ?b (gs_insns s2) = gs_insns s @ [i]"
    using body within_start [of "gs_insns s1"] unfolding leads_def
    by (metis (no_types, lifting) length_append_singleton s1 take_all order_refl)+
  then obtain body' where s2: "gs_insns s2 = gs_insns s @ i # body'"
    by (metis append.assoc append_Cons append_Nil append_take_drop_id)
  show thesis
  proof (rule that [of "with_loc p i" body' r])
    show "gs_insns s' = gs_insns s @ with_loc p i # body' @ [r]" by (simp add: s' s2)
    show "within ?b {} (gs_insns s @ with_loc p i # body')"
      using w unfolding within_def s2 by (auto simp: nth_append nth_Cons split: nat.splits)
  qed (use i r in simp_all)
qed

lemma gen_unit_contained:
  "gen_unit env ss s = Inr (x, s') \<Longrightarrow> contained (gs_insns s) \<Longrightarrow> contained (gs_insns s')"
proof (induction ss arbitrary: s)
  case (Cons st ss)
  then obtain y s1 where
    1: "(case st of S_func f _ body \<Rightarrow> gen_func env f body | _ \<Rightarrow> ret_g ()) s = Inr (y, s1)"
    and 2: "gen_unit env ss s1 = Inr (x, s')"
    by (auto simp: bind_g_def bind_r_Inr_iff)
  have "contained (gs_insns s1)"
  proof (cases st)
    case (S_func f sc body)
    with 1 have "gen_func env f body s = Inr (y, s1)" by simp
    then show ?thesis by (rule gen_func_code) (simp add: contained_function Cons.prems(2))
  qed (use 1 Cons.prems(2) in \<open>auto simp: ret_g_def\<close>)
  then show ?case by (rule Cons.IH [OF 2])
qed (simp add: ret_g_def)

subsection \<open>Layouts leave the code alone\<close>

named_theorems quiet_rules

lemma quiet_steps [quiet_rules]:
  "quiet m \<Longrightarrow> (\<And>x. quiet (f x)) \<Longrightarrow> quiet (bind_g m f)"
  "(c \<Longrightarrow> quiet m) \<Longrightarrow> (\<not> c \<Longrightarrow> quiet n) \<Longrightarrow> quiet (if c then m else n)"
  "(\<And>x y. p = (x, y) \<Longrightarrow> quiet (g x y)) \<Longrightarrow> quiet (case p of (x, y) \<Rightarrow> g x y)"
  "(\<And>e. quiet (h e)) \<Longrightarrow> (\<And>y. quiet (k y)) \<Longrightarrow> quiet (case v of Inl e \<Rightarrow> h e | Inr y \<Rightarrow> k y)"
  by (auto intro: quiet_bind split: sum.split prod.split)

lemma quiet_place [quiet_rules]: "quiet (insert_ofs env n a sz tab)"
  unfolding insert_ofs_def by (intro quiet_rules) simp_all

lemma quiet_names [quiet_rules]: "quiet (place_names env t ns fr)" "quiet (place_params env ps fr')"
  by (induction ns arbitrary: fr) (simp_all add: quiet_rules, induction env ps fr' rule: place_params.induct,
    auto intro!: quiet_rules)

lemma quiet_frame [quiet_rules]:
  "quiet (create_frame_layout env s fr)" "quiet (frame_stmts env ss fr)" "quiet (frame_elifs env es fr)"
  by (induction env s fr and env ss fr and env es fr rule: create_frame_layout_frame_stmts_frame_elifs.induct)
    (auto intro!: quiet_rules split: option.split)

lemma quiet_destroy [quiet_rules]: "quiet m \<Longrightarrow> quiet (destroy_g tab m)"
  unfolding quiet_def destroy_g_def by (auto split: sum.splits gen_error.splits)

lemma quiet_layouts: "quiet (create_global_and_frame_layouts env ss)"
proof -
  have fresh: "quiet (fresh_htab env n)" for n :: nat unfolding fresh_htab_def by (intro quiet_rules) simp_all
  have fn: "quiet (unit_func env f ss funcs)" for env f ss funcs
    unfolding unit_func_def func_layout_def fresh_htab_def by (intro quiet_rules) (simp_all add: quiet_rules)
  have "quiet (unit_layouts env ss tabs)" for env tabs
    by (induction env ss tabs rule: unit_layouts.induct)
      (auto intro!: quiet_rules fn split: stmt.split)
  then show ?thesis unfolding create_global_and_frame_layouts_def by (auto intro!: quiet_rules fresh)
qed

subsection \<open>Linking\<close>

lemma link_insn_kind:
  "link_insn f i = Inr j \<Longrightarrow> target j = target i \<and> is_entry j = is_entry i"
  by (cases i) (auto simp: link1_def link2_def link3_def bind_r_Inr_iff)

lemma print_insns_kinds:
  "print_insns f is = Inr js \<Longrightarrow>
    map (\<lambda>i. (target i, is_entry i)) js = map (\<lambda>i. (target i, is_entry i)) is"
  by (induction f "is" arbitrary: js rule: print_insns.induct) (auto simp: bind_r_Inr_iff dest: link_insn_kind)

lemma contained_kinds:
  assumes kinds: "map (\<lambda>i. (target i, is_entry i)) js = map (\<lambda>i. (target i, is_entry i)) is" and "contained is"
  shows "contained js"
proof -
  have n: "length js = length is" using kinds by (rule map_eq_imp_length_eq)
  have same: "target (js ! i) = target (is ! i)" "is_entry (js ! i) = is_entry (is ! i)" if "i < length is" for i
    using arg_cong [OF kinds, of "\<lambda>xs. xs ! i"] that n by simp_all
  show ?thesis unfolding contained_def n
  proof (intro allI impI)
    fix i l
    assume i: "i < length is" and "target (js ! i) = Some l"
    then have "target (is ! i) = Some l" by (simp add: same(1))
    with assms(2) i obtain k where k: "l = word_of_nat k" "k < length is"
      "\<And>j. min i k \<le> j \<and> j \<le> max i k \<Longrightarrow> \<not> is_entry (is ! j)"
      unfolding contained_def by blast
    have "\<not> is_entry (js ! j)" if "min i k \<le> j \<and> j \<le> max i k" for j
      using k(2) k(3) [OF that] that i same(2) [of j] by (simp add: max_def split: if_splits)
    then show "\<exists>k. l = word_of_nat k \<and> k < length is \<and> (\<forall>j. min i k \<le> j \<and> j \<le> max i k \<longrightarrow> \<not> is_entry (js ! j))"
      using k by blast
  qed
qed

text \<open>The phases of the generator: the code begins with the built-in functions.\<close>

lemma codegen_phases:
  assumes "codegen_obj_create mem_ok key ss = Inr obj"
  obtains tabs s1 s2 y where "gs_insns s1 = replicate (unat SCOPE_BFUN_ID_COUNT) CODEGEN_OP_BFUN"
    "gen_unit (gen_env mem_ok key tabs) ss s1 = Inr (y, s2)"
    "print_insns (link_opd (snd (snd tabs)) (gs_locs s2)) (gs_insns s2) = Inr (insns obj)"
proof -
  let ?env = "gen_env mem_ok key no_tables"
  obtain s0 s1 s2 tabs y where
    bf: "repeat_g (unat SCOPE_BFUN_ID_COUNT) (emit ?env CODEGEN_OP_BFUN) gen_start = Inr (y, s0)"
    and lay: "create_global_and_frame_layouts ?env ss s0 = Inr (tabs, s1)"
    and un: "gen_unit (gen_env mem_ok key tabs) ss s1 = Inr (y, s2)"
    and pr: "print_insns (link_opd (snd (snd tabs)) (gs_locs s2)) (gs_insns s2) = Inr (insns obj)"
    using assms by (auto simp: codegen_obj_create_def bind_r_Inr_iff bind_g_def ret_g_def Let_def split: prod.splits)
  have "gs_insns s' = gs_insns s @ replicate n CODEGEN_OP_BFUN"
    if "repeat_g n (emit ?env CODEGEN_OP_BFUN) s = Inr (y, s')" for n s s'
    using that by (induction n arbitrary: s)
      (auto simp: ret_g_def bind_g_def bind_r_Inr_iff replicate_append_same [symmetric] dest!: emit_Inr)
  from this [OF bf] have "gs_insns s0 = replicate (unat SCOPE_BFUN_ID_COUNT) CODEGEN_OP_BFUN"
    by (simp add: gen_start_def)
  moreover have "gs_insns s1 = gs_insns s0" using quiet_layouts lay unfolding quiet_def by blast
  ultimately show thesis using that un pr by simp
qed

lemma codegen_contained:
  assumes "codegen_obj_create mem_ok key ss = Inr obj"
  shows "contained (insns obj)"
  using assms
proof (rule codegen_phases)
  fix tabs s1 s2 y
  assume "gs_insns s1 = replicate (unat SCOPE_BFUN_ID_COUNT) CODEGEN_OP_BFUN"
    and un: "gen_unit (gen_env mem_ok key tabs) ss s1 = Inr (y, s2)"
    and pr: "print_insns (link_opd (snd (snd tabs)) (gs_locs s2)) (gs_insns s2) = Inr (insns obj)"
  then have "contained (gs_insns s1)" unfolding contained_def by auto
  then have "contained (gs_insns s2)" by (rule gen_unit_contained [OF un])
  then show ?thesis by (rule contained_kinds [OF print_insns_kinds [OF pr]])
qed

text \<open>Functions make the code longer, nothing else does.\<close>

definition has_func :: "stmt list \<Rightarrow> bool" where
  "has_func ss \<longleftrightarrow> (\<exists>f sc body. S_func f sc body \<in> set ss)"

lemma gen_unit_length:
  "gen_unit env ss s = Inr (x, s') \<Longrightarrow>
    length (gs_insns s) \<le> length (gs_insns s') \<and> (length (gs_insns s) < length (gs_insns s') \<longleftrightarrow> has_func ss)"
proof (induction ss arbitrary: s)
  case (Cons st ss)
  then obtain y s1 where
    1: "(case st of S_func f _ body \<Rightarrow> gen_func env f body | _ \<Rightarrow> ret_g ()) s = Inr (y, s1)"
    and 2: "gen_unit env ss s1 = Inr (x, s')"
    by (auto simp: bind_g_def bind_r_Inr_iff)
  show ?case
  proof (cases st)
    case (S_func f sc body)
    with 1 have "gen_func env f body s = Inr (y, s1)" by simp
    then have "length (gs_insns s) < length (gs_insns s1)" by (rule gen_func_code) simp
    then show ?thesis using Cons.IH [OF 2] S_func by (auto simp: has_func_def)
  qed (use 1 Cons.IH [OF 2] in \<open>auto simp: ret_g_def has_func_def\<close>)
qed (simp add: ret_g_def has_func_def)

lemma codegen_length:
  assumes "codegen_obj_create mem_ok key ss = Inr obj"
  shows "if has_func ss then unat SCOPE_BFUN_ID_COUNT < length (insns obj)
    else length (insns obj) = unat SCOPE_BFUN_ID_COUNT"
  using assms
proof (rule codegen_phases)
  fix tabs s1 s2 y
  assume s1: "gs_insns s1 = replicate (unat SCOPE_BFUN_ID_COUNT) CODEGEN_OP_BFUN"
    and un: "gen_unit (gen_env mem_ok key tabs) ss s1 = Inr (y, s2)"
    and "print_insns (link_opd (snd (snd tabs)) (gs_locs s2)) (gs_insns s2) = Inr (insns obj)"
  then have "length (insns obj) = length (gs_insns s2)" by (blast dest: print_insns_kinds map_eq_imp_length_eq)
  then show ?thesis using gen_unit_length [OF un] s1 by auto
qed

subsection \<open>A small unit\<close>

text \<open>\<^verbatim>\<open>g { y: u16; do { } while (1); }\<close>, without the declaration in the unit.\<close>

definition demo_u8 :: qtype where
  "demo_u8 = Ty_prim TYPE_U8 \<lparr>lay_count = 1, lay_size = 1, lay_alignment = 1\<rparr>"

definition demo_u16 :: qtype where
  "demo_u16 = Ty_prim TYPE_U16 \<lparr>lay_count = 1, lay_size = 2, lay_alignment = 2\<rparr>"

definition demo_decl :: "nat \<Rightarrow> string \<Rightarrow> qtype \<Rightarrow> decl" where
  "demo_decl at n t = \<lparr>d_cons = False, d_expo = False, d_stat = False, d_names = [\<lparr>sym_beg = at, sym_text = n\<rparr>], d_type = t\<rparr>"

definition demo_func :: "(lex_symbol \<times> qtype) list \<Rightarrow> func" where
  "demo_func ps = \<lparr>f_addr = 72, f_expo = False, f_name = \<lparr>sym_beg = 10, sym_text = ''f''\<rparr>,
     f_params = ps, f_rettype = None, f_wlabs = []\<rparr>"

definition demo_unit :: "stmt list" where
  "demo_unit = [S_func (demo_func []) [] [S_dowh (E_nmbr 1 (Some demo_u8)) [] []]]"

definition demo_key :: "nat \<Rightarrow> u64" where
  "demo_key at = 4096 + word_of_nat at"

lemmas demo_defs = demo_u8_def demo_u16_def demo_decl_def demo_func_def demo_unit_def demo_key_def

text \<open>Running the generator on given trees: the first step, then what follows it.\<close>

lemma bind_g_lazy: "bind_g m f = bind_g m f"
  by simp

lemma bind_g_run: "m s = Inr (x, s') \<Longrightarrow> bind_g m f s = f x s'"
  by (simp add: bind_g_def)

lemma repeat_g_numeral: "repeat_g (numeral k) m = bind_g m (\<lambda>_. repeat_g (pred_numeral k) m)"
  by (simp add: numeral_eq_Suc)

lemmas gen_run = bind_g_run ret_g_def fail_g_def get_g_def set_g_def need_g_def the_g_def request_g_def htab_g_def
  signed_type_def opd_imm_def insn_at_def emit_def here_def with_loc_def patch_def value_g_def gen_nmbr_def typed_g_def
  drop_temps_def gen_dowh_def gen_func_def insert_ofs_def func_layout_def fresh_htab_def destroy_g_def unit_func_def
  count_top_decls_and_funcs_def create_global_and_frame_layouts_def link_opd_def link1_def link2_def gen_start_def
  gen_env_def no_tables_def codegen_obj_create_def htab_create_def htab_insert_def htab_get_def htab_hash_def
  SCOPE_BFUN_ID_COUNT_def align_up_def upt_rec Let_def repeat_g_numeral

text \<open>
  C7. Jumps in an object the code generator makes stay in their function: the target is in
  the code, and no function begins between the jump and its target or at one of them. The
  code must have fewer than 2^64 instructions.
\<close>

theorem jumps_stay_in_function:
  assumes "codegen_obj_create mem_ok key ss = Inr obj" and "length (insns obj) < 2 ^ 64"
    and "i < length (insns obj)" and "target (insns obj ! i) = Some l"
  shows "unat l < length (insns obj) \<and>
    (\<forall>j. min i (unat l) \<le> j \<and> j \<le> max i (unat l) \<longrightarrow> \<not> is_entry (insns obj ! j))"
proof -
  from codegen_contained [OF assms(1)] assms(3,4) obtain k where "l = word_of_nat k" and k: "k < length (insns obj)"
    and "\<forall>j. min i k \<le> j \<and> j \<le> max i k \<longrightarrow> \<not> is_entry (insns obj ! j)"
    unfolding contained_def by blast
  moreover from this have "unat l = k" using assms(2) by (simp add: unat_of_nat)
  ultimately show ?thesis by simp
qed

lemma demo_code:
  "case codegen_obj_create (\<lambda>_. True) demo_key demo_unit of
     Inr obj \<Rightarrow> length (insns obj) = 20 \<and> target (insns obj ! 18) = Some 18 | Inl err \<Rightarrow> False"
  by (simp add: gen_run demo_defs cong: bind_g_lazy)

theorem jumps_stay_in_function_witness:
  "\<exists>obj. codegen_obj_create (\<lambda>_. True) demo_key demo_unit = Inr obj \<and> target (insns obj ! 18) = Some 18 \<and>
     \<not> is_entry (insns obj ! 18)"
proof -
  obtain obj where obj: "codegen_obj_create (\<lambda>_. True) demo_key demo_unit = Inr obj"
    and n: "length (insns obj) = 20" and t: "target (insns obj ! 18) = Some 18"
    using demo_code by (auto split: sum.splits)
  have "\<not> is_entry (insns obj ! 18)" using jumps_stay_in_function [OF obj _ _ t] n by auto
  then show ?thesis using obj t by auto
qed

end
