(* ===== verification/Codegen_Frame.thy ===== *)
theory Codegen_Frame
  imports Codegen_Laws Type_Laws
begin

text \<open>
  Frames and global data. A frame's variables get places in the order of their declarations,
  nested blocks included; the places do not overlap and the table of offsets is just large
  enough for them. And the generator does not look at the initial values of global data.
\<close>

subsection \<open>The variables of a frame\<close>

type_synonym variable = "lex_symbol \<times> qtype"

fun frame_vars :: "stmt \<Rightarrow> variable list"
  and stmts_vars :: "stmt list \<Rightarrow> variable list"
  and elifs_vars :: "(expr \<times> stmt) list \<Rightarrow> variable list"
where
  "frame_vars (S_decl d _) = map (\<lambda>n. (n, d_type d)) (d_names d)"
| "frame_vars (S_blok _ _ ss) = stmts_vars ss"
| "frame_vars (S_whil _ _ ss) = stmts_vars ss"
| "frame_vars (S_dowh _ _ ss) = stmts_vars ss"
| "frame_vars (S_cond _ s es els) =
     frame_vars s @ elifs_vars es @ (case els of None \<Rightarrow> [] | Some t \<Rightarrow> frame_vars t)"
| "frame_vars _ = []"
| "stmts_vars [] = []"
| "stmts_vars (s # ss) = frame_vars s @ stmts_vars ss"
| "elifs_vars [] = []"
| "elifs_vars (e # es) = frame_vars (snd e) @ elifs_vars es"

text \<open>No statement is left out, as the tree builder makes blocks.\<close>

fun no_skip :: "stmt \<Rightarrow> bool"
  and no_skips :: "stmt list \<Rightarrow> bool"
  and no_skip_elifs :: "(expr \<times> stmt) list \<Rightarrow> bool"
where
  "no_skip S_skip = False"
| "no_skip (S_blok _ _ ss) = no_skips ss"
| "no_skip (S_whil _ _ ss) = no_skips ss"
| "no_skip (S_dowh _ _ ss) = no_skips ss"
| "no_skip (S_cond _ s es els) = (no_skip s \<and> no_skip_elifs es \<and> (case els of None \<Rightarrow> True | Some t \<Rightarrow> no_skip t))"
| "no_skip _ = True"
| "no_skips [] = True"
| "no_skips (s # ss) = (no_skip s \<and> no_skips ss)"
| "no_skip_elifs [] = True"
| "no_skip_elifs (e # es) = (no_skip (snd e) \<and> no_skip_elifs es)"

lemma vars_counted:
  "length (frame_vars s) = count_block_decls s" "length (stmts_vars ss) = count_stmts_decls ss"
  "length (elifs_vars es) = count_elifs_decls es"
  by (induction s and ss and es rule: frame_vars_stmts_vars_elifs_vars.induct) (auto split: option.split)

fun place_vars :: "genv \<Rightarrow> variable list \<Rightarrow> frame \<Rightarrow> frame gen" where
  "place_vars env [] fr = ret_g fr"
| "place_vars env ((n, t) # vs) fr =
     bind_g (request_g env) (\<lambda>_.
     bind_g (need_g Gen_undefined (ty_alignment t \<noteq> 0)) (\<lambda>_.
     bind_g (insert_ofs env n (align_up (fst fr) (ty_alignment t)) (bytes_of t) (snd fr)) (place_vars env vs)))"

lemma bind_g_assoc: "bind_g (bind_g m f) h = bind_g m (\<lambda>x. bind_g (f x) h)"
  by (auto simp: bind_g_def fun_eq_iff bind_r_def split: sum.split)

lemma bind_g_ret [simp]: "bind_g (ret_g x) f = f x" "bind_g m ret_g = m"
  by (auto simp: bind_g_def ret_g_def fun_eq_iff bind_r_def split: sum.split)

lemma place_vars_append: "place_vars env (us @ vs) fr = bind_g (place_vars env us fr) (place_vars env vs)"
proof (induction us arbitrary: fr)
  case (Cons v us)
  have "place_vars env (us @ vs) = (\<lambda>fr. bind_g (place_vars env us fr) (place_vars env vs))"
    using Cons.IH by (rule ext)
  then show ?case by (cases v) (simp add: bind_g_assoc)
qed simp

lemma place_names_vars: "place_names env t ns fr = place_vars env (map (\<lambda>n. (n, t)) ns) fr"
  by (induction env t ns fr rule: place_names.induct) (simp_all cong: bind_g_cong)

text \<open>The recursion over blocks places the variables of the flat list.\<close>

lemma create_frame_layout_vars:
  "no_skip s \<Longrightarrow> create_frame_layout env s fr = place_vars env (frame_vars s) fr"
  "no_skips ss \<Longrightarrow> frame_stmts env ss fr = place_vars env (stmts_vars ss) fr"
  "no_skip_elifs es \<Longrightarrow> frame_elifs env es fr = place_vars env (elifs_vars es) fr"
  by (induction env s fr and env ss fr and env es fr rule: create_frame_layout_frame_stmts_frame_elifs.induct)
    (simp_all add: place_names_vars place_vars_append cong: bind_g_cong split: option.splits)

subsection \<open>Places\<close>

abbreviation var_key :: "genv \<Rightarrow> variable \<Rightarrow> u64" where
  "var_key env v \<equiv> ge_key env (sym_beg (fst v))"

definition ofs_end :: "ofs \<Rightarrow> nat" where
  "ofs_end o' = unat (ofs_off o') + unat (ofs_size o')"

text \<open>One place ends before the next begins.\<close>

definition in_order :: "ofs list \<Rightarrow> bool" where
  "in_order os \<longleftrightarrow> sorted_wrt (\<lambda>x y. ofs_end x \<le> unat (ofs_off y)) os"

definition framed :: "genv \<Rightarrow> variable list \<Rightarrow> ofs list \<Rightarrow> u64 \<Rightarrow> ofs htab \<Rightarrow> bool" where
  "framed env vs os cur tab \<longleftrightarrow>
     htab_invar tab \<and> map ofs_size os = map (\<lambda>v. bytes_of (snd v)) vs \<and> in_order os \<and>
     (\<forall>o' \<in> set os. ofs_end o' \<le> unat cur) \<and>
     htab_abs tab = map_of (zip (map (var_key env) vs) (map Some os))"

lemma framed_mono: "framed env vs os cur tab \<Longrightarrow> unat cur \<le> unat cur' \<Longrightarrow> framed env vs os cur' tab"
  unfolding framed_def by (auto intro: le_trans)

lemma framed_length: "framed env vs os cur tab \<Longrightarrow> length os = length vs"
  unfolding framed_def by (auto dest: map_eq_imp_length_eq)

lemma framed_get:
  assumes "framed env vs os cur tab" and "distinct (map (var_key env) vs)" and "i < length vs"
  shows "htab_get tab (var_key env (vs ! i)) = Inr (Some (os ! i))"
proof -
  have n: "length os = length vs" by (rule framed_length [OF assms(1)])
  have "htab_abs tab (var_key env (vs ! i)) = Some (Some (os ! i))"
    using assms n map_of_zip_nth [of "map (var_key env) vs" "map Some os" i] unfolding framed_def by simp
  moreover have "htab_invar tab" using assms(1) unfolding framed_def by simp
  ultimately show ?thesis by (intro htab_table.get_ok)
qed

lemma place_step:
  assumes fr: "framed env vs os cur tab" and new: "var_key env v \<noteq> 0" "var_key env v \<notin> var_key env ` set vs"
    and room: "0 < htab_free tab"
    and at: "unat cur \<le> unat at" "unat at + unat (bytes_of (snd v)) < 2 ^ 64"
  shows "\<exists>tab'. (\<forall>s. insert_ofs env (fst v) at (bytes_of (snd v)) tab s = Inr ((at + bytes_of (snd v), tab'), s)) \<and>
    framed env (vs @ [v]) (os @ [\<lparr>ofs_off = at, ofs_size = bytes_of (snd v)\<rparr>]) (at + bytes_of (snd v)) tab' \<and>
    Suc (htab_free tab') = htab_free tab"
proof -
  let ?o = "\<lparr>ofs_off = at, ofs_size = bytes_of (snd v)\<rparr>" and ?k = "var_key env v"
  have n: "length os = length vs" by (rule framed_length [OF fr])
  have "htab_abs tab ?k = None" using fr new(2) n unfolding framed_def by (simp add: map_of_zip_is_None)
  then obtain tab' where ins: "htab_insert tab ?k (Some ?o) = Inr tab'" and inv: "htab_invar tab'"
    and abs: "htab_abs tab' = (htab_abs tab)(?k \<mapsto> Some ?o)" and free: "Suc (htab_free tab') = htab_free tab"
    using htab_table.ins_ok [of tab ?k "Some ?o"] fr new(1) room unfolding framed_def by auto
  have e: "ofs_end ?o = unat (at + bytes_of (snd v))"
    using at(2) by (simp add: ofs_end_def unat_word_ariths)
  have ends: "ofs_end o' \<le> unat at" if "o' \<in> set os" for o'
    using fr at(1) that unfolding framed_def by (metis le_trans)
  have notin: "?k \<notin> fst ` set (zip (map (var_key env) vs) (map Some os))"
    using new(2) by (auto dest: set_zip_leftD)
  have "framed env (vs @ [v]) (os @ [?o]) (at + bytes_of (snd v)) tab'"
    unfolding framed_def
  proof (intro conjI ballI)
    show "htab_invar tab'" by (rule inv)
    show "map ofs_size (os @ [?o]) = map (\<lambda>v. bytes_of (snd v)) (vs @ [v])" using fr unfolding framed_def by simp
    show "in_order (os @ [?o])" using fr ends unfolding framed_def in_order_def by (simp add: sorted_wrt_append)
    show "htab_abs tab' = map_of (zip (map (var_key env) (vs @ [v])) (map Some (os @ [?o])))"
      using fr n map_of_insert_middle [OF notin, of "Some ?o" "[]"] unfolding framed_def abs by (simp del: map_of_append)
    fix o' assume "o' \<in> set (os @ [?o])"
    then show "ofs_end o' \<le> unat (at + bytes_of (snd v))" using ends e by (fastforce simp: ofs_end_def)
  qed
  moreover have "insert_ofs env (fst v) at (bytes_of (snd v)) tab s = Inr ((at + bytes_of (snd v), tab'), s)" for s
    using ins by (simp add: insert_ofs_def ret_g_def)
  ultimately show ?thesis using free by blast
qed

lemma request_ok: "(\<And>k. ge_mem env k) \<Longrightarrow> \<exists>s'. request_g env s = Inr ((), s')"
  by (simp add: request_g_def Let_def)

definition room_for :: "variable list \<Rightarrow> nat" where
  "room_for vs = sum_list (map (\<lambda>v. unat (bytes_of (snd v)) + 8) vs)"

lemma room_for_simps [simp]:
  "room_for [] = 0" "room_for (v # vs) = unat (bytes_of (snd v)) + 8 + room_for vs"
  "room_for (us @ vs) = room_for us + room_for vs"
  by (simp_all add: room_for_def)

text \<open>What placing further variables gives: places behind the ones there are, aligned.\<close>

definition placed :: "genv \<Rightarrow> variable list \<Rightarrow> ofs list \<Rightarrow> u64 \<Rightarrow> ofs htab \<Rightarrow> variable list \<Rightarrow> gstate \<Rightarrow>
    gen_error + frame \<times> gstate \<Rightarrow> bool" where
  "placed env us os cur tab vs s r \<longleftrightarrow>
     (\<exists>cur' tab' s' os'. r = Inr ((cur', tab'), s') \<and> framed env (us @ vs) (os @ os') cur' tab' \<and>
        unat cur \<le> unat cur' \<and> unat cur' \<le> unat cur + room_for vs \<and> htab_free tab' + length vs = htab_free tab \<and>
        list_all2 (\<lambda>v o'. unat (ty_alignment (snd v)) dvd unat (ofs_off o') \<and> unat cur \<le> unat (ofs_off o')) vs os')"

lemma place_vars_ok:
  assumes "framed env us os cur tab" and mem: "\<And>k. ge_mem env k"
    and "distinct (map (var_key env) (us @ vs))" and "0 \<notin> var_key env ` set vs"
    and "length vs \<le> htab_free tab" and "unat cur + room_for vs + 8 \<le> 2 ^ 64"
    and "\<forall>v \<in> set vs. ty_alignment (snd v) \<in> alignments"
  shows "placed env us os cur tab vs s (place_vars env vs (cur, tab) s)"
  using assms(1,3-)
proof (induction vs arbitrary: us os cur tab s)
  case Nil
  then show ?case by (auto simp: placed_def ret_g_def)
next
  case (Cons v vs)
  let ?n = "bytes_of (snd v)" and ?a = "ty_alignment (snd v)"
  let ?at = "align_up cur ?a"
  have a: "unat cur \<le> unat ?at" "unat ?at < unat cur + unat ?a" "unat ?a dvd unat ?at"
    using align_up_nat [of ?a cur] Cons.prems(5,6) by auto
  have a8: "unat ?a \<le> 8" and a0: "?a \<noteq> 0" using Cons.prems(6) by auto
  have small: "unat ?at + unat ?n < 2 ^ 64" using a(2) a8 Cons.prems(5) by simp
  then have sum: "unat (?at + ?n) = unat ?at + unat ?n" by (simp add: unat_word_ariths)
  obtain s1 where req: "request_g env s = Inr ((), s1)" using request_ok [OF mem] by blast
  obtain tab1 where p: "insert_ofs env (fst v) ?at ?n tab s1 = Inr ((?at + ?n, tab1), s1)"
    and fr: "framed env (us @ [v]) (os @ [\<lparr>ofs_off = ?at, ofs_size = ?n\<rparr>]) (?at + ?n) tab1"
    and free: "Suc (htab_free tab1) = htab_free tab"
    using place_step [OF Cons.prems(1) _ _ _ a(1) small] Cons.prems(2,3,4) by auto
  have "placed env (us @ [v]) (os @ [\<lparr>ofs_off = ?at, ofs_size = ?n\<rparr>]) (?at + ?n) tab1 vs s1
      (place_vars env vs (?at + ?n, tab1) s1)"
    using Cons.prems(2-6) free a(2) a8 sum by (intro Cons.IH [OF fr]) auto
  then obtain cur' tab' s' os' where r: "place_vars env vs (?at + ?n, tab1) s1 = Inr ((cur', tab'), s')"
    "framed env (us @ v # vs) (os @ \<lparr>ofs_off = ?at, ofs_size = ?n\<rparr> # os') cur' tab'"
    "unat ?at + unat ?n \<le> unat cur'" "unat cur' \<le> unat ?at + unat ?n + room_for vs" "htab_free tab' + length vs = htab_free tab1"
    and al: "list_all2 (\<lambda>v o'. unat (ty_alignment (snd v)) dvd unat (ofs_off o') \<and>
        unat ?at + unat ?n \<le> unat (ofs_off o')) vs os'"
    unfolding placed_def by (auto simp: sum)
  have "list_all2 (\<lambda>v o'. unat (ty_alignment (snd v)) dvd unat (ofs_off o') \<and> unat cur \<le> unat (ofs_off o')) vs os'"
    using al a(1) by (auto elim!: list_all2_mono)
  moreover have "place_vars env (v # vs) (cur, tab) s = Inr ((cur', tab'), s')"
    using req p r(1) a0 by (cases v) (simp add: bind_g_def need_g_def ret_g_def)
  ultimately show ?case
    unfolding placed_def using r(2-5) free a a8
    by (intro exI [of _ cur'] exI [of _ tab'] exI [of _ s'] exI [of _ "\<lparr>ofs_off = ?at, ofs_size = ?n\<rparr> # os'"]) auto
qed

text \<open>
  Parameters are placed the same way, but the room is rounded up after each: they lie as the
  caller pushes them, in slots of a multiple of eight bytes.
\<close>

definition slot :: "variable \<Rightarrow> nat" where
  "slot v = 8 * ((unat (bytes_of (snd v)) + 7) div 8)"

definition slots :: "variable list \<Rightarrow> nat" where
  "slots vs = sum_list (map slot vs)"

lemma slots_simps [simp]: "slots [] = 0" "slots (v # vs) = slot v + slots vs"
  by (simp_all add: slots_def)

lemma round_up_unique:
  fixes at n up :: nat
  assumes "8 dvd at" and "8 dvd up" and "at + n \<le> up" and "up < at + n + 8"
  shows "up = at + 8 * ((n + 7) div 8)"
proof -
  obtain i j where ij: "at = 8 * i" "up = 8 * j" using assms(1,2) by (elim dvdE)
  then have "i \<le> j" using assms(3) by linarith
  then obtain d where d: "j = i + d" by (rule less_eqE)
  have "n \<le> 8 * d" "8 * d < n + 8" using assms(3,4) ij d by simp_all
  then have "(n + 7) div 8 = d" by (intro div_nat_eqI) simp_all
  then show ?thesis using ij d by simp
qed

lemma slot_up:
  assumes "8 dvd unat cur" and "unat cur + unat (bytes_of (snd v)) + 8 \<le> 2 ^ 64"
  shows "unat (align_up (cur + bytes_of (snd v)) 8) = unat cur + slot v"
proof -
  let ?n = "unat (bytes_of (snd v))" and ?up = "unat (align_up (cur + bytes_of (snd v)) 8)"
  have sum: "unat (cur + bytes_of (snd v)) = unat cur + ?n" using assms(2) by (simp add: unat_word_ariths)
  have "unat cur + ?n \<le> ?up" "?up < unat cur + ?n + 8" "8 dvd ?up"
    using align_up_nat [of 8 "cur + bytes_of (snd v)"] assms(2) sum by auto
  with assms(1) show ?thesis unfolding slot_def by (intro round_up_unique)
qed

lemma place_params_ok:
  assumes "framed env us os cur tab" and mem: "\<And>k. ge_mem env k"
    and "distinct (map (var_key env) (us @ vs))" and "0 \<notin> var_key env ` set vs"
    and "length vs \<le> htab_free tab" and "unat cur + room_for vs + 8 \<le> 2 ^ 64" and "8 dvd unat cur"
  shows "\<exists>cur' tab' s' os'. place_params env vs (cur, tab) s = Inr ((cur', tab'), s') \<and>
    framed env (us @ vs) (os @ os') cur' tab' \<and> unat cur' = unat cur + slots vs \<and>
    (\<forall>i < length vs. unat (ofs_off (os' ! i)) = unat cur + slots (take i vs)) \<and>
    unat cur' \<le> unat cur + room_for vs \<and> htab_free tab' + length vs = htab_free tab"
  using assms(1,3-)
proof (induction vs arbitrary: us os cur tab s)
  case Nil
  then show ?case by (intro exI [of _ cur] exI [of _ tab] exI [of _ s] exI [of _ "[]"]) (simp add: ret_g_def)
next
  case (Cons v vs)
  let ?n = "bytes_of (snd v)"
  let ?o = "\<lparr>ofs_off = cur, ofs_size = ?n\<rparr>" and ?up = "align_up (cur + ?n) 8"
  have small: "unat cur + unat ?n < 2 ^ 64" using Cons.prems(5) by simp
  then have sum: "unat (cur + ?n) = unat cur + unat ?n" by (simp add: unat_word_ariths)
  have new: "var_key env v \<noteq> 0" "var_key env v \<notin> var_key env ` set us" and room: "0 < htab_free tab"
    using Cons.prems(2,3,4) by auto
  have up: "unat (cur + ?n) \<le> unat ?up" "unat ?up < unat (cur + ?n) + 8"
    using align_up_nat [of 8 "cur + ?n"] Cons.prems(5) sum by auto
  have slot: "unat ?up = unat cur + slot v" using slot_up [OF Cons.prems(6)] Cons.prems(5) by simp
  have al: "8 dvd unat ?up" using slot Cons.prems(6) by (simp add: slot_def)
  obtain s1 where req: "request_g env s = Inr ((), s1)" using request_ok [OF mem] by blast
  obtain tab1 where step: "(\<forall>s. insert_ofs env (fst v) cur ?n tab s = Inr ((cur + ?n, tab1), s)) \<and>
      framed env (us @ [v]) (os @ [?o]) (cur + ?n) tab1 \<and> Suc (htab_free tab1) = htab_free tab"
    using place_step [OF Cons.prems(1) new room le_refl small] by (elim exE) (rule that)
  note p = step [THEN conjunct1] and free = step [THEN conjunct2, THEN conjunct2]
  have fr: "framed env (us @ [v]) (os @ [?o]) ?up tab1"
    by (rule framed_mono [OF step [THEN conjunct2, THEN conjunct1] up(1)])
  have "\<exists>cur' tab' s' os'. place_params env vs (?up, tab1) s1 = Inr ((cur', tab'), s') \<and>
    framed env ((us @ [v]) @ vs) ((os @ [?o]) @ os') cur' tab' \<and> unat cur' = unat ?up + slots vs \<and>
    (\<forall>i < length vs. unat (ofs_off (os' ! i)) = unat ?up + slots (take i vs)) \<and>
    unat cur' \<le> unat ?up + room_for vs \<and> htab_free tab' + length vs = htab_free tab1"
    using Cons.prems(2-5) free up sum al by (intro Cons.IH [OF fr]) auto
  then obtain cur' tab' s' os' where r: "place_params env vs (?up, tab1) s1 = Inr ((cur', tab'), s')"
    "framed env (us @ v # vs) (os @ ?o # os') cur' tab'"
    "unat cur' \<le> unat ?up + room_for vs" "htab_free tab' + length vs = htab_free tab1"
    and cur': "unat cur' = unat ?up + slots vs"
    and at: "\<forall>i < length vs. unat (ofs_off (os' ! i)) = unat ?up + slots (take i vs)" by auto
  have "place_params env (v # vs) (cur, tab) s = Inr ((cur', tab'), s')"
    using req p r(1) by (cases v) (simp add: bind_g_def)
  moreover have "unat cur' \<le> unat cur + room_for (v # vs)" using r(3) up sum by simp
  moreover have "\<forall>i < length (v # vs). unat (ofs_off ((?o # os') ! i)) = unat cur + slots (take i (v # vs))"
    using at slot by (auto simp: nth_Cons take_Cons split: nat.split)
  moreover have "unat cur' = unat cur + slots (v # vs)" using cur' slot by simp
  ultimately show ?case using r(2,4) free
    by (intro exI [of _ cur'] exI [of _ tab'] exI [of _ s'] exI [of _ "?o # os'"]) auto
qed

subsection \<open>The layout of a function\<close>

text \<open>
  What a frame layout promises: every variable has a place of its type's size in the table,
  the places are in order and so disjoint; a parameter's is where the caller pushes it,
  behind the slots of the parameters before it, and its slot is within the arguments; the
  others are behind the arguments and aligned for their types, all within the frame.
\<close>

definition frame_spec :: "genv \<Rightarrow> variable list \<Rightarrow> variable list \<Rightarrow> func_tag \<Rightarrow> bool" where
  "frame_spec env ps vs tag \<longleftrightarrow>
     (\<exists>os. length os = length (ps @ vs) \<and> in_order os \<and>
        (\<forall>i < length (ps @ vs). htab_get (ft_layout tag) (var_key env ((ps @ vs) ! i)) = Inr (Some (os ! i)) \<and>
           ofs_size (os ! i) = bytes_of (snd ((ps @ vs) ! i)) \<and>
           (if i < length ps
            then unat (ofs_off (os ! i)) = slots (take i ps) \<and> ofs_end (os ! i) \<le> unat (ft_args_size tag)
            else unat (ft_args_size tag) \<le> unat (ofs_off (os ! i)) \<and> ofs_end (os ! i) \<le> unat (ft_frame_size tag) \<and>
              unat (ty_alignment (snd ((ps @ vs) ! i))) dvd unat (ofs_off (os ! i)))) \<and>
        unat (ft_args_size tag) = slots ps \<and>
        unat (ft_args_size tag) \<le> unat (ft_frame_size tag) \<and> 8 dvd unat (ft_frame_size tag))"

lemma framed_frame_spec:
  assumes fr1: "framed env ps os1 a tab1" and fr2: "framed env (ps @ vs) (os1 @ os2) c tab2" and ac: "unat a \<le> unat c"
    and os2: "list_all2 (\<lambda>v o'. unat (ty_alignment (snd v)) dvd unat (ofs_off o') \<and> unat a \<le> unat (ofs_off o')) vs os2"
    and os1: "\<forall>i < length ps. unat (ofs_off (os1 ! i)) = slots (take i ps)" and args: "unat a = slots ps"
    and dist: "distinct (map (var_key env) (ps @ vs))" and bound: "unat c + 16 \<le> 2 ^ 64"
  shows "frame_spec env ps vs \<lparr>ft_frame_size = align_up c 8, ft_args_size = a, ft_layout = tab2\<rparr>"
    (is "frame_spec env ps vs ?tag")
  unfolding frame_spec_def
proof (intro exI [of _ "os1 @ os2"] conjI allI impI)
  have n1: "length os1 = length ps" by (rule framed_length [OF fr1])
  have up: "unat c \<le> unat (align_up c 8)" "8 dvd unat (align_up c 8)" using align_up_nat [of 8 c] bound by auto
  show n2: "length (os1 @ os2) = length (ps @ vs)" by (rule framed_length [OF fr2])
  show "in_order (os1 @ os2)" using fr2 unfolding framed_def by simp
  show "unat (ft_args_size ?tag) = slots ps" using args by simp
  show "unat (ft_args_size ?tag) \<le> unat (ft_frame_size ?tag)" "8 dvd unat (ft_frame_size ?tag)"
    using up ac by simp_all
  fix i assume i: "i < length (ps @ vs)"
  show "htab_get (ft_layout ?tag) (var_key env ((ps @ vs) ! i)) = Inr (Some ((os1 @ os2) ! i))"
    using framed_get [OF fr2 dist i] by simp
  show "ofs_size ((os1 @ os2) ! i) = bytes_of (snd ((ps @ vs) ! i))"
    using fr2 i n2 unfolding framed_def by (metis (no_types, lifting) nth_map)
  have ends: "ofs_end ((os1 @ os2) ! i) \<le> unat c"
    using fr2 i n2 unfolding framed_def by (metis nth_mem)
  show "if i < length ps
      then unat (ofs_off ((os1 @ os2) ! i)) = slots (take i ps) \<and> ofs_end ((os1 @ os2) ! i) \<le> unat (ft_args_size ?tag)
      else unat (ft_args_size ?tag) \<le> unat (ofs_off ((os1 @ os2) ! i)) \<and>
        ofs_end ((os1 @ os2) ! i) \<le> unat (ft_frame_size ?tag) \<and>
        unat (ty_alignment (snd ((ps @ vs) ! i))) dvd unat (ofs_off ((os1 @ os2) ! i))"
  proof (cases "i < length ps")
    case True
    then have "os1 ! i \<in> set os1" using n1 by simp
    then show ?thesis using True fr1 n1 os1 unfolding framed_def by (simp add: nth_append)
  next
    case False
    have "i - length ps < length vs" using False i by auto
    from list_all2_nthD [OF os2 this] show ?thesis using False n1 ends up(1) by (simp add: nth_append)
  qed
qed

text \<open>
  C8. The layout of a function's frame, in a table of the size the generator asks for, with
  memory, distinct non-null keys and a total size that fits 64 bits, does not fail: no
  insertion finds a duplicate or a full table, and the frame is as \<open>frame_spec\<close> promises.
\<close>

theorem frame_layout_correct:
  assumes "htab_create True (length (f_params f) + count_stmts_decls ss) = Some tab" and mem: "\<And>k. ge_mem env k"
    and skip: "no_skips ss" and dist: "distinct (map (var_key env) (f_params f @ stmts_vars ss))"
    and null: "0 \<notin> var_key env ` set (f_params f @ stmts_vars ss)"
    and al: "\<forall>v \<in> set (stmts_vars ss). ty_alignment (snd v) \<in> alignments"
    and bound: "room_for (f_params f @ stmts_vars ss) + 16 \<le> 2 ^ 64"
  shows "\<exists>tag s'. func_layout env f ss tab s = Inr (tag, s') \<and> frame_spec env (f_params f) (stmts_vars ss) tag"
proof -
  let ?ps = "f_params f" and ?vs = "stmts_vars ss"
  have framed: "framed env [] [] 0 tab" and free: "htab_free tab = length ?ps + length ?vs"
    using htab_create_ok [OF assms(1)] vars_counted(2) [of ss] by (auto simp: framed_def in_order_def)
  have nulls: "0 \<notin> var_key env ` set ?ps" "0 \<notin> var_key env ` set ?vs" using null by auto
  from place_params_ok [OF framed mem, of ?ps s] dist nulls(1) bound
  obtain a tab1 s1 os1 where p: "place_params env ?ps (0, tab) s = Inr ((a, tab1), s1)"
    and fr1: "framed env ?ps os1 a tab1" and a: "unat a \<le> room_for ?ps" and free1: "htab_free tab1 = length ?vs"
    and os1: "\<forall>i < length ?ps. unat (ofs_off (os1 ! i)) = slots (take i ?ps)" and args: "unat a = slots ?ps"
    using free by auto
  have "placed env ?ps os1 a tab1 ?vs s1 (place_vars env ?vs (a, tab1) s1)"
    using dist nulls(2) bound a free1 al by (intro place_vars_ok [OF fr1 mem]) auto
  then obtain c tab2 s2 os2 where v: "place_vars env ?vs (a, tab1) s1 = Inr ((c, tab2), s2)"
    and fr2: "framed env (?ps @ ?vs) (os1 @ os2) c tab2" and ac: "unat a \<le> unat c" and c: "unat c \<le> unat a + room_for ?vs"
    and os2: "list_all2 (\<lambda>v o'. unat (ty_alignment (snd v)) dvd unat (ofs_off o') \<and> unat a \<le> unat (ofs_off o')) ?vs os2"
    unfolding placed_def by auto
  let ?tag = "\<lparr>ft_frame_size = align_up c 8, ft_args_size = a, ft_layout = tab2\<rparr>"
  have run: "func_layout env f ss tab s = Inr (?tag, s2)"
    using p v create_frame_layout_vars(2) [OF skip] by (simp add: func_layout_def bind_g_def ret_g_def)
  have "frame_spec env ?ps ?vs ?tag"
    using a c bound by (intro framed_frame_spec [OF fr1 fr2 ac os2 os1 args dist]) simp
  with run show ?thesis by blast
qed

definition demo_genv :: genv where
  "demo_genv = gen_env (\<lambda>_. True) demo_key no_tables"

definition demo_body :: "stmt list" where
  "demo_body = [S_decl (demo_decl 30 ''x'' demo_u8) None,
     S_whil (E_nmbr 1 (Some demo_u8)) [] [S_decl (demo_decl 40 ''y'' demo_u16) None]]"

theorem frame_layout_correct_witness:
  "\<exists>tag s'. func_layout demo_genv (demo_func [(\<lparr>sym_beg = 12, sym_text = ''b''\<rparr>, demo_u8)]) demo_body
      \<lparr>count = 3, items = replicate 3 (0, None)\<rparr> gen_start = Inr (tag, s') \<and>
    frame_spec demo_genv [(\<lparr>sym_beg = 12, sym_text = ''b''\<rparr>, demo_u8)]
      [(\<lparr>sym_beg = 30, sym_text = ''x''\<rparr>, demo_u8), (\<lparr>sym_beg = 40, sym_text = ''y''\<rparr>, demo_u16)] tag"
proof -
  let ?f = "demo_func [(\<lparr>sym_beg = 12, sym_text = ''b''\<rparr>, demo_u8)]"
  have vs: "stmts_vars demo_body =
      [(\<lparr>sym_beg = 30, sym_text = ''x''\<rparr>, demo_u8), (\<lparr>sym_beg = 40, sym_text = ''y''\<rparr>, demo_u16)]"
    by (simp add: demo_body_def demo_decl_def)
  have ps: "f_params ?f = [(\<lparr>sym_beg = 12, sym_text = ''b''\<rparr>, demo_u8)]" by (simp add: demo_func_def)
  have tab: "htab_create True (length (f_params ?f) + count_stmts_decls demo_body) =
      Some \<lparr>count = 3, items = replicate 3 (0, None)\<rparr>"
    unfolding ps by (simp add: demo_body_def demo_decl_def htab_create_def numeral_3_eq_3)
  have "no_skips demo_body" by (simp add: demo_body_def)
  from frame_layout_correct [OF tab _ this, of demo_genv gen_start] show ?thesis
    unfolding vs ps by (simp add: demo_genv_def gen_env_def no_tables_def demo_key_def demo_u8_def demo_u16_def room_for_def)
qed

subsection \<open>Global data\<close>

definition drop_init :: "stmt \<Rightarrow> stmt" where
  "drop_init s = (case s of S_decl d _ \<Rightarrow> S_decl d None | _ \<Rightarrow> s)"

lemma drop_init_simps [simp]:
  "drop_init (S_decl d e) = S_decl d None" "drop_init (S_func f sc body) = S_func f sc body" "drop_init S_skip = S_skip"
  by (simp_all add: drop_init_def)

lemma unit_layouts_init: "unit_layouts env (map drop_init ss) tabs = unit_layouts env ss tabs"
proof (induction ss arbitrary: tabs)
  case (Cons s ss)
  obtain d g f where "tabs = (d, g, f)" by (metis prod_cases3)
  then show ?case using Cons.IH by (cases s) (simp_all add: drop_init_def)
qed simp

lemma gen_unit_init: "gen_unit env (map drop_init ss) = gen_unit env ss"
proof (induction ss)
  case (Cons s ss)
  then show ?case by (cases s) (simp_all add: drop_init_def)
qed simp

lemma count_init: "count_top_decls_and_funcs (map drop_init ss) = count_top_decls_and_funcs ss"
proof (induction ss)
  case (Cons s ss)
  then show ?case by (cases s) (simp_all add: drop_init_def count_top_decls_and_funcs_def)
qed simp

text \<open>
  C29. The initial values of global variables have no effect: the object, or the error, is
  the same when all of them are left out. Global data is zero when the program starts, as
  \<^verbatim>\<open>exec\<close> clears it.
\<close>

theorem global_initialisers_ignored:
  "codegen_obj_create mem_ok key (map drop_init ss) = codegen_obj_create mem_ok key ss"
  by (simp add: codegen_obj_create_def create_global_and_frame_layouts_def gen_unit_init unit_layouts_init count_init
      Let_def)

end
