(* ===== verification/Vm_Mem.thy ===== *)
theory Vm_Mem
  imports Insn
begin

text \<open>
  The state of the virtual machine of \<^verbatim>\<open>src/exec.c\<close> and its access to memory. Programs of the
  language compute with addresses, so memory is a function from 64-bit addresses to bytes
  with the list of the blocks that are allocated; an access that is not inside the data of
  one block is \<open>Undefined\<close> (undefined behaviour of the C code). A block may start with a
  header that only the interpreter sees, the \<^verbatim>\<open>struct qvm\<close> before its stack and the
  \<^verbatim>\<open>prev\<close> pointer before the temporaries; headers are kept as records beside the memory.
  The results of \<^verbatim>\<open>malloc\<close> and of the clock are parameters: \<open>env_malloc k n\<close> is the address
  the k-th request, for n bytes, returns, 0 for none, \<open>env_clock k\<close> the k-th reading of
  the clock, \<open>None\<close> if it fails. An environment whose allocator hands out memory in use is
  stopped with \<open>Bad_env\<close>.
\<close>

subsection \<open>The state\<close>

record block =
  b_base :: u64
  b_header :: nat
  b_size :: nat

text \<open>The header of \<^verbatim>\<open>struct qvm\<close>; its union of the two kinds of wait is a pair of words.\<close>

record qvm =
  q_parent :: u64
  q_ip :: u64
  q_sp :: u64
  q_bp :: u64
  at_start :: bool
  at_end :: bool
  noint :: bool
  waiting :: bool
  waiting_for :: bool
  waiting_until :: bool
  waiting_noblock :: bool
  wait_word1 :: u64    \<comment> \<open>\<open>wait_for.start\<close> or \<open>wait_until.func\<close>\<close>
  wait_word2 :: u64    \<comment> \<open>\<open>wait_for.interval\<close> or \<open>wait_until.id\<close>\<close>
  passed_func :: u64
  passed_id :: u64
  q_temps :: "u64 list"

record machine =
  mem :: "u64 \<Rightarrow> u8"
  blocks :: "block list"
  qvms :: "u64 \<Rightarrow> qvm option"
  vm_ptr :: u64
  bss :: u64
  bss_size :: nat
  now :: u64
  cycles :: u64
  mallocs :: nat
  clocks :: nat
  out :: "u8 list"

text \<open>
  How an instruction or a program stops. The check for waiting VMs runs after a handler that
  returned an error too, so a handler that has moved a pointer the check follows gives the
  state it had reached with its error, as \<open>Late\<close>.
\<close>

datatype stop =
    Illegal            \<comment> \<open>\<open>EXEC_ILLEGAL\<close>\<close>
  | Nomem              \<comment> \<open>\<open>EXEC_NOMEM\<close>\<close>
  | Status int         \<comment> \<open>a nonzero result of the program's entry function\<close>
  | Exited int         \<comment> \<open>a call of \<open>exit\<close>\<close>
  | Abort              \<comment> \<open>a failed assertion\<close>
  | Undefined          \<comment> \<open>undefined behaviour of the C code\<close>
  | Bad_env            \<comment> \<open>not an outcome: the environment is not an allocator\<close>
  | Late stop machine  \<comment> \<open>within an instruction: an error, and the state it left\<close>

record env =
  env_malloc :: "nat \<Rightarrow> nat \<Rightarrow> u64"
  env_clock :: "nat \<Rightarrow> u64 option"

type_synonym 'a res = "stop + 'a"

definition QVM_HEADER :: nat where "QVM_HEADER = 80"
definition STACK_SIZE :: u64 where "STACK_SIZE = 16304"

definition null_qvm :: qvm where
  "null_qvm = \<lparr>q_parent = 0, q_ip = 0, q_sp = 0, q_bp = 0, at_start = False, at_end = False,
     noint = False, waiting = False, waiting_for = False, waiting_until = False,
     waiting_noblock = False, wait_word1 = 0, wait_word2 = 0, passed_func = 0, passed_id = 0,
     q_temps = []\<rparr>"

subsection \<open>Loads and stores\<close>

definition b_data :: "block \<Rightarrow> nat" where
  "b_data b = unat (b_base b) + b_header b"

definition in_block :: "u64 \<Rightarrow> nat \<Rightarrow> block \<Rightarrow> bool" where
  "in_block a n b \<longleftrightarrow> b_data b \<le> unat a \<and> unat a + n \<le> b_data b + b_size b"

definition valid :: "machine \<Rightarrow> u64 \<Rightarrow> nat \<Rightarrow> bool" where
  "valid m a n \<longleftrightarrow> n = 0 \<or> (\<exists>b \<in> set (blocks m). in_block a n b)"

text \<open>Where an operand's value is: in the instruction itself, or in memory.\<close>

datatype loc = Imm u64 | At u64

definition fetch :: "(u64 \<Rightarrow> u8) \<Rightarrow> u64 \<Rightarrow> nat \<Rightarrow> u8 list" where
  "fetch f a n = map (\<lambda>i. f (a + word_of_nat i)) [0..<n]"

definition load :: "machine \<Rightarrow> loc \<Rightarrow> nat \<Rightarrow> u8 list res" where
  "load m l n =
     (case l of
        Imm v \<Rightarrow> if n \<le> 8 then Inr (take n (le_bytes 8 (unat v))) else Inl Undefined
      | At a \<Rightarrow> if valid m a n then Inr (fetch (mem m) a n) else Inl Undefined)"

definition poke :: "u64 \<Rightarrow> u8 list \<Rightarrow> (u64 \<Rightarrow> u8) \<Rightarrow> u64 \<Rightarrow> u8" where
  "poke a bs f x = (if unat (x - a) < length bs then bs ! unat (x - a) else f x)"

text \<open>A store to an immediate would change the program; it is refused.\<close>

definition store :: "loc \<Rightarrow> u8 list \<Rightarrow> machine \<Rightarrow> machine res" where
  "store l bs m =
     (case l of
        Imm v \<Rightarrow> Inl Undefined
      | At a \<Rightarrow> if valid m a (length bs) then Inr (m\<lparr>mem := poke a bs (mem m)\<rparr>) else Inl Undefined)"

definition load64 :: "machine \<Rightarrow> loc \<Rightarrow> u64 res" where
  "load64 m l = bind_r (load m l 8) (\<lambda>bs. Inr (word_of_nat (le_val bs)))"

definition store64 :: "loc \<Rightarrow> u64 \<Rightarrow> machine \<Rightarrow> machine res" where
  "store64 l v m = store l (le_bytes 8 (unat v)) m"

text \<open>\<^verbatim>\<open>memcpy\<close>, which is undefined on objects that overlap.\<close>

definition overlap :: "loc \<Rightarrow> loc \<Rightarrow> nat \<Rightarrow> bool" where
  "overlap l1 l2 n =
     (case (l1, l2) of
        (At a, At b) \<Rightarrow> unat (b - a) < n \<or> unat (a - b) < n
      | _ \<Rightarrow> False)"

definition copy_bytes :: "loc \<Rightarrow> loc \<Rightarrow> nat \<Rightarrow> machine \<Rightarrow> machine res" where
  "copy_bytes d s n m =
     (if overlap d s n then Inl Undefined else bind_r (load m s n) (\<lambda>bs. store d bs m))"

subsection \<open>The running machine\<close>

definition get_qvm :: "machine \<Rightarrow> u64 \<Rightarrow> qvm res" where
  "get_qvm m p = (case qvms m p of None \<Rightarrow> Inl Undefined | Some q \<Rightarrow> Inr q)"

definition set_qvm :: "u64 \<Rightarrow> (qvm \<Rightarrow> qvm) \<Rightarrow> machine \<Rightarrow> machine res" where
  "set_qvm p f m = bind_r (get_qvm m p) (\<lambda>q. Inr (m\<lparr>qvms := (qvms m)(p \<mapsto> f q)\<rparr>))"

definition vm :: "machine \<Rightarrow> qvm res" where
  "vm m = get_qvm m (vm_ptr m)"

definition upd_vm :: "(qvm \<Rightarrow> qvm) \<Rightarrow> machine \<Rightarrow> machine res" where
  "upd_vm f m = set_qvm (vm_ptr m) f m"

definition stack_at :: "u64 \<Rightarrow> u64 \<Rightarrow> u64" where
  "stack_at p i = p + word_of_nat QVM_HEADER + i"

definition vm_stack :: "machine \<Rightarrow> u64 \<Rightarrow> loc" where
  "vm_stack m i = At (stack_at (vm_ptr m) i)"

definition legal :: "bool \<Rightarrow> 'a res \<Rightarrow> 'a res" where
  "legal c k = (if c then k else Inl Illegal)"

definition assert :: "bool \<Rightarrow> 'a res \<Rightarrow> 'a res" where
  "assert c k = (if c then k else Inl Abort)"

text \<open>
  The error a handler returned and the state it left, \<open>m\<close> if nothing else is recorded;
  \<open>None\<close> if the process has ended. \<open>label\<close> records that state.
\<close>

definition returned :: "machine \<Rightarrow> stop \<Rightarrow> (stop \<times> machine) option" where
  "returned m err =
     (case err of
        Illegal \<Rightarrow> Some (err, m) | Nomem \<Rightarrow> Some (err, m) | Status _ \<Rightarrow> Some (err, m)
      | Late err' m' \<Rightarrow> Some (err', m')
      | _ \<Rightarrow> None)"

definition label :: "machine \<Rightarrow> 'a res \<Rightarrow> 'a res" where
  "label m r =
     (case r of
        Inr x \<Rightarrow> Inr x
      | Inl err \<Rightarrow> (case returned m err of None \<Rightarrow> Inl err | Some (err', m') \<Rightarrow> Inl (Late err' m')))"

subsection \<open>Operands\<close>

definition powerof2 :: "nat \<Rightarrow> bool" where
  "powerof2 x \<longleftrightarrow> x \<noteq> 0 \<and> and x (x - 1) = 0"

definition opd_size :: "opd \<Rightarrow> nat res" where
  "opd_size d =
     (if opd_kind d = CODEGEN_OPD_IMM
      then assert (\<not> signd d) (assert (\<not> indirect d)
        (assert (powerof2 (unat (opd_bytes d)) \<and> opd_bytes d \<le> 8) (Inr (unat (opd_bytes d)))))
      else assert (opd_bytes d \<noteq> 0) (Inr (unat (opd_bytes d))))"

definition opd_base :: "machine \<Rightarrow> opd \<Rightarrow> u64 res" where
  "opd_base m d =
     (case opd_kind d of
        CODEGEN_OPD_TEMP \<Rightarrow> bind_r (vm m) (\<lambda>q.
          case q_temps q of [] \<Rightarrow> Inl Abort | t # _ \<Rightarrow> Inr (t + off d))
      | CODEGEN_OPD_AUTO \<Rightarrow> bind_r (vm m) (\<lambda>q.
          assert (q_bp q + off d < STACK_SIZE) (Inr (stack_at (vm_ptr m) (q_bp q + off d))))
      | CODEGEN_OPD_GLOB \<Rightarrow>
          assert (off d + (if indirect d then 8 else opd_bytes d) \<le> word_of_nat (bss_size m))
            (Inr (bss m + off d))
      | CODEGEN_OPD_IMM \<Rightarrow> Inl Abort)"

definition opd_val :: "machine \<Rightarrow> opd \<Rightarrow> loc res" where
  "opd_val m d =
     (if opd_kind d = CODEGEN_OPD_IMM then Inr (Imm (off d))
      else bind_r (opd_base m d) (\<lambda>base.
        if indirect d then bind_r (load64 m (At base)) (\<lambda>ptr. Inr (At ptr)) else Inr (At base)))"

subsection \<open>Allocation\<close>

definition disjoint_from :: "u64 \<Rightarrow> nat \<Rightarrow> block \<Rightarrow> bool" where
  "disjoint_from a n b \<longleftrightarrow> a \<noteq> b_base b \<and>
     (unat a + n \<le> unat (b_base b) \<or> b_data b + b_size b \<le> unat a)"

definition fresh :: "machine \<Rightarrow> u64 \<Rightarrow> nat \<Rightarrow> bool" where
  "fresh m a n \<longleftrightarrow> unat a + n < 2 ^ 64 \<and> (\<forall>b \<in> set (blocks m). disjoint_from a n b)"

text \<open>
  \<open>allocate\<close> gives the address, or 0, and the new state. \<^verbatim>\<open>calloc\<close> clears the data, the
  contents that \<^verbatim>\<open>malloc\<close> leaves are whatever the memory held.
\<close>

definition allocate :: "env \<Rightarrow> nat \<Rightarrow> nat \<Rightarrow> machine \<Rightarrow> (u64 \<times> machine) res" where
  "allocate e hdr n m =
     (let a = env_malloc e (mallocs m) (hdr + n); m = m\<lparr>mallocs := Suc (mallocs m)\<rparr> in
      if a = 0 then Inr (0, m)
      else if fresh m a (hdr + n)
      then Inr (a, m\<lparr>blocks := \<lparr>b_base = a, b_header = hdr, b_size = n\<rparr> # blocks m\<rparr>)
      else Inl Bad_env)"

definition clear :: "u64 \<Rightarrow> nat \<Rightarrow> machine \<Rightarrow> machine" where
  "clear a n m = m\<lparr>mem := (\<lambda>x. if unat (x - a) < n then 0 else mem m x)\<rparr>"

definition release :: "u64 \<Rightarrow> machine \<Rightarrow> machine res" where
  "release a m =
     (if a = 0 then Inr m
      else if \<exists>b \<in> set (blocks m). b_base b = a
      then Inr (m\<lparr>blocks := filter (\<lambda>b. b_base b \<noteq> a) (blocks m), qvms := (qvms m)(a := None)\<rparr>)
      else Inl Undefined)"

definition alloc_qvm :: "env \<Rightarrow> machine \<Rightarrow> (u64 \<times> machine) res" where
  "alloc_qvm e m =
     bind_r (allocate e QVM_HEADER (unat STACK_SIZE) m) (\<lambda>(a, m).
     if a = 0 then Inl Nomem
     else Inr (a, (clear (stack_at a 0) (unat STACK_SIZE) m)\<lparr>qvms := (qvms m)(a \<mapsto> null_qvm)\<rparr>))"

text \<open>A frame of temporaries is known by the address of its bytes, behind the \<^verbatim>\<open>prev\<close> pointer.\<close>

definition push_temps :: "env \<Rightarrow> nat \<Rightarrow> machine \<Rightarrow> machine res" where
  "push_temps e n m =
     bind_r (allocate e 8 n m) (\<lambda>(a, m).
     if a = 0 then Inl Nomem else upd_vm (\<lambda>q. q\<lparr>q_temps := (a + 8) # q_temps q\<rparr>) m)"

definition free_temps :: "u64 list \<Rightarrow> machine \<Rightarrow> machine res" where
  "free_temps ts m = (case ts of [] \<Rightarrow> Inr m | t # _ \<Rightarrow> release (t - 8) m)"

text \<open>\<^verbatim>\<open>cleanup_temps\<close>: the frame is freed on every way out of a function, errors included.\<close>

definition cleanup_temps :: "u64 list \<Rightarrow> machine \<Rightarrow> machine res \<Rightarrow> machine res" where
  "cleanup_temps ts m r =
     (case r of
        Inr m' \<Rightarrow> free_temps ts m'
      | Inl err \<Rightarrow>
          (case returned m err of
             None \<Rightarrow> Inl err
           | Some (err', m') \<Rightarrow> bind_r (free_temps ts m') (\<lambda>m'. Inl (Late err' m'))))"

text \<open>\<^verbatim>\<open>get_monotonic_time(&now)\<close>; the time keeps its value when the clock fails.\<close>

definition get_monotonic_time :: "env \<Rightarrow> machine \<Rightarrow> bool \<times> machine" where
  "get_monotonic_time e m =
     (let m' = m\<lparr>clocks := Suc (clocks m)\<rparr> in
      case env_clock e (clocks m) of None \<Rightarrow> (False, m') | Some t \<Rightarrow> (True, m'\<lparr>now := t\<rparr>))"

end
