(* ===== verification/Vm_Insn.thy ===== *)
theory Vm_Insn
  imports Vm_Mem "HOL-Library.Signed_Division"
begin

unbundle bit_operations_syntax

text \<open>
  The instructions of \<^verbatim>\<open>src/exec.c\<close> that compute: moves, casts, arithmetic, comparisons, and
  the unary operations. Arithmetic is that of C on a machine with 32-bit \<^verbatim>\<open>int\<close> and two's
  complement: operands of one or two bytes are promoted to \<^verbatim>\<open>int\<close>, a signed overflow, a
  division by zero and a shift out of range are \<open>Undefined\<close>, a conversion to a smaller
  type keeps the low bytes, and a right shift of a negative number is arithmetic.
\<close>

subsection \<open>C integer arithmetic\<close>

definition promoted_signed :: "bool \<Rightarrow> nat \<Rightarrow> bool" where
  "promoted_signed sg sz \<longleftrightarrow> sg \<or> sz < 4"

definition promoted_size :: "nat \<Rightarrow> nat" where
  "promoted_size sz = max sz 4"

definition fits :: "bool \<Rightarrow> nat \<Rightarrow> int \<Rightarrow> bool" where
  "fits sg sz x \<longleftrightarrow> wrap sg sz x = x"

text \<open>A result in the promoted type: signed results must fit, unsigned ones wrap.\<close>

definition c_result :: "bool \<Rightarrow> nat \<Rightarrow> int \<Rightarrow> int option" where
  "c_result sg sz x =
     (if sg then if fits sg sz x then Some x else None else Some (wrap sg sz x))"

definition c_arith :: "arith_op \<Rightarrow> bool \<Rightarrow> nat \<Rightarrow> int \<Rightarrow> int \<Rightarrow> int option" where
  "c_arith op sg sz x y =
     (let ps = promoted_signed sg sz; pz = promoted_size sz in
      case op of
        OP_ADD \<Rightarrow> c_result ps pz (x + y)
      | OP_SUB \<Rightarrow> c_result ps pz (x - y)
      | OP_MUL \<Rightarrow> c_result ps pz (x * y)
      | OP_DIV \<Rightarrow> if y = 0 then None else c_result ps pz (x sdiv y)
      | OP_MOD \<Rightarrow> if y = 0 \<or> c_result ps pz (x sdiv y) = None then None
                  else Some (x smod y)
      | OP_LSH \<Rightarrow> if y < 0 \<or> y \<ge> int (8 * pz) \<or> x < 0 then None else c_result ps pz (x * 2 ^ nat y)
      | OP_RSH \<Rightarrow> if y < 0 \<or> y \<ge> int (8 * pz) then None else Some (x div 2 ^ nat y)
      | OP_AND \<Rightarrow> Some (x AND y)
      | OP_XOR \<Rightarrow> Some (x XOR y)
      | OP_OR \<Rightarrow> Some (x OR y))"

definition pow2_size :: "nat \<Rightarrow> bool" where
  "pow2_size sz \<longleftrightarrow> powerof2 sz \<and> sz \<le> 8"

lemma pow2_size_iff: "pow2_size sz \<longleftrightarrow> sz \<in> {1, 2, 4, 8}"
proof -
  have "sz \<le> 8 \<Longrightarrow> sz \<in> {0, 1, 2, 3, 4, 5, 6, 7, 8}" by auto
  then show ?thesis by (auto simp: pow2_size_def powerof2_def)
qed

definition of_option :: "'a option \<Rightarrow> 'a res" where
  "of_option x = (case x of None \<Rightarrow> Inl Undefined | Some v \<Rightarrow> Inr v)"

definition load_int :: "machine \<Rightarrow> bool \<Rightarrow> loc \<Rightarrow> nat \<Rightarrow> int res" where
  "load_int m sg l sz = bind_r (load m l sz) (\<lambda>bs. Inr (int_val sg bs))"

definition store_int :: "loc \<Rightarrow> nat \<Rightarrow> int \<Rightarrow> machine \<Rightarrow> machine res" where
  "store_int l sz x m = store l (int_bytes sz x) m"

subsection \<open>Moves\<close>

definition insn_mov :: "opd \<Rightarrow> opd \<Rightarrow> machine \<Rightarrow> machine res" where
  "insn_mov dst src m =
     bind_r (opd_size dst) (\<lambda>dst_size.
     bind_r (opd_size src) (\<lambda>src_size.
     legal (dst_size = src_size) (
     bind_r (opd_val m dst) (\<lambda>d.
     bind_r (opd_val m src) (\<lambda>s. copy_bytes d s dst_size m)))))"

text \<open>The destination is cleared before the source is read.\<close>

definition insn_cast :: "opd \<Rightarrow> opd \<Rightarrow> machine \<Rightarrow> machine res" where
  "insn_cast dst src m =
     bind_r (opd_size dst) (\<lambda>dst_size.
     bind_r (opd_size src) (\<lambda>src_size.
     bind_r (opd_val m dst) (\<lambda>d.
     bind_r (opd_val m src) (\<lambda>s.
     bind_r (store d (replicate dst_size 0) m) (\<lambda>m.
     copy_bytes d s (min src_size dst_size) m)))))"

subsection \<open>Binary operations\<close>

definition insn_bin_arith :: "arith_op \<Rightarrow> opd \<Rightarrow> opd \<Rightarrow> opd \<Rightarrow> machine \<Rightarrow> machine res" where
  "insn_bin_arith op dst src1 src2 m =
     legal (signd dst = signd src1 \<and> signd src1 = signd src2) (
     bind_r (opd_size dst) (\<lambda>dst_size.
     bind_r (opd_size src1) (\<lambda>src1_size.
     bind_r (opd_size src2) (\<lambda>src2_size.
     legal (pow2_size dst_size) (
     legal (pow2_size src1_size) (
     legal (pow2_size src2_size) (
     legal (dst_size = src1_size \<and> src1_size = src2_size) (
     bind_r (opd_val m dst) (\<lambda>d.
     bind_r (opd_val m src1) (\<lambda>s1.
     bind_r (opd_val m src2) (\<lambda>s2.
     bind_r (load_int m (signd dst) s1 dst_size) (\<lambda>x.
     bind_r (load_int m (signd dst) s2 dst_size) (\<lambda>y.
     bind_r (of_option (c_arith op (signd dst) dst_size x y)) (\<lambda>z.
     store_int d dst_size z m))))))))))))))"

definition insn_equ_neq :: "bool \<Rightarrow> opd \<Rightarrow> opd \<Rightarrow> opd \<Rightarrow> machine \<Rightarrow> machine res" where
  "insn_equ_neq is_equ dst src1 src2 m =
     bind_r (opd_size dst) (\<lambda>dst_size.
     bind_r (opd_size src1) (\<lambda>src1_size.
     bind_r (opd_size src2) (\<lambda>src2_size.
     legal (\<not> signd dst) (
     legal (dst_size = 1) (
     legal (src1_size = src2_size) (
     bind_r (opd_val m dst) (\<lambda>d.
     bind_r (opd_val m src1) (\<lambda>s1.
     bind_r (opd_val m src2) (\<lambda>s2.
     bind_r (load m s1 src1_size) (\<lambda>bs1.
     bind_r (load m s2 src1_size) (\<lambda>bs2.
     store d [if (bs1 = bs2) = is_equ then 1 else 0] m)))))))))))"

definition c_compare :: "cmp_op \<Rightarrow> int \<Rightarrow> int \<Rightarrow> bool" where
  "c_compare op x y =
     (case op of OP_LT \<Rightarrow> x < y | OP_GT \<Rightarrow> x > y | OP_LTE \<Rightarrow> x \<le> y | OP_GTE \<Rightarrow> x \<ge> y)"

definition insn_bin_logic :: "cmp_op \<Rightarrow> opd \<Rightarrow> opd \<Rightarrow> opd \<Rightarrow> machine \<Rightarrow> machine res" where
  "insn_bin_logic op dst src1 src2 m =
     bind_r (opd_size dst) (\<lambda>dst_size.
     legal (\<not> signd dst) (
     legal (dst_size = 1) (
     bind_r (opd_size src1) (\<lambda>src1_size.
     bind_r (opd_size src2) (\<lambda>src2_size.
     legal (signd src1 = signd src2) (
     legal (pow2_size src1_size) (
     legal (pow2_size src2_size) (
     legal (src1_size = src2_size) (
     bind_r (opd_val m dst) (\<lambda>d.
     bind_r (opd_val m src1) (\<lambda>s1.
     bind_r (opd_val m src2) (\<lambda>s2.
     bind_r (load_int m (signd src1) s1 src1_size) (\<lambda>x.
     bind_r (load_int m (signd src1) s2 src1_size) (\<lambda>y.
     store d [if c_compare op x y then 1 else 0] m))))))))))))))"

subsection \<open>Unary operations\<close>

text \<open>The operations that take both operands at one size.\<close>

definition same_size :: "opd \<Rightarrow> opd \<Rightarrow> bool \<Rightarrow> bool \<Rightarrow> (nat \<Rightarrow> 'a res) \<Rightarrow> 'a res" where
  "same_size dst src dst_ok src_ok k =
     bind_r (opd_size dst) (\<lambda>dst_size.
     legal dst_ok (
     legal (pow2_size dst_size) (
     bind_r (opd_size src) (\<lambda>src_size.
     legal src_ok (
     legal (pow2_size src_size) (
     legal (dst_size = src_size) (k dst_size)))))))"

definition insn_not :: "opd \<Rightarrow> opd \<Rightarrow> machine \<Rightarrow> machine res" where
  "insn_not dst src m =
     same_size dst src True (signd src = signd dst) (\<lambda>sz.
     bind_r (opd_val m dst) (\<lambda>d.
     bind_r (opd_val m src) (\<lambda>s.
     bind_r (load_int m (signd dst) s sz) (\<lambda>x.
     store_int d sz (if x = 0 then 1 else 0) m))))"

text \<open>Negation promotes like the binary operations; the result goes into a signed integer.\<close>

definition insn_neg :: "opd \<Rightarrow> opd \<Rightarrow> machine \<Rightarrow> machine res" where
  "insn_neg dst src m =
     same_size dst src (signd dst) True (\<lambda>sz.
     bind_r (opd_val m dst) (\<lambda>d.
     bind_r (opd_val m src) (\<lambda>s.
     bind_r (load_int m (signd src) s sz) (\<lambda>x.
     bind_r (of_option (c_result (promoted_signed (signd src) sz) (promoted_size sz) (- x))) (\<lambda>z.
     store_int d sz z m)))))"

definition insn_bneg :: "opd \<Rightarrow> opd \<Rightarrow> machine \<Rightarrow> machine res" where
  "insn_bneg dst src m =
     same_size dst src (\<not> signd dst) (\<not> signd src) (\<lambda>sz.
     bind_r (opd_val m dst) (\<lambda>d.
     bind_r (opd_val m src) (\<lambda>s.
     bind_r (load_int m False s sz) (\<lambda>x.
     store_int d sz (NOT x) m))))"

definition insn_oz :: "opd \<Rightarrow> opd \<Rightarrow> machine \<Rightarrow> machine res" where
  "insn_oz dst src m =
     bind_r (opd_size dst) (\<lambda>dst_size.
     legal (\<not> signd dst) (
     legal (dst_size = 1) (
     bind_r (opd_size src) (\<lambda>src_size.
     legal (pow2_size src_size) (
     bind_r (opd_val m dst) (\<lambda>d.
     bind_r (opd_val m src) (\<lambda>s.
     bind_r (load_int m (signd src) s src_size) (\<lambda>x.
     store d [if x = 0 then 0 else 1] m))))))))"

text \<open>
  \<^verbatim>\<open>++\<close> and \<^verbatim>\<open>--\<close>: the sum is computed in the promoted type and converted back, so only
  signed integers of four and eight bytes can overflow.
\<close>

definition c_step :: "bool \<Rightarrow> bool \<Rightarrow> nat \<Rightarrow> int \<Rightarrow> int option" where
  "c_step is_inc sg sz x =
     c_result (promoted_signed sg sz) (promoted_size sz) (if is_inc then x + 1 else x - 1)"

definition insn_inc_dec :: "bool \<Rightarrow> opd \<Rightarrow> machine \<Rightarrow> machine res" where
  "insn_inc_dec is_inc dst m =
     bind_r (opd_size dst) (\<lambda>dst_size.
     legal (pow2_size dst_size) (
     bind_r (opd_val m dst) (\<lambda>d.
     bind_r (load_int m (signd dst) d dst_size) (\<lambda>x.
     bind_r (of_option (c_step is_inc (signd dst) dst_size x)) (\<lambda>y.
     store_int d dst_size y m)))))"

text \<open>Postfix: C leaves the order of the two writes open, so they must not meet.\<close>

definition insn_incp_decp :: "bool \<Rightarrow> opd \<Rightarrow> opd \<Rightarrow> machine \<Rightarrow> machine res" where
  "insn_incp_decp is_inc dst src m =
     same_size dst src True (signd src = signd dst) (\<lambda>sz.
     bind_r (opd_val m dst) (\<lambda>d.
     bind_r (opd_val m src) (\<lambda>s.
     if overlap d s sz then Inl Undefined else
     bind_r (load_int m (signd dst) s sz) (\<lambda>x.
     bind_r (of_option (c_step is_inc (signd dst) sz x)) (\<lambda>y.
     bind_r (store_int s sz y m) (\<lambda>m. store_int d sz x m))))))"

subsection \<open>Addresses\<close>

text \<open>
  The address of an immediate would be one in the program, which this memory does not hold;
  it counts as undefined.
\<close>

definition insn_ref :: "opd \<Rightarrow> opd \<Rightarrow> machine \<Rightarrow> machine res" where
  "insn_ref dst src m =
     bind_r (opd_size dst) (\<lambda>dst_size.
     legal (\<not> signd dst) (
     legal (\<not> indirect dst) (
     legal (dst_size = 8) (
     bind_r (opd_val m dst) (\<lambda>d.
     bind_r (opd_val m src) (\<lambda>s.
     case s of Imm _ \<Rightarrow> Inl Undefined | At a \<Rightarrow> store64 d a m))))))"

definition insn_drf :: "opd \<Rightarrow> opd \<Rightarrow> machine \<Rightarrow> machine res" where
  "insn_drf dst src m =
     bind_r (opd_size dst) (\<lambda>dst_size.
     legal (\<not> indirect dst) (
     legal (dst_size > 0) (
     bind_r (opd_size src) (\<lambda>src_size.
     legal (src_size = 8) (
     bind_r (opd_val m dst) (\<lambda>d.
     bind_r (opd_val m src) (\<lambda>s.
     bind_r (load64 m s) (\<lambda>ptr.
     copy_bytes d (At ptr) dst_size m))))))))"

end
