(* ===== verification/Vm_Ctl.thy ===== *)
theory Vm_Ctl
  imports Vm_Insn
begin

text \<open>
  The instructions of \<^verbatim>\<open>src/exec.c\<close> that change control: jumps, calls and returns, and those
  that make, run, test and wait for quaints, the suspended calls with a stack of their own.
\<close>

subsection \<open>Guards the handlers share\<close>

text \<open>An unsigned immediate of eight bytes; the operand's value.\<close>

definition imm64 :: "opd \<Rightarrow> (u64 \<Rightarrow> 'a res) \<Rightarrow> 'a res" where
  "imm64 d k =
     bind_r (opd_size d) (\<lambda>sz.
     legal (opd_kind d = CODEGEN_OPD_IMM \<and> \<not> signd d \<and> \<not> indirect d \<and> sz = 8) (k (off d)))"

text \<open>An unsigned temporary of eight bytes.\<close>

definition temp64 :: "opd \<Rightarrow> 'a res \<Rightarrow> 'a res" where
  "temp64 d k =
     bind_r (opd_size d) (\<lambda>sz.
     legal (opd_kind d = CODEGEN_OPD_TEMP \<and> \<not> signd d \<and> \<not> indirect d \<and> sz = 8) k)"

text \<open>An unsigned operand of eight bytes, direct or not; and one that has to be direct.\<close>

definition word64 :: "opd \<Rightarrow> 'a res \<Rightarrow> 'a res" where
  "word64 d k = bind_r (opd_size d) (\<lambda>sz. legal (\<not> signd d \<and> sz = 8) k)"

definition direct64 :: "opd \<Rightarrow> 'a res \<Rightarrow> 'a res" where
  "direct64 d k = bind_r (opd_size d) (\<lambda>sz. legal (\<not> signd d \<and> \<not> indirect d \<and> sz = 8) k)"

definition jump :: "u64 \<Rightarrow> machine \<Rightarrow> machine res" where
  "jump ip m = upd_vm (\<lambda>q. q\<lparr>q_ip := ip\<rparr>) m"

definition next_ip :: "machine \<Rightarrow> machine res" where
  "next_ip m = upd_vm (\<lambda>q. q\<lparr>q_ip := q_ip q + 1\<rparr>) m"

definition clear_waiting :: "qvm \<Rightarrow> qvm" where
  "clear_waiting q =
     q\<lparr>waiting := False, waiting_for := False, waiting_until := False, waiting_noblock := False\<rparr>"

subsection \<open>Jumps\<close>

text \<open>A condition of more than 128 bytes is compared with a zeroed block allocated for it.\<close>

definition zero_buffer :: "env \<Rightarrow> nat \<Rightarrow> machine \<Rightarrow> machine res" where
  "zero_buffer e n m =
     (if n > 128
      then let m' = m\<lparr>mallocs := Suc (mallocs m)\<rparr>
           in if env_malloc e (mallocs m) n = 0 then Inl Nomem else Inr m'
      else Inr m)"

definition insn_cjmp :: "env \<Rightarrow> bool \<Rightarrow> opd \<Rightarrow> u64 \<Rightarrow> machine \<Rightarrow> machine res" where
  "insn_cjmp e is_jz cond target m =
     bind_r (opd_size cond) (\<lambda>cond_size.
     legal (cond_size > 0) (
     bind_r (opd_val m cond) (\<lambda>c.
     bind_r (zero_buffer e cond_size m) (\<lambda>m.
     bind_r (load m c cond_size) (\<lambda>bs.
     let all_zero = (bs = replicate cond_size 0)
     in if all_zero = is_jz then jump target m else next_ip m)))))"

definition insn_jmp :: "u64 \<Rightarrow> machine \<Rightarrow> machine res" where
  "insn_jmp target m = jump target m"

subsection \<open>Calls\<close>

definition insn_pushr :: "opd \<Rightarrow> opd \<Rightarrow> machine \<Rightarrow> machine res" where
  "insn_pushr val ssp m =
     imm64 val (\<lambda>retip.
     temp64 ssp (
     bind_r (vm m) (\<lambda>q.
     legal (q_sp q mod 8 = 0) (
     legal (q_sp q + 16 \<le> STACK_SIZE) (
     bind_r (opd_val m ssp) (\<lambda>l.
     bind_r (store64 (vm_stack m (q_sp q)) retip m) (\<lambda>m.
     bind_r (store64 (vm_stack m (q_sp q + 8)) (q_bp q) m) (\<lambda>m.
     bind_r (upd_vm (\<lambda>q. q\<lparr>q_sp := q_sp q + 16\<rparr>) m) (\<lambda>m.
     store64 l (q_sp q + 16) m)))))))))"

definition align_up8 :: "u64 \<Rightarrow> u64" where
  "align_up8 x = (if x mod 8 \<noteq> 0 then x + (8 - x mod 8) else x)"

definition insn_push :: "opd \<Rightarrow> machine \<Rightarrow> machine res" where
  "insn_push val m =
     bind_r (opd_size val) (\<lambda>val_size.
     legal (val_size > 0) (
     bind_r (vm m) (\<lambda>q.
     legal (q_sp q mod 8 = 0) (
     legal (q_sp q + word_of_nat val_size \<le> STACK_SIZE) (
     bind_r (opd_val m val) (\<lambda>v.
     bind_r (copy_bytes (vm_stack m (q_sp q)) v val_size m) (\<lambda>m.
     let sp = align_up8 (q_sp q + word_of_nat val_size)
     in legal (sp \<le> STACK_SIZE) (upd_vm (\<lambda>q. q\<lparr>q_sp := sp\<rparr>) m))))))))"

definition insn_call_callv :: "opd \<Rightarrow> opd \<Rightarrow> machine \<Rightarrow> machine res" where
  "insn_call_callv loc bp m =
     word64 loc (
     temp64 bp (
     bind_r (opd_val m loc) (\<lambda>l.
     bind_r (opd_val m bp) (\<lambda>b.
     bind_r (load64 m l) (\<lambda>ip.
     bind_r (load64 m b) (\<lambda>bp.
     upd_vm (\<lambda>q. q\<lparr>q_ip := ip, q_bp := bp\<rparr>) m))))))"

definition insn_incsp :: "env \<Rightarrow> opd \<Rightarrow> opd \<Rightarrow> machine \<Rightarrow> machine res" where
  "insn_incsp e addend tsize m =
     imm64 addend (\<lambda>addend.
     imm64 tsize (\<lambda>tsize.
     legal (addend mod 8 = 0) (
     bind_r (vm m) (\<lambda>q.
     let sp = q_sp q + addend
     in legal (sp \<le> STACK_SIZE) (
        legal (sp mod 8 = 0) (
        bind_r (upd_vm (\<lambda>q. q\<lparr>at_start := False, q_sp := sp\<rparr>) m) (\<lambda>m.
        push_temps e (unat tsize) m)))))))"

text \<open>
  The status of the program is its entry function's result as a 32-bit \<^verbatim>\<open>int\<close>. The operand
  is that of the \<open>RETV\<close> instruction.
\<close>

definition exit_status_from_retval :: "opd \<Rightarrow> machine \<Rightarrow> int res" where
  "exit_status_from_retval val m =
     bind_r (opd_size val) (\<lambda>sz.
     bind_r (opd_val m val) (\<lambda>v.
     if sz \<in> {1, 2, 4, 8}
     then bind_r (load_int m (signd val) v sz) (\<lambda>x. Inr (wrap True 4 x))
     else Inr 0))"

text \<open>
  \<^verbatim>\<open>handle_return\<close>, in its three cases. \<open>ret\<close> is the size and place of the value returned,
  \<open>None\<close> for none, and \<open>val\<close> the operand of \<open>RETV\<close>.
\<close>

type_synonym retval = "(nat \<times> loc) option"

definition copy_ret :: "retval \<Rightarrow> loc \<Rightarrow> machine \<Rightarrow> machine res" where
  "copy_ret ret l m =
     (case ret of None \<Rightarrow> Inr m | Some (n, v) \<Rightarrow> copy_bytes l v n m)"

text \<open>A quaint's function returns: the VM below it had run it by \<open>RTE\<close>, \<open>RTEV\<close> or \<open>WAIT\<close>.\<close>

definition switch_to :: "u64 \<Rightarrow> machine \<Rightarrow> machine" where
  "switch_to p m = m\<lparr>vm_ptr := p\<rparr>"

definition return_by_rtev :: "opd \<Rightarrow> opd \<Rightarrow> u64 \<Rightarrow> retval \<Rightarrow> machine \<Rightarrow> machine res" where
  "return_by_rtev dst src parent ret m =
     (let old_vm = vm_ptr m; m = switch_to parent m in
      bind_r (opd_size dst) (\<lambda>cval_size.
      bind_r (opd_val m dst) (\<lambda>cval.
      label m (legal (map_option fst ret = Some cval_size) (
      bind_r (copy_ret ret cval m) (\<lambda>m.
      bind_r (release old_vm m) (\<lambda>m.
      bind_r (opd_val m src) (\<lambda>s.
      bind_r (store64 s 0 m) next_ip))))))))"

definition return_by_rte :: "opd \<Rightarrow> u64 \<Rightarrow> machine \<Rightarrow> machine res" where
  "return_by_rte src parent m =
     (let old_vm = vm_ptr m; m = switch_to parent m in
      bind_r (release old_vm m) (\<lambda>m.
      bind_r (opd_val m src) (\<lambda>s.
      bind_r (store64 s 0 m) next_ip)))"

definition return_by_wait :: "u64 \<Rightarrow> retval \<Rightarrow> machine \<Rightarrow> machine res" where
  "return_by_wait parent ret m =
     bind_r (upd_vm (\<lambda>q. q\<lparr>at_end := True, passed_func := 0, passed_id := 0\<rparr>) m) (\<lambda>m.
     bind_r (copy_ret ret (vm_stack m 0) m) (\<lambda>m.
     bind_r (upd_vm (\<lambda>q. q\<lparr>q_temps := []\<rparr>) m) (\<lambda>m.
     let m = switch_to parent m in
     bind_r (upd_vm clear_waiting m) next_ip)))"

definition return_from_quaint :: "codegen_obj \<Rightarrow> retval \<Rightarrow> machine \<Rightarrow> machine res" where
  "return_from_quaint obj ret m =
     bind_r (vm m) (\<lambda>q.
     bind_r (get_qvm m (q_parent q)) (\<lambda>parent.
     if unat (q_ip parent) \<ge> length (insns obj) then Inl Undefined else
     (case insns obj ! unat (q_ip parent) of
       CODEGEN_OP_RTEV dst src \<Rightarrow> legal (ret \<noteq> None) (return_by_rtev dst src (q_parent q) ret m)
     | CODEGEN_OP_RTE src \<Rightarrow> legal (ret = None) (return_by_rte src (q_parent q) m)
     | CODEGEN_OP_WAIT _ \<Rightarrow> return_by_wait (q_parent q) ret m
     | _ \<Rightarrow> Inl Illegal)))"

text \<open>The bottom frame of the first VM: the program ends with the status returned.\<close>

definition return_from_program :: "opd option \<Rightarrow> retval \<Rightarrow> machine \<Rightarrow> machine res" where
  "return_from_program val ret m =
     bind_r (case ret of None \<Rightarrow> Inr 0
             | Some _ \<Rightarrow> (case val of None \<Rightarrow> Inl Undefined | Some v \<Rightarrow> exit_status_from_retval v m)) (\<lambda>status.
     bind_r (vm m) (\<lambda>q.
     bind_r (load64 m (vm_stack m (q_sp q))) (\<lambda>ip.
     bind_r (load64 m (vm_stack m (q_sp q + 8))) (\<lambda>bp.
     bind_r (upd_vm (\<lambda>q. q\<lparr>q_temps := [], q_ip := ip, q_bp := bp\<rparr>) m) (\<lambda>m.
     if status \<noteq> 0 then Inl (Status status) else Inr m)))))"

definition return_to_caller :: "codegen_obj \<Rightarrow> retval \<Rightarrow> machine \<Rightarrow> machine res" where
  "return_to_caller obj ret m =
     bind_r (vm m) (\<lambda>q.
     case q_temps q of [] \<Rightarrow> Inl Undefined | _ # temps \<Rightarrow>
     bind_r (load64 m (vm_stack m (q_sp q))) (\<lambda>ip.
     bind_r (load64 m (vm_stack m (q_sp q + 8))) (\<lambda>bp.
     bind_r (upd_vm (\<lambda>q. q\<lparr>q_temps := temps, q_ip := ip, q_bp := bp\<rparr>) m) (\<lambda>m.
     legal (unat ip < length (insns obj)) (
     legal (bp \<le> STACK_SIZE) (
     bind_r (case ret of None \<Rightarrow> Inr m
             | Some (n, _) \<Rightarrow>
                 (case insns obj ! unat ip of
                    CODEGEN_OP_CALLV val _ _ \<Rightarrow>
                      bind_r (opd_size val) (\<lambda>cval_size.
                      legal (n = cval_size) (
                      bind_r (opd_val m val) (\<lambda>cval. copy_ret ret cval m)))
                  | _ \<Rightarrow> Inl Illegal)) next_ip))))))"

text \<open>The frame of temporaries of the function that returns is freed on every way out.\<close>

definition handle_return :: "codegen_obj \<Rightarrow> opd option \<Rightarrow> retval \<Rightarrow> machine \<Rightarrow> machine res" where
  "handle_return obj val ret m =
     bind_r (vm m) (\<lambda>q.
     cleanup_temps (q_temps q) m
       (if q_sp q = 0 \<and> q_parent q \<noteq> 0 then return_from_quaint obj ret m
        else if q_sp q = 0 then return_from_program val ret m
        else return_to_caller obj ret m))"

definition insn_ret_retv :: "codegen_obj \<Rightarrow> opd option \<Rightarrow> opd \<Rightarrow> machine \<Rightarrow> machine res" where
  "insn_ret_retv obj val sz m =
     bind_r (vm m) (\<lambda>q.
     legal (q_sp q mod 8 = 0) (
     legal (q_bp q mod 8 = 0) (
     imm64 sz (\<lambda>sz.
     legal (q_sp q \<ge> sz) (
     legal (q_temps q \<noteq> []) (
     bind_r (upd_vm (\<lambda>q. q\<lparr>q_sp := q_sp q - sz\<rparr>) m) (\<lambda>m.
     case val of
       None \<Rightarrow> handle_return obj None None m
     | Some v \<Rightarrow>
         bind_r (opd_size v) (\<lambda>n.
         bind_r (opd_val m v) (\<lambda>l. handle_return obj val (Some (n, l)) m)))))))))"

end
