(* ===== verification/Vm_Quaint.thy ===== *)
theory Vm_Quaint
  imports Vm_Ctl
begin

text \<open>
  The instructions on quaints, the built-in functions, and \<^verbatim>\<open>check_and_eventually_split_vms\<close>,
  which after every instruction looks whether some VM below the running one has waited long
  enough. That loop follows the \<^verbatim>\<open>parent\<close> pointers, which the program can make cyclic by
  letting a quaint wait for itself; it is a partial function with \<open>None\<close> for not ending.
\<close>

subsection \<open>Running and testing quaints\<close>

definition load_quaint :: "opd \<Rightarrow> machine \<Rightarrow> u64 res" where
  "load_quaint d m = bind_r (opd_val m d) (load64 m)"

definition enter :: "u64 \<Rightarrow> machine \<Rightarrow> machine res" where
  "enter p m = bind_r (set_qvm p (\<lambda>q. q\<lparr>q_parent := vm_ptr m\<rparr>) m) (\<lambda>m. Inr (switch_to p m))"

text \<open>\<open>dst\<close> is the operand of \<open>RTEV\<close>, \<open>None\<close> for \<open>RTE\<close>.\<close>

definition rte_dst :: "machine \<Rightarrow> opd option \<Rightarrow> (nat \<times> loc) option res" where
  "rte_dst m dst =
     (case dst of None \<Rightarrow> Inr None
      | Some d \<Rightarrow>
          bind_r (opd_size d) (\<lambda>n.
          legal (\<not> indirect d) (legal (n > 0) (bind_r (opd_val m d) (\<lambda>l. Inr (Some (n, l)))))))"

definition insn_rte_rtev :: "opd option \<Rightarrow> opd \<Rightarrow> machine \<Rightarrow> machine res" where
  "insn_rte_rtev dst src m =
     bind_r (rte_dst m dst) (\<lambda>d.
     word64 src (
     bind_r (load_quaint src m) (\<lambda>p.
     if p = 0 then
       bind_r (case d of None \<Rightarrow> Inr m | Some (n, l) \<Rightarrow> store l (replicate n 0) m) next_ip
     else bind_r (get_qvm m p) (\<lambda>q.
       if at_end q then
         bind_r (copy_ret (case d of None \<Rightarrow> None | Some (n, l) \<Rightarrow> Some (n, At (stack_at p 0)))
                   (case d of None \<Rightarrow> Imm 0 | Some (n, l) \<Rightarrow> l) m) (\<lambda>m.
         bind_r (release p m) (\<lambda>m.
         bind_r (opd_val m src) (\<lambda>s.
         bind_r (store64 s 0 m) next_ip)))
       else enter p m))))"

definition insn_qat :: "opd \<Rightarrow> opd \<Rightarrow> u64 \<Rightarrow> u64 \<Rightarrow> machine \<Rightarrow> machine res" where
  "insn_qat dst quaint func wlab_id m =
     bind_r (opd_size dst) (\<lambda>dst_size.
     legal (\<not> signd dst) (
     legal (\<not> indirect dst) (
     legal (dst_size = 1) (
     word64 quaint (
     bind_r (opd_val m dst) (\<lambda>d.
     bind_r (load_quaint quaint m) (\<lambda>p.
     bind_r (if p = 0 then Inr False
             else bind_r (get_qvm m p) (\<lambda>q. Inr (
               if func = 0 \<and> wlab_id = 0 then at_start q
               else if func = 1 then at_end q
               else passed_func q = func \<and> passed_id q = wlab_id))) (\<lambda>b.
     store d [if b then 1 else 0] m))))))))"

subsection \<open>Waiting\<close>

text \<open>The interval of a wait in nanoseconds: a count of seconds or of milliseconds.\<close>

definition wait_interval :: "bool \<Rightarrow> u64 \<Rightarrow> u64" where
  "wait_interval units tm = tm * (if units then 1000000000 else 1000000)"

definition wait_timeout :: "wait_args \<Rightarrow> machine \<Rightarrow> u64 res" where
  "wait_timeout w m =
     (let d = w_timeout w in
      bind_r (opd_size d) (\<lambda>sz.
      legal (\<not> signd d) (
      legal (pow2_size sz) (
      bind_r (opd_val m d) (\<lambda>l.
      bind_r (load m l sz) (\<lambda>bs. Inr (word_of_nat (le_val bs))))))))"

definition set_waiting :: "wait_args \<Rightarrow> qvm \<Rightarrow> qvm" where
  "set_waiting w q =
     q\<lparr>waiting := True, waiting_for := False, waiting_until := False, waiting_noblock := w_noblock w\<rparr>"

definition start_wait :: "env \<Rightarrow> wait_args \<Rightarrow> u64 \<Rightarrow> u64 \<Rightarrow> machine \<Rightarrow> machine res" where
  "start_wait e w tm p m =
     bind_r (upd_vm (set_waiting w) m) (\<lambda>m.
     bind_r (if w_has_timeout w then
               bind_r (upd_vm (\<lambda>q. q\<lparr>waiting_for := True\<rparr>) m) (\<lambda>m.
               let (ok, m) = get_monotonic_time e m in
               if \<not> ok then Inl (Late Nomem m)
               else upd_vm (\<lambda>q. q\<lparr>wait_word1 := now m, wait_word2 := wait_interval (w_units w) tm\<rparr>) m)
             else if w_func w \<noteq> 0 then
               upd_vm (\<lambda>q. q\<lparr>waiting_until := True, wait_word1 := w_func w, wait_word2 := w_wlab_id w\<rparr>) m
             else Inr m) (enter p))"

definition insn_wait :: "env \<Rightarrow> wait_args \<Rightarrow> machine \<Rightarrow> machine res" where
  "insn_wait e w m =
     word64 (w_quaint w) (
     bind_r (load_quaint (w_quaint w) m) (\<lambda>p.
     if p = 0 then next_ip m
     else bind_r (get_qvm m p) (\<lambda>q.
       if at_end q then next_ip m
       else if w_has_timeout w then
         bind_r (wait_timeout w m) (\<lambda>tm. if tm = 0 then next_ip m else start_wait e w tm p m)
       else start_wait e w 0 p m)))"

definition insn_wlab :: "u64 \<Rightarrow> u64 \<Rightarrow> machine \<Rightarrow> machine res" where
  "insn_wlab func wlab_id m = upd_vm (\<lambda>q. q\<lparr>passed_func := func, passed_id := wlab_id\<rparr>) m"

definition insn_noint_int :: "bool \<Rightarrow> machine \<Rightarrow> machine res" where
  "insn_noint_int is_noint m = upd_vm (\<lambda>q. q\<lparr>noint := is_noint\<rparr>) m"

subsection \<open>Making quaints\<close>

definition insn_getsp :: "opd \<Rightarrow> machine \<Rightarrow> machine res" where
  "insn_getsp dst m =
     temp64 dst (
     bind_r (opd_val m dst) (\<lambda>d.
     bind_r (vm m) (\<lambda>q. store64 d (q_sp q) m)))"

text \<open>The arguments, which lie on the stack from \<open>ssp\<close> to the top, move to the new stack.\<close>

definition insn_qnt :: "env \<Rightarrow> opd \<Rightarrow> opd \<Rightarrow> opd \<Rightarrow> machine \<Rightarrow> machine res" where
  "insn_qnt e dst loc sp m =
     direct64 dst (
     word64 loc (
     temp64 sp (
     bind_r (opd_val m dst) (\<lambda>d.
     bind_r (bind_r (opd_val m loc) (load64 m)) (\<lambda>loc.
     bind_r (bind_r (opd_val m sp) (load64 m)) (\<lambda>ssp.
     bind_r (alloc_qvm e m) (\<lambda>(p, m).
     bind_r (vm m) (\<lambda>q.
     let args = q_sp q - ssp in
     bind_r (set_qvm p (\<lambda>q. q\<lparr>q_ip := loc, q_bp := 16, q_sp := 16 + args, at_start := True\<rparr>) m) (\<lambda>m.
     bind_r (copy_bytes (At (stack_at p 16)) (vm_stack m ssp) (unat args) m) (\<lambda>m.
     bind_r (store64 d p m) (\<lambda>m.
     upd_vm (\<lambda>q. q\<lparr>q_sp := ssp\<rparr>) m)))))))))))"

definition insn_qntv :: "env \<Rightarrow> opd \<Rightarrow> opd \<Rightarrow> machine \<Rightarrow> machine res" where
  "insn_qntv e dst val m =
     direct64 dst (
     bind_r (opd_size val) (\<lambda>val_size.
     legal (val_size > 0) (
     bind_r (opd_val m dst) (\<lambda>d.
     bind_r (opd_val m val) (\<lambda>v.
     bind_r (alloc_qvm e m) (\<lambda>(p, m).
     bind_r (set_qvm p (\<lambda>q. q\<lparr>at_start := True, at_end := True\<rparr>) m) (\<lambda>m.
     bind_r (copy_bytes (At (stack_at p 0)) v val_size m) (store64 d p))))))))"

subsection \<open>Built-in functions\<close>

fun digits :: "nat \<Rightarrow> u8 list" where
  "digits n = (if n < 10 then [word_of_nat (48 + n)] else digits (n div 10) @ [word_of_nat (48 + n mod 10)])"

definition print_int :: "int \<Rightarrow> u8 list" where
  "print_int x = (if x < 0 then 45 # digits (nat (- x)) else digits (nat x))"

definition put :: "u8 list \<Rightarrow> machine \<Rightarrow> machine" where
  "put bs m = m\<lparr>out := out m @ bs\<rparr>"

text \<open>A C string: the bytes up to the first zero, which has to be in the same block.\<close>

definition load_cstr :: "machine \<Rightarrow> u64 \<Rightarrow> u8 list res" where
  "load_cstr m a =
     (case filter (in_block a 1) (blocks m) of
        [] \<Rightarrow> Inl Undefined
      | b # _ \<Rightarrow>
          let bs = fetch (mem m) a (b_data b + b_size b - unat a)
          in if 0 \<in> set bs then Inr (takeWhile (\<lambda>c. c \<noteq> 0) bs) else Inl Undefined)"

text \<open>An argument of a built-in function, and its removal from the stack.\<close>

definition bfun_arg :: "nat \<Rightarrow> nat \<Rightarrow> machine \<Rightarrow> u8 list res" where
  "bfun_arg ofs n m = bind_r (vm m) (\<lambda>q. load m (vm_stack m (q_bp q + word_of_nat ofs)) n)"

definition drop_args :: "u64 \<Rightarrow> machine \<Rightarrow> machine res" where
  "drop_args n m = upd_vm (\<lambda>q. q\<lparr>q_sp := q_sp q - n\<rparr>) m"

definition bfun_guard :: "u64 \<Rightarrow> u64 \<Rightarrow> machine \<Rightarrow> 'a res \<Rightarrow> 'a res" where
  "bfun_guard args n m k =
     bind_r (vm m) (\<lambda>q. legal (q_sp q \<ge> 16 + args) (legal (q_bp q + n \<le> STACK_SIZE) k))"

definition word_arg :: "nat \<Rightarrow> machine \<Rightarrow> u64 res" where
  "word_arg ofs m = bind_r (bfun_arg ofs 8 m) (\<lambda>bs. Inr (word_of_nat (le_val bs)))"

definition bfun_alloc :: "env \<Rightarrow> bool \<Rightarrow> machine \<Rightarrow> (retval \<times> machine) res" where
  "bfun_alloc e is_calloc m =
     bfun_guard 8 8 m (
     bind_r (word_arg 0 m) (\<lambda>n.
     bind_r (allocate e 0 (unat n) m) (\<lambda>(a, m).
     let m = (if is_calloc \<and> a \<noteq> 0 then clear a (unat n) m else m) in
     bind_r (drop_args 8 m) (\<lambda>m. Inr (Some (8, Imm a), m)))))"

text \<open>
  \<^verbatim>\<open>realloc\<close>: the new block may lie over the old one, so the old one is taken out before the
  new address is looked at, and put back when there is no memory; a size of 0 frees it.
\<close>

definition bfun_realloc :: "env \<Rightarrow> machine \<Rightarrow> (retval \<times> machine) res" where
  "bfun_realloc e m =
     bfun_guard 16 16 m (
     bind_r (word_arg 0 m) (\<lambda>old.
     bind_r (word_arg 8 m) (\<lambda>n.
     bind_r (if old = 0 then Inr []
             else case filter (\<lambda>b. b_base b = old \<and> b_header b = 0) (blocks m) of
                    [] \<Rightarrow> Inl Undefined
                  | b # _ \<Rightarrow> load m (At old) (min (b_size b) (unat n))) (\<lambda>bs.
     bind_r (release old m) (\<lambda>m'.
     bind_r (allocate e 0 (unat n) m') (\<lambda>(a, m').
     let m = (if a \<noteq> 0 then m'\<lparr>mem := poke a bs (mem m')\<rparr>
              else if n = 0 then m' else m\<lparr>mallocs := mallocs m'\<rparr>) in
     bind_r (drop_args 16 m) (\<lambda>m. Inr (Some (8, Imm a), m))))))))"

definition bfun_free :: "machine \<Rightarrow> (retval \<times> machine) res" where
  "bfun_free m =
     bfun_guard 8 8 m (
     bind_r (word_arg 0 m) (\<lambda>p.
     bind_r (release p m) (\<lambda>m.
     bind_r (drop_args 8 m) (\<lambda>m. Inr (None, m)))))"

definition bfun_ps :: "machine \<Rightarrow> (retval \<times> machine) res" where
  "bfun_ps m =
     bfun_guard 8 8 m (
     bind_r (word_arg 0 m) (\<lambda>p.
     bind_r (load_cstr m p) (\<lambda>bs.
     bind_r (drop_args 8 (put bs m)) (\<lambda>m. Inr (None, m)))))"

definition bfun_pint :: "bool \<Rightarrow> nat \<Rightarrow> machine \<Rightarrow> (retval \<times> machine) res" where
  "bfun_pint sg n m =
     bfun_guard 8 (word_of_nat n) m (
     bind_r (bfun_arg 0 n m) (\<lambda>bs.
     bind_r (drop_args 8 (put (print_int (int_val sg bs)) m)) (\<lambda>m. Inr (None, m))))"

definition bfun_exit :: "machine \<Rightarrow> (retval \<times> machine) res" where
  "bfun_exit m = bfun_guard 8 4 m (bind_r (bfun_arg 0 4 m) (\<lambda>bs. Inl (Exited (int_val True bs))))"

definition bfun_monotime :: "env \<Rightarrow> machine \<Rightarrow> (retval \<times> machine) res" where
  "bfun_monotime e m =
     (let (ok, m) = get_monotonic_time e m in if ok then Inr (Some (8, Imm (now m)), m) else Inl (Late Nomem m))"

definition call_bfun :: "env \<Rightarrow> u64 \<Rightarrow> machine \<Rightarrow> (retval \<times> machine) res" where
  "call_bfun e i m =
     (if i = SCOPE_BFUN_ID_NULL then Inl Illegal
      else if i = SCOPE_BFUN_ID_MONOTIME then bfun_monotime e m
      else if i = SCOPE_BFUN_ID_MALLOC then bfun_alloc e False m
      else if i = SCOPE_BFUN_ID_CALLOC then bfun_alloc e True m
      else if i = SCOPE_BFUN_ID_REALLOC then bfun_realloc e m
      else if i = SCOPE_BFUN_ID_FREE then bfun_free m
      else if i = SCOPE_BFUN_ID_PS then bfun_ps m
      else if i = SCOPE_BFUN_ID_PU8 then bfun_pint False 1 m
      else if i = SCOPE_BFUN_ID_PI8 then bfun_pint True 1 m
      else if i = SCOPE_BFUN_ID_PU16 then bfun_pint False 2 m
      else if i = SCOPE_BFUN_ID_PI16 then bfun_pint True 2 m
      else if i = SCOPE_BFUN_ID_PU32 then bfun_pint False 4 m
      else if i = SCOPE_BFUN_ID_PI32 then bfun_pint True 4 m
      else if i = SCOPE_BFUN_ID_PU64 then bfun_pint False 8 m
      else if i = SCOPE_BFUN_ID_PI64 then bfun_pint True 8 m
      else if i = SCOPE_BFUN_ID_PNL then Inr (None, put [10] m)
      else if i = SCOPE_BFUN_ID_EXIT then bfun_exit m
      else Inr (None, m))"

definition insn_bfun :: "codegen_obj \<Rightarrow> env \<Rightarrow> machine \<Rightarrow> machine res" where
  "insn_bfun obj e m =
     bind_r (vm m) (\<lambda>q.
     legal (q_sp q mod 8 = 0) (
     legal (q_bp q mod 8 = 0) (
     legal (q_sp q \<ge> 16) (
     bind_r (call_bfun e (q_ip q) m) (\<lambda>(ret, m).
     bind_r (upd_vm (\<lambda>q. q\<lparr>q_sp := q_sp q - 16\<rparr>) m) (\<lambda>m.
     label m (bind_r (push_temps e 0 m) (handle_return obj None ret))))))))"

end
