(* ===== verification/Vm_Run.thy ===== *)
theory Vm_Run
  imports Vm_Quaint
begin

text \<open>
  The loop of the virtual machine: \<^verbatim>\<open>check_and_eventually_split_vms\<close>, \<^verbatim>\<open>exec_insn\<close> and \<^verbatim>\<open>exec\<close> of
  \<^verbatim>\<open>src/exec.c\<close>. The check for waiting VMs runs after every handler, also after one that
  returned an error; the program ends with that error only if the check ends.
\<close>

subsection \<open>Ending a wait\<close>

text \<open>Whether the VM \<open>q\<close> has waited long enough, \<open>upper\<close> being the VM it runs.\<close>

definition wait_over :: "u64 \<Rightarrow> qvm \<Rightarrow> qvm \<Rightarrow> bool" where
  "wait_over t upper q \<longleftrightarrow> waiting q \<and>
     (if waiting_for q then t - wait_word1 q \<ge> wait_word2 q
      else waiting_until q \<and> passed_func upper = wait_word1 q \<and> passed_id upper = wait_word2 q)"

definition split_at :: "u64 \<Rightarrow> machine \<Rightarrow> machine res" where
  "split_at p m = bind_r (upd_vm clear_waiting (switch_to p m)) next_ip"

partial_function (option) split_loop ::
    "machine \<Rightarrow> bool \<Rightarrow> qvm \<Rightarrow> u64 \<Rightarrow> machine res option" where
  "split_loop m noi upper cur =
     (if cur = 0 \<or> noi then Some (Inr m)
      else case get_qvm m cur of
        Inl e \<Rightarrow> Some (Inl e)
      | Inr q \<Rightarrow>
          if wait_over (now m) upper q then Some (split_at cur m)
          else split_loop m (noint q) q (q_parent q))"

declare split_loop.simps [code]

definition check_and_eventually_split_vms :: "env \<Rightarrow> machine \<Rightarrow> machine res option" where
  "check_and_eventually_split_vms e m =
     (let tick = (cycles m mod 200 = 0); m = m\<lparr>cycles := cycles m + 1\<rparr>;
          (ok, m) = (if tick then get_monotonic_time e m else (True, m))
      in if \<not> ok then Some (Inr m)
         else case vm m of
           Inl err \<Rightarrow> Some (Inl err)
         | Inr q \<Rightarrow> split_loop m (noint q) q (q_parent q))"

subsection \<open>One instruction\<close>

definition run_insn :: "codegen_obj \<Rightarrow> env \<Rightarrow> insn \<Rightarrow> machine \<Rightarrow> machine res" where
  "run_insn obj e i m =
     (case i of
        CODEGEN_OP_NOP \<Rightarrow> Inr m
      | CODEGEN_OP_MOV dst src \<Rightarrow> insn_mov dst src m
      | CODEGEN_OP_CAST dst src \<Rightarrow> insn_cast dst src m
      | CODEGEN_OP_ARITH op dst src1 src2 \<Rightarrow> insn_bin_arith op dst src1 src2 m
      | CODEGEN_OP_EQU dst src1 src2 \<Rightarrow> insn_equ_neq True dst src1 src2 m
      | CODEGEN_OP_NEQ dst src1 src2 \<Rightarrow> insn_equ_neq False dst src1 src2 m
      | CODEGEN_OP_CMP op dst src1 src2 \<Rightarrow> insn_bin_logic op dst src1 src2 m
      | CODEGEN_OP_NOT dst src \<Rightarrow> insn_not dst src m
      | CODEGEN_OP_NEG dst src \<Rightarrow> insn_neg dst src m
      | CODEGEN_OP_BNEG dst src \<Rightarrow> insn_bneg dst src m
      | CODEGEN_OP_OZ dst src \<Rightarrow> insn_oz dst src m
      | CODEGEN_OP_INC dst \<Rightarrow> insn_inc_dec True dst m
      | CODEGEN_OP_DEC dst \<Rightarrow> insn_inc_dec False dst m
      | CODEGEN_OP_INCP dst src \<Rightarrow> insn_incp_decp True dst src m
      | CODEGEN_OP_DECP dst src \<Rightarrow> insn_incp_decp False dst src m
      | CODEGEN_OP_JZ cond target \<Rightarrow> insn_cjmp e True cond target m
      | CODEGEN_OP_JNZ cond target \<Rightarrow> insn_cjmp e False cond target m
      | CODEGEN_OP_JMP target \<Rightarrow> insn_jmp target m
      | CODEGEN_OP_PUSHR val ssp \<Rightarrow> insn_pushr val ssp m
      | CODEGEN_OP_PUSH val \<Rightarrow> insn_push val m
      | CODEGEN_OP_CALL loc bp \<Rightarrow> insn_call_callv loc bp m
      | CODEGEN_OP_CALLV _ loc bp \<Rightarrow> insn_call_callv loc bp m
      | CODEGEN_OP_INCSP addend tsize \<Rightarrow> insn_incsp e addend tsize m
      | CODEGEN_OP_RET sz \<Rightarrow> insn_ret_retv obj None sz m
      | CODEGEN_OP_RETV val sz \<Rightarrow> insn_ret_retv obj (Some val) sz m
      | CODEGEN_OP_REF dst src \<Rightarrow> insn_ref dst src m
      | CODEGEN_OP_DRF dst src \<Rightarrow> insn_drf dst src m
      | CODEGEN_OP_RTE src \<Rightarrow> insn_rte_rtev None src m
      | CODEGEN_OP_RTEV dst src \<Rightarrow> insn_rte_rtev (Some dst) src m
      | CODEGEN_OP_QAT dst quaint func wlab_id \<Rightarrow> insn_qat dst quaint func wlab_id m
      | CODEGEN_OP_WAIT w \<Rightarrow> insn_wait e w m
      | CODEGEN_OP_WLAB func wlab_id \<Rightarrow> insn_wlab func wlab_id m
      | CODEGEN_OP_GETSP dst \<Rightarrow> insn_getsp dst m
      | CODEGEN_OP_QNT dst loc sp \<Rightarrow> insn_qnt e dst loc sp m
      | CODEGEN_OP_QNTV dst val \<Rightarrow> insn_qntv e dst val m
      | CODEGEN_OP_NOINT \<Rightarrow> insn_noint_int True m
      | CODEGEN_OP_INT \<Rightarrow> insn_noint_int False m
      | CODEGEN_OP_BFUN \<Rightarrow> insn_bfun obj e m
      | CODEGEN_OP_COUNT \<Rightarrow> Inl Illegal)"

text \<open>The instructions that set the instruction pointer themselves.\<close>

definition sets_ip :: "insn \<Rightarrow> bool" where
  "sets_ip i =
     (case i of
        CODEGEN_OP_JZ _ _ \<Rightarrow> True | CODEGEN_OP_JNZ _ _ \<Rightarrow> True | CODEGEN_OP_JMP _ \<Rightarrow> True
      | CODEGEN_OP_CALL _ _ \<Rightarrow> True | CODEGEN_OP_CALLV _ _ _ \<Rightarrow> True
      | CODEGEN_OP_RET _ \<Rightarrow> True | CODEGEN_OP_RETV _ _ \<Rightarrow> True | CODEGEN_OP_BFUN \<Rightarrow> True
      | CODEGEN_OP_RTE _ \<Rightarrow> True | CODEGEN_OP_RTEV _ _ \<Rightarrow> True | CODEGEN_OP_WAIT _ \<Rightarrow> True
      | _ \<Rightarrow> False)"

definition step_ip :: "insn \<Rightarrow> machine \<Rightarrow> machine res" where
  "step_ip i m = (if sets_ip i then Inr m else next_ip m)"

text \<open>
  The handler and the step of the instruction pointer: the error the handler returned, if
  any, and the state in which the check starts. An unknown instruction never gets there.
\<close>

definition run_handler :: "codegen_obj \<Rightarrow> env \<Rightarrow> insn \<Rightarrow> machine \<Rightarrow> (stop option \<times> machine) res" where
  "run_handler obj e i m =
     (case run_insn obj e i m of
        Inr m' \<Rightarrow> bind_r (step_ip i m') (\<lambda>m'. Inr (None, m'))
      | Inl err \<Rightarrow>
          (case if i = CODEGEN_OP_COUNT then None else returned m err of
             None \<Rightarrow> Inl err
           | Some (err', m') \<Rightarrow> bind_r (step_ip i m') (\<lambda>m'. Inr (Some err', m'))))"

definition exec_insn :: "codegen_obj \<Rightarrow> env \<Rightarrow> insn \<Rightarrow> machine \<Rightarrow> machine res option" where
  "exec_insn obj e i m =
     (case run_handler obj e i m of
        Inl err \<Rightarrow> Some (Inl err)
      | Inr (fault, m') \<Rightarrow>
          map_option (\<lambda>r. bind_r r (\<lambda>m'. case fault of None \<Rightarrow> Inr m' | Some err \<Rightarrow> Inl err))
            (check_and_eventually_split_vms e m'))"

subsection \<open>The program\<close>

text \<open>
  \<open>None\<close> is a run that does not end. The instruction is read before the first test of the
  instruction pointer, which is why an object without its built-in functions is undefined.
\<close>

definition fetch_insn :: "codegen_obj \<Rightarrow> machine \<Rightarrow> insn res" where
  "fetch_insn obj m =
     bind_r (vm m) (\<lambda>q.
     if unat (q_ip q) < length (insns obj) then Inr (insns obj ! unat (q_ip q)) else Inl Undefined)"

partial_function (option) exec_loop :: "codegen_obj \<Rightarrow> env \<Rightarrow> machine \<Rightarrow> machine res option" where
  "exec_loop obj e m =
     (case fetch_insn obj m of
        Inl err \<Rightarrow> Some (Inl err)
      | Inr i \<Rightarrow>
          Option.bind (exec_insn obj e i m) (\<lambda>r.
            case r of
              Inl err \<Rightarrow> Some (Inl err)
            | Inr m' \<Rightarrow>
                (case vm m' of
                   Inl err \<Rightarrow> Some (Inl err)
                 | Inr q \<Rightarrow>
                     if unat (q_ip q) > length (insns obj) then Some (Inl Illegal)
                     else if unat (q_ip q) < length (insns obj) then exec_loop obj e m'
                     else Some (Inr m'))))"

declare exec_loop.simps [code]

definition exec_start :: "codegen_obj \<Rightarrow> env \<Rightarrow> machine res" where
  "exec_start obj e =
     (let m = \<lparr>mem = (\<lambda>_. 0), blocks = [], qvms = (\<lambda>_. None), vm_ptr = 0, bss = 0, bss_size = 0,
               now = 0, cycles = 0, mallocs = 0, clocks = 0, out = []\<rparr>;
          n = data_size obj + length (strings obj) in
      bind_r (allocate e 0 n m) (\<lambda>(a, m).
      if a = 0 then Inl Nomem
      else bind_r (alloc_qvm e (clear a n m)) (\<lambda>(p, m).
        let m = m\<lparr>mem := poke (a + word_of_nat (data_size obj)) (strings obj) (mem m),
                  bss := a, bss_size := n, vm_ptr := p\<rparr> in
        bind_r (store64 (vm_stack m 0) (word_of_nat (length (insns obj))) m)
          (upd_vm (\<lambda>q. q\<lparr>q_sp := 16, q_bp := 16, q_ip := SCOPE_BFUN_ID_COUNT\<rparr>)))))"

definition exec :: "codegen_obj \<Rightarrow> env \<Rightarrow> machine res option" where
  "exec obj e = (case exec_start obj e of Inl err \<Rightarrow> Some (Inl err) | Inr m \<Rightarrow> exec_loop obj e m)"

end
