(* ===== verification/Vm_Inv.thy ===== *)
theory Vm_Inv
  imports Vm_Run
begin

text \<open>
  Invariants of the virtual machine. Every handler is built from a few operations on the
  state, so an invariant has to be shown for these only: the locale \<open>vm_invariant\<close> states
  what they owe it, and its lemmas that then every instruction keeps it.
\<close>

subsection \<open>What a fallible step ensures\<close>

definition okr :: "('a \<Rightarrow> bool) \<Rightarrow> 'e + 'a \<Rightarrow> bool" where
  "okr P r \<longleftrightarrow> (\<forall>x. r = Inr x \<longrightarrow> P x)"

named_theorems okr_rules \<open>what a step ensures, by its outermost construct\<close>

lemma okrD: "okr P r \<Longrightarrow> r = Inr x \<Longrightarrow> P x"
  by (simp add: okr_def)

lemma okr_Inr [okr_rules]: "P x \<Longrightarrow> okr P (Inr x)"
  by (simp add: okr_def)

lemma okr_Inl [okr_rules]: "okr P (Inl e)"
  by (simp add: okr_def)

lemma okr_legal [okr_rules]: "(c \<Longrightarrow> okr P k) \<Longrightarrow> okr P (legal c k)"
  by (simp add: okr_def legal_def)

lemma okr_bind: "okr Q r \<Longrightarrow> (\<And>x. Q x \<Longrightarrow> okr P (k x)) \<Longrightarrow> okr P (bind_r r k)"
  by (auto simp: okr_def bind_simps)

lemma okr_bind_value: "(\<And>x. r = Inr x \<Longrightarrow> okr P (k x)) \<Longrightarrow> okr P (bind_r r k)"
  by (auto simp: okr_def bind_simps)

lemma okr_if [okr_rules]: "(c \<Longrightarrow> okr P a) \<Longrightarrow> (\<not> c \<Longrightarrow> okr P b) \<Longrightarrow> okr P (if c then a else b)"
  by simp

lemma okr_option [okr_rules]:
  "okr P a \<Longrightarrow> (\<And>x. v = Some x \<Longrightarrow> okr P (b x)) \<Longrightarrow> okr P (case v of None \<Rightarrow> a | Some x \<Rightarrow> b x)"
  by (cases v) auto

lemma okr_list [okr_rules]:
  "okr P a \<Longrightarrow> (\<And>x xs. v = x # xs \<Longrightarrow> okr P (b x xs)) \<Longrightarrow> okr P (case v of [] \<Rightarrow> a | x # xs \<Rightarrow> b x xs)"
  by (cases v) auto

lemma okr_prod [okr_rules]:
  "(\<And>x y. v = (x, y) \<Longrightarrow> okr P (b x y)) \<Longrightarrow> okr P (case v of (x, y) \<Rightarrow> b x y)"
  by (cases v) auto

lemma okr_loc [okr_rules]:
  "(\<And>x. v = Imm x \<Longrightarrow> okr P (a x)) \<Longrightarrow> (\<And>x. v = At x \<Longrightarrow> okr P (b x)) \<Longrightarrow>
    okr P (case v of Imm x \<Rightarrow> a x | At x \<Rightarrow> b x)"
  by (cases v) auto

lemma okr_imm64 [okr_rules]: "(\<And>x. okr P (k x)) \<Longrightarrow> okr P (imm64 d k)"
  by (auto simp: imm64_def okr_def legal_def bind_simps split: if_splits)

lemma okr_temp64 [okr_rules]: "okr P k \<Longrightarrow> okr P (temp64 d k)"
  by (auto simp: temp64_def okr_def legal_def bind_simps split: if_splits)

lemma okr_word64 [okr_rules]: "okr P k \<Longrightarrow> okr P (word64 d k)"
  by (auto simp: word64_def okr_def legal_def bind_simps split: if_splits)

lemma okr_direct64 [okr_rules]: "okr P k \<Longrightarrow> okr P (direct64 d k)"
  by (auto simp: direct64_def okr_def legal_def bind_simps split: if_splits)

lemma okr_same_size [okr_rules]: "(\<And>n. okr P (k n)) \<Longrightarrow> okr P (same_size dst src b c k)"
  by (auto simp: same_size_def okr_def legal_def bind_simps split: if_splits)

lemma okr_conj: "okr P r \<Longrightarrow> okr Q r \<Longrightarrow> okr (\<lambda>x. P x \<and> Q x) r"
  by (simp add: okr_def)

lemma okr_label [okr_rules]: "okr P r \<Longrightarrow> okr P (label m r)"
  by (auto simp: okr_def label_def split: sum.splits option.splits)

lemma copy_bytes_Inr:
  "copy_bytes d s n m = Inr m' \<longleftrightarrow> \<not> overlap d s n \<and> (\<exists>bs. load m s n = Inr bs \<and> store d bs m = Inr m')"
  by (simp add: copy_bytes_def bind_simps)

lemma okr_copy [okr_rules]:
  "(\<And>bs. load m s n = Inr bs \<Longrightarrow> length bs = n \<Longrightarrow> okr P (store d bs m)) \<Longrightarrow> okr P (copy_bytes d s n m)"
proof -
  assume a: "\<And>bs. load m s n = Inr bs \<Longrightarrow> length bs = n \<Longrightarrow> okr P (store d bs m)"
  have "load m s n = Inr bs \<Longrightarrow> length bs = n" for bs
    by (auto simp: load_def fetch_def split: loc.splits if_splits)
  then show ?thesis
    unfolding copy_bytes_def by (intro okr_if okr_Inl okr_bind_value a)
qed

lemma okr_cleanup: "okr P r \<Longrightarrow> (\<And>m. P m \<Longrightarrow> okr P (free_temps ts m)) \<Longrightarrow> okr P (cleanup_temps ts m r)"
  by (auto simp: okr_def cleanup_temps_def bind_simps split: sum.splits option.splits)

subsection \<open>The state left by a failed step\<close>

text \<open>
  \<open>late P r\<close>: if \<open>r\<close> is an error with a state, \<open>P\<close> holds there. Most handlers change
  nothing the check looks at before they fail and never give a state.
\<close>

definition late :: "(machine \<Rightarrow> bool) \<Rightarrow> 'a res \<Rightarrow> bool" where
  "late P r \<longleftrightarrow> (\<forall>err m. r = Inl (Late err m) \<longrightarrow> P m)"

named_theorems late_rules \<open>what a failed step leaves, by its outermost construct\<close>

lemma lateD: "late P r \<Longrightarrow> r = Inl (Late err m) \<Longrightarrow> P m"
  by (simp add: late_def)

lemma late_ends [late_rules]:
  "late P (Inr x)" "late P (Inl Illegal)" "late P (Inl Nomem)" "late P (Inl (Status n))"
  "late P (Inl (Exited n))" "late P (Inl Abort)" "late P (Inl Undefined)" "late P (Inl Bad_env)"
  by (simp_all add: late_def)

lemma late_Late: "P m \<Longrightarrow> late P (Inl (Late err m))"
  by (simp add: late_def)

lemma late_bind [late_rules]:
  "late P r \<Longrightarrow> (\<And>x. r = Inr x \<Longrightarrow> late P (k x)) \<Longrightarrow> late P (bind_r r k)"
  by (cases r) (auto simp: late_def bind_simps)

lemma late_if [late_rules]: "(c \<Longrightarrow> late P a) \<Longrightarrow> (\<not> c \<Longrightarrow> late P b) \<Longrightarrow> late P (if c then a else b)"
  by simp

lemma late_guards [late_rules]:
  "(c \<Longrightarrow> late P k) \<Longrightarrow> late P (legal c k)" "(c \<Longrightarrow> late P k) \<Longrightarrow> late P (assert c k)"
  by (simp_all add: late_def legal_def assert_def)

lemma late_option [late_rules]:
  "late P a \<Longrightarrow> (\<And>x. v = Some x \<Longrightarrow> late P (b x)) \<Longrightarrow> late P (case v of None \<Rightarrow> a | Some x \<Rightarrow> b x)"
  by (cases v) auto

lemma late_list [late_rules]:
  "late P a \<Longrightarrow> (\<And>x xs. v = x # xs \<Longrightarrow> late P (b x xs)) \<Longrightarrow> late P (case v of [] \<Rightarrow> a | x # xs \<Rightarrow> b x xs)"
  by (cases v) auto

lemma late_prod [late_rules]:
  "(\<And>x y. v = (x, y) \<Longrightarrow> late P (b x y)) \<Longrightarrow> late P (case v of (x, y) \<Rightarrow> b x y)"
  by (cases v) auto

lemma late_loc [late_rules]:
  "(\<And>x. v = Imm x \<Longrightarrow> late P (a x)) \<Longrightarrow> (\<And>x. v = At x \<Longrightarrow> late P (b x)) \<Longrightarrow>
    late P (case v of Imm x \<Rightarrow> a x | At x \<Rightarrow> b x)"
  by (cases v) auto

lemma late_kind [late_rules]:
  "(\<And>x. late P (a x)) \<Longrightarrow> late P b \<Longrightarrow> late P (case i of CODEGEN_OP_CALLV x _ _ \<Rightarrow> a x | _ \<Rightarrow> b)"
  by (cases i) auto

lemma late_memory [late_rules]:
  "late P (load m l n)" "late P (store l bs m)" "late P (get_qvm m p)" "late P (allocate e h n m)"
  "late P (release a m)"
  unfolding load_def store_def get_qvm_def allocate_def release_def Let_def by (intro late_rules)+

lemma late_words [late_rules]:
  "late P (load64 m l)" "late P (store64 l v m)" "late P (load_int m sg l n)" "late P (store_int l n x m)"
  "late P (copy_bytes l s n m)"
  unfolding load64_def store64_def load_int_def store_int_def copy_bytes_def by (intro late_rules)+

lemma late_headers [late_rules]: "late P (vm m)" "late P (set_qvm p f m)" "late P (upd_vm f m)"
  unfolding vm_def set_qvm_def upd_vm_def by (intro late_rules)+

lemma late_operand [late_rules]: "late P (opd_size d)" "late P (opd_base m d)"
  unfolding opd_size_def opd_base_def
  by (intro late_rules) (auto split: codegen_opd.split intro!: late_rules)

lemma late_value [late_rules]: "late P (opd_val m d)" "late P (of_option x)"
  unfolding opd_val_def of_option_def by (intro late_rules)+

lemma late_operands [late_rules]:
  "(\<And>x. late P (kw x)) \<Longrightarrow> late P (imm64 d kw)" "late P k \<Longrightarrow> late P (temp64 d k)"
  "late P k \<Longrightarrow> late P (word64 d k)" "late P k \<Longrightarrow> late P (direct64 d k)"
  "(\<And>n. late P (kn n)) \<Longrightarrow> late P (same_size dst src b c kn)"
  unfolding imm64_def temp64_def word64_def direct64_def same_size_def by (intro late_rules; assumption)+

lemma late_frames [late_rules]:
  "late P (alloc_qvm e m)" "late P (push_temps e n m)" "late P (free_temps ts m)"
  "late P (jump ip m)" "late P (next_ip m)" "late P (zero_buffer e n m)" "late P (copy_ret ret l m)"
  unfolding alloc_qvm_def push_temps_def free_temps_def jump_def next_ip_def zero_buffer_def copy_ret_def Let_def
  by (intro late_rules)+

text \<open>The handlers that never give a state with their error.\<close>

lemma late_computing:
  "late P (insn_mov dst src m)" "late P (insn_cast dst src m)" "late P (insn_bin_arith op dst src1 src2 m)"
  "late P (insn_equ_neq b dst src1 src2 m)" "late P (insn_bin_logic c dst src1 src2 m)"
  "late P (insn_not dst src m)" "late P (insn_neg dst src m)" "late P (insn_bneg dst src m)"
  "late P (insn_oz dst src m)" "late P (insn_inc_dec b dst m)" "late P (insn_incp_decp b dst src m)"
  "late P (insn_ref dst src m)" "late P (insn_drf dst src m)"
  unfolding insn_mov_def insn_cast_def insn_bin_arith_def insn_equ_neq_def insn_bin_logic_def insn_not_def
    insn_neg_def insn_bneg_def insn_oz_def insn_inc_dec_def insn_incp_decp_def insn_ref_def insn_drf_def
  by (intro late_rules)+

lemma late_control:
  "late P (insn_cjmp e b cond target m)" "late P (insn_jmp target m)" "late P (insn_pushr val ssp m)"
  "late P (insn_push val m)" "late P (insn_call_callv l bp m)" "late P (insn_incsp e addend tsize m)"
  unfolding insn_cjmp_def insn_jmp_def insn_pushr_def insn_push_def insn_call_callv_def insn_incsp_def Let_def
  by (intro late_rules)+

lemma late_quaints:
  "late P (insn_rte_rtev d src m)" "late P (insn_qat dst src func l m)" "late P (insn_wlab func l m)"
  "late P (insn_noint_int b m)" "late P (insn_getsp dst m)" "late P (insn_qnt e dst src ssp m)"
  "late P (insn_qntv e dst val m)"
  unfolding insn_rte_rtev_def rte_dst_def enter_def load_quaint_def insn_qat_def insn_wlab_def insn_noint_int_def
    insn_getsp_def insn_qnt_def insn_qntv_def Let_def
  by (intro late_rules)+

lemma late_label:
  "P m \<Longrightarrow> late P r \<Longrightarrow> late P (label m r)"
  by (auto simp: late_def label_def returned_def split: sum.splits stop.splits)

lemma late_after: "okr Q r \<Longrightarrow> late P r \<Longrightarrow> (\<And>x. Q x \<Longrightarrow> late P (k x)) \<Longrightarrow> late P (bind_r r k)"
  by (rule late_bind) (auto dest: okrD)

lemma late_cleanup:
  assumes "P m" and "late P r" and "\<And>m. P m \<Longrightarrow> okr P (free_temps ts m)"
  shows "late P (cleanup_temps ts m r)"
proof (cases r)
  case (Inl err)
  have "late P (bind_r (free_temps ts m') (\<lambda>m'. Inl (Late err' m')) :: machine res)"
    if "returned m err = Some (err', m')" for err' m'
  proof -
    have "P m'" using that assms(1,2) Inl by (auto simp: returned_def late_def split: stop.splits)
    then show ?thesis by (rule late_after [OF assms(3) late_frames(3)]) (rule late_Late)
  qed
  then show ?thesis using assms(2) by (simp add: cleanup_temps_def Inl split: option.split)
next
  case (Inr m')
  then show ?thesis by (simp add: cleanup_temps_def late_frames)
qed

text \<open>Which operations leave the header of the running VM alone.\<close>

lemma vm_store: "okr (\<lambda>m'. vm m' = vm m) (store l bs m)"
  by (auto simp: okr_def store_def vm_def get_qvm_def split: loc.splits if_splits)

lemma vm_store64: "okr (\<lambda>m'. vm m' = vm m) (store64 l v m)"
  by (simp add: store64_def vm_store)

lemma vm_allocate: "okr (\<lambda>(a, m'). vm m' = vm m) (allocate e h n m)"
  by (auto simp: okr_def allocate_def vm_def get_qvm_def Let_def split: if_splits)

lemma vm_mem [simp]:
  "vm (m\<lparr>mem := f\<rparr>) = vm m" "vm (m\<lparr>mallocs := k\<rparr>) = vm m" "vm (put bs m) = vm m" "vm (clear a n m) = vm m"
  by (simp_all add: vm_def get_qvm_def put_def clear_def)

definition sp_above :: "u64 \<Rightarrow> machine \<Rightarrow> bool" where
  "sp_above g m \<longleftrightarrow> (\<forall>q. vm m = Inr q \<longrightarrow> g \<le> q_sp q)"

lemma sp_above_allocate: "sp_above g m \<Longrightarrow> okr (\<lambda>(a, m). sp_above g m) (allocate e h n m)"
  using vm_allocate [of m e h n] by (auto simp: okr_def sp_above_def)

lemma sp_above_release: "sp_above g m \<Longrightarrow> okr (sp_above g) (release a m)"
  by (auto simp: okr_def sp_above_def release_def vm_def get_qvm_def split: if_splits option.splits)

lemma sp_above_mem [simp]:
  "sp_above g (m\<lparr>mem := f\<rparr>) = sp_above g m" "sp_above g (m\<lparr>mallocs := k\<rparr>) = sp_above g m"
  "sp_above g (put bs m) = sp_above g m" "sp_above g (clear a n m) = sp_above g m"
  by (simp_all add: sp_above_def)

lemma upd_vm_Inr:
  "upd_vm f m = Inr m' \<longleftrightarrow> (\<exists>q. vm m = Inr q \<and> m' = m\<lparr>qvms := (qvms m)(vm_ptr m \<mapsto> f q)\<rparr>)"
  by (auto simp: upd_vm_def set_qvm_def vm_def bind_simps)

lemma sp_above_drop:
  "sp_above (16 + n) m \<Longrightarrow> n = 8 \<or> n = 16 \<Longrightarrow> okr (sp_above 16) (drop_args n m)"
  by (auto simp: okr_def sp_above_def drop_args_def upd_vm_Inr vm_def get_qvm_def word_le_nat_alt
      unat_sub_if_size)

subsection \<open>The contract\<close>

text \<open>
  What the operations on the state owe an invariant \<open>P\<close>. A change of the running VM's
  header has to leave its stack pointer within the stack; the one operation that writes
  the stack pointer of another VM is the making of a quaint.
\<close>

locale vm_invariant =
  fixes P :: "machine \<Rightarrow> bool"
  assumes store: "P m \<Longrightarrow> okr P (store l bs m)"
    and upd: "P m \<Longrightarrow> (\<And>q. vm m = Inr q \<Longrightarrow> q_sp (f q) \<le> STACK_SIZE \<or> q_sp (f q) \<le> q_sp q) \<Longrightarrow> okr P (upd_vm f m)"
    and set_header: "P m \<Longrightarrow> (\<And>q. q_sp (f q) = q_sp q) \<Longrightarrow> okr P (set_qvm p f m)"
    and alloc: "P m \<Longrightarrow> okr (\<lambda>(a, m). P m) (allocate e h n m)"
    and alloc_vm: "P m \<Longrightarrow> okr (\<lambda>(a, m). P m) (alloc_qvm e m)"
    and free: "P m \<Longrightarrow> okr P (release a m)"
    and clears: "P m \<Longrightarrow> P (clear a n m)"
    and pokes: "P m \<Longrightarrow> P (m\<lparr>mem := g (mem m)\<rparr>)"
    and counters: "P m \<Longrightarrow> P (m\<lparr>mallocs := i\<rparr>)" "P m \<Longrightarrow> P (m\<lparr>cycles := c\<rparr>)"
    and clock: "P m \<Longrightarrow> P (snd (get_monotonic_time e m))"
    and puts: "P m \<Longrightarrow> P (put bs m)"
    and switch: "P m \<Longrightarrow> P (switch_to p m)"
    and qnt: "P m \<Longrightarrow> okr P (insn_qnt e dst loc sp m)"
begin

lemma bind_state: "okr P r \<Longrightarrow> (\<And>m. P m \<Longrightarrow> okr P' (k m)) \<Longrightarrow> okr P' (bind_r r k)"
  by (rule okr_bind)

lemma bind_pair: "okr (\<lambda>(a, m). P m) r \<Longrightarrow> (\<And>a m. P m \<Longrightarrow> okr P' (k (a, m))) \<Longrightarrow> okr P' (bind_r r k)"
  by (erule okr_bind) auto

lemma store64_ok: "P m \<Longrightarrow> okr P (store64 l v m)"
  by (simp add: store64_def store)

lemma store_int_ok: "P m \<Longrightarrow> okr P (store_int l n v m)"
  by (simp add: store_int_def store)

lemma flags: "P m \<Longrightarrow> (\<And>q. q_sp (f q) = q_sp q) \<Longrightarrow> okr P (upd_vm f m)"
  by (rule upd) auto

lemma jump_ok: "P m \<Longrightarrow> okr P (jump t m)"
  unfolding jump_def by (rule flags) auto

lemma next_ip_ok: "P m \<Longrightarrow> okr P (next_ip m)"
  unfolding next_ip_def by (rule flags) auto

lemmas steps = store store64_ok store_int_ok jump_ok next_ip_ok free

lemmas binds = bind_state bind_pair okr_bind_value

subsection \<open>Computing instructions\<close>

lemma mov: "P m \<Longrightarrow> okr P (insn_mov dst src m)"
  unfolding insn_mov_def by (rule okr_rules steps binds | assumption)+

lemma cast: "P m \<Longrightarrow> okr P (insn_cast dst src m)"
  unfolding insn_cast_def by (rule okr_rules steps binds | assumption)+

lemma bin_arith: "P m \<Longrightarrow> okr P (insn_bin_arith op dst src1 src2 m)"
  unfolding insn_bin_arith_def by (rule okr_rules steps binds | assumption)+

lemma equ_neq: "P m \<Longrightarrow> okr P (insn_equ_neq b dst src1 src2 m)"
  unfolding insn_equ_neq_def by (rule okr_rules steps binds | assumption)+

lemma bin_logic: "P m \<Longrightarrow> okr P (insn_bin_logic op dst src1 src2 m)"
  unfolding insn_bin_logic_def by (rule okr_rules steps binds | assumption)+

lemma unary:
  "P m \<Longrightarrow> okr P (insn_not dst src m)"
  "P m \<Longrightarrow> okr P (insn_neg dst src m)"
  "P m \<Longrightarrow> okr P (insn_bneg dst src m)"
  "P m \<Longrightarrow> okr P (insn_oz dst src m)"
  "P m \<Longrightarrow> okr P (insn_inc_dec b dst m)"
  "P m \<Longrightarrow> okr P (insn_incp_decp b dst src m)"
  "P m \<Longrightarrow> okr P (insn_ref dst src m)"
  "P m \<Longrightarrow> okr P (insn_drf dst src m)"
  unfolding insn_not_def insn_neg_def insn_bneg_def insn_oz_def insn_inc_dec_def
    insn_incp_decp_def insn_ref_def insn_drf_def
  by (rule okr_rules steps binds | assumption)+

subsection \<open>Control\<close>

lemma switched: "P m \<Longrightarrow> okr P (Inr (switch_to p m))"
  by (intro okr_Inr switch)

lemma cjmp: "P m \<Longrightarrow> okr P (insn_cjmp e b cond target m)"
  unfolding insn_cjmp_def zero_buffer_def Let_def
  by (rule okr_rules steps binds counters | assumption)+

lemma pushr: "P m \<Longrightarrow> okr P (insn_pushr val ssp m)"
  unfolding insn_pushr_def
proof (intro okr_imm64 okr_temp64, rule okr_bind_value, intro okr_legal, rule okr_bind_value)
  fix retip q l
  assume P: "P m" and q: "vm m = Inr q" and sp: "q_sp q + 16 \<le> STACK_SIZE"
  have "okr (\<lambda>m. P m \<and> vm m = Inr q) (store64 l v m)" if "P m \<and> vm m = Inr q" for l v m
    using that store64_ok [of m l v] vm_store64 [of m l v] by (auto simp: okr_def)
  note st = this
  show "okr P (bind_r (store64 (vm_stack m (q_sp q)) retip m) (\<lambda>m.
      bind_r (store64 (vm_stack m (q_sp q + 8)) (q_bp q) m) (\<lambda>m.
      bind_r (upd_vm (\<lambda>q. q\<lparr>q_sp := q_sp q + 16\<rparr>) m) (store64 l (q_sp q + 16)))))"
    by (rule okr_bind [OF st], use P q in simp, rule okr_bind [OF st], assumption,
        rule bind_state [OF upd]) (use sp in \<open>auto intro: store64_ok\<close>)
qed

lemma push: "P m \<Longrightarrow> okr P (insn_push val m)"
  unfolding insn_push_def Let_def
  by (rule okr_rules store upd binds | assumption | rule disjI1, simp)+

lemma call_callv: "P m \<Longrightarrow> okr P (insn_call_callv loc bp m)"
  unfolding insn_call_callv_def by (rule okr_rules binds flags | assumption | simp)+

lemma push_temps_ok: "P m \<Longrightarrow> okr P (push_temps e n m)"
  unfolding push_temps_def by (rule okr_rules bind_pair alloc flags | assumption | simp)+

lemma incsp: "P m \<Longrightarrow> okr P (insn_incsp e addend tsize m)"
  unfolding insn_incsp_def Let_def
  by (rule okr_rules upd push_temps_ok binds | assumption | rule disjI1, simp)+

lemma temps_freed: "P m \<Longrightarrow> okr P (free_temps ts m)"
  unfolding free_temps_def by (rule okr_rules free | assumption)+

lemma copy_ret_ok: "P m \<Longrightarrow> okr P (copy_ret ret l m)"
  unfolding copy_ret_def by (rule okr_rules steps binds | assumption)+

lemma enter_ok: "P m \<Longrightarrow> okr P (enter p m)"
  unfolding enter_def
  by (rule bind_state [OF set_header] switched | assumption | simp)+

lemma rte_rtev: "P m \<Longrightarrow> okr P (insn_rte_rtev dst src m)"
  unfolding insn_rte_rtev_def
  by (rule okr_rules steps copy_ret_ok enter_ok binds | assumption)+

lemma by_rtev: "P m \<Longrightarrow> okr P (return_by_rtev dst src p ret m)"
  unfolding return_by_rtev_def Let_def
  by (rule okr_rules steps copy_ret_ok binds switch | assumption)+

lemma by_rte: "P m \<Longrightarrow> okr P (return_by_rte src p m)"
  unfolding return_by_rte_def Let_def by (rule okr_rules steps binds switch | assumption)+

lemma by_wait: "P m \<Longrightarrow> okr P (return_by_wait p ret m)"
  unfolding return_by_wait_def Let_def
  by (rule okr_rules flags steps copy_ret_ok binds switch | assumption | simp add: clear_waiting_def)+

lemma from_quaint: "P m \<Longrightarrow> okr P (return_from_quaint obj ret m)"
  unfolding return_from_quaint_def
  by (intro okr_if okr_Inl okr_bind_value)
    (auto split: insn.split intro!: okr_Inl okr_legal by_rtev by_rte by_wait)

lemma from_program: "P m \<Longrightarrow> okr P (return_from_program val ret m)"
  unfolding return_from_program_def by (rule okr_rules binds flags | assumption | simp)+

lemma okr_callv:
  "(\<And>val. okr Q (f val)) \<Longrightarrow> okr Q (case i of CODEGEN_OP_CALLV val _ _ \<Rightarrow> f val | _ \<Rightarrow> Inl Illegal)"
  by (cases i) (simp_all add: okr_Inl)

lemma to_caller: "P m \<Longrightarrow> okr P (return_to_caller obj ret m)"
  unfolding return_to_caller_def
  by (rule okr_rules flags steps copy_ret_ok okr_callv binds | assumption | simp)+

lemma returned: "P m \<Longrightarrow> okr P (handle_return obj val ret m)"
  unfolding handle_return_def
  by (rule okr_bind_value okr_if okr_cleanup from_quaint from_program to_caller temps_freed | assumption)+

lemma ret_retv: "P m \<Longrightarrow> okr P (insn_ret_retv obj val sz m)"
  unfolding insn_ret_retv_def
proof (rule okr_bind_value, intro okr_legal okr_imm64)
  fix q :: qvm and n
  assume P: "P m" and q: "vm m = Inr q" and n: "n \<le> q_sp q"
  have "okr P (upd_vm (\<lambda>q. q\<lparr>q_sp := q_sp q - n\<rparr>) m)"
    by (rule upd [OF P]) (use q n word_sub_le in auto)
  then show "okr P (bind_r (upd_vm (\<lambda>q. q\<lparr>q_sp := q_sp q - n\<rparr>) m) (\<lambda>m.
      case val of None \<Rightarrow> handle_return obj None None m
      | Some v \<Rightarrow> bind_r (opd_size v) (\<lambda>k. bind_r (opd_val m v) (\<lambda>l. handle_return obj val (Some (k, l)) m))))"
    by (rule bind_state) (rule okr_rules binds returned | assumption)+
qed

subsection \<open>Quaints\<close>

lemma qat: "P m \<Longrightarrow> okr P (insn_qat dst quaint func i m)"
  unfolding insn_qat_def by (rule okr_rules steps okr_bind_value | assumption)+

lemma timed:
  "P m \<Longrightarrow> okr P (case get_monotonic_time e m of (ok, m) \<Rightarrow>
     if \<not> ok then Inl (Late Nomem m)
     else upd_vm (\<lambda>q. q\<lparr>wait_word1 := now m, wait_word2 := d\<rparr>) m)"
  using clock [of m e] by (cases "get_monotonic_time e m") (auto intro!: okr_Inl flags)

lemma started: "P m \<Longrightarrow> okr P (start_wait e w tm p m)"
  unfolding start_wait_def Let_def
  by (rule okr_if bind_state enter_ok flags timed okr_Inr | assumption | simp add: set_waiting_def)+

lemma waits: "P m \<Longrightarrow> okr P (insn_wait e w m)"
  unfolding insn_wait_def by (rule okr_rules steps started okr_bind_value | assumption)+

lemma small:
  "P m \<Longrightarrow> okr P (insn_wlab func i m)"
  "P m \<Longrightarrow> okr P (insn_noint_int b m)"
  "P m \<Longrightarrow> okr P (insn_getsp dst m)"
  unfolding insn_wlab_def insn_noint_int_def insn_getsp_def
  by (rule okr_rules steps flags okr_bind_value | assumption | simp)+

lemma qntv: "P m \<Longrightarrow> okr P (insn_qntv e dst val m)"
  unfolding insn_qntv_def
  by (rule okr_rules steps set_header bind_state bind_pair [OF alloc_vm] okr_bind_value | assumption | simp)+

subsection \<open>Built-in functions\<close>

abbreviation P_above :: "u64 \<Rightarrow> machine \<Rightarrow> bool" where
  "P_above g m \<equiv> P m \<and> sp_above g m"

lemma guarded:
  "P m \<Longrightarrow> (P_above (16 + a) m \<Longrightarrow> okr Q k) \<Longrightarrow> okr Q (bfun_guard a n m k)"
  unfolding bfun_guard_def by (intro okr_bind_value okr_legal) (simp add: sp_above_def)

lemma above_alloc: "P_above g m \<Longrightarrow> okr (\<lambda>(a, m). P_above g m) (allocate e h n m)"
  using alloc [of m e h n] sp_above_allocate [of g m e h n] by (auto simp: okr_def)

lemma above_release: "P_above g m \<Longrightarrow> okr (P_above g) (release a m)"
  using free [of m a] sp_above_release [of g m a] by (auto simp: okr_def)

lemma above_drop: "P_above (16 + n) m \<Longrightarrow> n = 8 \<or> n = 16 \<Longrightarrow> okr (P_above 16) (drop_args n m)"
proof -
  assume a: "P_above (16 + n) m" "n = 8 \<or> n = 16"
  have "okr P (drop_args n m)"
    unfolding drop_args_def
  proof (rule upd)
    fix q assume "vm m = Inr q"
    then have "n \<le> q_sp q" using a by (auto simp: sp_above_def word_le_nat_alt)
    then show "q_sp (q\<lparr>q_sp := q_sp q - n\<rparr>) \<le> STACK_SIZE \<or> q_sp (q\<lparr>q_sp := q_sp q - n\<rparr>) \<le> q_sp q"
      by (simp add: word_sub_le)
  qed (use a in simp)
  then show ?thesis using sp_above_drop [of n m] a by (auto simp: okr_def)
qed

lemma dropped:
  "P_above (16 + n) m \<Longrightarrow> n = 8 \<or> n = 16 \<Longrightarrow>
    okr (\<lambda>(r, m). P_above 16 m) (bind_r (drop_args n m) (\<lambda>m. Inr (ret, m)))"
  by (rule okr_bind [OF above_drop]) (auto intro: okr_Inr)

lemma bfun_alloc_ok: "P m \<Longrightarrow> okr (\<lambda>(r, m). P_above 16 m) (bfun_alloc e b m)"
  unfolding bfun_alloc_def
proof (erule guarded, rule okr_bind_value)
  fix n assume a: "P_above (16 + 8) m"
  show "okr (\<lambda>(r, m). P_above 16 m) (bind_r (allocate e 0 (unat n) m) (\<lambda>(a, m).
      let m = if b \<and> a \<noteq> 0 then clear a (unat n) m else m
      in bind_r (drop_args 8 m) (\<lambda>m. Inr (Some (8, Imm a), m))))"
    by (rule okr_bind [OF above_alloc [OF a]]) (auto simp: Let_def intro!: dropped clears)
qed

lemma bfun_realloc_ok: "P m \<Longrightarrow> okr (\<lambda>(r, m). P_above 16 m) (bfun_realloc e m)"
  unfolding bfun_realloc_def
proof (erule guarded, rule okr_bind_value, rule okr_bind_value, rule okr_bind_value)
  fix old n bs assume a: "P_above (16 + 16) m"
  show "okr (\<lambda>(r, m). P_above 16 m) (bind_r (release old m) (\<lambda>m'. bind_r (allocate e 0 (unat n) m') (\<lambda>(a, m').
      let m = (if a \<noteq> 0 then m'\<lparr>mem := poke a bs (mem m')\<rparr>
               else if n = 0 then m' else m\<lparr>mallocs := mallocs m'\<rparr>)
      in bind_r (drop_args 16 m) (\<lambda>m. Inr (Some (8, Imm a), m)))))"
    by (rule okr_bind [OF above_release [OF a]], rule okr_bind [OF above_alloc], assumption)
      (use a in \<open>auto simp: Let_def intro!: dropped counters pokes\<close>)
qed

lemma bfun_free_ok: "P m \<Longrightarrow> okr (\<lambda>(r, m). P_above 16 m) (bfun_free m)"
  unfolding bfun_free_def
  by (erule guarded, rule okr_bind_value, rule okr_bind [OF above_release], assumption)
    (auto intro: dropped)

lemma bfun_print_ok:
  "P m \<Longrightarrow> okr (\<lambda>(r, m). P_above 16 m) (bfun_ps m)"
  "P m \<Longrightarrow> okr (\<lambda>(r, m). P_above 16 m) (bfun_pint b k m)"
  unfolding bfun_ps_def bfun_pint_def
  by (erule guarded, intro okr_bind_value dropped, auto intro: puts)+

lemma bfun_exit_ok: "okr Q (bfun_exit m)"
  by (auto simp: okr_def bfun_exit_def bfun_guard_def bind_simps legal_def split: if_splits)

lemma bfun_monotime_ok:
  "P m \<Longrightarrow> sp_above 16 m \<Longrightarrow> okr (\<lambda>(r, m). P_above 16 m) (bfun_monotime e m)"
  using clock [of m e]
  by (auto simp: bfun_monotime_def get_monotonic_time_def Let_def okr_def sp_above_def vm_def
      get_qvm_def split: option.splits)

lemma call_bfun_ok: "P m \<Longrightarrow> sp_above 16 m \<Longrightarrow> okr (\<lambda>(r, m). P_above 16 m) (call_bfun e i m)"
  unfolding call_bfun_def
  by (intro okr_if okr_Inl bfun_alloc_ok bfun_realloc_ok bfun_free_ok bfun_print_ok bfun_exit_ok
      bfun_monotime_ok) (auto intro!: okr_Inr puts)

lemma bfun: "P m \<Longrightarrow> okr P (insn_bfun obj e m)"
  unfolding insn_bfun_def
proof (rule okr_bind_value, intro okr_legal)
  fix q :: qvm assume P: "P m" and "vm m = Inr q" "16 \<le> q_sp q"
  then have "okr (\<lambda>(r, m). P_above 16 m) (call_bfun e (q_ip q) m)"
    by (intro call_bfun_ok) (auto simp: sp_above_def)
  then show "okr P (bind_r (call_bfun e (q_ip q) m) (\<lambda>(ret, m).
      bind_r (upd_vm (\<lambda>q. q\<lparr>q_sp := q_sp q - 16\<rparr>) m) (\<lambda>m.
      label m (bind_r (push_temps e 0 m) (handle_return obj None ret)))))"
  proof (rule okr_bind, clarify)
    fix ret m assume a: "P m" "sp_above 16 m"
    show "okr P (bind_r (upd_vm (\<lambda>q. q\<lparr>q_sp := q_sp q - 16\<rparr>) m) (\<lambda>m.
        label m (bind_r (push_temps e 0 m) (handle_return obj None ret))))"
      by (rule bind_state [OF upd [OF a(1)]])
        (use a(2) in \<open>auto simp: sp_above_def word_sub_le intro!: okr_label bind_state [OF push_temps_ok] returned\<close>)
  qed
qed

subsection \<open>Failing handlers\<close>

text \<open>The states that come with an error keep the invariant too.\<close>

lemma by_rtev_late: "P m \<Longrightarrow> late P (return_by_rtev dst src p ret m)"
  unfolding return_by_rtev_def Let_def by (rule late_rules late_label switch | assumption)+

lemma from_quaint_late: "P m \<Longrightarrow> late P (return_from_quaint obj ret m)"
  unfolding return_from_quaint_def
  by (intro late_rules)
    (auto simp: return_by_rte_def return_by_wait_def Let_def split: insn.split intro!: late_rules by_rtev_late)

lemma to_caller_late: "late P (return_to_caller obj ret m)" "late P (return_from_program val ret m)"
  unfolding return_to_caller_def return_from_program_def exit_status_from_retval_def by (intro late_rules)+

lemma returned_late: "P m \<Longrightarrow> late P (handle_return obj val ret m)"
  unfolding handle_return_def
  by (rule late_bind late_headers late_if late_cleanup from_quaint_late to_caller_late temps_freed | assumption)+

lemma ret_retv_late:
  assumes "P m"
  shows "late P (insn_ret_retv obj val sz m)"
  unfolding insn_ret_retv_def
proof (rule late_bind [OF late_headers(1)], intro late_guards late_operands)
  fix q :: qvm and n
  assume q: "vm m = Inr q" and n: "n \<le> q_sp q"
  have "okr P (upd_vm (\<lambda>q. q\<lparr>q_sp := q_sp q - n\<rparr>) m)"
    by (rule upd [OF assms]) (use q n word_sub_le in auto)
  then show "late P (bind_r (upd_vm (\<lambda>q. q\<lparr>q_sp := q_sp q - n\<rparr>) m) (\<lambda>m.
      case val of None \<Rightarrow> handle_return obj None None m
      | Some v \<Rightarrow> bind_r (opd_size v) (\<lambda>k. bind_r (opd_val m v) (\<lambda>l. handle_return obj val (Some (k, l)) m))))"
    by (rule late_after [OF _ late_headers(3)]) (rule late_rules returned_late | assumption)+
qed

lemma started_late: "P m \<Longrightarrow> late P (start_wait e w tm p m)"
  unfolding start_wait_def Let_def enter_def
proof (rule late_after [OF flags late_headers(3)], assumption, simp add: set_waiting_def,
    rule late_bind, rule late_if, rule late_after [OF flags late_headers(3)], assumption, simp, rule late_prod, rule late_if)
  fix m ok m'
  assume "P m" "get_monotonic_time e m = (ok, m')"
  then show "late P (Inl (Late Nomem m') :: machine res)" using clock [of m e] by (simp add: late_Late)
qed (intro late_rules)+

lemma waits_late: "P m \<Longrightarrow> late P (insn_wait e w m)"
  unfolding insn_wait_def load_quaint_def wait_timeout_def Let_def by (rule late_rules started_late | assumption)+

lemma call_bfun_late: "P m \<Longrightarrow> late P (call_bfun e i m)"
proof -
  assume "P m"
  then have "late P (bfun_monotime e m)"
    using clock [of m e] by (auto simp: bfun_monotime_def late_def split: prod.splits)
  then show ?thesis
    unfolding call_bfun_def bfun_alloc_def bfun_realloc_def bfun_free_def bfun_ps_def bfun_pint_def bfun_exit_def
      bfun_guard_def word_arg_def bfun_arg_def load_cstr_def drop_args_def Let_def
    by (intro late_rules)
qed

lemma bfun_late: "P m \<Longrightarrow> late P (insn_bfun obj e m)"
  unfolding insn_bfun_def
proof (rule late_bind [OF late_headers(1)], intro late_guards)
  fix q :: qvm assume P: "P m" and "vm m = Inr q" "16 \<le> q_sp q"
  then have "okr (\<lambda>(r, m). P_above 16 m) (call_bfun e (q_ip q) m)"
    by (intro call_bfun_ok) (auto simp: sp_above_def)
  then show "late P (bind_r (call_bfun e (q_ip q) m) (\<lambda>(ret, m).
      bind_r (upd_vm (\<lambda>q. q\<lparr>q_sp := q_sp q - 16\<rparr>) m) (\<lambda>m.
      label m (bind_r (push_temps e 0 m) (handle_return obj None ret)))))"
  proof (rule late_after [OF _ call_bfun_late [OF P]], clarify)
    fix ret m assume a: "P m" "sp_above 16 m"
    have "late P (bind_r (push_temps e 0 m) (handle_return obj None ret))" if "P m" for m
      by (rule late_after [OF push_temps_ok [OF that] late_frames(2)]) (rule returned_late)
    then show "late P (bind_r (upd_vm (\<lambda>q. q\<lparr>q_sp := q_sp q - 16\<rparr>) m) (\<lambda>m.
        label m (bind_r (push_temps e 0 m) (handle_return obj None ret))))"
      by (intro late_after [OF upd [OF a(1)] late_headers(3)] late_label)
        (use a(2) in \<open>auto simp: sp_above_def word_sub_le\<close>)
  qed
qed

lemma insn_late: "P m \<Longrightarrow> late P (run_insn obj e i m)"
  by (cases i)
    (simp_all add: run_insn_def late_ends late_computing late_control late_quaints ret_retv_late waits_late bfun_late)

subsection \<open>Every instruction\<close>

lemma insn: "P m \<Longrightarrow> okr P (run_insn obj e i m)"
  by (cases i)
    (simp_all add: run_insn_def okr_Inr okr_Inl mov cast bin_arith equ_neq bin_logic unary cjmp
      insn_jmp_def jump_ok pushr push call_callv incsp ret_retv rte_rtev qat waits small qnt qntv bfun)

lemma step_ip_ok: "P m \<Longrightarrow> okr P (step_ip i m)"
  unfolding step_ip_def by (intro okr_if okr_Inr next_ip_ok)

text \<open>So the check for waiting VMs starts in a state with the invariant, after an error as well.\<close>

lemma handler: "P m \<Longrightarrow> okr (\<lambda>(fault, m). P m) (run_handler obj e i m)"
proof -
  assume P: "P m"
  have step: "okr (\<lambda>(fault, m). P m) (bind_r (step_ip i m') (\<lambda>m'. Inr (fault, m')))" if "P m'" for m' and fault :: "stop option"
    by (rule bind_state [OF step_ip_ok [OF that]]) (simp add: okr_Inr)
  show ?thesis
  proof (cases "run_insn obj e i m")
    case (Inr m')
    then show ?thesis using step okrD [OF insn [OF P] Inr] by (simp add: run_handler_def)
  next
    case (Inl err)
    have "P m'" if "returned m err = Some (err', m')" for err' m'
      using that P lateD [OF insn_late [OF P]] Inl by (auto simp: returned_def split: stop.splits)
    then show ?thesis using step by (auto simp: run_handler_def Inl okr_Inl split: option.split)
  qed
qed

end

end
