(* ===== verification/Vm_Safe.thy ===== *)
theory Vm_Safe
  imports Vm_Inv
begin

text \<open>
  The invariant that keeps the interpreter's own data apart: the allocated blocks do not
  meet, every quaint has its block, and its stack pointer is within its stack.
\<close>

definition b_end :: "block \<Rightarrow> nat" where
  "b_end b = b_data b + b_size b"

definition apart :: "block \<Rightarrow> block \<Rightarrow> bool" where
  "apart b c \<longleftrightarrow> b_base b \<noteq> b_base c \<and> (b_end b \<le> unat (b_base c) \<or> b_end c \<le> unat (b_base b))"

fun blocks_ok :: "block list \<Rightarrow> bool" where
  "blocks_ok [] \<longleftrightarrow> True"
| "blocks_ok (b # bs) \<longleftrightarrow> b_end b < 2 ^ 64 \<and> (\<forall>c \<in> set bs. apart b c) \<and> blocks_ok bs"

definition qvm_block :: "u64 \<Rightarrow> block" where
  "qvm_block p = \<lparr>b_base = p, b_header = QVM_HEADER, b_size = unat STACK_SIZE\<rparr>"

definition vm_ok :: "machine \<Rightarrow> bool" where
  "vm_ok m \<longleftrightarrow> blocks_ok (blocks m) \<and>
     (\<forall>p q. qvms m p = Some q \<longrightarrow> q_sp q \<le> STACK_SIZE \<and> qvm_block p \<in> set (blocks m))"

lemma wfD:
  "vm_ok m \<Longrightarrow> blocks_ok (blocks m)"
  "vm_ok m \<Longrightarrow> qvms m p = Some q \<Longrightarrow> q_sp q \<le> STACK_SIZE"
  "vm_ok m \<Longrightarrow> qvms m p = Some q \<Longrightarrow> qvm_block p \<in> set (blocks m)"
  by (auto simp: vm_ok_def)

lemma wf_cong:
  "blocks m' = blocks m \<Longrightarrow> qvms m' = qvms m \<Longrightarrow> vm_ok m' = vm_ok m"
  by (simp add: vm_ok_def)

lemma wf_upd: "vm_ok m \<Longrightarrow> qvms m p \<noteq> None \<Longrightarrow> q_sp q \<le> STACK_SIZE \<Longrightarrow> vm_ok (m\<lparr>qvms := (qvms m)(p \<mapsto> q)\<rparr>)"
  by (auto simp: vm_ok_def)

lemma blocks_ok_filter: "blocks_ok bs \<Longrightarrow> blocks_ok (filter f bs)"
  by (induction bs) auto

lemma blocks_ok_apart: "blocks_ok bs \<Longrightarrow> b \<in> set bs \<Longrightarrow> c \<in> set bs \<Longrightarrow> b = c \<or> apart b c"
  by (induction bs) (auto simp: apart_def)

lemma blocks_ok_end: "blocks_ok bs \<Longrightarrow> b \<in> set bs \<Longrightarrow> b_end b < 2 ^ 64"
  by (induction bs) auto

lemma wf_store: "vm_ok m \<Longrightarrow> okr vm_ok (store l bs m)"
  by (auto simp: okr_def store_def vm_ok_def split: loc.splits if_splits)

lemma wf_upd_vm:
  assumes "vm_ok m" and "\<And>q. vm m = Inr q \<Longrightarrow> q_sp (f q) \<le> STACK_SIZE \<or> q_sp (f q) \<le> q_sp q"
  shows "okr vm_ok (upd_vm f m)"
proof -
  have "q_sp (f q) \<le> STACK_SIZE" if "vm m = Inr q" for q
    using assms(2) [OF that] wfD(2) [OF assms(1), of "vm_ptr m" q] that
    by (auto simp: vm_def get_qvm_def split: option.splits)
  then show ?thesis
    using assms(1) by (auto simp: okr_def upd_vm_Inr vm_def get_qvm_def intro!: wf_upd split: option.splits)
qed

lemma wf_set_header:
  "vm_ok m \<Longrightarrow> (\<And>q. q_sp (f q) = q_sp q) \<Longrightarrow> okr vm_ok (set_qvm p f m)"
  by (auto simp: okr_def set_qvm_def get_qvm_def bind_simps wfD(2) intro!: wf_upd split: option.splits)

lemma wf_allocate: "vm_ok m \<Longrightarrow> okr (\<lambda>(a, m). vm_ok m) (allocate e h n m)"
  by (auto simp: okr_def allocate_def Let_def vm_ok_def fresh_def disjoint_from_def apart_def b_end_def
      b_data_def add.assoc split: if_splits)

lemma allocate_block:
  "allocate e h n m = Inr (a, m') \<Longrightarrow> a \<noteq> 0 \<Longrightarrow>
    \<lparr>b_base = a, b_header = h, b_size = n\<rparr> \<in> set (blocks m') \<and> qvms m' = qvms m"
  by (auto simp: allocate_def Let_def split: if_splits)

lemma wf_alloc_qvm: "vm_ok m \<Longrightarrow> okr (\<lambda>(a, m). vm_ok m) (alloc_qvm e m)"
proof -
  assume wf: "vm_ok m"
  show ?thesis
    unfolding alloc_qvm_def
  proof (rule okr_bind_value, rule okr_prod, rule okr_if [OF okr_Inl], rule okr_Inr)
    fix x a m'
    assume "allocate e QVM_HEADER (unat STACK_SIZE) m = Inr x" and x: "x = (a, m')" and a: "a \<noteq> 0"
    then have al: "allocate e QVM_HEADER (unat STACK_SIZE) m = Inr (a, m')" by simp
    have "vm_ok m'" using okrD [OF wf_allocate [OF wf] al] by simp
    then show "case (a, (clear (stack_at a 0) (unat STACK_SIZE) m')\<lparr>qvms := (qvms m')(a \<mapsto> null_qvm)\<rparr>) of
        (a, m) \<Rightarrow> vm_ok m"
      using allocate_block [OF al a] by (auto simp: vm_ok_def clear_def qvm_block_def null_qvm_def)
  qed
qed

lemma wf_release: "vm_ok m \<Longrightarrow> okr vm_ok (release a m)"
  by (auto simp: okr_def release_def vm_ok_def qvm_block_def intro!: blocks_ok_filter split: if_splits)

subsection \<open>Making a quaint\<close>

lemma STACK_SIZE_nat: "unat STACK_SIZE = 16304"
  by (simp add: STACK_SIZE_def)

lemma qvm_block_simps [simp]:
  "b_base (qvm_block p) = p" "b_data (qvm_block p) = unat p + 80" "b_end (qvm_block p) = unat p + 16384"
  "b_size (qvm_block p) = 16304"
  by (simp_all add: qvm_block_def b_data_def b_end_def QVM_HEADER_def STACK_SIZE_nat)

lemma b_base_le: "unat (b_base b) \<le> b_data b"
  by (simp add: b_data_def)

text \<open>An access at the start of a quaint's stack stays in that stack.\<close>

lemma access_in_qvm:
  assumes wf: "vm_ok m" and p: "qvm_block p \<in> set (blocks m)" and v: "valid m (stack_at p 16) n"
  shows "n + 16 \<le> 16304"
proof (cases "n = 0")
  case False
  then obtain b where b: "b \<in> set (blocks m)" "in_block (stack_at p 16) n b"
    using v by (auto simp: valid_def)
  have "unat p + 16384 < 2 ^ 64"
    using blocks_ok_end [OF wfD(1) [OF wf] p] by simp
  then have a: "unat (stack_at p 16) = unat p + 96"
    by (simp add: stack_at_def QVM_HEADER_def unat_word_ariths unat_of_nat)
  have "b = qvm_block p"
  proof (rule ccontr)
    assume "b \<noteq> qvm_block p"
    then have "apart b (qvm_block p)"
      using blocks_ok_apart [OF wfD(1) [OF wf] b(1) p] by simp
    then show False
      using b(2) a False b_base_le [of b] by (auto simp: apart_def in_block_def b_end_def)
  qed
  then show ?thesis using b(2) a by (simp add: in_block_def qvm_block_def b_data_def QVM_HEADER_def STACK_SIZE_nat)
qed simp

text \<open>
  The arguments of a quaint lie below the top of the stack: were the saved stack pointer
  above it, they would be read across the header.
\<close>

lemma saved_sp_below:
  assumes wf: "vm_ok m" and q: "qvms m c = Some q" and v: "valid m (stack_at c ssp) (unat (q_sp q - ssp))"
    and small: "unat (q_sp q - ssp) \<le> 16304"
  shows "ssp \<le> STACK_SIZE"
proof (cases "ssp \<le> q_sp q")
  case True
  then show ?thesis using wfD(2) [OF wf q] by simp
next
  case False
  define n where "n = unat (q_sp q - ssp)"
  have sp: "unat (q_sp q) \<le> 16304" using wfD(2) [OF wf q] by (simp add: word_le_nat_alt STACK_SIZE_nat)
  have n: "n = unat (q_sp q) + 2 ^ 64 - unat ssp" "unat (q_sp q) < unat ssp"
    using False by (simp_all add: n_def unat_sub_if_size word_size word_le_nat_alt)
  have ssp: "unat ssp = unat (q_sp q) + 2 ^ 64 - n" "n \<noteq> 0"
    using n unsigned_less [of ssp, where 'a = nat] by simp_all
  have c: "qvm_block c \<in> set (blocks m)" by (rule wfD(3) [OF wf q])
  have ce: "unat c + 16384 < 2 ^ 64" using blocks_ok_end [OF wfD(1) [OF wf] c] by simp
  obtain b where b: "b \<in> set (blocks m)" "in_block (stack_at c ssp) n b"
    using v ssp(2) by (auto simp: valid_def n_def)
  have be: "b_end b < 2 ^ 64" by (rule blocks_ok_end [OF wfD(1) [OF wf] b(1)])
  let ?x = "unat c + 80 + unat (q_sp q)"
  have x: "?x < 2 ^ 64" "?x - n < 2 ^ 64" using ce sp by simp_all
  have "unat (stack_at c ssp) = (?x + 2 ^ 64 - n) mod 2 ^ 64"
    using ssp(1) n_def unsigned_less [of "q_sp q - ssp", where 'a = nat]
    by (simp add: stack_at_def QVM_HEADER_def unat_word_ariths unat_of_nat mod_simps add.assoc)
  also have "\<dots> = (if n \<le> ?x then ?x - n else ?x + 2 ^ 64 - n)"
  proof (cases "n \<le> ?x")
    case True
    then have "?x + 2 ^ 64 - n = (?x - n) + 2 ^ 64" by simp
    then show ?thesis using True x by (simp only: mod_add_self2 mod_less if_True)
  next
    case False
    then show ?thesis by simp
  qed
  finally have a: "unat (stack_at c ssp) = (if n \<le> ?x then ?x - n else ?x + 2 ^ 64 - n)" .
  have n_sp: "unat (q_sp q) < n" using n(1) unsigned_less [of ssp, where 'a = nat] by simp
  have le: "n \<le> ?x"
    using a b(2) be by (auto simp: in_block_def b_end_def split: if_splits)
  then have data: "b_data b < unat c + 80" and reach: "unat c + 80 \<le> b_end b"
    using a b(2) n_sp by (auto simp: in_block_def b_end_def)
  then have "b \<noteq> qvm_block c" by auto
  then have "apart b (qvm_block c)" using blocks_ok_apart [OF wfD(1) [OF wf] b(1) c] by simp
  then show ?thesis using data reach b_base_le [of b] by (auto simp: apart_def)
qed

lemma set_qvm_Inr:
  "set_qvm p f m = Inr m' \<longleftrightarrow> (\<exists>q. qvms m p = Some q \<and> m' = m\<lparr>qvms := (qvms m)(p \<mapsto> f q)\<rparr>)"
  by (auto simp: set_qvm_def get_qvm_def bind_simps split: option.splits)

lemma store_Inr:
  "store (At a) bs m = Inr m' \<longleftrightarrow> valid m a (length bs) \<and> m' = m\<lparr>mem := poke a bs (mem m)\<rparr>"
  by (auto simp: store_def)

lemma load_length: "load m l n = Inr bs \<Longrightarrow> length bs = n"
  by (auto simp: load_def fetch_def split: loc.splits if_splits)

lemma load_valid: "load m (At a) n = Inr bs \<Longrightarrow> valid m a n"
  by (auto simp: load_def split: if_splits)

lemma valid_cong: "blocks m' = blocks m \<Longrightarrow> valid m' a n = valid m a n"
  by (simp add: valid_def)

lemma vm_Inr: "vm m = Inr q \<longleftrightarrow> qvms m (vm_ptr m) = Some q"
  by (auto simp: vm_def get_qvm_def split: option.splits)

lemma wf_qnt_args:
  assumes wf: "vm_ok m" and q: "vm m = Inr q"
    and set: "set_qvm p (\<lambda>q. q\<lparr>q_ip := l, q_bp := 16, q_sp := 16 + (q' - ssp), at_start := True\<rparr>) m = Inr m1"
    and q': "q' = q_sp q"
    and args: "load m1 (vm_stack m1 ssp) (unat (q' - ssp)) = Inr bs"
    and copy: "store (At (stack_at p 16)) bs m1 = Inr m2"
  shows "vm_ok m2 \<and> ssp \<le> STACK_SIZE"
proof -
  let ?n = "unat (q' - ssp)"
  obtain qp where qp: "qvms m p = Some qp"
    and m1: "m1 = m\<lparr>qvms := (qvms m)(p \<mapsto> qp\<lparr>q_ip := l, q_bp := 16, q_sp := 16 + (q' - ssp), at_start := True\<rparr>)\<rparr>"
    using set by (auto simp: set_qvm_Inr)
  have v: "valid m (stack_at p 16) ?n" "valid m (stack_at (vm_ptr m) ssp) ?n"
    using copy load_length [OF args] load_valid [OF args [unfolded vm_stack_def]] valid_cong [of m1 m]
    by (auto simp: store_Inr m1)
  have small: "?n + 16 \<le> 16304" by (rule access_in_qvm [OF wf wfD(3) [OF wf qp] v(1)])
  then have "16 + (q' - ssp) \<le> STACK_SIZE"
    by (simp add: word_le_nat_alt STACK_SIZE_nat unat_word_ariths)
  then have "vm_ok m1" unfolding m1 using qp by (intro wf_upd [OF wf]) auto
  then have "vm_ok m2" using okrD [OF wf_store copy] by simp
  moreover have "ssp \<le> STACK_SIZE"
    using saved_sp_below [OF wf] q v(2) small by (simp add: q' vm_Inr)
  ultimately show ?thesis ..
qed

lemma wf_qnt: "vm_ok m \<Longrightarrow> okr vm_ok (insn_qnt e dst loc sp m)"
  unfolding insn_qnt_def Let_def
proof (intro okr_direct64 okr_word64 okr_temp64, rule okr_bind_value, rule okr_bind_value, rule okr_bind_value,
    rule okr_bind [OF wf_alloc_qvm], assumption, rule okr_prod, rule okr_bind_value, rule okr_bind_value,
    rule okr_bind_value)
  fix d l ssp x p m q m1 m2
  assume *: "case x of (a, m) \<Rightarrow> vm_ok m" "x = (p, m)" "vm m = Inr q"
    "set_qvm p (\<lambda>qa. qa\<lparr>q_ip := l, q_bp := 16, q_sp := 16 + (q_sp q - ssp), at_start := True\<rparr>) m = Inr m1"
    "copy_bytes (At (stack_at p 16)) (vm_stack m1 ssp) (unat (q_sp q - ssp)) m1 = Inr m2"
  then have wf: "vm_ok m" by simp
  obtain bs where "load m1 (vm_stack m1 ssp) (unat (q_sp q - ssp)) = Inr bs"
      and "store (At (stack_at p 16)) bs m1 = Inr m2"
    using *(5) by (auto simp: copy_bytes_Inr)
  from wf_qnt_args [OF wf *(3,4) refl this] have "vm_ok m2 \<and> ssp \<le> STACK_SIZE" .
  then show "okr vm_ok (bind_r (store64 d p m2) (upd_vm (\<lambda>q. q\<lparr>q_sp := ssp\<rparr>)))"
    unfolding store64_def by (auto intro!: okr_bind [OF wf_store] wf_upd_vm)
qed

interpretation safe: vm_invariant vm_ok
proof
  fix m g e a n h l bs f p i c dst loc sp
  assume wf: "vm_ok m"
  show "okr vm_ok (store l bs m)" by (rule wf_store [OF wf])
  show "okr vm_ok (upd_vm f m)" if "\<And>q. vm m = Inr q \<Longrightarrow> q_sp (f q) \<le> STACK_SIZE \<or> q_sp (f q) \<le> q_sp q"
    by (rule wf_upd_vm [OF wf that])
  show "okr vm_ok (set_qvm p f m)" if "\<And>q. q_sp (f q) = q_sp q" by (rule wf_set_header [OF wf that])
  show "okr (\<lambda>(a, m). vm_ok m) (allocate e h n m)" by (rule wf_allocate [OF wf])
  show "okr (\<lambda>(a, m). vm_ok m) (alloc_qvm e m)" by (rule wf_alloc_qvm [OF wf])
  show "okr vm_ok (release a m)" by (rule wf_release [OF wf])
  show "okr vm_ok (insn_qnt e dst loc sp m)" by (rule wf_qnt [OF wf])
  show "vm_ok (snd (get_monotonic_time e m))"
    using wf by (auto simp: get_monotonic_time_def Let_def vm_ok_def split: option.splits)
qed (simp_all add: vm_ok_def clear_def put_def switch_to_def)

subsection \<open>Runs\<close>

text \<open>The states the machine is in before an instruction, from the start of the program.\<close>

inductive vm_state :: "codegen_obj \<Rightarrow> env \<Rightarrow> machine \<Rightarrow> bool" for obj e where
  start: "exec_start obj e = Inr m \<Longrightarrow> vm_state obj e m"
| step: "\<lbrakk>vm_state obj e m; fetch_insn obj m = Inr i; exec_insn obj e i m = Some (Inr m'); vm m' = Inr q;
    unat (q_ip q) < length (insns obj)\<rbrakk> \<Longrightarrow> vm_state obj e m'"

lemma wf_split_at: "vm_ok m \<Longrightarrow> okr vm_ok (split_at p m)"
  unfolding split_at_def
  by (rule okr_bind [OF safe.flags safe.next_ip_ok]) (auto simp: clear_waiting_def intro: safe.switch)

lemma split_loop_result:
  assumes "split_loop m noi upper cur = Some r"
  shows "r = Inr m \<or> (\<exists>e. r = Inl e) \<or> (\<exists>p. r = split_at p m)"
proof (rule split_loop.raw_induct [where P = "\<lambda>m noi upper cur r. r = Inr m \<or> (\<exists>e. r = Inl e) \<or>
    (\<exists>p. r = split_at p m)", OF _ assms], goal_cases)
  case (1 f m noi upper cur r)
  then show ?case
    by (auto split: if_splits sum.splits)
qed

lemma check_result:
  assumes "check_and_eventually_split_vms e m = Some (Inr m')" and "vm_ok m"
  shows "vm_ok m'"
proof -
  let ?m = "m\<lparr>cycles := cycles m + 1\<rparr>"
  obtain m1 where m1: "vm_ok m1" and res: "m' = m1 \<or> (\<exists>noi upper cur. split_loop m1 noi upper cur = Some (Inr m'))"
    using assms safe.counters(2) [OF assms(2), of "cycles m + 1"]
      safe.clock [of ?m e, OF safe.counters(2) [OF assms(2), of "cycles m + 1"]]
    by (auto simp: check_and_eventually_split_vms_def Let_def
        split: if_splits prod.splits sum.splits)
  from res show ?thesis
  proof (elim disjE exE)
    fix noi upper cur assume "split_loop m1 noi upper cur = Some (Inr m')"
    from split_loop_result [OF this] show ?thesis
      using m1 wf_split_at [OF m1] by (auto simp: okr_def)
  qed (use m1 in simp)
qed

lemma exec_insn_ok:
  assumes "exec_insn obj e i m = Some (Inr m')" and "vm_ok m"
  shows "vm_ok m'"
proof -
  obtain fault m1 where m1: "run_handler obj e i m = Inr (fault, m1)"
    and split: "check_and_eventually_split_vms e m1 = Some (Inr m')"
    using assms(1) by (auto simp: exec_insn_def bind_simps split: sum.splits option.splits)
  have "vm_ok m1" using okrD [OF safe.handler [OF assms(2)] m1] by simp
  then show ?thesis by (rule check_result [OF split])
qed

lemma exec_start_ok: "exec_start obj e = Inr m \<Longrightarrow> vm_ok m"
proof -
  assume start: "exec_start obj e = Inr m"
  have "okr vm_ok (exec_start obj e)"
    unfolding exec_start_def Let_def
  proof (rule safe.bind_pair [OF safe.alloc], simp add: vm_ok_def, unfold prod.case,
      rule okr_if [OF okr_Inl], rule safe.bind_pair [OF safe.alloc_vm], erule safe.clears, unfold prod.case)
    fix a m p assume "vm_ok m"
    then have "vm_ok (m\<lparr>mem := f, bss := b, bss_size := n, vm_ptr := p\<rparr>)" for f b n
      by (simp add: vm_ok_def)
    then show "okr vm_ok (bind_r (store64 (vm_stack (m\<lparr>mem := poke (a + word_of_nat (data_size obj)) (strings obj) (mem m),
          bss := a, bss_size := data_size obj + length (strings obj), vm_ptr := p\<rparr>) 0)
        (word_of_nat (length (insns obj)))
        (m\<lparr>mem := poke (a + word_of_nat (data_size obj)) (strings obj) (mem m),
          bss := a, bss_size := data_size obj + length (strings obj), vm_ptr := p\<rparr>))
      (upd_vm (\<lambda>q. q\<lparr>q_sp := 16, q_bp := 16, q_ip := SCOPE_BFUN_ID_COUNT\<rparr>)))"
      by (intro safe.bind_state safe.store64_ok safe.upd) (auto simp: STACK_SIZE_def)
  qed
  then show ?thesis using start by (metis okrD)
qed

lemma vm_state_ok: "vm_state obj e m \<Longrightarrow> vm_ok m"
  by (induction rule: vm_state.induct) (auto intro: exec_start_ok exec_insn_ok)

lemma exec_start_ip:
  "exec_start obj e = Inr m \<Longrightarrow> \<exists>q. vm m = Inr q \<and> q_ip q = SCOPE_BFUN_ID_COUNT"
proof -
  assume start: "exec_start obj e = Inr m"
  have upd: "okr (\<lambda>m. \<exists>q. vm m = Inr q \<and> q_ip q = SCOPE_BFUN_ID_COUNT)
      (upd_vm (\<lambda>q. q\<lparr>q_sp := 16, q_bp := 16, q_ip := SCOPE_BFUN_ID_COUNT\<rparr>) m)" for m
    by (auto simp: okr_def upd_vm_Inr vm_Inr)
  have "okr (\<lambda>m. \<exists>q. vm m = Inr q \<and> q_ip q = SCOPE_BFUN_ID_COUNT) (exec_start obj e)"
    unfolding exec_start_def Let_def
    by (rule okr_bind_value, rule okr_prod, rule okr_if, rule okr_Inl, rule okr_bind_value, rule okr_prod,
        rule okr_bind_value, rule upd)
  from okrD [OF this start] show ?thesis .
qed

lemma fetch_insn_ok: "vm m = Inr q \<Longrightarrow> unat (q_ip q) < length (insns obj) \<Longrightarrow> \<exists>i. fetch_insn obj m = Inr i"
  by (simp add: fetch_insn_def)

lemma reached_fetch:
  assumes "vm_state obj e m" and "unat SCOPE_BFUN_ID_COUNT < length (insns obj)"
  shows "\<exists>i. fetch_insn obj m = Inr i"
  using assms by cases (metis exec_start_ip fetch_insn_ok, metis fetch_insn_ok)


definition demo_env :: env where
  "demo_env = \<lparr>env_malloc = (\<lambda>k n. word_of_nat (65536 * Suc k)), env_clock = (\<lambda>k. Some (word_of_nat k))\<rparr>"

definition demo_obj :: codegen_obj where
  "demo_obj = \<lparr>data_size = 8, strings = [], insns = replicate 18 CODEGEN_OP_NOP\<rparr>"


end
