(* ===== verification/Vm_Wait.thy ===== *)
theory Vm_Wait
  imports Vm_Safe
begin

text \<open>
  When an instruction ends. Only the check for waiting VMs can run for ever, and only on a
  chain of parents that comes back to a VM it has passed.
\<close>

subsection \<open>The chain of parents\<close>

primrec ancestor :: "machine \<Rightarrow> u64 \<Rightarrow> nat \<Rightarrow> u64" where
  "ancestor m p 0 = p"
| "ancestor m p (Suc n) = (case qvms m (ancestor m p n) of None \<Rightarrow> 0 | Some q \<Rightarrow> q_parent q)"

lemma ancestor_step: "qvms m p = Some q \<Longrightarrow> ancestor m p (Suc n) = ancestor m (q_parent q) n"
  by (induction n) simp_all

text \<open>The loop looks at \<open>n\<close> VMs and goes on.\<close>

fun goes_on :: "machine \<Rightarrow> bool \<Rightarrow> qvm \<Rightarrow> u64 \<Rightarrow> nat \<Rightarrow> bool" where
  "goes_on m noi upper cur 0 \<longleftrightarrow> True"
| "goes_on m noi upper cur (Suc n) \<longleftrightarrow> cur \<noteq> 0 \<and> \<not> noi \<and>
     (\<exists>q. qvms m cur = Some q \<and> \<not> wait_over (now m) upper q \<and> goes_on m (noint q) q (q_parent q) n)"

lemma goes_on_Some: "\<not> goes_on m noi upper cur n \<Longrightarrow> \<exists>r. split_loop m noi upper cur = Some r"
proof (induction n arbitrary: noi upper cur)
  case (Suc n)
  show ?case
  proof (cases "cur = 0 \<or> noi \<or> qvms m cur = None")
    case True
    then show ?thesis by (subst split_loop.simps) (auto simp: get_qvm_def)
  next
    case False
    then obtain q where q: "qvms m cur = Some q" by blast
    then have "wait_over (now m) upper q \<or> \<not> goes_on m (noint q) q (q_parent q) n" using Suc.prems False by auto
    then show ?thesis using False q Suc.IH by (subst split_loop.simps) (auto simp: get_qvm_def)
  qed
qed simp

lemma Some_goes_on:
  assumes "split_loop m noi upper cur = Some r"
  shows "\<exists>n. \<not> goes_on m noi upper cur n"
proof (rule split_loop.raw_induct [where P = "\<lambda>m noi upper cur r. \<exists>n. \<not> goes_on m noi upper cur n", OF _ assms],
    goal_cases)
  case (1 f m noi upper cur r)
  show ?case
  proof (cases "cur = 0 \<or> noi \<or> qvms m cur = None")
    case True
    then have "\<not> goes_on m noi upper cur 1" by auto
    then show ?thesis ..
  next
    case False
    then obtain q where q: "qvms m cur = Some q" by blast
    show ?thesis
    proof (cases "wait_over (now m) upper q")
      case True
      then have "\<not> goes_on m noi upper cur 1" using q by simp
      then show ?thesis ..
    next
      case no: False
      then have "f m (noint q) q (q_parent q) = Some r" using 1(2) False q by (simp add: get_qvm_def)
      from 1(1) [OF this] obtain n where "\<not> goes_on m (noint q) q (q_parent q) n" by blast
      then have "\<not> goes_on m noi upper cur (Suc n)" using q by simp
      then show ?thesis ..
    qed
  qed
qed

lemma split_loop_endless: "split_loop m noi upper cur = None \<longleftrightarrow> (\<forall>n. goes_on m noi upper cur n)"
  using goes_on_Some Some_goes_on by (metis not_None_eq)

lemma goes_on_ancestor:
  "goes_on m noi upper cur (Suc n) \<Longrightarrow> ancestor m cur n \<noteq> 0 \<and> qvms m (ancestor m cur n) \<noteq> None"
proof (induction n arbitrary: noi upper cur)
  case (Suc n)
  then obtain q where "qvms m cur = Some q" and "goes_on m (noint q) q (q_parent q) (Suc n)" by auto
  then show ?case using Suc.IH ancestor_step by metis
qed auto

text \<open>Every VM has a block of its own, so there are only finitely many.\<close>

lemma finite_vms: "vm_ok m \<Longrightarrow> finite (dom (qvms m))"
proof -
  assume "vm_ok m"
  then have "qvm_block ` dom (qvms m) \<subseteq> set (blocks m)" by (auto simp: vm_ok_def)
  then have "finite (qvm_block ` dom (qvms m))" by (rule finite_subset) simp
  moreover have "inj qvm_block" by (rule injI) (metis qvm_block_simps(1))
  ultimately show ?thesis by (metis finite_imageD inj_on_subset subset_UNIV)
qed

lemma chain_repeats:
  assumes "vm_ok m" and "\<And>n. qvms m (ancestor m p n) \<noteq> None"
  shows "\<exists>n k. 0 < k \<and> ancestor m p (n + k) = ancestor m p n"
proof -
  have "range (ancestor m p) \<subseteq> dom (qvms m)" using assms(2) by auto
  then have "finite (range (ancestor m p))" using finite_vms [OF assms(1)] by (rule finite_subset)
  then have "\<not> inj (ancestor m p)" using finite_imageD infinite_UNIV_nat by blast
  then obtain i j where "i < j" "ancestor m p i = ancestor m p j"
    by (metis injI nat_neq_iff)
  then show ?thesis by (intro exI [of _ i] exI [of _ "j - i"]) simp
qed

text \<open>The running VM has an ancestor that is its own ancestor too.\<close>

definition waits_in_circle :: "machine \<Rightarrow> bool" where
  "waits_in_circle m \<longleftrightarrow> (\<exists>n k. 0 < k \<and> ancestor m (vm_ptr m) n \<noteq> 0 \<and>
     ancestor m (vm_ptr m) (n + k) = ancestor m (vm_ptr m) n)"

lemma ancestor_cong: "qvms m' = qvms m \<Longrightarrow> ancestor m' p n = ancestor m p n"
  by (induction n) simp_all

lemma waits_cong: "qvms m' = qvms m \<Longrightarrow> vm_ptr m' = vm_ptr m \<Longrightarrow> waits_in_circle m' = waits_in_circle m"
  by (simp add: waits_in_circle_def ancestor_cong [of m' m])

lemma clock_keeps:
  "qvms (snd (get_monotonic_time e m)) = qvms m" "vm_ptr (snd (get_monotonic_time e m)) = vm_ptr m"
  "blocks (snd (get_monotonic_time e m)) = blocks m"
  by (auto simp: get_monotonic_time_def Let_def split: option.split)

lemma endless_circle:
  assumes "vm_ok m" and q: "vm m = Inr q" and never: "split_loop m noi q (q_parent q) = None"
  shows "waits_in_circle m"
proof -
  have vms: "ancestor m (q_parent q) n \<noteq> 0" "qvms m (ancestor m (q_parent q) n) \<noteq> None" for n
    using goes_on_ancestor never unfolding split_loop_endless by blast+
  obtain n k where k: "0 < k" and eq: "ancestor m (q_parent q) (n + k) = ancestor m (q_parent q) n"
    using chain_repeats [OF assms(1) vms(2)] by blast
  have "qvms m (vm_ptr m) = Some q" using q by (auto simp: vm_def get_qvm_def split: option.splits)
  then have up: "ancestor m (vm_ptr m) (Suc j) = ancestor m (q_parent q) j" for j by (rule ancestor_step)
  have "ancestor m (vm_ptr m) (Suc n + k) = ancestor m (vm_ptr m) (Suc n)" using eq up by simp
  moreover have "ancestor m (vm_ptr m) (Suc n) \<noteq> 0" unfolding up by (rule vms(1))
  ultimately show ?thesis unfolding waits_in_circle_def using k by blast
qed

lemma exec_insn_ends:
  "run_handler obj e i m = Inr (fault, m') \<Longrightarrow>
    exec_insn obj e i m = None \<longleftrightarrow> check_and_eventually_split_vms e m' = None"
  by (simp add: exec_insn_def)

lemma check_ends:
  assumes "vm_ok m" and "\<not> waits_in_circle m"
  shows "\<exists>r. check_and_eventually_split_vms e m = Some r"
proof -
  let ?m = "m\<lparr>cycles := cycles m + 1\<rparr>"
  define ok m1 where "ok = fst (if cycles m mod 200 = 0 then get_monotonic_time e ?m else (True, ?m))"
    and "m1 = snd (if cycles m mod 200 = 0 then get_monotonic_time e ?m else (True, ?m))"
  have same: "qvms m1 = qvms m" "vm_ptr m1 = vm_ptr m" "blocks m1 = blocks m"
    by (simp_all add: m1_def clock_keeps)
  have "vm_ok m1" using assms(1) same(1,3) by (simp add: vm_ok_def)
  moreover have "\<not> waits_in_circle m1" using assms(2) waits_cong [OF same(1,2)] by simp
  ultimately have "vm m1 = Inr q \<Longrightarrow> split_loop m1 (noint q) q (q_parent q) \<noteq> None" for q
    using endless_circle by blast
  moreover have "check_and_eventually_split_vms e m = (if \<not> ok then Some (Inr m1)
      else case vm m1 of Inl err \<Rightarrow> Some (Inl err) | Inr q \<Rightarrow> split_loop m1 (noint q) q (q_parent q))"
    unfolding ok_def m1_def check_and_eventually_split_vms_def
    by (cases "cycles m mod 200 = 0") (simp_all add: Let_def case_prod_unfold)
  ultimately show ?thesis by (auto split: sum.split)
qed

text \<open>
  C10. In every state a program reaches, an instruction ends, with a result or an error,
  unless its handler, successful or not, leaves VMs that wait for one another in a circle
  behind the running one.
\<close>

theorem instruction_ends:
  assumes "vm_state obj e m"
    and "\<And>fault m'. run_handler obj e i m = Inr (fault, m') \<Longrightarrow> \<not> waits_in_circle m'"
  shows "\<exists>r. exec_insn obj e i m = Some r"
proof (cases "run_handler obj e i m")
  case (Inr x)
  obtain fault m' where run: "run_handler obj e i m = Inr (fault, m')" using Inr by (cases x) simp
  have "vm_ok m'" using okrD [OF safe.handler [OF vm_state_ok [OF assms(1)]] run] by simp
  from check_ends [OF this assms(2) [OF run], of e] show ?thesis
    using exec_insn_ends [OF run] by (metis not_None_eq)
qed (simp add: exec_insn_def)

theorem instruction_ends_witness:
  "\<exists>m r. vm_state demo_obj demo_env m \<and> exec_insn demo_obj demo_env CODEGEN_OP_NOP m = Some r"
proof -
  have "case exec_start demo_obj demo_env of
      Inr m \<Rightarrow> (case qvms m (vm_ptr m) of Some q \<Rightarrow> q_parent q = 0 | None \<Rightarrow> False) \<and> qvms m 0 = None | Inl err \<Rightarrow> False"
    by code_simp
  then obtain m q where m: "exec_start demo_obj demo_env = Inr m" and q: "qvms m (vm_ptr m) = Some q" "q_parent q = 0"
    and null: "qvms m 0 = None" by (auto split: sum.splits option.splits)
  have st: "vm_state demo_obj demo_env m" by (rule vm_state.start [OF m])
  have no: "\<not> waits_in_circle m'"
    if "run_handler demo_obj demo_env CODEGEN_OP_NOP m = Inr (fault, m')" for fault m'
  proof -
    have m': "m' = m\<lparr>qvms := (qvms m)(vm_ptr m \<mapsto> q\<lparr>q_ip := q_ip q + 1\<rparr>)\<rparr>"
      using that q by (auto simp: run_handler_def step_ip_def run_insn_def sets_ip_def next_ip_def upd_vm_def set_qvm_def get_qvm_def bind_simps)
    have ptr: "vm_ptr m \<noteq> 0" using q null by auto
    have "ancestor m' (vm_ptr m') (Suc n) = 0" for n
      by (induction n) (use q null ptr in \<open>simp_all add: m'\<close>)
    then have "ancestor m' (vm_ptr m') n \<noteq> 0 \<Longrightarrow> n = 0" for n by (cases n) auto
    then show ?thesis unfolding waits_in_circle_def using \<open>\<And>n. ancestor m' (vm_ptr m') (Suc n) = 0\<close>
      by (metis add_0 gr0_implies_Suc)
  qed
  have "\<exists>r. exec_insn demo_obj demo_env CODEGEN_OP_NOP m = Some r"
    by (rule instruction_ends [OF st]) (rule no)
  then show ?thesis using st by blast
qed

subsection \<open>Waiting for oneself\<close>

lemma self_goes_on:
  assumes "qvms m p = Some q" and "q_parent q = p" and "p \<noteq> 0" and "\<not> noint q" and "\<not> wait_over (now m) q q"
  shows "goes_on m False q p n"
  using assms by (induction n) auto

text \<open>
  C28. A quaint that is neither at its end nor in a \<open>noint\<close> block and waits for itself, with
  neither a time nor a label, stops the virtual machine for good, as long as the clock does
  not fail: this one instruction never ends. Nothing in the code excludes it.
\<close>

theorem waiting_for_oneself_never_ends:
  assumes q: "vm m = Inr q" "vm_ptr m \<noteq> 0" "\<not> noint q" "\<not> at_end q"
    and self: "load_quaint (w_quaint w) m = Inr (vm_ptr m)" "opd_size (w_quaint w) = Inr 8" "\<not> signd (w_quaint w)"
    and plain: "\<not> w_has_timeout w" "w_func w = 0"
    and clock: "\<And>k. env_clock e k \<noteq> None"
  shows "exec_insn obj e (CODEGEN_OP_WAIT w) m = None"
proof -
  let ?p = "vm_ptr m" and ?q = "(set_waiting w q)\<lparr>q_parent := vm_ptr m\<rparr>"
  have qp: "qvms m ?p = Some q" using q(1) by (auto simp: vm_def get_qvm_def split: option.splits)
  let ?m = "m\<lparr>qvms := (qvms m)(?p \<mapsto> ?q)\<rparr>"
  have w: "insn_wait e w m = Inr ?m"
    using q self plain qp by (simp add: insn_wait_def word64_def legal_def bind_simps get_qvm_def start_wait_def
        upd_vm_def set_qvm_def enter_def switch_to_def)
  have loop: "split_loop m1 (noint ?q) ?q ?p = None" if "qvms m1 ?p = Some ?q" for m1
  proof -
    have "\<not> wait_over (now m1) ?q ?q" by (simp add: wait_over_def set_waiting_def)
    moreover have "noint ?q = False" using q(3) by (simp add: set_waiting_def)
    ultimately show ?thesis unfolding split_loop_endless
      by (intro allI) (simp add: self_goes_on [OF that _ q(2)])
  qed
  obtain t where "env_clock e (clocks m) = Some t" using clock [of "clocks m"] by auto
  then have "check_and_eventually_split_vms e ?m = None"
    using loop by (auto simp: check_and_eventually_split_vms_def Let_def get_monotonic_time_def vm_def get_qvm_def
        split: option.split)
  moreover have "run_handler obj e (CODEGEN_OP_WAIT w) m = Inr (None, ?m)"
    by (simp add: run_handler_def step_ip_def run_insn_def sets_ip_def w bind_simps)
  ultimately show ?thesis by (simp add: exec_insn_ends)
qed

definition demo_quaint :: machine where
  "demo_quaint = \<lparr>mem = (\<lambda>_. 0), blocks = [], qvms = [65536 \<mapsto> null_qvm], vm_ptr = 65536, bss = 0,
     bss_size = 0, now = 0, cycles = 0, mallocs = 0, clocks = 0, out = []\<rparr>"

definition demo_wait :: wait_args where
  "demo_wait =
     (let own = \<lparr>opd_kind = CODEGEN_OPD_IMM, signd = False, indirect = False, off = 65536, opd_bytes = 8\<rparr> in
      \<lparr>w_quaint = own, w_timeout = own, w_func = 0, w_wlab_id = 0, w_noblock = False, w_units = False,
        w_has_timeout = False\<rparr>)"

theorem waiting_for_oneself_never_ends_witness:
  "exec_insn demo_obj demo_env (CODEGEN_OP_WAIT demo_wait) demo_quaint = None"
proof (rule waiting_for_oneself_never_ends [of demo_quaint null_qvm])
  have "case load_quaint (w_quaint demo_wait) demo_quaint of Inr p \<Rightarrow> p = vm_ptr demo_quaint | Inl err \<Rightarrow> False"
    by code_simp
  then show "load_quaint (w_quaint demo_wait) demo_quaint = Inr (vm_ptr demo_quaint)" by (simp split: sum.splits)
  have "case opd_size (w_quaint demo_wait) of Inr n \<Rightarrow> n = 8 | Inl err \<Rightarrow> False" by code_simp
  then show "opd_size (w_quaint demo_wait) = Inr 8" by (simp split: sum.splits)
qed (simp_all add: demo_quaint_def demo_wait_def demo_env_def null_qvm_def vm_def get_qvm_def Let_def)

end
