(* ===== verification/Program.thy ===== *)
theory Program
  imports Front Codegen_Frame Vm_Wait
begin

text \<open>
  The whole of \<^verbatim>\<open>main\<close>: the compiler's phases, the code generator and the virtual machine. Reading
  the file, the exit status and what is freed are left out.
\<close>

record menv =
  me_front :: fenv
  me_gen :: "nat \<Rightarrow> bool"
  me_key :: "nat \<Rightarrow> u64"
  me_run :: env

text \<open>
  An error was reported, the compiler failed an assertion or followed a null pointer, or the
  program was run, with its outcome.
\<close>

datatype ending = Exit_failure | Compiler_crash | Ran "machine res option"

definition quaint_main :: "menv \<Rightarrow> string \<Rightarrow> ending" where
  "quaint_main env text =
     (case front_end (me_front env) text of
        Failed \<Rightarrow> Exit_failure
      | Crashed \<Rightarrow> Compiler_crash
      | Passed ss \<Rightarrow>
          (case codegen_obj_create (me_gen env) (me_key env) ss of
             Inl CODEGEN_NOMEM \<Rightarrow> Exit_failure
           | Inl _ \<Rightarrow> Compiler_crash
           | Inr obj \<Rightarrow> Ran (exec obj (me_run env))))"

lemma quaint_main_Ran:
  "quaint_main env text = Ran r \<longleftrightarrow>
     (\<exists>ss obj. front_end (me_front env) text = Passed ss \<and>
        codegen_obj_create (me_gen env) (me_key env) ss = Inr obj \<and> r = exec obj (me_run env))"
  by (auto simp: quaint_main_def split: front.split sum.split gen_error.split)

lemma exec_outside:
  assumes "length (insns obj) = unat SCOPE_BFUN_ID_COUNT" and "exec_start obj e = Inr m"
  shows "exec obj e = Some (Inl Undefined)"
proof -
  obtain q where "vm m = Inr q" "q_ip q = SCOPE_BFUN_ID_COUNT" using exec_start_ip [OF assms(2)] by blast
  then have "fetch_insn obj m = Inl Undefined" using assms(1) by (simp add: fetch_insn_def)
  then show ?thesis using assms(2) by (simp add: exec_def exec_loop.simps)
qed

text \<open>
  C1. What a program does that the compiler lets through. If it has a function, every
  instruction the machine reads is in the generated code, in all states of the run. If it has
  none, the machine reads behind the code at once, which is undefined, or has no memory to
  start with.
\<close>

theorem main_reads_its_code:
  assumes "quaint_main env text = Ran r"
  shows "\<exists>ss obj. front_end (me_front env) text = Passed ss \<and>
    codegen_obj_create (me_gen env) (me_key env) ss = Inr obj \<and> r = exec obj (me_run env) \<and>
    (if has_func ss then \<forall>m. vm_state obj (me_run env) m \<longrightarrow> (\<exists>i. fetch_insn obj m = Inr i)
     else r = Some (Inl Undefined) \<or> (\<exists>err. exec_start obj (me_run env) = Inl err \<and> r = Some (Inl err)))"
proof -
  obtain ss obj where f: "front_end (me_front env) text = Passed ss"
    and g: "codegen_obj_create (me_gen env) (me_key env) ss = Inr obj" and r: "r = exec obj (me_run env)"
    using assms by (auto simp: quaint_main_Ran)
  show ?thesis
  proof (cases "has_func ss")
    case True
    then show ?thesis using f g r codegen_length [OF g] reached_fetch by auto
  next
    case False
    then have n: "length (insns obj) = unat SCOPE_BFUN_ID_COUNT" using codegen_length [OF g] by simp
    have "r = Some (Inl Undefined) \<or> (\<exists>err. exec_start obj (me_run env) = Inl err \<and> r = Some (Inl err))"
      using exec_outside [OF n] r by (cases "exec_start obj (me_run env)") (auto simp: exec_def)
    then show ?thesis using False f g r by auto
  qed
qed

definition demo_main :: menv where
  "demo_main = \<lparr>me_front = all_memory, me_gen = (\<lambda>_. True), me_key = demo_key, me_run = demo_env\<rparr>"

lemma demo_front:
  "front_end all_memory ''u:u8;'' =
    Passed [S_decl \<lparr>d_cons = False, d_expo = False, d_stat = False, d_names = [\<lparr>sym_beg = 0, sym_text = ''u''\<rparr>],
      d_type = demo_u8\<rparr> None]"
  by code_simp

theorem main_reads_its_code_witness:
  "\<exists>r. quaint_main demo_main ''u:u8;'' = Ran r \<and> (\<exists>err. r = Some (Inl err))"
proof -
  let ?ss = "[S_decl \<lparr>d_cons = False, d_expo = False, d_stat = False, d_names = [\<lparr>sym_beg = 0, sym_text = ''u''\<rparr>],
      d_type = demo_u8\<rparr> None]"
  have "case codegen_obj_create (\<lambda>_. True) demo_key ?ss of Inr obj \<Rightarrow> True | Inl err \<Rightarrow> False"
    by (simp add: gen_run demo_defs cong: bind_g_lazy)
  then obtain obj where "codegen_obj_create (\<lambda>_. True) demo_key ?ss = Inr obj" by (auto split: sum.splits)
  then have run: "quaint_main demo_main ''u:u8;'' = Ran (exec obj demo_env)"
    unfolding quaint_main_Ran demo_main_def using demo_front by auto
  have "\<not> has_func ss" if "front_end all_memory ''u:u8;'' = Passed ss" for ss
    using that unfolding demo_front by (auto simp: has_func_def)
  with main_reads_its_code [OF run] have "\<exists>err. exec obj demo_env = Some (Inl err)"
    by (auto simp: demo_main_def)
  then show ?thesis using run by blast
qed

end
