(* ===== verification/Parse_Diagnose.thy ===== *)
theory Parse_Diagnose
  imports Parse_Bounds
begin

text \<open>
  How a rejected program is reported, \<^verbatim>\<open>diagnose_error\<close> of \<^verbatim>\<open>src/parse.c\<close>: all rules are matched
  from left to right against the nodes that are left on the stack; where no rule goes on,
  all of them start again, and where none starts, the node is reported. A rule that
  has been matched to its end is still compared with the next node, behind its last term: that
  read is the outcome \<open>Reads_outside\<close>.
\<close>

subsection \<open>The code\<close>

record rule_status =
  dg_prev :: "gterm option"
  dg_pos :: "gterm list"
  dg_prefix :: nat
  dg_accepted :: bool

definition start_status :: "rule \<Rightarrow> rule_status" where
  "start_status r = \<lparr>dg_prev = None, dg_pos = rhs r, dg_prefix = 0, dg_accepted = True\<rparr>"

text \<open>A node against a rule from \<^verbatim>\<open>match_again\<close> on: whether it is accepted, and the new status.\<close>

fun match_again :: "gterm option \<Rightarrow> gterm list \<Rightarrow> nat \<Rightarrow> parse_node \<Rightarrow> (bool \<times> rule_status) option" where
  "match_again prev [] k n = None"
| "match_again prev (t # ts) k n =
     (if term_eq_node t n
      then Some (True, \<lparr>dg_prev = (if is_mt t then Some t else None), dg_pos = ts, dg_prefix = Suc k, dg_accepted = True\<rparr>)
      else if (case prev of None \<Rightarrow> False | Some p \<Rightarrow> term_eq_node p n)
      then Some (True, \<lparr>dg_prev = prev, dg_pos = t # ts, dg_prefix = Suc k, dg_accepted = True\<rparr>)
      else if is_mt t
      then if ts = [] then Some (False, \<lparr>dg_prev = None, dg_pos = [], dg_prefix = k, dg_accepted = True\<rparr>)
           else match_again None ts k n
      else Some (False, \<lparr>dg_prev = prev, dg_pos = t # ts, dg_prefix = k, dg_accepted = False\<rparr>))"

definition match_status :: "rule_status \<Rightarrow> parse_node \<Rightarrow> (bool \<times> rule_status) option" where
  "match_status s n =
     (if dg_accepted s then match_again (dg_prev s) (dg_pos s) (dg_prefix s) n else Some (False, s))"

fun match_statuses :: "rule_status list \<Rightarrow> parse_node \<Rightarrow> (bool \<times> rule_status list) option" where
  "match_statuses [] n = Some (False, [])"
| "match_statuses (s # ss) n =
     (case match_status s n of None \<Rightarrow> None
      | Some (a, s') \<Rightarrow> map_option (\<lambda>(b, ss'). (a \<or> b, s' # ss')) (match_statuses ss n))"

text \<open>The fields that are set again are all of them, so a restart is the first state.\<close>

definition restarted :: "rule_status list" where
  "restarted = map start_status grammar"

definition all_unmatched :: "rule_status list \<Rightarrow> bool" where
  "all_unmatched ss \<longleftrightarrow> (\<forall>s \<in> set ss. dg_prefix s = 0)"

datatype diagnosis = No_message | Unexpected parse_node | Reads_outside

lemma match_again_prefix: "match_again prev ts k n = Some (False, s) \<Longrightarrow> dg_prefix s = k"
  by (induction prev ts k n rule: match_again.induct) (auto split: if_splits)

lemma match_statuses_prefix:
  "match_statuses ss n = Some (False, ss') \<Longrightarrow> all_unmatched ss' = all_unmatched ss"
proof (induction ss arbitrary: ss')
  case (Cons s ss)
  then show ?case
    using match_again_prefix [of "dg_prev s" "dg_pos s" "dg_prefix s" n]
    by (fastforce simp: match_status_def all_unmatched_def split: option.splits if_splits)
qed (simp add: all_unmatched_def)

lemma restart_unmatched: "all_unmatched restarted"
  by (auto simp: all_unmatched_def restarted_def start_status_def)

text \<open>The loop over the stack. A node is looked at twice when the rules are restarted.\<close>

function diagnose_loop :: "rule_status list \<Rightarrow> parse_node list \<Rightarrow> diagnosis" where
  "diagnose_loop ss [] = No_message"
| "diagnose_loop ss (n # ns) =
     (case match_statuses ss n of
        None \<Rightarrow> Reads_outside
      | Some (accept, ss') \<Rightarrow>
          if accept then diagnose_loop ss' ns
          else if all_unmatched ss' then Unexpected n
          else diagnose_loop restarted (n # ns))"
  by pat_completeness auto

termination
  by (relation "measures [\<lambda>(ss, ns). length ns, \<lambda>(ss, ns). if all_unmatched ss then 0 else 1]")
    (auto simp: restart_unmatched dest: match_statuses_prefix)

text \<open>The stack, its bottom first. It holds the begin marker at least.\<close>

definition diagnose_error :: "parse_node list \<Rightarrow> diagnosis" where
  "diagnose_error ns = (if ns = [] then Reads_outside else diagnose_loop restarted ns)"

text \<open>
  \<^verbatim>\<open>print_localised_parse_error\<close>: line, column and text of the leftmost token of the node, or no
  text for the end of the file. A token is known by its place in the array.
\<close>

record parse_message =
  pm_line :: nat
  pm_col :: nat
  pm_text :: "string option"

definition token_index :: "lex_token list \<Rightarrow> lex_token \<Rightarrow> nat" where
  "token_index toks tok = length (takeWhile (\<lambda>t. t \<noteq> tok) toks)"

definition parse_error_message :: "string \<Rightarrow> lex_token list \<Rightarrow> parse_node \<Rightarrow> parse_message option" where
  "parse_error_message input toks n =
     (case node_ltok n of
        None \<Rightarrow> None
      | Some tok \<Rightarrow>
          map_option (\<lambda>(l, c). \<lparr>pm_line = l, pm_col = c,
              pm_text = (if tok_tk tok = LEX_TK_FEND then None else Some (text_of input tok))\<rparr>)
            (lex_locate_linecol input toks (token_index toks tok)))"

text \<open>What \<^verbatim>\<open>parse\<close> does before it returns \<^verbatim>\<open>err_reject\<close>.\<close>

definition parse_reject :: "(nat \<Rightarrow> bool) \<Rightarrow> lex_token list \<Rightarrow> diagnosis option" where
  "parse_reject mem_ok tokens =
     (case parse_loop mem_ok tokens \<lparr>p_stack = [], p_allocated = 0, p_token_idx = 0, p_requests = 0\<rparr> of
        Inl _ \<Rightarrow> None
      | Inr s \<Rightarrow>
          (case accepted_tree (p_stack s) of
             Inr _ \<Rightarrow> None
           | Inl _ \<Rightarrow> Some (diagnose_error (rev (p_stack s)))))"

subsection \<open>What the matching means\<close>

text \<open>A rule's right-hand side can begin with the nodes; the terms that are left after a node.\<close>

definition begins :: "gterm list \<Rightarrow> parse_node list \<Rightarrow> bool" where
  "begins ts ns \<longleftrightarrow> (\<exists>a b. ts = a @ b \<and> fits a ns)"

fun after_node :: "gterm list \<Rightarrow> parse_node \<Rightarrow> gterm list option" where
  "after_node [] n = None"
| "after_node (t # ts) n =
     (if is_mt t then if term_eq_node t n then Some (t # ts) else after_node ts n
      else if term_eq_node t n then Some ts else None)"

fun after_nodes :: "gterm list \<Rightarrow> parse_node list \<Rightarrow> gterm list option" where
  "after_nodes ts [] = Some ts"
| "after_nodes ts (n # ns) = Option.bind (after_node ts n) (\<lambda>ts'. after_nodes ts' ns)"

text \<open>No term that may be repeated is followed by one that the same node fits.\<close>

fun unambiguous :: "gterm list \<Rightarrow> bool" where
  "unambiguous (M nt # t # ts) \<longleftrightarrow> \<not> is_mt t \<and> t \<noteq> N nt \<and> unambiguous (t # ts)"
| "unambiguous (t # ts) \<longleftrightarrow> unambiguous ts"
| "unambiguous [] \<longleftrightarrow> True"

lemma grammar_unambiguous: "list_all (\<lambda>r. unambiguous (rhs r)) grammar"
  by (simp add: grammar_unfold)

lemma unambiguous_tl: "unambiguous (t # ts) \<Longrightarrow> unambiguous ts"
  by (cases "(t # ts)" rule: unambiguous.cases) auto

lemma unambiguous_M: "unambiguous (M nt # ts) \<Longrightarrow> term_eq_node (M nt) n \<Longrightarrow> after_node ts n = None"
  by (cases ts; cases n) (auto split: if_splits elim: term_eq_node.elims)

lemma after_node_unambiguous: "unambiguous ts \<Longrightarrow> after_node ts n = Some ts' \<Longrightarrow> unambiguous ts'"
  by (induction ts) (auto dest: unambiguous_tl split: if_splits)

lemma after_node_fits: "after_node ts n = Some ts' \<Longrightarrow> fits ts' ns \<Longrightarrow> fits ts (n # ns)"
proof (induction ts)
  case (Cons t ts)
  show ?case
  proof (cases "is_mt t \<and> \<not> term_eq_node t n")
    case True
    then have "fits ts (n # ns)" using Cons by simp
    then show ?thesis using True fits_M [of "[]"] by (auto simp: is_mt_iff)
  next
    case no: False
    then have eq: "term_eq_node t n" using Cons.prems(1) by (auto split: if_splits)
    show ?thesis
    proof (cases "is_mt t")
      case True
      then obtain nt where nt: "t = M nt" by (auto simp: is_mt_iff)
      then have "fits (M nt # ts) ns" using Cons.prems eq True by simp
      then obtain ms ns' where "ns = ms @ ns'" "\<forall>m \<in> set ms. term_eq_node (M nt) m" "fits ts ns'"
        by (auto simp: fits_M_iff)
      then show ?thesis using fits_M [of "n # ms" nt ts ns'] eq nt by simp
    next
      case False
      then show ?thesis using Cons.prems eq fits_append [OF fits_single [OF eq], of ts ns] by simp
    qed
  qed
qed simp

lemma after_nodes_fits: "after_nodes ts ns = Some ts' \<Longrightarrow> fits ts' ms \<Longrightarrow> fits ts (ns @ ms)"
  by (induction ts ns rule: after_nodes.induct) (auto simp: bind_eq_Some_conv intro: after_node_fits)

lemma after_nodes_snoc: "after_nodes ts (ns @ [n]) = Option.bind (after_nodes ts ns) (\<lambda>ts'. after_node ts' n)"
  by (induction ts ns rule: after_nodes.induct) (auto split: bind_splits)

lemma after_nodes_unambiguous: "unambiguous ts \<Longrightarrow> after_nodes ts ns = Some ts' \<Longrightarrow> unambiguous ts'"
  by (induction ts ns rule: after_nodes.induct) (auto simp: bind_eq_Some_conv dest: after_node_unambiguous)

lemma begins_Nil: "begins ts []"
  unfolding begins_def by (intro exI [of _ "[]"] exI [of _ ts]) (simp add: fits_Nil)

lemma begins_Cons: "fits [t] ms \<Longrightarrow> begins ts ns \<Longrightarrow> begins (t # ts) (ms @ ns)"
  unfolding begins_def by (metis append_Cons append_Nil fits_append)

lemma begins_ConsD:
  assumes "begins (t # ts) (n # ns)"
  shows "\<exists>a b. ts = a @ b \<and> fits (t # a) (n # ns)"
proof -
  obtain a b where ab: "t # ts = a @ b" "fits a (n # ns)" using assms unfolding begins_def by blast
  then show ?thesis by (cases a) (auto elim: fits_NilE)
qed

lemma begins_M_iff:
  "begins (M nt # ts) ns \<longleftrightarrow>
    (\<exists>ms ns'. ns = ms @ ns' \<and> (\<forall>m \<in> set ms. term_eq_node (M nt) m) \<and> begins ts ns')"
proof
  assume l: "begins (M nt # ts) ns"
  show "\<exists>ms ns'. ns = ms @ ns' \<and> (\<forall>m \<in> set ms. term_eq_node (M nt) m) \<and> begins ts ns'"
  proof (cases ns)
    case (Cons n ns')
    then obtain a b where "ts = a @ b" "fits (M nt # a) ns" using l begins_ConsD by blast
    then show ?thesis unfolding fits_M_iff begins_def by metis
  qed (simp add: begins_Nil)
next
  assume "\<exists>ms ns'. ns = ms @ ns' \<and> (\<forall>m \<in> set ms. term_eq_node (M nt) m) \<and> begins ts ns'"
  then obtain ms ns' where "ns = ms @ ns'" "fits [M nt] ms" "begins ts ns'" using fits_M_run by blast
  then show "begins (M nt # ts) ns" using begins_Cons by blast
qed

lemma begins_one: "\<not> is_mt t \<Longrightarrow> begins (t # ts) (n # ns) \<longleftrightarrow> term_eq_node t n \<and> begins ts ns"
proof
  assume t: "\<not> is_mt t" and "begins (t # ts) (n # ns)"
  then obtain a b where "ts = a @ b" "fits (t # a) (n # ns)" using begins_ConsD by blast
  then show "term_eq_node t n \<and> begins ts ns"
    using t by (cases t) (auto simp: fits_T_iff fits_N_iff begins_def)
qed (use begins_Cons [OF fits_single, of t n ts ns] in auto)

lemma begins_after_node:
  "unambiguous ts \<Longrightarrow> begins ts (n # ns) \<longleftrightarrow> (\<exists>ts'. after_node ts n = Some ts' \<and> begins ts' ns)"
proof (induction ts)
  case Nil
  then show ?case by (auto simp: begins_def elim: fits_NilE)
next
  case (Cons t ts)
  note IH = Cons.IH [OF unambiguous_tl [OF Cons.prems]]
  show ?case
  proof (cases t)
    case (M nt)
    show ?thesis
    proof (cases "term_eq_node t n")
      case True
      then have none: "\<not> begins ts (n # ns)" using IH unambiguous_M [of nt ts n] Cons.prems M by simp
      have "begins (M nt # ts) (n # ns) \<longleftrightarrow> begins (M nt # ts) ns"
      proof
        assume "begins (M nt # ts) (n # ns)"
        then obtain ms ns' where ms: "n # ns = ms @ ns'" "\<forall>m \<in> set ms. term_eq_node (M nt) m" "begins ts ns'"
          unfolding begins_M_iff by blast
        then obtain ms' where ms': "ms = n # ms'" "ns = ms' @ ns'" using none by (cases ms) auto
        then show "begins (M nt # ts) ns" using ms(2,3) begins_Cons [OF fits_M_run] by simp
      next
        assume "begins (M nt # ts) ns"
        then obtain ms ns' where "ns = ms @ ns'" "\<forall>m \<in> set ms. term_eq_node (M nt) m" "begins ts ns'"
          unfolding begins_M_iff by blast
        then show "begins (M nt # ts) (n # ns)"
          using True M unfolding begins_M_iff by (intro exI [of _ "n # ms"] exI [of _ ns']) simp
      qed
      then show ?thesis using True M by simp
    next
      case False
      then have "begins (M nt # ts) (n # ns) \<longleftrightarrow> begins ts (n # ns)"
        using M unfolding begins_M_iff by (metis append_Cons append_Nil empty_iff list.set(1) list.set_intros(1) neq_Nil_conv list.inject)
      then show ?thesis using False M IH by simp
    qed
  qed (use begins_one [of t ts n ns] in auto)
qed

lemma begins_after_nodes: "unambiguous ts \<Longrightarrow> begins ts ns \<longleftrightarrow> after_nodes ts ns \<noteq> None"
  by (induction ts ns rule: after_nodes.induct)
    (auto simp: begins_Nil begins_after_node bind_eq_Some_conv dest: after_node_unambiguous)

text \<open>Nodes that begin some rule; a stack cut into the longest such pieces, up to a stray node.\<close>

definition starts_rule :: "parse_node list \<Rightarrow> bool" where
  "starts_rule ns \<longleftrightarrow> (\<exists>r \<in> set grammar. begins (rhs r) ns)"

inductive cut_up :: "parse_node list \<Rightarrow> parse_node option \<Rightarrow> bool" where
  cut_end: "cut_up [] None"
| cut_stray: "\<not> starts_rule [n] \<Longrightarrow> cut_up (n # ns) (Some n)"
| cut_piece: "\<lbrakk>xs \<noteq> []; starts_rule xs; ns = [] \<or> \<not> starts_rule (xs @ [hd ns]); cut_up ns x\<rbrakk> \<Longrightarrow> cut_up (xs @ ns) x"

text \<open>A piece begins with all of a rule's right-hand side and goes on.\<close>

definition passes_end :: "parse_node list \<Rightarrow> bool" where
  "passes_end ns \<longleftrightarrow>
     (\<exists>before a b m after. \<exists>r \<in> set grammar. ns = before @ a @ b @ m # after \<and> fits (rhs r) a \<and> starts_rule (a @ b))"

subsection \<open>The loop finds the stray node\<close>

definition residual :: "gterm option \<Rightarrow> gterm list \<Rightarrow> gterm list" where
  "residual prev ts = (case prev of None \<Rightarrow> ts | Some p \<Rightarrow> p # ts)"

abbreviation left_of :: "rule_status \<Rightarrow> gterm list" where
  "left_of s \<equiv> residual (dg_prev s) (dg_pos s)"

definition repeatable :: "gterm option \<Rightarrow> bool" where
  "repeatable prev \<longleftrightarrow> (\<forall>p. prev = Some p \<longrightarrow> is_mt p)"

lemma residual_simps [simp]:
  "residual None ts = ts" "residual (Some p) ts = p # ts" "repeatable None" "repeatable (Some p) = is_mt p"
  by (simp_all add: residual_def repeatable_def)

text \<open>A status, and the terms of the rule that are left after the nodes of the piece.\<close>

definition tracks :: "parse_node list \<Rightarrow> rule \<Rightarrow> rule_status \<Rightarrow> bool" where
  "tracks xs r s \<longleftrightarrow> repeatable (dg_prev s) \<and>
     (if dg_accepted s \<and> after_nodes (rhs r) xs \<noteq> None then after_nodes (rhs r) xs = Some (left_of s)
      else after_nodes (rhs r) xs = None \<and>
        (dg_accepted s \<longrightarrow> dg_pos s = [] \<and> (\<exists>a b. xs = a @ b \<and> fits (rhs r) a)))"

lemma match_again_accepts:
  "match_again prev ts k n = Some (True, s) \<Longrightarrow> repeatable prev \<Longrightarrow> unambiguous (residual prev ts) \<Longrightarrow>
    after_node (residual prev ts) n = Some (left_of s) \<and> dg_accepted s \<and> repeatable (dg_prev s) \<and> dg_prefix s = Suc k"
proof (induction prev ts k n rule: match_again.induct)
  case (2 prev t ts k n)
  then show ?case
    by (cases prev; cases t) (auto simp: is_mt_iff split: if_splits dest: unambiguous_tl elim: term_eq_node.elims)
qed simp

lemma match_again_rejects:
  "match_again prev ts k n = Some (False, s) \<Longrightarrow> repeatable prev \<Longrightarrow> unambiguous (residual prev ts) \<Longrightarrow>
    after_node (residual prev ts) n = None \<and> repeatable (dg_prev s) \<and>
    (dg_accepted s \<longrightarrow> dg_pos s = [] \<and> (\<forall>t \<in> set (residual prev ts). is_mt t))"
proof (induction prev ts k n rule: match_again.induct)
  case (2 prev t ts k n)
  then show ?case
    by (cases prev; cases t) (auto simp: is_mt_iff split: if_splits dest: unambiguous_tl elim: term_eq_node.elims)
qed simp

lemma match_again_None: "match_again prev ts k n = None \<longleftrightarrow> ts = []"
  by (induction prev ts k n rule: match_again.induct) (auto split: if_splits)

lemma fits_all_repeatable: "\<forall>t \<in> set ts. is_mt t \<Longrightarrow> fits ts []"
proof (induction ts)
  case (Cons t ts)
  then show ?case using fits_M [of "[]"] by (auto simp: is_mt_iff)
qed (simp add: fits_Nil)

lemma tracks_fits:
  assumes "after_nodes (rhs r) xs = Some ts" and "\<forall>t \<in> set ts. is_mt t"
  shows "fits (rhs r) xs"
  using after_nodes_fits [OF assms(1) fits_all_repeatable [OF assms(2)]] by simp

lemma tracks_step:
  assumes "tracks xs r s" and "unambiguous (rhs r)" and "match_status s n = Some (a, s')"
  shows "tracks (xs @ [n]) r s' \<and> a = (after_nodes (rhs r) (xs @ [n]) \<noteq> None) \<and> (a \<longrightarrow> dg_prefix s' \<noteq> 0)"
proof (cases "dg_accepted s")
  case True
  then have m: "match_again (dg_prev s) (dg_pos s) (dg_prefix s) n = Some (a, s')"
    using assms(3) by (simp add: match_status_def)
  then have "dg_pos s \<noteq> []" using match_again_None by (metis option.distinct(1))
  then have res: "after_nodes (rhs r) xs = Some (left_of s)" and rep: "repeatable (dg_prev s)"
    using assms(1) True by (auto simp: tracks_def split: if_splits)
  have un: "unambiguous (left_of s)" by (rule after_nodes_unambiguous [OF assms(2) res])
  show ?thesis
  proof (cases a)
    case True
    then show ?thesis using match_again_accepts [OF _ rep un] m res by (simp add: tracks_def after_nodes_snoc)
  next
    case False
    then have rej: "after_node (left_of s) n = None" "repeatable (dg_prev s')"
      "dg_accepted s' \<longrightarrow> dg_pos s' = [] \<and> (\<forall>t \<in> set (left_of s). is_mt t)"
      using match_again_rejects [OF _ rep un] m by auto
    then have "dg_accepted s' \<longrightarrow> (\<exists>a b. xs @ [n] = a @ b \<and> fits (rhs r) a)"
      using tracks_fits [OF res] by blast
    then show ?thesis using False rej res by (simp add: tracks_def after_nodes_snoc)
  qed
next
  case False
  then have "s' = s" "\<not> a" using assms(3) by (auto simp: match_status_def)
  then show ?thesis using assms(1) False by (simp add: tracks_def after_nodes_snoc)
qed

lemma tracks_None:
  assumes "tracks xs r s" and "match_status s n = None"
  shows "\<exists>a b. xs = a @ b \<and> fits (rhs r) a"
proof -
  have s: "dg_accepted s" "dg_pos s = []"
    using assms(2) match_again_None by (auto simp: match_status_def split: if_splits)
  show ?thesis
  proof (cases "after_nodes (rhs r) xs")
    case (Some ts)
    then have "\<forall>t \<in> set ts. is_mt t" using assms(1) s by (cases "dg_prev s") (auto simp: tracks_def)
    then show ?thesis using tracks_fits [OF Some] by (metis append_Nil2)
  next
    case None
    then show ?thesis using assms(1) s by (simp add: tracks_def)
  qed
qed

definition all_track :: "parse_node list \<Rightarrow> rule list \<Rightarrow> rule_status list \<Rightarrow> bool" where
  "all_track xs rs ss \<longleftrightarrow> list_all2 (tracks xs) rs ss"

lemma all_track_simps [simp]:
  "all_track xs (r # rs) (s # ss) \<longleftrightarrow> tracks xs r s \<and> all_track xs rs ss"
  "all_track xs [] ss \<longleftrightarrow> ss = []" "all_track xs (r # rs) [] \<longleftrightarrow> False"
  by (simp_all add: all_track_def)

lemma all_track_step:
  "all_track xs rs ss \<Longrightarrow> list_all (\<lambda>r. unambiguous (rhs r)) rs \<Longrightarrow> match_statuses ss n = Some (a, ss') \<Longrightarrow>
    all_track (xs @ [n]) rs ss' \<and> a = (\<exists>r \<in> set rs. after_nodes (rhs r) (xs @ [n]) \<noteq> None) \<and>
    (a \<longrightarrow> \<not> all_unmatched ss')"
proof (induction rs arbitrary: ss a ss')
  case (Cons r rs)
  then obtain s tl where ss: "ss = s # tl" and tr: "tracks xs r s" "all_track xs rs tl" by (cases ss) auto
  then obtain b s' c tl' where m: "match_status s n = Some (b, s')" "match_statuses tl n = Some (c, tl')"
    and out: "a = (b \<or> c)" "ss' = s' # tl'"
    using Cons.prems(3) by (auto split: option.splits)
  have un: "unambiguous (rhs r)" "list_all (\<lambda>r. unambiguous (rhs r)) rs" using Cons.prems(2) by simp_all
  show ?case
    using tracks_step [OF tr(1) un(1) m(1)] Cons.IH [OF tr(2) un(2) m(2)] out by (auto simp: all_unmatched_def)
qed (simp add: all_unmatched_def)

lemma all_track_None:
  "all_track xs rs ss \<Longrightarrow> match_statuses ss n = None \<Longrightarrow> \<exists>r \<in> set rs. \<exists>a b. xs = a @ b \<and> fits (rhs r) a"
proof (induction rs arbitrary: ss)
  case (Cons r rs)
  then obtain s tl where ss: "ss = s # tl" "tracks xs r s" "all_track xs rs tl" by (cases ss) auto
  then show ?case
    using tracks_None [of xs r s n] Cons.IH [of tl] Cons.prems(2) by (auto split: option.splits)
qed simp

lemma starts_rule_after: "starts_rule xs \<longleftrightarrow> (\<exists>r \<in> set grammar. after_nodes (rhs r) xs \<noteq> None)"
  unfolding starts_rule_def
  by (rule bex_cong [OF refl], rule begins_after_nodes) (use grammar_unambiguous in \<open>simp add: list_all_iff\<close>)

lemma all_track_restart: "all_track [] grammar restarted"
proof -
  have "tracks [] r (start_status r)" for r by (simp add: tracks_def start_status_def)
  then show ?thesis by (simp add: all_track_def restarted_def list.rel_map list.rel_refl)
qed

text \<open>The state of the loop within a piece.\<close>

definition in_piece :: "parse_node list \<Rightarrow> rule_status list \<Rightarrow> bool" where
  "in_piece xs ss \<longleftrightarrow> all_track xs grammar ss \<and> starts_rule xs \<and>
     (if xs = [] then ss = restarted else \<not> all_unmatched ss)"

lemma in_piece_restart: "in_piece [] restarted"
  using all_track_restart by (auto simp: in_piece_def starts_rule_def begins_Nil grammar_unfold)

lemma in_piece_step:
  assumes "in_piece xs ss" and "match_statuses ss n = Some (a, ss')"
  shows "a = starts_rule (xs @ [n]) \<and> (a \<longrightarrow> in_piece (xs @ [n]) ss')"
  using assms all_track_step [OF _ grammar_unambiguous assms(2), of xs]
  by (auto simp: in_piece_def starts_rule_after)

lemma in_piece_None:
  assumes "in_piece xs ss" and "match_statuses ss n = None"
  shows "passes_end (xs @ n # ns)"
proof -
  obtain r a b where "r \<in> set grammar" "xs = a @ b" "fits (rhs r) a"
    using all_track_None [OF _ assms(2), of xs grammar] assms(1) by (auto simp: in_piece_def)
  then show ?thesis
    using assms(1) unfolding passes_end_def in_piece_def
    by (intro exI [of _ "[]"] exI [of _ a] exI [of _ b] exI [of _ n] exI [of _ ns] bexI [of _ r]) simp_all
qed

definition diagnosed :: "parse_node list \<Rightarrow> diagnosis \<Rightarrow> bool" where
  "diagnosed ns d \<longleftrightarrow>
     (case d of No_message \<Rightarrow> cut_up ns None | Unexpected n \<Rightarrow> cut_up ns (Some n) | Reads_outside \<Rightarrow> passes_end ns)"

lemma diagnosed_piece:
  assumes "diagnosed ns d" and "xs \<noteq> []" and "starts_rule xs" and "ns = [] \<or> \<not> starts_rule (xs @ [hd ns])"
  shows "diagnosed (xs @ ns) d"
proof (cases d)
  case Reads_outside
  then show ?thesis using assms(1) unfolding diagnosed_def passes_end_def by simp (metis append_assoc)
qed (use assms in \<open>auto simp: diagnosed_def intro: cut_piece\<close>)

lemma diagnose_loop_correct: "in_piece xs ss \<Longrightarrow> diagnosed (xs @ ns) (diagnose_loop ss ns)"
proof (induction ss ns arbitrary: xs rule: diagnose_loop.induct)
  case (1 ss)
  have "diagnosed [] No_message" by (simp add: diagnosed_def cut_end)
  then show ?case using diagnosed_piece [of "[]" No_message xs] 1 by (cases "xs = []") (auto simp: in_piece_def)
next
  case (2 ss n ns)
  show ?case
  proof (cases "match_statuses ss n")
    case None
    then show ?thesis using in_piece_None [OF "2.prems" None, of ns] by (simp add: diagnosed_def)
  next
    case (Some x)
    obtain a ss' where m: "match_statuses ss n = Some (a, ss')" using Some by (cases x) auto
    note step = in_piece_step [OF "2.prems" m]
    show ?thesis
    proof (cases a)
      case True
      then show ?thesis using "2.IH"(1) [OF m refl True, of "xs @ [n]"] step m by simp
    next
      case False
      then have un: "all_unmatched ss' \<longleftrightarrow> xs = []"
        using match_statuses_prefix [of ss n ss'] m "2.prems" restart_unmatched
        by (auto simp: in_piece_def split: if_splits)
      show ?thesis
      proof (cases "xs = []")
        case True
        then have "cut_up (n # ns) (Some n)" using step False by (intro cut_stray) simp
        then show ?thesis using True False un m by (simp add: diagnosed_def)
      next
        case ne: False
        then have "diagnosed (n # ns) (diagnose_loop restarted (n # ns))"
          using "2.IH"(2) [OF m refl False _ in_piece_restart] un by simp
        from diagnosed_piece [OF this ne] show ?thesis
          using "2.prems" step False un ne m by (simp add: in_piece_def)
      qed
    qed
  qed
qed

subsection \<open>Every rejection is reported\<close>

text \<open>Between two shifts no rule matches, and once the input is read its end is on the stack.\<close>

definition settled :: "lex_token list \<Rightarrow> pstate \<Rightarrow> bool" where
  "settled tokens s \<longleftrightarrow> bounded tokens s \<and> (p_token_idx s = length tokens \<longrightarrow> matching_rule (p_stack s) = None)"

lemma reduce_loop_ends: "reduce_loop mem_ok tokens s = Inr s' \<Longrightarrow> matching_rule (p_stack s') = None"
proof (induction mem_ok tokens s rule: reduce_loop.induct)
  case (1 mem_ok tokens s)
  then show ?case
    by (cases "matching_rule (p_stack s)") (auto simp: reduce_loop.simps [of mem_ok tokens s] bind_simps)
qed

lemma parse_loop_settled:
  "parse_loop mem_ok tokens s = Inr s' \<Longrightarrow> ends_marked tokens \<Longrightarrow> settled tokens s \<Longrightarrow> settled tokens s'"
proof (induction mem_ok tokens s rule: parse_loop.induct)
  case (1 mem_ok tokens s)
  note unfold = parse_loop.simps [of mem_ok tokens s]
  consider "length tokens \<le> p_token_idx s"
    | "p_token_idx s < length tokens" "skip_token (tok_tk (tokens ! p_token_idx s))"
    | "p_token_idx s < length tokens" "\<not> skip_token (tok_tk (tokens ! p_token_idx s))"
    by linarith
  then show ?case
  proof cases
    case 1
    then show ?thesis using "1.prems" by (simp add: unfold)
  next
    case 2
    have "Suc (p_token_idx s) \<noteq> length tokens"
    proof
      assume "Suc (p_token_idx s) = length tokens"
      then have "tokens ! p_token_idx s = last tokens"
        by (metis diff_Suc_1 last_conv_nth length_0_conv old.nat.distinct(2))
      then show False using 2(2) "1.prems"(2) by (simp add: ends_marked_def skip_token_def)
    qed
    then have "settled tokens (s\<lparr>p_token_idx := Suc (p_token_idx s)\<rparr>)"
      using 2(1) by (auto simp: settled_def bounded_def)
    then show ?thesis using 2 "1.IH"(1) [OF 2] "1.prems" by (simp add: unfold)
  next
    case 3
    then obtain t u where t: "shift_next mem_ok tokens s = Inr t"
      and u: "reduce_loop mem_ok tokens t = Inr u" "parse_loop mem_ok tokens u = Inr s'"
      using "1.prems"(1) by (auto simp: unfold bind_simps)
    have "bounded tokens u"
      using reduce_loop_bounded [OF "1.prems"(2) shift_next_bounded [OF t "1.prems"(2)]] u(1) by blast
    then have "settled tokens u" using reduce_loop_ends [OF u(1)] by (simp add: settled_def)
    then show ?thesis using "1.IH"(2) [OF 3, of u] t u "1.prems"(2) by (simp add: bind_simps)
  qed
qed

lemma cut_up_last: "cut_up ns x \<Longrightarrow> x = None \<Longrightarrow> ns \<noteq> [] \<Longrightarrow> \<exists>us xs. ns = us @ xs \<and> xs \<noteq> [] \<and> starts_rule xs"
proof (induction rule: cut_up.induct)
  case (cut_piece xs ns x)
  show ?case
  proof (cases "ns = []")
    case True
    then show ?thesis using cut_piece by (intro exI [of _ "[]"] exI [of _ xs]) simp
  next
    case False
    then obtain us ys where "ns = us @ ys" "ys \<noteq> []" "starts_rule ys" using cut_piece by blast
    then show ?thesis by (intro exI [of _ "xs @ us"] exI [of _ ys]) simp
  qed
qed simp_all

lemma cut_up_stray: "cut_up ns x \<Longrightarrow> x = Some n \<Longrightarrow> \<not> starts_rule [n] \<and> n \<in> set ns"
  by (induction rule: cut_up.induct) auto

abbreviation unit_rule :: rule where
  "unit_rule \<equiv> rl PARSE_NT_Unit [T LEX_TK_FBEG, M PARSE_NT_Stmt, T LEX_TK_FEND]"

lemma grammar_unit: "list_all (\<lambda>r. lhs r = PARSE_NT_Unit \<longrightarrow> r = unit_rule) grammar"
  by (simp add: grammar_unfold)

lemma unit_rule_in: "unit_rule \<in> set grammar"
  by (simp add: grammar_unfold)

lemma match_unit_stmts:
  "\<forall>m \<in> set ms. term_eq_node (M PARSE_NT_Stmt) m \<Longrightarrow> tok_tk b = LEX_TK_FBEG \<Longrightarrow>
    match_loop (Some (M PARSE_NT_Stmt)) [T LEX_TK_FBEG] (ms @ Leaf b # st) = Some (None, [], st)"
proof (induction ms)
  case (Cons m ms)
  then show ?case by (cases m) auto
qed simp

lemma match_unit:
  assumes "\<forall>m \<in> set ms. term_eq_node (M PARSE_NT_Stmt) m" and "tok_tk b = LEX_TK_FBEG" and "tok_tk e = LEX_TK_FEND"
  shows "match_rule unit_rule (Leaf e # ms @ Leaf b # st) \<noteq> 0"
proof -
  have "match_loop None [M PARSE_NT_Stmt, T LEX_TK_FBEG] (ms @ Leaf b # st) = Some (None, [], st)"
    using assms(1,2) match_unit_stmts [of "tl ms" b st] by (cases ms) auto
  then show ?thesis using assms(3) by (simp add: match_rule_def)
qed

lemma starts_rule_final:
  assumes "starts_rule (us @ [n])" and "final_node n"
  shows "fits (rhs unit_rule) (us @ [n]) \<and> (\<exists>e. n = Leaf e \<and> tok_tk e = LEX_TK_FEND)"
proof -
  obtain r a b where r: "r \<in> set grammar" "rhs r = a @ b" "fits a (us @ [n])"
    using assms(1) by (auto simp: starts_rule_def begins_def)
  obtain t where t: "t \<in> set a" "term_eq_node t n" using fits_nodes [OF r(3), of n] by auto
  have "t = T LEX_TK_FEND \<or> t = N PARSE_NT_Unit \<or> t = M PARSE_NT_Unit" using t(2) assms(2) by (cases t; cases n) auto
  then have "lhs r = PARSE_NT_Unit" using grammar_not_final r(1,2) t(1) by (fastforce simp: list_all_iff)
  then have ru: "r = unit_rule" using grammar_unit r(1) by (simp add: list_all_iff)
  then have te: "t = T LEX_TK_FEND"
    using r(2) t assms(2) by (cases n) (auto simp: append_eq_Cons_conv Cons_eq_append_conv)
  then have "a = rhs unit_rule" using r(2) t(1) ru by (auto simp: append_eq_Cons_conv Cons_eq_append_conv)
  then show ?thesis using r(3) t(2) te by (cases n) auto
qed

text \<open>A stack that ends with the end marker is not cut up completely unless it is a unit.\<close>

lemma never_silent:
  assumes "matching_rule st = None" and "st \<noteq> []" and "final_node (hd st)"
  shows "\<not> cut_up (rev st) None"
proof
  assume "cut_up (rev st) None"
  then obtain us xs where c: "rev st = us @ xs" "xs \<noteq> []" "starts_rule xs" using cut_up_last assms(2) by blast
  then have "last xs = hd st" using assms(2) by (metis last_appendR last_rev)
  then obtain ys where xs: "xs = ys @ [hd st]" using c(2) by (metis append_butlast_last_id)
  then have f: "fits (rhs unit_rule) xs" "\<exists>e. hd st = Leaf e \<and> tok_tk e = LEX_TK_FEND"
    using starts_rule_final c(3) assms(3) by auto
  obtain b ms ns where s1: "xs = Leaf b # ms @ ns" "tok_tk b = LEX_TK_FBEG" "\<forall>m \<in> set ms. term_eq_node (M PARSE_NT_Stmt) m"
    "fits [T LEX_TK_FEND] ns"
    using f(1) by (auto simp: fits_T_iff fits_M_iff)
  then obtain e where e: "ns = [Leaf e]" "tok_tk e = LEX_TK_FEND" by (auto simp: fits_T_iff elim: fits_NilE)
  have "st = Leaf e # rev ms @ Leaf b # rev us" using c(1) s1(1) e(1) by (simp add: rev_swap)
  then have "match_rule unit_rule st \<noteq> 0" using match_unit [of "rev ms" b e "rev us"] s1(2,3) e(2) by simp
  then show False using assms(1) unit_rule_in by (auto simp: matching_rule_def find_None_iff)
qed

text \<open>Where the message points to.\<close>

lemma located:
  assumes "lex mem_ok input = LEX_OK toks" and "tok \<in> set toks" and "tok_tk tok \<noteq> LEX_TK_FBEG"
  shows "\<exists>lc. lex_locate_linecol input toks (token_index toks tok) = Some lc"
proof -
  obtain mid where toks: "toks = fbeg # mid @ [fend]" and tiled: "tiled input 0 mid"
    using lex_ok_tiled [OF assms(1)] by (auto simp: fbeg_def fend_def)
  let ?pre = "takeWhile (\<lambda>t. t \<noteq> tok) mid"
  have first: "fbeg \<noteq> tok" using assms(3) by (auto simp: fbeg_def)
  have "takeWhile (\<lambda>t. t \<noteq> tok) (mid @ [fend]) = ?pre"
  proof (cases "tok \<in> set mid")
    case True
    then show ?thesis by (intro takeWhile_append1) auto
  next
    case False
    then have "tok = fend" using assms(2) toks first by auto
    then have "?pre = mid" using False by (intro iffD2 [OF takeWhile_eq_all_conv]) auto
    have "takeWhile (\<lambda>t. t \<noteq> tok) (mid @ [fend]) = mid @ takeWhile (\<lambda>t. t \<noteq> tok) [fend]"
      using False by (intro takeWhile_append2) auto
    also have "\<dots> = ?pre" unfolding \<open>?pre = mid\<close> using \<open>tok = fend\<close> by simp
    finally show ?thesis .
  qed
  then have "takeWhile (\<lambda>t. t \<noteq> tok) toks = fbeg # ?pre" using first by (simp add: toks)
  moreover have "take (token_index toks tok) toks = takeWhile (\<lambda>t. t \<noteq> tok) toks"
    by (simp only: token_index_def takeWhile_eq_take [symmetric])
  moreover have "\<forall>t \<in> set (rev ?pre). text_of input t \<noteq> [] \<and> tok_tk t \<noteq> LEX_TK_FBEG"
    using tiled_each [OF tiled] by (auto dest: set_takeWhileD)
  ultimately show ?thesis
    using locate_back_fold [of "rev ?pre" input fbeg "[]" "(1, 1)"] by (simp add: lex_locate_linecol_def fbeg_def)
qed

lemma grammar_begin_marker:
  "list_all (\<lambda>r. r = unit_rule \<or>
     (\<forall>t \<in> set (rhs r). t \<noteq> T LEX_TK_FBEG \<and> t \<noteq> N PARSE_NT_Unit \<and> t \<noteq> M PARSE_NT_Unit)) grammar"
  by (simp add: grammar_unfold)

text \<open>Only a unit starts with the begin marker, and it has an end marker.\<close>

lemma derives_begin_marker:
  "derives n \<Longrightarrow> tok_tk (hd (fringe n)) = LEX_TK_FBEG \<Longrightarrow>
    (\<exists>b. n = Leaf b) \<or> (\<exists>cs. n = Node PARSE_NT_Unit cs) \<and> (\<exists>e \<in> set (fringe n). tok_tk e = LEX_TK_FEND)"
proof (induction rule: derives.induct)
  case (derives_Node r nt cs)
  then have "derives (Node nt cs)" by (auto intro: derives.intros)
  then obtain c ds where cs: "cs = c # ds" using derives_children by (cases cs) auto
  have hd: "tok_tk (hd (fringe c)) = LEX_TK_FBEG"
    using derives_Node.prems derives_fringe [of c] derives_Node.IH cs by simp
  obtain t where t: "t \<in> set (rhs r)" "term_eq_node t c" using fits_nodes [OF derives_Node.hyps(3), of c] cs by auto
  have "t = T LEX_TK_FBEG \<or> t = N PARSE_NT_Unit \<or> t = M PARSE_NT_Unit"
    using derives_Node.IH hd t(2) cs by (cases t; cases c) auto
  then have r: "r = unit_rule" using grammar_begin_marker derives_Node.hyps(1) t(1) by (fastforce simp: list_all_iff)
  then obtain b ms ns where "cs = Leaf b # ms @ ns" "fits [T LEX_TK_FEND] ns"
    using derives_Node.hyps(3) by (auto simp: fits_T_iff fits_M_iff)
  then show ?case using r derives_Node.hyps(2) by (auto simp: fits_T_iff)
qed simp

lemma marked_once:
  assumes "lex mem_ok input = LEX_OK toks"
  shows "\<exists>mid. kept toks = fbeg # mid @ [fend] \<and> (\<forall>t \<in> set mid. tok_tk t \<noteq> LEX_TK_FBEG \<and> tok_tk t \<noteq> LEX_TK_FEND)"
proof -
  obtain mid where toks: "toks = fbeg # mid @ [fend]" and tiled: "tiled input 0 mid"
    using lex_ok_tiled [OF assms(1)] by (auto simp: fbeg_def fend_def)
  have "\<forall>t \<in> set mid. tok_tk t \<in> set lex_tks" if "tiled input off mid" for off
    using that by (induction mid arbitrary: off) auto
  then have "\<forall>t \<in> set mid. tok_tk t \<noteq> LEX_TK_FBEG \<and> tok_tk t \<noteq> LEX_TK_FEND"
    using tiled by (fastforce simp: lex_tks_def)
  then show ?thesis
    unfolding toks by (intro exI [of _ "kept mid"]) (auto simp: kept_def skip_token_def fbeg_def fend_def)
qed

text \<open>A node that starts with the begin marker is the marker, or the whole of the program.\<close>

lemma stray_not_begin:
  assumes "lex lex_mem input = LEX_OK toks" and "\<forall>n \<in> set (us @ n # vs). derives n"
    and fr: "concat (map fringe (us @ n # vs)) = kept toks" and b: "tok_tk (hd (fringe n)) = LEX_TK_FBEG"
  shows "(\<exists>b. n = Leaf b) \<or> us = [] \<and> vs = [] \<and> (\<exists>cs. n = Node PARSE_NT_Unit cs)"
proof -
  obtain mid where mid: "kept toks = fbeg # mid @ [fend]"
    "\<forall>t \<in> set mid. tok_tk t \<noteq> LEX_TK_FBEG \<and> tok_tk t \<noteq> LEX_TK_FEND" using marked_once [OF assms(1)] by blast
  let ?us = "concat (map fringe us)" and ?vs = "concat (map fringe vs)"
  have eq: "?us @ fringe n @ ?vs = fbeg # mid @ [fend]" using fr mid(1) by simp
  have ne: "fringe n \<noteq> []" using assms(2) derives_fringe by simp
  have "?us = []"
  proof (rule ccontr)
    assume "?us \<noteq> []"
    then obtain a as where "?us = a # as" by (cases ?us) auto
    then have "as @ fringe n @ ?vs = mid @ [fend]" using eq by simp
    then have "hd (fringe n) \<in> set (mid @ [fend])" using ne by (metis Un_iff hd_in_set set_append)
    then show False using mid(2) b by (auto simp: fend_def)
  qed
  then have us: "us = []" using assms(2) derives_fringe by (cases us) auto
  show ?thesis
  proof (cases "\<exists>b. n = Leaf b")
    case False
    then obtain e where e: "\<exists>cs. n = Node PARSE_NT_Unit cs" "e \<in> set (fringe n)" "tok_tk e = LEX_TK_FEND"
      using derives_begin_marker [of n] assms(2) b by auto
    have "?vs = []"
    proof (rule ccontr)
      assume "?vs \<noteq> []"
      then obtain cs c where "?vs = cs @ [c]" by (cases ?vs rule: rev_cases) auto
      then have "(fringe n @ cs) @ [c] = (fbeg # mid) @ [fend]" using eq \<open>?us = []\<close> by (metis append_Cons append_Nil append_assoc)
      then have "fringe n @ cs = fbeg # mid" by (simp only: append1_eq_conv)
      then have "e \<in> set (fbeg # mid)" using e(2) by (metis Un_iff set_append)
      then show False using mid(2) e(3) by (auto simp: fbeg_def)
    qed
    then have "vs = []" using assms(2) derives_fringe by (cases vs) auto
    then show ?thesis using us e(1) by simp
  qed simp
qed

abbreviation parse_start :: pstate where
  "parse_start \<equiv> \<lparr>p_stack = [], p_allocated = 0, p_token_idx = 0, p_requests = 0\<rparr>"

text \<open>The stack of a rejected program: no rule matches, the end marker is on top.\<close>

lemma rejected_stack:
  assumes "lex lex_mem input = LEX_OK tokens" and rej: "parse mem_ok tokens = Inl PARSE_REJECT"
  obtains s where "parse_loop mem_ok tokens parse_start = Inr s" "accepted_tree (p_stack s) = Inl PARSE_REJECT"
    "concat (map fringe (rev (p_stack s))) = kept tokens" "\<forall>n \<in> set (rev (p_stack s)). derives n"
    "matching_rule (p_stack s) = None" "p_stack s \<noteq> []" "final_node (hd (p_stack s))"
proof (cases "parse_loop mem_ok tokens parse_start")
  case (Inl e)
  have "ends_marked tokens" using lex_ok_tiled [OF assms(1)] by (auto simp: ends_marked_def)
  then show ?thesis
    using parse_loop_bounded [of tokens mem_ok parse_start] Inl rej by (simp add: parse_def no_overrun_def)
next
  case (Inr s)
  have ends: "ends_marked tokens" using lex_ok_tiled [OF assms(1)] by (auto simp: ends_marked_def)
  have "settled tokens parse_start" using ends by (simp add: settled_def bounded_def ends_marked_def)
  then have "settled tokens s" by (rule parse_loop_settled [OF Inr ends])
  moreover have sound: "sound tokens s" "length tokens \<le> p_token_idx s"
    using sound_parse_loop [OF Inr] by (simp_all add: sound_def stack_fringe_def kept_def)
  ultimately have "matching_rule (p_stack s) = None \<and> p_stack s \<noteq> [] \<and> final_node (hd (p_stack s))"
    by (simp add: settled_def bounded_def)
  moreover have "accepted_tree (p_stack s) = Inl PARSE_REJECT" using rej Inr by (simp add: parse_def)
  moreover have "concat (map fringe (rev (p_stack s))) = kept tokens" "\<forall>n \<in> set (rev (p_stack s)). derives n"
    using sound by (simp_all add: sound_def stack_fringe_def)
  ultimately show ?thesis using that Inr by blast
qed

lemma begin_marker_starts: "tok_tk b = LEX_TK_FBEG \<Longrightarrow> starts_rule [Leaf b]"
  unfolding starts_rule_def begins_def
  by (rule bexI [OF _ unit_rule_in], intro exI [of _ "[T LEX_TK_FBEG]"] exI [of _ "[M PARSE_NT_Stmt, T LEX_TK_FEND]"])
    (simp add: fits_single)

lemma stray_message:
  assumes lex: "lex lex_mem input = LEX_OK tokens" and fr: "concat (map fringe ns) = kept tokens"
    and der: "\<forall>n \<in> set ns. derives n" and stray: "cut_up ns (Some n)" and unit: "\<nexists>cs. ns = [Node PARSE_NT_Unit cs]"
  shows "\<exists>m. parse_error_message input tokens n = Some m"
proof -
  have n: "\<not> starts_rule [n]" "n \<in> set ns" using cut_up_stray [OF stray] by simp_all
  let ?t = "hd (fringe n)"
  have lt: "node_ltok n = Some ?t" using derives_ltok_rtok der n(2) by blast
  have "?t \<in> set (fringe n)" using derives_fringe der n(2) by simp
  then have "?t \<in> set (concat (map fringe ns))" using n(2) by auto
  then have mem: "?t \<in> set tokens" unfolding fr by (simp add: kept_def)
  obtain us vs where ns: "ns = us @ n # vs" using n(2) by (meson split_list)
  have "tok_tk ?t \<noteq> LEX_TK_FBEG"
  proof
    assume b: "tok_tk ?t = LEX_TK_FBEG"
    then have "\<nexists>b. n = Leaf b" using n(1) begin_marker_starts by auto
    then show False using stray_not_begin [OF lex der [unfolded ns] fr [unfolded ns] b] unit ns by auto
  qed
  then obtain l c where "lex_locate_linecol input tokens (token_index tokens ?t) = Some (l, c)"
    using located [OF lex mem] by auto
  then show ?thesis using lt by (simp add: parse_error_message_def)
qed

text \<open>
  C23. A program that the parser rejects is reported. The nodes that are left on the stack are
  cut into pieces, each the longest that begins some rule; the node reported is the first
  that begins none, and a message with a line and a column is printed for it. It is never
  the case that all nodes are taken and nothing is printed. The one exception is a piece
  that has all of a rule's right-hand side and goes on: there the code may read behind the
  rule's last term.
\<close>

theorem rejection_reported:
  assumes lex: "lex lex_mem input = LEX_OK tokens" and rej: "parse mem_ok tokens = Inl PARSE_REJECT"
  shows "\<exists>ns. concat (map fringe ns) = kept tokens \<and> parse_reject mem_ok tokens = Some (diagnose_error ns) \<and>
    (case diagnose_error ns of
       Unexpected n \<Rightarrow> cut_up ns (Some n) \<and> (\<exists>m. parse_error_message input tokens n = Some m)
     | Reads_outside \<Rightarrow> passes_end ns
     | No_message \<Rightarrow> False)"
proof -
  obtain s where s: "parse_loop mem_ok tokens parse_start = Inr s" "accepted_tree (p_stack s) = Inl PARSE_REJECT"
    and fr: "concat (map fringe (rev (p_stack s))) = kept tokens" and der: "\<forall>n \<in> set (rev (p_stack s)). derives n"
    and st: "matching_rule (p_stack s) = None" "p_stack s \<noteq> []" "final_node (hd (p_stack s))"
    by (rule rejected_stack [OF lex rej])
  let ?ns = "rev (p_stack s)"
  have "diagnosed ?ns (diagnose_error ?ns)"
    using diagnose_loop_correct [OF in_piece_restart, of ?ns] st(2) by (simp add: diagnose_error_def)
  moreover have "\<nexists>cs. ?ns = [Node PARSE_NT_Unit cs]" using s(2) by auto
  moreover have "parse_reject mem_ok tokens = Some (diagnose_error ?ns)" using s by (simp add: parse_reject_def)
  ultimately show ?thesis
    using never_silent [OF st] fr stray_message [OF lex fr der]
    by (intro exI [of _ ?ns]) (cases "diagnose_error ?ns"; simp add: diagnosed_def)
qed

definition demo_toks :: "lex_token list" where
  "demo_toks = [fbeg, \<lparr>tok_tk = LEX_TK_NAME, tok_beg = 0, tok_end = 1\<rparr>, \<lparr>tok_tk = LEX_TK_WSPC, tok_beg = 1, tok_end = 2\<rparr>,
     \<lparr>tok_tk = LEX_TK_NAME, tok_beg = 2, tok_end = 3\<rparr>, fend]"

theorem rejection_reported_witness:
  "\<exists>ns. concat (map fringe ns) = kept demo_toks \<and> parse_reject (\<lambda>_. True) demo_toks = Some (diagnose_error ns) \<and>
    (case diagnose_error ns of
       Unexpected n \<Rightarrow> cut_up ns (Some n) \<and> (\<exists>m. parse_error_message ''a b'' demo_toks n = Some m)
     | Reads_outside \<Rightarrow> passes_end ns
     | No_message \<Rightarrow> False)"
proof -
  have "lex (\<lambda>_. True) ''a b'' = LEX_OK demo_toks" by code_simp
  moreover have "parse (\<lambda>_. True) demo_toks = Inl PARSE_REJECT" by code_simp
  ultimately show ?thesis by (rule rejection_reported)
qed

text \<open>The message for \<^verbatim>\<open>a b\<close>, the end of the file; and a program, \<^verbatim>\<open>a+b*;\<close>, on which the code reads outside.\<close>

lemma demo_message:
  "map_option (\<lambda>d. case d of Unexpected n \<Rightarrow> parse_error_message ''a b'' demo_toks n | _ \<Rightarrow> None)
     (parse_reject (\<lambda>_. True) demo_toks) = Some (Some \<lparr>pm_line = 1, pm_col = 4, pm_text = None\<rparr>)"
  by code_simp

lemma demo_reads_outside:
  "(case lex (\<lambda>_. True) ''a+b*;'' of LEX_OK ts \<Rightarrow> parse_reject (\<lambda>_. True) ts | _ \<Rightarrow> None) = Some Reads_outside"
  by code_simp

end
