(* ===== verification/Vm_Spec.thy ===== *)
theory Vm_Spec
  imports Vm_Safe
begin

text \<open>
  What the computing instructions of the virtual machine compute, in terms of the numbers
  in their operands, and that they change nothing but their destination.
\<close>

subsection \<open>Memory\<close>

lemma fetch_poke_same: "length bs \<le> 2 ^ 64 \<Longrightarrow> fetch (poke a bs f) a (length bs) = bs"
  by (rule nth_equalityI) (auto simp: fetch_def poke_def unat_of_nat)

lemma poke_other: "unat (x - a) \<ge> length bs \<Longrightarrow> poke a bs f x = f x"
  by (simp add: poke_def)

lemma fetch_cong: "(\<And>i. i < n \<Longrightarrow> f (a + word_of_nat i) = g (a + word_of_nat i)) \<Longrightarrow> fetch f a n = fetch g a n"
  by (simp add: fetch_def)

lemma length_fetch [simp]: "length (fetch f a n) = n"
  by (simp add: fetch_def)

text \<open>Memory and everything else are as before but for the bytes \<open>a\<close> to \<open>a + n\<close>.\<close>

definition only_at :: "u64 \<Rightarrow> nat \<Rightarrow> machine \<Rightarrow> machine \<Rightarrow> bool" where
  "only_at a n m m' \<longleftrightarrow> (\<forall>x. unat (x - a) \<ge> n \<longrightarrow> mem m' x = mem m x) \<and> m' = m\<lparr>mem := mem m'\<rparr>"

lemma store_only_at: "store (At a) bs m = Inr m' \<Longrightarrow> only_at a (length bs) m m'"
  by (auto simp: store_Inr only_at_def poke_other)

lemma valid_length: "valid m a n \<Longrightarrow> n < 2 ^ 64 \<or> \<not> vm_ok m"
proof -
  assume v: "valid m a n"
  have "n < 2 ^ 64" if ok: "vm_ok m" "n \<noteq> 0"
  proof -
    obtain b where "b \<in> set (blocks m)" "in_block a n b" using v ok by (auto simp: valid_def)
    then show ?thesis using blocks_ok_end [OF wfD(1) [OF ok(1)]] by (fastforce simp: in_block_def b_end_def)
  qed
  then show ?thesis by (cases "n = 0") auto
qed

lemma store_load:
  assumes "store (At a) bs m = Inr m'" and "vm_ok m"
  shows "load m' (At a) (length bs) = Inr bs"
  using assms valid_length [of m a "length bs"]
  by (auto simp: store_Inr load_def valid_def fetch_poke_same)

lemma store_At: "store l bs m = Inr m' \<Longrightarrow> \<exists>a. l = At a"
  by (auto simp: store_def split: loc.splits)

text \<open>
  C34. A move copies: if it ends with a result, the two places do not overlap, as \<^verbatim>\<open>memcpy\<close>
  requires, afterwards the destination holds the bytes the source held before, and nothing
  outside the destination has changed.
\<close>

theorem mov_copies:
  assumes "insn_mov dst src m = Inr m'" and "vm_ok m"
  shows "\<exists>a s bs. opd_val m dst = Inr (At a) \<and> opd_val m src = Inr s \<and>
    \<not> overlap (At a) s (unat (opd_bytes dst)) \<and> load m s (unat (opd_bytes dst)) = Inr bs \<and>
    load m' (At a) (unat (opd_bytes dst)) = Inr bs \<and> only_at a (unat (opd_bytes dst)) m m'"
proof -
  obtain l s bs where *: "opd_val m dst = Inr l" "opd_val m src = Inr s"
    "load m s (unat (opd_bytes dst)) = Inr bs" "store l bs m = Inr m'" "\<not> overlap l s (unat (opd_bytes dst))"
    using assms(1) by (auto simp: insn_mov_def copy_bytes_Inr bind_simps legal_def opd_size_def assert_def split: if_splits)
  obtain a where a: "l = At a" using store_At [OF *(4)] by blast
  show ?thesis
    using * a store_load [of a bs m m'] store_only_at [of a bs m m'] load_length [OF *(3)] assms(2)
    by (intro exI [of _ a] exI [of _ s] exI [of _ bs]) simp
qed

text \<open>A machine with nothing but 64 bytes of global data, for examples.\<close>

definition demo_machine :: machine where
  "demo_machine = \<lparr>mem = (\<lambda>_. 0), blocks = [\<lparr>b_base = 65536, b_header = 0, b_size = 64\<rparr>],
     qvms = (\<lambda>_. None), vm_ptr = 0, bss = 65536, bss_size = 64, now = 0, cycles = 0, mallocs = 0,
     clocks = 0, out = []\<rparr>"

definition imm_opd :: "u64 \<Rightarrow> u64 \<Rightarrow> opd" where
  "imm_opd v n = \<lparr>opd_kind = CODEGEN_OPD_IMM, signd = False, indirect = False, off = v, opd_bytes = n\<rparr>"

definition glob_opd :: "bool \<Rightarrow> u64 \<Rightarrow> u64 \<Rightarrow> opd" where
  "glob_opd sg v n = \<lparr>opd_kind = CODEGEN_OPD_GLOB, signd = sg, indirect = False, off = v, opd_bytes = n\<rparr>"

lemma demo_machine_ok: "vm_ok demo_machine"
  by (simp add: demo_machine_def vm_ok_def b_end_def b_data_def)

theorem mov_copies_witness:
  "\<exists>m' a bs. insn_mov (glob_opd False 8 8) (imm_opd 7 8) demo_machine = Inr m' \<and>
     load m' (At a) 8 = Inr bs \<and> only_at a 8 demo_machine m'"
proof -
  have "case insn_mov (glob_opd False 8 8) (imm_opd 7 8) demo_machine of Inr m' \<Rightarrow> True | Inl e \<Rightarrow> False"
    by code_simp
  then obtain m' where m': "insn_mov (glob_opd False 8 8) (imm_opd 7 8) demo_machine = Inr m'"
    by (auto split: sum.splits)
  from mov_copies [OF this demo_machine_ok] m' show ?thesis
    by (auto simp: glob_opd_def)
qed

subsection \<open>Arithmetic\<close>

definition in_range :: "bool \<Rightarrow> nat \<Rightarrow> int \<Rightarrow> bool" where
  "in_range sg sz x \<longleftrightarrow> x \<in> (if sg then {- (256 ^ sz div 2) ..< 256 ^ sz div 2} else {0 ..< 256 ^ sz})"

lemma fits_iff: "0 < sz \<Longrightarrow> fits sg sz x \<longleftrightarrow> in_range sg sz x"
  using wrap_range [of sz sg x] wrap_id [of x sg sz] by (auto simp: fits_def in_range_def)

text \<open>The result before it is cut to the size of the destination.\<close>

definition exact :: "arith_op \<Rightarrow> int \<Rightarrow> int \<Rightarrow> int" where
  "exact op x y =
     (case op of
        OP_ADD \<Rightarrow> x + y | OP_SUB \<Rightarrow> x - y | OP_MUL \<Rightarrow> x * y
      | OP_DIV \<Rightarrow> sgn x * sgn y * (\<bar>x\<bar> div \<bar>y\<bar>) | OP_MOD \<Rightarrow> sgn x * (\<bar>x\<bar> mod \<bar>y\<bar>)
      | OP_LSH \<Rightarrow> x * 2 ^ nat y | OP_RSH \<Rightarrow> x div 2 ^ nat y
      | OP_AND \<Rightarrow> x AND y | OP_XOR \<Rightarrow> x XOR y | OP_OR \<Rightarrow> x OR y)"

lemma c_result_bytes:
  "c_result sg' sz' e = Some z \<Longrightarrow> (sg' \<or> sz' = sz) \<Longrightarrow> int_bytes sz z = int_bytes sz e"
  by (auto simp: c_result_def split: if_splits)

lemma c_arith_value:
  assumes "c_arith op sg sz x y = Some z" and "sz \<in> {1, 2, 4, 8}"
  shows "int_bytes sz z = int_bytes sz (exact op x y)"
proof -
  have pz: "promoted_signed sg sz \<or> promoted_size sz = sz"
    using assms(2) by (auto simp: promoted_signed_def promoted_size_def)
  show ?thesis
    using assms(1) c_result_bytes [OF _ pz]
    by (cases op) (auto simp: c_arith_def exact_def Let_def signed_divide_int_def signed_modulo_int_def split: if_splits)
qed

lemma insn_bin_arithD:
  assumes "insn_bin_arith op dst src1 src2 m = Inr m'"
  shows "\<exists>d s1 s2 x y z n. n = unat (opd_bytes dst) \<and> n \<in> {1, 2, 4, 8} \<and>
    opd_val m dst = Inr d \<and> opd_val m src1 = Inr s1 \<and> opd_val m src2 = Inr s2 \<and>
    load_int m (signd dst) s1 n = Inr x \<and> load_int m (signd dst) s2 n = Inr y \<and>
    c_arith op (signd dst) n x y = Some z \<and> store d (int_bytes n z) m = Inr m'"
  using assms
  by (auto simp: insn_bin_arith_def bind_simps legal_def of_option_def store_int_def pow2_size_iff
      opd_size_def assert_def split: if_splits option.splits)

text \<open>
  C16. An arithmetic instruction that is defined stores the mathematical result of its two
  operands, read at the operands' size and signedness, cut to that size: sum, difference,
  product, the quotient rounded towards zero and its remainder with the sign of the
  dividend, the shifts, and the bitwise operations. It changes nothing else.
\<close>

theorem arith_result:
  assumes "insn_bin_arith op dst src1 src2 m = Inr m'" and "vm_ok m"
  shows "\<exists>a s1 s2 x y. opd_val m dst = Inr (At a) \<and> opd_val m src1 = Inr s1 \<and> opd_val m src2 = Inr s2 \<and>
    load_int m (signd dst) s1 (unat (opd_bytes dst)) = Inr x \<and>
    load_int m (signd dst) s2 (unat (opd_bytes dst)) = Inr y \<and>
    load_int m' (signd dst) (At a) (unat (opd_bytes dst)) =
      Inr (wrap (signd dst) (unat (opd_bytes dst)) (exact op x y)) \<and>
    only_at a (unat (opd_bytes dst)) m m'"
proof -
  obtain d s1 s2 x y z n where n: "n = unat (opd_bytes dst)" "n \<in> {1, 2, 4, 8}"
    and l: "opd_val m dst = Inr d" "opd_val m src1 = Inr s1" "opd_val m src2 = Inr s2"
    "load_int m (signd dst) s1 n = Inr x" "load_int m (signd dst) s2 n = Inr y"
    and z: "c_arith op (signd dst) n x y = Some z" and st: "store d (int_bytes n z) m = Inr m'"
    using insn_bin_arithD [OF assms(1)] by blast
  obtain a where a: "d = At a" using store_At [OF st] by blast
  have "load m' (At a) n = Inr (int_bytes n (exact op x y))" "only_at a n m m'"
    using store_load [OF st [unfolded a] assms(2)] store_only_at [OF st [unfolded a]]
      c_arith_value [OF z n(2)] by simp_all
  then show ?thesis
    using l a by (intro exI [of _ a] exI [of _ s1] exI [of _ s2] exI [of _ x] exI [of _ y])
      (simp add: n(1) [symmetric] load_int_def)
qed

theorem arith_result_witness:
  "\<exists>m' a. insn_bin_arith OP_SUB (glob_opd False 8 8) (imm_opd 3 8) (imm_opd 5 8) demo_machine = Inr m' \<and>
     load_int m' False (At a) 8 = Inr (2 ^ 64 - 2)"
proof -
  let ?i = "insn_bin_arith OP_SUB (glob_opd False 8 8) (imm_opd 3 8) (imm_opd 5 8) demo_machine"
  have "case ?i of Inr m' \<Rightarrow> True | Inl e \<Rightarrow> False"
    by code_simp
  then obtain m' where m': "?i = Inr m'" by (auto split: sum.splits)
  have "load_int demo_machine False (Imm 3) 8 = Inr 3" "load_int demo_machine False (Imm 5) 8 = Inr 5"
    by code_simp+
  with arith_result [OF m' demo_machine_ok] m' show ?thesis
    by (auto simp: glob_opd_def imm_opd_def opd_val_def exact_def wrap_def)
qed

subsection \<open>Where arithmetic is undefined\<close>

lemma in_range_small:
  "in_range sg sz x \<Longrightarrow> sz \<in> {1, 2} \<Longrightarrow> \<bar>x\<bar> \<le> (if sg then 32768 else if sz = 1 then 255 else 65535)"
  by (auto simp: in_range_def)

lemma abs_mult_bound: "\<bar>x\<bar> \<le> b \<Longrightarrow> \<bar>y\<bar> \<le> b \<Longrightarrow> \<bar>x * y\<bar> \<le> b * (b :: int)"
  by (simp add: abs_mult mult_mono)

lemma small_defined:
  assumes "op \<in> {OP_ADD, OP_SUB, OP_MUL}" and "sz \<in> {1, 2}" and "in_range sg sz x" and "in_range sg sz y"
  shows "in_range True 4 (exact op x y) \<longleftrightarrow> \<not> (op = OP_MUL \<and> sz = 2 \<and> \<not> sg \<and> 2 ^ 31 \<le> x * y)"
proof -
  let ?b = "if sg then 32768 else if sz = 1 then 255 else 65535 :: int"
  have b: "\<bar>x\<bar> \<le> ?b" "\<bar>y\<bar> \<le> ?b" "\<bar>x * y\<bar> \<le> ?b * ?b"
    using in_range_small assms(2-4) abs_mult_bound by blast+
  have pos: "0 \<le> x * y" if "\<not> sg"
    using assms(3,4) that by (auto simp: in_range_def)
  show ?thesis
    using assms(1,2) b pos by (auto simp: in_range_def exact_def abs_le_iff split: if_splits)
qed

text \<open>
  C17. Addition, subtraction and multiplication are undefined in exactly two cases: a
  signed operation on four or eight bytes whose result does not fit, and the product of two
  \<open>u16\<close> that is \<open>2 ^ 31\<close> or more, because C promotes them to a signed 32-bit \<^verbatim>\<open>int\<close>. So the
  unsigned operations of the language wrap, except the multiplication of \<open>u16\<close>.
\<close>

theorem arith_undefined_iff:
  assumes "op \<in> {OP_ADD, OP_SUB, OP_MUL}" and "sz \<in> {1, 2, 4, 8}"
    and "in_range sg sz x" and "in_range sg sz y"
  shows "c_arith op sg sz x y = None \<longleftrightarrow>
    (sg \<and> 4 \<le> sz \<and> \<not> in_range True sz (exact op x y)) \<or>
    (op = OP_MUL \<and> sz = 2 \<and> \<not> sg \<and> 2 ^ 31 \<le> x * y)"
proof -
  have eq: "c_arith op sg sz x y = c_result (promoted_signed sg sz) (promoted_size sz) (exact op x y)"
    using assms(1) by (auto simp: c_arith_def exact_def Let_def)
  show ?thesis
  proof (cases "sz \<in> {1, 2}")
    case True
    then show ?thesis
      using small_defined [OF assms(1) True assms(3,4)] fits_iff [of 4 True]
      by (auto simp: eq promoted_signed_def promoted_size_def c_result_def)
  next
    case False
    then show ?thesis
      using assms(2) fits_iff [of sz True]
      by (auto simp: eq promoted_signed_def promoted_size_def c_result_def)
  qed
qed

theorem arith_undefined_iff_witness:
  "c_arith OP_MUL False 2 65535 65535 = None \<and> c_arith OP_MUL False 4 65535 65535 \<noteq> None"
  using arith_undefined_iff [of OP_MUL 2 False 65535 65535] arith_undefined_iff [of OP_MUL 4 False 65535 65535]
  by (simp add: in_range_def)

end
