(* ===== verification/Vm_Cast.thy ===== *)
theory Vm_Cast
  imports Vm_Spec
begin

text \<open>
  Casts, comparisons and conditional jumps: what they do with the sign of their operands.
\<close>

lemma le_val_append: "le_val (xs @ ys) = le_val xs + 256 ^ length xs * le_val ys"
  by (induction xs) (simp_all add: algebra_simps)

lemma le_val_zeros: "le_val (replicate n 0) = 0"
  by (induction n) auto

lemma le_val_take: "le_val (take n bs) = le_val bs mod 256 ^ n"
proof (cases "n \<le> length bs")
  case True
  have "le_val bs = le_val (take n bs) + 256 ^ n * le_val (drop n bs)"
    using True le_val_append [of "take n bs" "drop n bs"] by simp
  moreover have "le_val (take n bs) < 256 ^ n"
    using le_val_less [of "take n bs"] True by simp
  ultimately show ?thesis by simp
next
  case False
  then have "(256 :: nat) ^ length bs \<le> 256 ^ n" by (intro power_increasing) auto
  then have "le_val bs < 256 ^ n" using le_val_less [of bs] by (rule less_le_trans [rotated])
  then show ?thesis using False by simp
qed

text \<open>The source does not lie in the destination.\<close>

definition separate :: "loc \<Rightarrow> nat \<Rightarrow> u64 \<Rightarrow> nat \<Rightarrow> bool" where
  "separate s k a n \<longleftrightarrow>
     (case s of Imm v \<Rightarrow> True | At b \<Rightarrow> \<forall>i < k. n \<le> unat (b + word_of_nat i - a))"

lemma load_separate:
  assumes "store (At a) bs m = Inr m'" and "separate s k a (length bs)"
  shows "load m' s k = load m s k"
  using assms
  by (auto simp: load_def separate_def store_Inr valid_cong [of "m\<lparr>mem := _\<rparr>" m] poke_other
      intro!: fetch_cong split: loc.splits)

lemma fetch_poke_zeros:
  assumes "length bs \<le> n" and "n < 2 ^ 64"
  shows "fetch (poke a bs (poke a (replicate n 0) f)) a n = bs @ replicate (n - length bs) 0"
  using assms by (intro nth_equalityI) (auto simp: fetch_def poke_def unat_of_nat nth_append)

lemma insn_castD:
  assumes "insn_cast dst src m = Inr m'"
  shows "\<exists>d s m1 bs. opd_val m dst = Inr d \<and> opd_val m src = Inr s \<and>
    store d (replicate (unat (opd_bytes dst)) 0) m = Inr m1 \<and>
    load m1 s (min (unat (opd_bytes src)) (unat (opd_bytes dst))) = Inr bs \<and> store d bs m1 = Inr m'"
  using assms by (auto simp: insn_cast_def copy_bytes_Inr bind_simps opd_size_def assert_def split: if_splits)



subsection \<open>Comparisons and conditional jumps\<close>

lemma insn_bin_logicD:
  assumes "insn_bin_logic op dst src1 src2 m = Inr m'"
  shows "\<exists>d s1 s2 x y. opd_val m dst = Inr d \<and> opd_val m src1 = Inr s1 \<and> opd_val m src2 = Inr s2 \<and>
    signd src1 = signd src2 \<and> load_int m (signd src1) s1 (unat (opd_bytes src1)) = Inr x \<and>
    load_int m (signd src1) s2 (unat (opd_bytes src1)) = Inr y \<and>
    store d [if c_compare op x y then 1 else 0] m = Inr m'"
  using assms
  by (auto simp: insn_bin_logic_def bind_simps legal_def opd_size_def assert_def split: if_splits)

lemma insn_cjmpD:
  assumes "insn_cjmp e is_jz cond target m = Inr m'" and "opd_bytes cond \<le> 128"
  shows "\<exists>c bs. opd_val m cond = Inr c \<and> load m c (unat (opd_bytes cond)) = Inr bs \<and>
    (if (\<forall>b \<in> set bs. b = 0) = is_jz then jump target m else next_ip m) = Inr m'"
proof -
  have zeros: "bs = replicate n 0 \<longleftrightarrow> (\<forall>b \<in> set bs. b = 0)" if "length bs = n" for bs :: "u8 list" and n
    using that by (metis in_set_replicate replicate_eqI)
  show ?thesis
    using assms zeros load_length
    by (fastforce simp: insn_cjmp_def bind_simps legal_def opd_size_def assert_def zero_buffer_def
        word_le_nat_alt Let_def split: if_splits)
qed

lemma opd_val_direct_cong:
  assumes "\<not> indirect d" and "m' = m\<lparr>mem := f\<rparr>"
  shows "opd_val m' d = opd_val m d"
  using assms by (simp add: opd_val_def opd_base_def split: codegen_opd.split)

text \<open>
  C27. A comparison followed by \<open>JZ\<close> on its result branches on the numbers: with the two
  operands read at their signedness, the jump is taken when the comparison does not hold,
  and the program falls through when it does. Nothing but the flag byte changes.
\<close>

theorem compare_and_branch:
  assumes "insn_bin_logic op flag src1 src2 m = Inr m1"
    and "insn_cjmp e True flag target m1 = Inr m2"
    and "vm_ok m" and "\<not> indirect flag"
  shows "\<exists>s1 s2 x y a. opd_val m src1 = Inr s1 \<and> opd_val m src2 = Inr s2 \<and>
    load_int m (signd src1) s1 (unat (opd_bytes src1)) = Inr x \<and>
    load_int m (signd src1) s2 (unat (opd_bytes src1)) = Inr y \<and>
    only_at a 1 m m1 \<and>
    (if c_compare op x y then next_ip m1 else jump target m1) = Inr m2"
proof -
  obtain d s1 s2 x y where l: "opd_val m flag = Inr d" "opd_val m src1 = Inr s1" "opd_val m src2 = Inr s2"
    "load_int m (signd src1) s1 (unat (opd_bytes src1)) = Inr x"
    "load_int m (signd src1) s2 (unat (opd_bytes src1)) = Inr y"
    and st: "store d [if c_compare op x y then 1 else 0] m = Inr m1"
    using insn_bin_logicD [OF assms(1)] by blast
  obtain a where a: "d = At a" using store_At [OF st] by blast
  have one: "unat (opd_bytes flag) = 1"
    using assms(1) by (auto simp: insn_bin_logic_def bind_simps legal_def opd_size_def assert_def
        split: if_splits)
  then have sz: "opd_bytes flag \<le> 128" by (simp add: word_le_nat_alt)
  have "m1 = m\<lparr>mem := mem m1\<rparr>"
    using store_only_at [OF st [unfolded a]] by (simp add: only_at_def)
  then have "opd_val m1 flag = Inr (At a)"
    using opd_val_direct_cong [OF assms(4)] l(1) a by metis
  moreover have "load m1 (At a) 1 = Inr [if c_compare op x y then 1 else 0]"
    using store_load [OF st [unfolded a] assms(3)] by simp
  ultimately have "(if c_compare op x y then next_ip m1 else jump target m1) = Inr m2"
    using insn_cjmpD [OF assms(2) sz] one by (auto split: if_splits)
  moreover have "only_at a 1 m m1" using store_only_at [OF st [unfolded a]] by simp
  ultimately show ?thesis using l by blast
qed

text \<open>A machine that also runs a VM, with the stack pointer \<open>sp\<close> and one frame of temporaries.\<close>

definition demo_qvm :: "u64 \<Rightarrow> u64 \<Rightarrow> qvm" where
  "demo_qvm ip sp = null_qvm\<lparr>q_ip := ip, q_sp := sp, q_bp := 16, q_temps := [200008]\<rparr>"

definition demo_vm :: "u64 \<Rightarrow> u64 \<Rightarrow> machine" where
  "demo_vm ip sp = demo_machine\<lparr>
     blocks := [\<lparr>b_base = 200000, b_header = 8, b_size = 64\<rparr>, qvm_block 131072,
       \<lparr>b_base = 65536, b_header = 0, b_size = 64\<rparr>],
     qvms := [131072 \<mapsto> demo_qvm ip sp], vm_ptr := 131072\<rparr>"

lemma demo_vm_ok: "sp \<le> STACK_SIZE \<Longrightarrow> vm_ok (demo_vm ip sp)"
  by (auto simp: demo_vm_def demo_machine_def demo_qvm_def vm_ok_def apart_def b_data_def b_end_def
      qvm_block_def QVM_HEADER_def STACK_SIZE_def)

theorem compare_and_branch_witness:
  "\<exists>m1 m2. insn_bin_logic OP_LT (glob_opd False 0 1) (imm_opd 3 4) (imm_opd 5 4) (demo_vm 7 32) = Inr m1 \<and>
     insn_cjmp demo_env True (glob_opd False 0 1) 99 m1 = Inr m2 \<and> next_ip m1 = Inr m2"
proof -
  let ?m = "demo_vm 7 32"
  let ?lt = "insn_bin_logic OP_LT (glob_opd False 0 1) (imm_opd 3 4) (imm_opd 5 4) ?m"
  let ?jz = "insn_cjmp demo_env True (glob_opd False 0 1) 99"
  have "case bind_r ?lt ?jz of Inr m' \<Rightarrow> True | Inl e \<Rightarrow> False"
    by code_simp
  then obtain m1 m2 where m: "?lt = Inr m1" "?jz m1 = Inr m2"
    by (auto simp: bind_simps split: sum.splits)
  have ok: "vm_ok ?m" by (rule demo_vm_ok) (simp add: STACK_SIZE_def)
  have "load_int ?m False (Imm 3) 4 = Inr 3" "load_int ?m False (Imm 5) 4 = Inr 5"
    by code_simp+
  then show ?thesis
    using compare_and_branch [OF m ok] m
    by (auto simp: glob_opd_def imm_opd_def opd_val_def c_compare_def)
qed

end
