(* ===== verification/Spec2Isabelle.thy ===== *)
theory Spec2Isabelle
  imports Program Parse_Diagnose Vm_Cast
begin

text \<open>
  A verification development for the quaint language: a compiler to an instruction list and
  a virtual machine that runs it, both in C (\<^verbatim>\<open>src/src\<close>).

  The program. \<^verbatim>\<open>main.c\<close> maps the source file into memory and calls, in this order, \<^verbatim>\<open>lex\<close>
  (text to tokens), \<^verbatim>\<open>parse\<close> (tokens to a parse tree, a shift-reduce parser over a grammar
  table with precedences), \<^verbatim>\<open>ast_build\<close>, \<^verbatim>\<open>scope_build\<close>, \<^verbatim>\<open>type_check_ast\<close>,
  \<^verbatim>\<open>codegen_obj_create\<close> and \<^verbatim>\<open>exec\<close>. The parts share data structures only: each phase reads
  the result of the one before. The virtual machine runs functions on a stack; a quaint is
  a suspended call with a machine state and a stack of its own, and machines form a chain
  through their parent pointers while they wait for one another.

  The theories, and what they model.

  \<^item> \<open>Prelude\<close>: the error monad \<open>bind_r\<close> on sums, \<open>named_theorems bind_simps\<close>, and lemmas
    on lists shared by all components.
  \<^item> \<open>Htab\<close>: \<^verbatim>\<open>htab.c\<close>, the open-addressing table from addresses to data that codegen uses to
    find functions. The locale \<open>pointer_table\<close> is its contract as a map, the interpretation
    \<open>htab_table\<close> proves it for the code.
  \<^item> \<open>Tokens\<close>, \<open>Lex\<close>, \<open>Lex_Text\<close>: \<^verbatim>\<open>lex.h\<close> and \<^verbatim>\<open>lex.c\<close>. A recogniser is a function from a
    character and a state to a status and a state; \<open>lex_loop\<close> is the main loop of \<^verbatim>\<open>lex\<close>. It is
    proved equal to a reference lexer by longest prefix; then what the texts of the tokens
    are, which comments are closed, and that error positions are right.
  \<^item> \<open>Parse\<close>, \<open>Parse_Sound\<close>, \<open>Parse_Bounds\<close>, \<open>Parse_Prec\<close>: \<^verbatim>\<open>parse.c\<close>. \<open>grammar\<close> and
    \<open>precedence\<close> are the tables, \<open>match_rule\<close>, \<open>shift\<close>, \<open>reduce\<close> and the two shift decisions
    the functions of the same names, \<open>parse_loop\<close> and \<open>reduce_loop\<close> the loops of \<^verbatim>\<open>parse\<close>,
    whose termination is proved with a measure on the rank of the stack. The lemmas show
    that trees are derivations, that tokens are not read out of bounds, and precedence.
  \<^item> \<open>Parse_Diagnose\<close>: how a rejected program is reported (\<^verbatim>\<open>diagnose_error\<close>). Every rejection is,
    at the first node that begins no rule, unless the matching reads behind a rule.
  \<^item> \<open>Types\<close>, \<open>Type_Laws\<close>: the first part of \<^verbatim>\<open>type.c\<close>: the type \<open>qtype\<close> of \<^verbatim>\<open>struct type\<close>, the
    table of named types, copying, comparing, and \<^verbatim>\<open>type_quantify\<close>, which gives sizes, offsets and
    alignments. The lemmas show what equality and layout are, and that a quantified copy has
    the sizes of the original.
  \<^item> \<open>Parse_View\<close>, \<open>Ast_Build\<close>: the first part of \<^verbatim>\<open>ast.c\<close>, up to \<^verbatim>\<open>ast_build\<close>. \<open>view\<close> and
    \<open>sview\<close> are the code's ways of taking a parse node apart by the index of its children;
    then one definition per \<^verbatim>\<open>validate_...\<close> function. Two monads are used, \<open>bld\<close> where an error
    leaves nothing behind and \<open>built\<close> where what was built before it stays in the tree.
  \<^item> \<open>Ast_Shape\<close>, \<open>Ast_Laws\<close>, \<open>Ast_Safe\<close>: nodes that derive from the grammar have the children the
    code reads; the outcomes of every function, the errors of \<^verbatim>\<open>ast_build\<close> and what its tree
    is without error; numbers, named types and enums.
  \<^item> \<open>Ast\<close>: the nodes of \<^verbatim>\<open>ast.h\<close> as the datatypes \<open>stmt\<close> and \<open>expr\<close>.
  \<^item> \<open>Scope\<close>, \<open>Scope_Laws\<close>: \<^verbatim>\<open>scope.c\<close>: the scopes of blocks, functions and the unit, the
    numbering of labels, and looking names up; proved equal to a description without the
    traversal's state.
  \<^item> \<open>Type_Check\<close>: the rest of \<^verbatim>\<open>type.c\<close>, from \<^verbatim>\<open>expr_is_lvalue\<close> to \<^verbatim>\<open>type_check_ast\<close>, in the
    monad \<open>chk\<close> that counts requests for memory. An assertion that fails is \<open>Type_abort\<close>, a null
    pointer that is followed \<open>Type_undefined\<close>.
  \<^item> \<open>Type_Rules\<close>, \<open>Type_Stmts\<close>: the typing rules \<open>has_type\<close> as an inductive predicate, the
    checker proved to decide them, and the same for statements and units.
  \<^item> \<open>Type_Safe\<close>: after \<^verbatim>\<open>scope_build\<close> the checker neither aborts nor follows a null pointer, on
    trees without nulls.
  \<^item> \<open>Front\<close>: the phases in the order of \<^verbatim>\<open>main\<close> up to the type checker, what may crash them,
    and what a program that passes them is. The type checker is also run on trees that have
    nulls, after errors of \<^verbatim>\<open>ast_build\<close>, and there follows one.
  \<^item> \<open>Insn\<close>: \<^verbatim>\<open>codegen.h\<close>, the instruction set, and little-endian numbers.
  \<^item> \<open>Codegen\<close>, \<open>Codegen_Unit\<close>: \<^verbatim>\<open>codegen.c\<close>, one definition per \<^verbatim>\<open>gen_...\<close> function in the monad
    \<open>gen\<close> over the code's static variables (record \<open>gstate\<close>); the layout of frames and data;
    linking; \<open>codegen_obj_create\<close> makes the object that the virtual machine runs.
  \<^item> \<open>Codegen_Laws\<close>, \<open>Codegen_Frame\<close>: jumps stay in their function; the places of a frame's
    variables refine \<open>frame_spec\<close>, an abstract layout with the parameters where a caller
    pushes them; initial values of global data have no
    effect on the object.
  \<^item> \<open>Vm_Mem\<close>, \<open>Vm_Insn\<close>, \<open>Vm_Ctl\<close>, \<open>Vm_Quaint\<close>, \<open>Vm_Run\<close>: \<^verbatim>\<open>exec.c\<close>. The record \<open>machine\<close> has
    the byte memory with its allocated blocks and, beside the memory, the headers of
    the VMs (\<^verbatim>\<open>struct qvm\<close>); each handler \<^verbatim>\<open>insn_...\<close> is a definition of the same name from
    machine to machine, with the guards \<^verbatim>\<open>LEGAL_IF\<close> and the assertions in their order.
    Failures are values of type \<open>stop\<close>; since the check for waiting VMs runs after a failed
    handler too, \<open>run_handler\<close> keeps the state it left (\<open>Late\<close>) and \<open>exec_insn\<close> gives the
    error only if the check ends. \<^verbatim>\<open>memcpy\<close> of overlapping places is undefined. \<open>exec_loop\<close> and \<open>split_loop\<close> are partial functions
    whose value \<open>None\<close> is a run that does not end.
  \<^item> \<open>Vm_Inv\<close>, \<open>Vm_Safe\<close>: the locale \<open>vm_invariant\<close> takes a predicate that survives the basic
    state changes and proves it of every instruction, also of the states left by an error
    (\<open>late_rules\<close>); the interpretation \<open>safe\<close> is for the
    allocation invariant \<open>vm_ok\<close>, which then holds in every state reached (\<open>vm_state\<close>).
  \<^item> \<open>Vm_Wait\<close>: every instruction ends unless the chain of parents it follows comes back to a VM
    it has passed, and how a quaint that waits for itself makes the machine run for ever.
  \<^item> \<open>Vm_Spec\<close>, \<open>Vm_Cast\<close>: the results of moves, arithmetic, casts and comparisons.
  \<^item> \<open>Program\<close>: \<open>quaint_main\<close>, all phases of \<^verbatim>\<open>main\<close> in their order, from the text to the outcome
    of the run, and what a run reads.

  Parameters and bounds. Whether a request for memory succeeds is a parameter: a predicate
  on the number of the request in the compiler, the address given in the virtual machine
  (record \<open>env\<close>, with the readings of the clock). The code is modelled on a 64-bit machine
  with 32-bit \<^verbatim>\<open>int\<close>, little-endian and two's complement; addresses and the registers of the
  virtual machine are 64-bit words, counters of the compiler that are bounded by the input's
  size are natural numbers. No fuel is used: loops of the compiler are total functions.

  Not modelled. Files and process exit in \<^verbatim>\<open>main.c\<close>; the texts of the other error messages and of
  the listing of instructions (what \<^verbatim>\<open>print_opd\<close> does to the operands is the linking of
  \<open>Codegen_Unit\<close>); \<^verbatim>\<open>ast_print\<close> and with it \<^verbatim>\<open>type_print\<close>, whose only call is commented out; and
  the functions that free data structures of the compiler, whose values here have no
  addresses.
\<close>

end
